(* ===== verification/Prelude.thy ===== *)
theory Prelude
  imports Main "HOL-Library.Word"
begin

text \<open>
  What every component of the model shares: the C integer types, reads and writes of byte
  buffers with their bounds, little-endian halfwords and words, the elapsed-time test of the
  clock driver, and the facts about words and lists that carry the component proofs.

  Conventions of the development. A fixed-width unsigned variable of the code is a word of its
  width. A C \<open>int\<close> is an \<^typ>\<open>int\<close> where the code keeps it small (the theorems say so where it
  matters) and a word where it can wrap. An access outside a buffer is \<^const>\<open>None\<close> of an option
  type, and a deliberate \<open>while(1)\<close> stop is the \<open>Inl\<close> of a sum.
\<close>

unbundle bit_operations_syntax

named_theorems tlk_bytes \<open>byte buffers and little-endian values\<close>
named_theorems tlk_words \<open>wrap-around and masking on words\<close>

type_synonym u8 = "8 word"
type_synonym u16 = "16 word"
type_synonym u32 = "32 word"

section \<open>Byte buffers\<close>

text \<open>
  \<open>buf_write off bs buf\<close> stores \<open>bs\<close> at offset \<open>off\<close>; \<open>buf_read off n buf\<close> fetches \<open>n\<close>
  elements. Both are \<^const>\<open>None\<close> outside the buffer.
\<close>

definition buf_write :: "nat \<Rightarrow> 'a list \<Rightarrow> 'a list \<Rightarrow> 'a list option" where
  "buf_write off bs buf =
     (if off + length bs \<le> length buf
      then Some (take off buf @ bs @ drop (off + length bs) buf) else None)"

definition buf_read :: "nat \<Rightarrow> nat \<Rightarrow> 'a list \<Rightarrow> 'a list option" where
  "buf_read off n buf = (if off + n \<le> length buf then Some (take n (drop off buf)) else None)"

lemma buf_write_length [tlk_bytes]: "buf_write off bs buf = Some buf' \<Longrightarrow> length buf' = length buf"
  by (auto simp: buf_write_def split: if_splits)

lemma buf_write_fits [tlk_bytes]:
  "off + length bs \<le> length buf \<Longrightarrow>
   buf_write off bs buf = Some (take off buf @ bs @ drop (off + length bs) buf)"
  by (simp add: buf_write_def)

lemma buf_read_write_same:
  assumes "buf_write off bs buf = Some buf'"
  shows "buf_read off (length bs) buf' = Some bs"
  using assms by (auto simp: buf_write_def buf_read_def split: if_splits)

lemma buf_read_write_other:
  assumes "buf_write off bs buf = Some buf'" and "o' + n \<le> off \<or> off + length bs \<le> o'"
  shows "buf_read o' n buf' = buf_read o' n buf"
proof -
  have fits: "off + length bs \<le> length buf"
    and buf': "buf' = take off buf @ bs @ drop (off + length bs) buf"
    using assms(1) by (auto simp: buf_write_def split: if_splits)
  have len: "length buf' = length buf" using assms(1) by (rule buf_write_length)
  show ?thesis
  proof (cases "o' + n \<le> length buf")
    case False
    then show ?thesis by (simp add: buf_read_def len)
  next
    case True
    have "take n (drop o' buf') = take n (drop o' buf)"
    proof (rule nth_equalityI)
      show "length (take n (drop o' buf')) = length (take n (drop o' buf))"
        by (simp add: len)
    next
      fix i assume "i < length (take n (drop o' buf'))"
      then have i: "i < n" "o' + i < length buf" by (auto simp: len)
      have "buf' ! (o' + i) = buf ! (o' + i)"
        using assms(2) i fits by (auto simp: buf' nth_append)
      then show "take n (drop o' buf') ! i = take n (drop o' buf) ! i"
        using i by (simp add: len)
    qed
    with True show ?thesis by (simp add: buf_read_def len)
  qed
qed

section \<open>Little-endian halfwords and words\<close>

definition le16 :: "u16 \<Rightarrow> u8 list" where
  "le16 w = [ucast w, ucast (drop_bit 8 w)]"

definition u16_le :: "u8 \<Rightarrow> u8 \<Rightarrow> u16" where
  "u16_le b0 b1 = ucast b0 OR push_bit 8 (ucast b1)"

definition le32 :: "u32 \<Rightarrow> u8 list" where
  "le32 w = [ucast w, ucast (drop_bit 8 w), ucast (drop_bit 16 w), ucast (drop_bit 24 w)]"

definition u32_le :: "u8 \<Rightarrow> u8 \<Rightarrow> u8 \<Rightarrow> u8 \<Rightarrow> u32" where
  "u32_le b0 b1 b2 b3 =
     ucast b0 OR push_bit 8 (ucast b1) OR push_bit 16 (ucast b2) OR push_bit 24 (ucast b3)"

lemma length_le16 [simp]: "length (le16 w) = 2"
  by (simp add: le16_def)

lemma length_le32 [simp]: "length (le32 w) = 4"
  by (simp add: le32_def)

lemma u16_le_split [tlk_bytes]: "u16_le (ucast w) (ucast (drop_bit 8 w)) = (w :: u16)"
  by (rule bit_word_eqI) (auto simp: u16_le_def bit_simps)

lemma u16_le_bytes [tlk_bytes]:
  "ucast (u16_le b0 b1) = b0" "(ucast (drop_bit 8 (u16_le b0 b1)) :: u8) = b1"
  by (rule bit_word_eqI; auto simp: u16_le_def bit_simps dest: bit_imp_le_length)+

lemma u32_le_split [tlk_bytes]:
  "u32_le (ucast w) (ucast (drop_bit 8 w)) (ucast (drop_bit 16 w)) (ucast (drop_bit 24 w)) = (w :: u32)"
proof (rule bit_word_eqI)
  fix n assume "n < LENGTH(32)"
  then show "bit (u32_le (ucast w) (ucast (drop_bit 8 w)) (ucast (drop_bit 16 w))
      (ucast (drop_bit 24 w))) n = bit w n"
    by (cases "n < 8"; cases "n < 16"; cases "n < 24") (auto simp: u32_le_def bit_simps)
qed

section \<open>The elapsed-time test\<close>

text \<open>
  \<open>clock_time_exceed (ref, span_us)\<close> of \<open>drivers/8258/clock.h\<close>: the 16 MHz system timer has
  advanced by more than the span since \<open>ref\<close>, modulo its 32 bits. The current tick, which the
  code reads from the hardware timer, is the first argument.
\<close>

definition clock_time_exceed :: "u32 \<Rightarrow> u32 \<Rightarrow> u32 \<Rightarrow> bool" where
  "clock_time_exceed now ref span_us \<longleftrightarrow> now - ref > span_us * 16"

section \<open>Words\<close>

lemma unat_less_iff_word [tlk_words]: "unat (a :: 'a::len word) < unat b \<longleftrightarrow> a < b"
  by (simp add: word_less_nat_alt)

lemma unat_lt_length: "unat (w :: 'a::len word) < 2 ^ LENGTH('a)"
  by (rule unsigned_less)

lemma unat_ucast_up:
  "LENGTH('a) \<le> LENGTH('b) \<Longrightarrow> unat (ucast (w :: 'a::len word) :: 'b::len word) = unat w"
proof -
  assume "LENGTH('a) \<le> LENGTH('b)"
  then have "(2 :: nat) ^ LENGTH('a) \<le> 2 ^ LENGTH('b)" by simp
  with unat_lt_length [of w] have "unat w < 2 ^ LENGTH('b)" by (rule less_le_trans)
  then show ?thesis by (simp add: unsigned_ucast_eq take_bit_nat_eq_self)
qed

lemma less_unat_u8: "i < unat (w :: u8) \<Longrightarrow> i < 256"
  using unat_lt_length [of w] by simp

lemma u8_and_ff [simp]: "0xff AND b = b" "b AND 0xff = b" for b :: u8
proof -
  have "(0xff :: u8) = - 1" by simp
  then show "0xff AND b = b" "b AND 0xff = b" by (simp_all only: and.left_neutral and.right_neutral)
qed

lemma unat_of_nat_small: "n < 2 ^ LENGTH('a) \<Longrightarrow> unat (of_nat n :: 'a::len word) = n"
  by (simp add: unat_of_nat take_bit_nat_eq_self)

lemma unat_plus_one: "unat (w :: 'a::len word) + 1 < 2 ^ LENGTH('a) \<Longrightarrow> unat (w + 1) = unat w + 1"
  by (simp add: unat_word_ariths)

lemma unat_minus_one: "(w :: 'a::len word) \<noteq> 0 \<Longrightarrow> unat (w - 1) = unat w - 1"
  by (metis unat_minus_one)

lemma unat_diff_eq_0: "unat (a - b :: 'a::len word) = 0 \<longleftrightarrow> a = b"
  by (metis right_minus_eq unat_0 word_unat_eq_iff)

lemma unat_neg:
  fixes w :: "'a::len word"
  assumes "w \<noteq> 0" shows "unat (- w) = 2 ^ LENGTH('a) - unat w"
proof -
  have "(unat (- w) + unat w) mod 2 ^ LENGTH('a) = 0"
    by (metis add.left_inverse unat_0 unat_word_ariths(1))
  moreover have "0 < unat w" using assms by (simp add: unat_gt_0)
  moreover obtain k where k: "unat (- w) + unat w = 2 ^ LENGTH('a) * k"
    using calculation(1) by (auto elim: dvdE simp flip: dvd_eq_mod_eq_0)
  moreover have "2 ^ LENGTH('a) * k < 2 ^ LENGTH('a) * 2"
    using unat_lt_length [of w] unat_lt_length [of "- w"] k by linarith
  ultimately have "k = 1" by (cases "k = 0") auto
  with k have "unat (- w) + unat w = 2 ^ LENGTH('a)" by simp
  then show ?thesis by simp
qed

lemma unat_sub_neg:
  fixes a b :: "'a::len word"
  assumes "a < b" shows "unat (a - b) = 2 ^ LENGTH('a) - (unat b - unat a)"
proof -
  have "unat (b - a) = unat b - unat a" using assms by (intro unat_sub) simp
  moreover have "b - a \<noteq> 0" using assms by simp
  moreover have "a - b = - (b - a)" by simp
  ultimately show ?thesis by (metis unat_neg)
qed

lemma unat_and_mask_mod [tlk_words]: "unat (w AND mask k :: 'a::len word) = unat w mod 2 ^ k"
  by (simp flip: take_bit_eq_mask take_bit_eq_mod add: unsigned_take_bit_eq)

lemma unat_u8_add_mod [tlk_words]:
  fixes a :: u8
  assumes "j \<le> 8"
  shows "unat (a + of_nat k) mod 2 ^ j = (unat a + k) mod 2 ^ j"
proof -
  have "(2 :: nat) ^ j dvd 2 ^ 8" using assms by (rule le_imp_power_dvd)
  then have d: "(2 :: nat) ^ j dvd 256" by simp
  have "unat (a + of_nat k) = (unat a + k) mod 256"
    by (simp add: unat_word_ariths unat_of_nat mod_add_right_eq)
  then show ?thesis using d by (simp add: mod_mod_cancel)
qed

section \<open>Closing a gap in an array\<close>

text \<open>The loop \<open>for (i = index; i < m; i++) xs[i] = xs[i + 1]\<close> of the timer and the bonding tables.\<close>

function shift_down :: "nat \<Rightarrow> nat \<Rightarrow> 'a list \<Rightarrow> 'a list" where
  "shift_down i m xs = (if i < m then shift_down (Suc i) m (xs[i := xs ! (i + 1)]) else xs)"
  by pat_completeness auto
termination by (relation "measure (\<lambda>(i, m, _). m - i)") auto

declare shift_down.simps [simp del]

lemma shift_down_nth:
  "i \<le> m \<Longrightarrow> m < length xs \<Longrightarrow>
   length (shift_down i m xs) = length xs \<and>
   (\<forall>k < length xs. shift_down i m xs ! k = (if i \<le> k \<and> k < m then xs ! Suc k else xs ! k))"
proof (induction i m xs rule: shift_down.induct)
  case (1 i m xs)
  show ?case
  proof (cases "i < m")
    case False
    then have "shift_down i m xs = xs" by (simp add: shift_down.simps [of i m xs])
    with False "1.prems" show ?thesis by auto
  next
    case True
    let ?ys = "xs[i := xs ! (i + 1)]"
    have s: "shift_down i m xs = shift_down (Suc i) m ?ys"
      using True by (subst shift_down.simps) simp
    have "length (shift_down (Suc i) m ?ys) = length xs"
      "\<forall>k < length xs. shift_down (Suc i) m ?ys ! k = (if Suc i \<le> k \<and> k < m then ?ys ! Suc k else ?ys ! k)"
      using "1.IH" [OF True] True "1.prems"(2) by auto
    then show ?thesis unfolding s using True "1.prems"(2) by (auto simp: nth_list_update not_less_eq_eq dest: le_antisym)
  qed
qed

lemma shift_down_delete:
  assumes "i < n" "n \<le> length xs"
  shows "take (n - 1) (shift_down i (n - 1) xs) = take i xs @ drop (Suc i) (take n xs)"
    and "length (shift_down i (n - 1) xs) = length xs"
proof -
  have s: "length (shift_down i (n - 1) xs) = length xs"
    "\<forall>k < length xs. shift_down i (n - 1) xs ! k = (if i \<le> k \<and> k < n - 1 then xs ! Suc k else xs ! k)"
    using shift_down_nth [of i "n - 1" xs] assms by auto
  then show "length (shift_down i (n - 1) xs) = length xs" by simp
  show "take (n - 1) (shift_down i (n - 1) xs) = take i xs @ drop (Suc i) (take n xs)"
    using s assms by (intro nth_equalityI) (auto simp: nth_append)
qed

lemma map_remove_cong:
  "map f xs = map g ys \<Longrightarrow> map f (take i xs @ drop (Suc i) xs) = map g (take i ys @ drop (Suc i) ys)"
  by (simp flip: take_map drop_map)

end
