(* ===== verification/Queues.thy ===== *)
theory Queues
  imports Prelude
begin

text \<open>
  Two interfaces that several components provide. \<open>bounded_fifo\<close> is the contract of a queue that
  refuses an element when it is full (the packet FIFO); \<open>overwriting_ring\<close> is the contract of a
  ring that drops the oldest element instead (the key-matrix buffer, the encoded audio packets).
  The lemmas inside are proved once from the contract, for any provider.
\<close>

section \<open>A queue that refuses when full\<close>

fun enq_all :: "('a \<Rightarrow> 'q \<Rightarrow> 'q option) \<Rightarrow> 'a list \<Rightarrow> 'q \<Rightarrow> 'q option" where
  "enq_all enq [] q = Some q"
| "enq_all enq (a # as) q = (case enq a q of None \<Rightarrow> None | Some q' \<Rightarrow> enq_all enq as q')"

fun drain :: "('q \<Rightarrow> 'a option) \<Rightarrow> ('q \<Rightarrow> 'q) \<Rightarrow> nat \<Rightarrow> 'q \<Rightarrow> 'a list" where
  "drain front deq 0 q = []"
| "drain front deq (Suc n) q =
     (case front q of None \<Rightarrow> [] | Some a \<Rightarrow> a # drain front deq n (deq q))"

locale bounded_fifo =
  fixes inv :: "'q \<Rightarrow> bool"
    and contents :: "'q \<Rightarrow> 'a list"
    and capacity :: "'q \<Rightarrow> nat"
    and fits :: "'q \<Rightarrow> 'a \<Rightarrow> bool"
    and enq :: "'a \<Rightarrow> 'q \<Rightarrow> 'q option"
    and front :: "'q \<Rightarrow> 'a option"
    and deq :: "'q \<Rightarrow> 'q"
  assumes enq_ok: "inv q \<Longrightarrow> fits q a \<Longrightarrow> length (contents q) < capacity q \<Longrightarrow>
      \<exists>q'. enq a q = Some q' \<and> inv q' \<and> contents q' = contents q @ [a] \<and>
           capacity q' = capacity q \<and> fits q' = fits q"
    and enq_full: "inv q \<Longrightarrow> capacity q \<le> length (contents q) \<Longrightarrow> enq a q = None"
    and front_contents: "inv q \<Longrightarrow>
      front q = (case contents q of [] \<Rightarrow> None | a # as \<Rightarrow> Some a)"
    and deq_contents: "inv q \<Longrightarrow> contents q \<noteq> [] \<Longrightarrow>
      inv (deq q) \<and> contents (deq q) = tl (contents q)"
begin

lemma enq_all_ok:
  "inv q \<Longrightarrow> \<forall>a \<in> set as. fits q a \<Longrightarrow> length (contents q) + length as \<le> capacity q \<Longrightarrow>
   \<exists>q'. enq_all enq as q = Some q' \<and> inv q' \<and> contents q' = contents q @ as"
proof (induction as arbitrary: q)
  case Nil
  then show ?case by simp
next
  case (Cons a as)
  obtain q1 where q1: "enq a q = Some q1" "inv q1" "contents q1 = contents q @ [a]"
    "capacity q1 = capacity q" "fits q1 = fits q"
    using enq_ok [of q a] Cons.prems by auto
  with Cons.IH [of q1] Cons.prems show ?case by auto
qed

lemma drain_contents:
  "inv q \<Longrightarrow> n \<le> length (contents q) \<Longrightarrow> drain front deq n q = take n (contents q)"
proof (induction n arbitrary: q)
  case 0
  then show ?case by simp
next
  case (Suc n)
  then obtain a as where c: "contents q = a # as" by (cases "contents q") auto
  with Suc.prems deq_contents [of q] have "inv (deq q)" "contents (deq q) = as" by auto
  with Suc c show ?case by (simp add: front_contents)
qed

lemma fifo_order:
  assumes "inv q" "\<forall>a \<in> set as. fits q a" "length (contents q) + length as \<le> capacity q"
  shows "\<exists>q'. enq_all enq as q = Some q' \<and>
              drain front deq (length (contents q) + length as) q' = contents q @ as"
  using enq_all_ok [OF assms] by (auto simp: drain_contents)

end

section \<open>A ring that drops the oldest\<close>

locale overwriting_ring =
  fixes inv :: "'q \<Rightarrow> bool"
    and contents :: "'q \<Rightarrow> 'a list"
    and capacity :: nat
    and add :: "'a \<Rightarrow> 'q \<Rightarrow> 'q"
  assumes add_inv: "inv q \<Longrightarrow> inv (add a q)"
    and add_contents: "inv q \<Longrightarrow>
      contents (add a q) =
        (if length (contents q) < capacity then contents q @ [a] else tl (contents q) @ [a])"
    and contents_le: "inv q \<Longrightarrow> length (contents q) \<le> capacity"
    and capacity_pos: "0 < capacity"
begin

lemma add_suffix:
  assumes "inv q"
  shows "contents (add a q) =
    drop (length (contents q) + 1 - capacity) (contents q @ [a])"
proof (cases "length (contents q) < capacity")
  case True
  then show ?thesis using assms by (simp add: add_contents)
next
  case False
  with contents_le [OF assms] have "length (contents q) = capacity" by simp
  with assms capacity_pos show ?thesis
    by (cases "contents q") (simp_all add: add_contents)
qed

text \<open>After any number of additions the ring holds exactly the newest \<open>capacity\<close> elements.\<close>

lemma fold_add_suffix:
  "inv q \<Longrightarrow> contents (fold add as q) =
     drop (length (contents q) + length as - capacity) (contents q @ as) \<and> inv (fold add as q)"
proof (induction as rule: rev_induct)
  case Nil
  then show ?case using contents_le by simp
next
  case (snoc a as)
  let ?q = "fold add as q" let ?n = "length (contents q) + length as"
  from snoc have c: "contents ?q = drop (?n - capacity) (contents q @ as)" and i: "inv ?q" by auto
  have l: "length (contents ?q) = min ?n capacity" by (auto simp: c min_def)
  have "contents ?q @ [a] = drop (?n - capacity) (contents q @ as @ [a])"
    using drop_append [of "?n - capacity" "contents q @ as" "[a]"] capacity_pos by (simp add: c)
  then have e: "contents ?q @ [a] = drop (?n - capacity) (contents q @ as @ [a])" .
  have "contents (add a ?q) = drop (min ?n capacity + 1 - capacity) (contents ?q @ [a])"
    using add_suffix [OF i] l by (simp only:)
  also have "\<dots> = drop (min ?n capacity + 1 - capacity + (?n - capacity)) (contents q @ as @ [a])"
    by (simp only: e drop_drop)
  also have "min ?n capacity + 1 - capacity + (?n - capacity) = Suc ?n - capacity"
    using capacity_pos by (auto simp: min_def)
  finally show ?case using i by (simp add: add_inv)
qed

end

end
