(* ===== verification/Fifo.thy ===== *)
theory Fifo
  imports Queues
begin

text \<open>
  The packet FIFO of \<open>ble_sdk_multimode/common/utility.c\<close> (\<open>my_fifo_t\<close>), which the link layer,
  the HCI and the SPP modules use for received and transmitted packets: a flat byte buffer of
  \<open>num\<close> slots of \<open>size\<close> bytes, with 8-bit write and read counters that are masked into slot
  indices. A pushed packet is stored as a little-endian length followed by its bytes.
\<close>

section \<open>State and operations\<close>

record my_fifo_t =
  ff_size :: u32
  ff_num :: u16
  ff_wptr :: u8
  ff_rptr :: u8
  ff_p :: "u8 list"

definition my_fifo_init :: "int \<Rightarrow> u8 \<Rightarrow> u8 list \<Rightarrow> my_fifo_t" where
  "my_fifo_init s n p =
     \<lparr>ff_size = word_of_int s, ff_num = ucast n, ff_wptr = 0, ff_rptr = 0, ff_p = p\<rparr>"

text \<open>
  A returned pointer is its offset in the buffer; the null pointer is \<^const>\<open>None\<close>. The slot
  offset is computed as the code does, by masking the counter with \<open>num - 1\<close> and a 32-bit product.
\<close>

definition slot_offset :: "my_fifo_t \<Rightarrow> u8 \<Rightarrow> u32" where
  "slot_offset f ptr = ucast (ucast ptr AND (ff_num f - 1)) * ff_size f"

definition my_fifo_wptr :: "my_fifo_t \<Rightarrow> u32 option" where
  "my_fifo_wptr f =
     (if ucast (ff_wptr f - ff_rptr f) < ff_num f then Some (slot_offset f (ff_wptr f)) else None)"

definition my_fifo_next :: "my_fifo_t \<Rightarrow> my_fifo_t" where
  "my_fifo_next f = f\<lparr>ff_wptr := ff_wptr f + 1\<rparr>"

text \<open>
  The length \<open>n\<close> is a C \<open>int\<close> that the second guard compares with the unsigned \<open>size\<close>, that
  is, modulo 2^32. The result is the returned value and the new state, or \<^const>\<open>None\<close> when the
  code writes outside the buffer or reads outside the source.
\<close>

definition my_fifo_push :: "my_fifo_t \<Rightarrow> u8 list \<Rightarrow> int \<Rightarrow> (int \<times> my_fifo_t) option" where
  "my_fifo_push f p n =
     (if ucast (ff_wptr f - ff_rptr f) \<ge> ff_num f then Some (- 1, f)
      else if word_of_int n \<ge> ff_size f then Some (- 1, f)
      else
        let pd = unat (slot_offset f (ff_wptr f));
            f' = f\<lparr>ff_wptr := ff_wptr f + 1\<rparr>
        in case buf_write pd (le16 (word_of_int n)) (ff_p f) of
             None \<Rightarrow> None
           | Some b1 \<Rightarrow>
               (case buf_read 0 (nat n) p of
                  None \<Rightarrow> None
                | Some src \<Rightarrow>
                    map_option (\<lambda>b2. (0, f'\<lparr>ff_p := b2\<rparr>)) (buf_write (pd + 2) src b1)))"

definition my_fifo_pop :: "my_fifo_t \<Rightarrow> my_fifo_t" where
  "my_fifo_pop f = f\<lparr>ff_rptr := ff_rptr f + 1\<rparr>"

definition my_fifo_get :: "my_fifo_t \<Rightarrow> u32 option" where
  "my_fifo_get f =
     (if ff_rptr f \<noteq> ff_wptr f then Some (slot_offset f (ff_rptr f)) else None)"

section \<open>The queue a FIFO stands for\<close>

text \<open>
  A FIFO is well formed when the number of slots is a power of two that the 8-bit counters can
  count (at most 128), the buffer has exactly its slots, the header fits in a slot, and the
  counters are at most \<open>num\<close> apart. The packet in a slot is what a consumer of \<open>my_fifo_get\<close>
  reads from its slot: the length, then that many bytes.
\<close>

definition fifo_wf :: "my_fifo_t \<Rightarrow> bool" where
  "fifo_wf f \<longleftrightarrow>
     (\<exists>k \<le> 7. unat (ff_num f) = 2 ^ k) \<and> 2 \<le> unat (ff_size f) \<and>
     unat (ff_num f) * unat (ff_size f) < 2 ^ 32 \<and>
     length (ff_p f) = unat (ff_num f) * unat (ff_size f) \<and>
     unat (ff_wptr f - ff_rptr f) \<le> unat (ff_num f)"

definition slot_bytes :: "my_fifo_t \<Rightarrow> u8 \<Rightarrow> u8 list" where
  "slot_bytes f ptr = take (unat (ff_size f)) (drop (unat (slot_offset f ptr)) (ff_p f))"

fun packet_of :: "u8 list \<Rightarrow> u8 list" where
  "packet_of (b0 # b1 # bs) = take (unat (u16_le b0 b1)) bs"
| "packet_of _ = []"

definition slot_packet :: "my_fifo_t \<Rightarrow> u8 \<Rightarrow> u8 list" where
  "slot_packet f ptr = packet_of (slot_bytes f ptr)"

definition fifo_packets :: "my_fifo_t \<Rightarrow> u8 list list" where
  "fifo_packets f = map (\<lambda>k. slot_packet f (ff_rptr f + of_nat k)) [0..<unat (ff_wptr f - ff_rptr f)]"

text \<open>A packet fits when its header and bytes fit in a slot and its length in the header.\<close>

definition packet_fits :: "my_fifo_t \<Rightarrow> u8 list \<Rightarrow> bool" where
  "packet_fits f p \<longleftrightarrow> length p + 2 \<le> unat (ff_size f) \<and> length p < 2 ^ 16"

section \<open>Slot arithmetic\<close>

lemma mask_num:
  assumes "unat (num :: u16) = 2 ^ k" and "k \<le> 7"
  shows "unat (ucast (ptr :: u8) AND (num - 1)) = unat ptr mod 2 ^ k"
proof -
  have "num = of_nat (2 ^ k)" by (simp flip: assms(1))
  then have "num - 1 = mask k" by (simp add: mask_eq_decr_exp)
  then have "unat (ucast ptr AND (num - 1)) = unat (ucast ptr :: u16) mod 2 ^ k"
    by (simp add: unat_and_mask_mod)
  also have "unat (ucast ptr :: u16) = unat ptr" by (simp add: unat_ucast_up)
  finally show ?thesis .
qed

lemma slot_offset_unat:
  assumes "fifo_wf f"
  shows "unat (slot_offset f ptr) = (unat ptr mod unat (ff_num f)) * unat (ff_size f)"
    and "unat (slot_offset f ptr) + unat (ff_size f) \<le> length (ff_p f)"
proof -
  obtain k where k: "unat (ff_num f) = 2 ^ k" "k \<le> 7" using assms by (auto simp: fifo_wf_def)
  let ?i = "unat ptr mod unat (ff_num f)" let ?s = "unat (ff_size f)"
  have i: "?i < unat (ff_num f)" using k by simp
  have "(?i + 1) * ?s \<le> unat (ff_num f) * ?s" using i by (intro mult_le_mono1) simp
  then have le: "?i * ?s + ?s \<le> unat (ff_num f) * ?s" by simp
  have m: "unat (ucast ptr AND (ff_num f - 1)) = ?i" using mask_num [OF k] k by simp
  have "?i < 2 ^ 16" using i unat_lt_length [of "ff_num f"] by simp
  then have "unat (ucast (ucast ptr AND (ff_num f - 1)) :: u32) = ?i"
    using m by (simp add: unat_ucast_up)
  moreover have "?i * ?s < 2 ^ 32" using le assms by (auto simp: fifo_wf_def)
  ultimately show eq: "unat (slot_offset f ptr) = ?i * ?s"
    by (simp add: slot_offset_def unat_word_ariths)
  show "unat (slot_offset f ptr) + ?s \<le> length (ff_p f)"
    using le assms by (simp add: eq fifo_wf_def)
qed

lemma slots_disjoint:
  assumes wf: "fifo_wf f" and ne: "unat a mod unat (ff_num f) \<noteq> unat b mod unat (ff_num f)"
  shows "unat (slot_offset f a) + unat (ff_size f) \<le> unat (slot_offset f b) \<or>
         unat (slot_offset f b) + unat (ff_size f) \<le> unat (slot_offset f a)"
proof -
  have step: "i * s + s \<le> j * s" if "i < j" for i j s :: nat
    using mult_le_mono1 [of "Suc i" j s] that by simp
  show ?thesis
    using ne step by (simp add: slot_offset_unat(1) [OF wf]) (metis nat_neq_iff)
qed

lemma mod_neq_nat:
  "0 < d \<Longrightarrow> d < m \<Longrightarrow> (a :: nat) mod m \<noteq> (a + d) mod m"
  by (metis mod_less add_diff_cancel_left' le_add1 mod_eq_dvd_iff_nat nat_dvd_not_less)

lemma live_slot_differs:
  assumes wf: "fifo_wf f" and k: "k < unat (ff_wptr f - ff_rptr f)"
    and room: "unat (ff_wptr f - ff_rptr f) < unat (ff_num f)"
  shows "unat (ff_rptr f + of_nat k) mod unat (ff_num f) \<noteq> unat (ff_wptr f) mod unat (ff_num f)"
proof -
  obtain j where j: "unat (ff_num f) = 2 ^ j" "j \<le> 7" using wf by (auto simp: fifo_wf_def)
  let ?c = "unat (ff_wptr f - ff_rptr f)"
  have w: "unat (ff_rptr f + of_nat ?c) mod 2 ^ j = (unat (ff_rptr f) + ?c) mod 2 ^ j"
    using j by (intro unat_u8_add_mod) simp
  have "ff_rptr f + of_nat ?c = ff_wptr f" by simp
  with w have "unat (ff_wptr f) mod 2 ^ j = (unat (ff_rptr f) + ?c) mod 2 ^ j" by simp
  then have "unat (ff_wptr f) mod 2 ^ j = (unat (ff_rptr f) + k + (?c - k)) mod 2 ^ j"
    using k by simp
  moreover have "unat (ff_rptr f + of_nat k) mod 2 ^ j = (unat (ff_rptr f) + k) mod 2 ^ j"
    using unat_u8_add_mod j by simp
  moreover have "(unat (ff_rptr f) + k) mod 2 ^ j \<noteq> (unat (ff_rptr f) + k + (?c - k)) mod 2 ^ j"
    using k room j by (intro mod_neq_nat) auto
  ultimately show ?thesis using j by simp
qed

lemma slot_bytes_read:
  assumes "fifo_wf f"
  shows "buf_read (unat (slot_offset f ptr)) (unat (ff_size f)) (ff_p f) = Some (slot_bytes f ptr)"
  using slot_offset_unat(2) [OF assms] by (simp add: buf_read_def slot_bytes_def)

section \<open>What the operations do to the queue\<close>

definition fifo_count :: "my_fifo_t \<Rightarrow> nat" where
  "fifo_count f = unat (ff_wptr f - ff_rptr f)"

lemma length_fifo_packets [simp]: "length (fifo_packets f) = fifo_count f"
  by (simp add: fifo_packets_def fifo_count_def)

lemma fifo_wf_num_le: "fifo_wf f \<Longrightarrow> unat (ff_num f) \<le> 128"
  using power_increasing [of _ 7 "2 :: nat"] by (fastforce simp: fifo_wf_def)

lemma guard_count:
  "(ucast (ff_wptr f - ff_rptr f) < ff_num f) = (fifo_count f < unat (ff_num f))"
  by (simp add: word_less_nat_alt fifo_count_def unat_ucast_up)

lemma fifo_count_next:
  assumes "fifo_wf f" "fifo_count f < unat (ff_num f)"
  shows "unat (ff_wptr f + 1 - ff_rptr f) = fifo_count f + 1"
proof -
  have "unat (ff_wptr f - ff_rptr f) + 1 < 2 ^ LENGTH(8)"
    using assms fifo_wf_num_le [OF assms(1)] by (simp add: fifo_count_def)
  from unat_plus_one [OF this] show ?thesis by (simp add: fifo_count_def algebra_simps)
qed

lemma push_bytes:
  assumes wf: "fifo_wf f" and fit: "packet_fits f p" and room: "fifo_count f < unat (ff_num f)"
  shows "\<exists>f'. my_fifo_push f p (int (length p)) = Some (0, f') \<and>
    ff_size f' = ff_size f \<and> ff_num f' = ff_num f \<and> ff_wptr f' = ff_wptr f + 1 \<and>
    ff_rptr f' = ff_rptr f \<and>
    buf_write (unat (slot_offset f (ff_wptr f))) (le16 (of_nat (length p)) @ p) (ff_p f) = Some (ff_p f')"
proof -
  let ?o = "unat (slot_offset f (ff_wptr f))"
  have len: "length p + 2 \<le> unat (ff_size f)" "length p < 2 ^ 16"
    using fit by (simp_all add: packet_fits_def)
  have sl: "?o + unat (ff_size f) \<le> length (ff_p f)" using slot_offset_unat(2) [OF wf] .
  have "unat (of_nat (length p) :: u32) = length p" using len(2) by (simp add: unat_of_nat_small)
  then have g2: "\<not> (of_nat (length p) :: u32) \<ge> ff_size f"
    using len(1) by (simp add: not_le word_less_nat_alt)
  have g1: "\<not> ucast (ff_wptr f - ff_rptr f) \<ge> ff_num f"
    using room by (simp add: not_le guard_count)
  have e: "?o + (2 + length p) \<le> length (ff_p f)" using sl len(1) by simp
  show ?thesis
    using g1 g2 e unfolding my_fifo_push_def Let_def
    by (auto simp: buf_write_def buf_read_def le16_def add.commute add.left_commute)
qed

lemma slot_offset_cong:
  "ff_size f' = ff_size f \<Longrightarrow> ff_num f' = ff_num f \<Longrightarrow> slot_offset f' = slot_offset f"
  by (simp add: slot_offset_def fun_eq_iff)

lemma packet_of_stored:
  assumes "length p < 2 ^ 16"
  shows "packet_of (le16 (of_nat (length p)) @ p @ rest) = p"
proof -
  have "unat (of_nat (length p) :: u16) = length p" using assms by (simp add: unat_of_nat_small)
  then show ?thesis by (simp add: le16_def u16_le_split)
qed

lemma push_packets:
  assumes wf: "fifo_wf f" and fit: "packet_fits f p" and room: "fifo_count f < unat (ff_num f)"
  shows "\<exists>f'. my_fifo_push f p (int (length p)) = Some (0, f') \<and> fifo_wf f' \<and>
    fifo_packets f' = fifo_packets f @ [p] \<and> ff_num f' = ff_num f \<and> ff_size f' = ff_size f"
proof -
  obtain f' where f': "my_fifo_push f p (int (length p)) = Some (0, f')"
    "ff_size f' = ff_size f" "ff_num f' = ff_num f" "ff_wptr f' = ff_wptr f + 1"
    "ff_rptr f' = ff_rptr f"
    and w: "buf_write (unat (slot_offset f (ff_wptr f))) (le16 (of_nat (length p)) @ p) (ff_p f)
            = Some (ff_p f')"
    using push_bytes [OF assms] by auto
  have so: "slot_offset f' = slot_offset f" using f' by (intro slot_offset_cong)
  have cnt: "unat (ff_wptr f' - ff_rptr f') = fifo_count f + 1"
    using fifo_count_next [OF wf room] f' by simp
  have wf': "fifo_wf f'"
    using wf cnt room buf_write_length [OF w] unfolding fifo_wf_def f'(2,3) by simp
  have len: "length p + 2 \<le> unat (ff_size f)" "length p < 2 ^ 16"
    using fit by (simp_all add: packet_fits_def)
  have old: "slot_packet f' (ff_rptr f + of_nat k) = slot_packet f (ff_rptr f + of_nat k)"
    if k: "k < fifo_count f" for k
  proof -
    let ?a = "ff_rptr f + of_nat k"
    have ne: "unat ?a mod unat (ff_num f) \<noteq> unat (ff_wptr f) mod unat (ff_num f)"
      using live_slot_differs [OF wf] k room by (simp add: fifo_count_def)
    from slots_disjoint [OF wf ne] len(1)
    have "buf_read (unat (slot_offset f ?a)) (unat (ff_size f)) (ff_p f') =
          buf_read (unat (slot_offset f ?a)) (unat (ff_size f)) (ff_p f)"
      by (intro buf_read_write_other [OF w]) auto
    then have "slot_bytes f' ?a = slot_bytes f ?a"
      using slot_bytes_read [OF wf, of ?a] slot_bytes_read [OF wf', of ?a] so f'(2) by simp
    then show ?thesis by (simp add: slot_packet_def)
  qed
  have new: "slot_packet f' (ff_wptr f) = p"
  proof -
    let ?o = "unat (slot_offset f (ff_wptr f))"
    have sl: "?o + unat (ff_size f) \<le> length (ff_p f)" using slot_offset_unat(2) [OF wf] .
    then have "ff_p f' = take ?o (ff_p f) @ (le16 (of_nat (length p)) @ p) @
      drop (?o + (length p + 2)) (ff_p f)"
      using w len(1) by (simp add: buf_write_def add.assoc add.commute split: if_splits)
    then have "\<exists>rest. slot_bytes f' (ff_wptr f) = le16 (of_nat (length p)) @ p @ rest"
      using sl len(1) by (simp add: slot_bytes_def so f'(2))
    then show ?thesis using len(2) by (auto simp: slot_packet_def packet_of_stored)
  qed
  have "fifo_packets f' = fifo_packets f @ [p]"
    using old new cnt unfolding fifo_packets_def f'(5) by (simp add: fifo_count_def)
  with f' wf' show ?thesis by auto
qed

lemma push_full:
  assumes "unat (ff_num f) \<le> fifo_count f"
  shows "my_fifo_push f p n = Some (- 1, f)"
  using assms guard_count [of f] by (simp add: my_fifo_push_def not_less)

lemma pop_packets:
  assumes wf: "fifo_wf f" and ne: "0 < fifo_count f"
  shows "fifo_wf (my_fifo_pop f)" "fifo_packets (my_fifo_pop f) = tl (fifo_packets f)"
proof -
  let ?f = "my_fifo_pop f"
  have "ff_wptr f - ff_rptr f \<noteq> 0" using ne by (auto simp: fifo_count_def)
  from unat_minus_one [OF this]
  have cnt: "unat (ff_wptr f - (ff_rptr f + 1)) = fifo_count f - 1"
    by (simp add: fifo_count_def algebra_simps)
  have "fifo_count f \<le> unat (ff_num f)" using wf by (simp add: fifo_wf_def fifo_count_def)
  with cnt have "unat (ff_wptr f - (ff_rptr f + 1)) \<le> unat (ff_num f)" by simp
  with wf show "fifo_wf ?f" unfolding fifo_wf_def my_fifo_pop_def by simp
  have so: "slot_packet ?f = slot_packet f"
    by (simp add: slot_packet_def slot_bytes_def slot_offset_def my_fifo_pop_def fun_eq_iff)
  obtain n where n: "fifo_count f = Suc n" using ne gr0_implies_Suc by auto
  have "fifo_packets ?f = map (\<lambda>k. slot_packet f (ff_rptr f + 1 + of_nat k)) [0..<n]"
    using so cnt n by (simp add: fifo_packets_def my_fifo_pop_def)
  also have "\<dots> = map (\<lambda>k. slot_packet f (ff_rptr f + of_nat k)) (map Suc [0..<n])"
    by (simp add: add.assoc)
  also have "map Suc [0..<n] = tl [0..<Suc n]" by (simp add: map_Suc_upt tl_upt del: upt_Suc)
  also have "map (\<lambda>k. slot_packet f (ff_rptr f + of_nat k)) (tl [0..<Suc n]) = tl (fifo_packets f)"
    using n by (simp add: fifo_packets_def del: upt_Suc flip: fifo_count_def map_tl)
  finally show "fifo_packets ?f = tl (fifo_packets f)" .
qed

section \<open>The FIFO meets the queue contract\<close>

definition fifo_enq :: "u8 list \<Rightarrow> my_fifo_t \<Rightarrow> my_fifo_t option" where
  "fifo_enq p f =
     (case my_fifo_push f p (int (length p)) of
        Some (r, f') \<Rightarrow> (if r = 0 then Some f' else None) | None \<Rightarrow> None)"

definition fifo_front :: "my_fifo_t \<Rightarrow> u8 list option" where
  "fifo_front f =
     map_option (\<lambda>off. packet_of (take (unat (ff_size f)) (drop (unat off) (ff_p f)))) (my_fifo_get f)"

lemma fifo_front_packets:
  "fifo_front f = (case fifo_packets f of [] \<Rightarrow> None | p # ps \<Rightarrow> Some p)"
proof (cases "fifo_count f")
  case 0
  then have "ff_rptr f = ff_wptr f" by (metis fifo_count_def unat_diff_eq_0)
  then show ?thesis by (simp add: fifo_front_def my_fifo_get_def fifo_packets_def)
next
  case (Suc n)
  then have "ff_rptr f \<noteq> ff_wptr f" by (auto simp: fifo_count_def)
  moreover have "fifo_packets f = slot_packet f (ff_rptr f) # tl (fifo_packets f)"
    using Suc by (simp add: fifo_packets_def upt_rec [of 0] flip: fifo_count_def)
  ultimately show ?thesis
    by (metis (no_types, lifting) fifo_front_def list.simps(5) my_fifo_get_def option.map(2)
        slot_bytes_def slot_packet_def)
qed

interpretation my_fifo: bounded_fifo fifo_wf fifo_packets "\<lambda>f. unat (ff_num f)" packet_fits
  fifo_enq fifo_front my_fifo_pop
proof
  fix q a
  assume "fifo_wf q" "packet_fits q a" "length (fifo_packets q) < unat (ff_num q)"
  then show "\<exists>q'. fifo_enq a q = Some q' \<and> fifo_wf q' \<and> fifo_packets q' = fifo_packets q @ [a] \<and>
    unat (ff_num q') = unat (ff_num q) \<and> packet_fits q' = packet_fits q"
    using push_packets [of q a] by (auto simp: fifo_enq_def packet_fits_def fun_eq_iff)
next
  fix q assume "fifo_wf q" "fifo_packets q \<noteq> []"
  then show "fifo_wf (my_fifo_pop q) \<and> fifo_packets (my_fifo_pop q) = tl (fifo_packets q)"
    using pop_packets [of q] by (metis length_fifo_packets length_greater_0_conv)
qed (auto simp: fifo_enq_def push_full fifo_front_packets)

section \<open>Properties\<close>

text \<open>
  C14. First in, first out, nothing lost: whatever well-formed FIFO the packets \<open>ps\<close> are pushed into,
  if they fit in its slots and there is room for them, every \<open>my_fifo_push\<close> succeeds, and
  draining with \<open>my_fifo_get\<close> and \<open>my_fifo_pop\<close> delivers the packets that were already there and
  then \<open>ps\<close>, byte for byte and in order, across the wrap-around of the 8-bit counters.
\<close>

theorem my_fifo_order:
  assumes "fifo_wf f" and "\<forall>p \<in> set ps. packet_fits f p"
    and "length (fifo_packets f) + length ps \<le> unat (ff_num f)"
  shows "\<exists>f'. enq_all fifo_enq ps f = Some f' \<and>
    drain fifo_front my_fifo_pop (length (fifo_packets f) + length ps) f' = fifo_packets f @ ps"
  by (rule my_fifo.fifo_order [OF assms])

definition fifo_sample :: my_fifo_t where
  "fifo_sample = \<lparr>ff_size = 5, ff_num = 2, ff_wptr = 255, ff_rptr = 255, ff_p = replicate 10 0\<rparr>"

lemma fifo_sample_wf: "fifo_wf fifo_sample"
  unfolding fifo_wf_def fifo_sample_def by (auto intro: exI [of _ "1 :: nat"])

lemma fifo_sample_empty: "fifo_packets fifo_sample = []"
  by (simp add: fifo_packets_def fifo_sample_def)

theorem my_fifo_order_witness:
  "\<exists>f'. enq_all fifo_enq [[1, 2, 3], [7]] fifo_sample = Some f' \<and>
    drain fifo_front my_fifo_pop 2 f' = [[1, 2, 3], [7]]"
proof -
  have "\<forall>p \<in> set [[1, 2, 3], [7]]. packet_fits fifo_sample p"
    by (simp add: packet_fits_def fifo_sample_def)
  moreover have "length (fifo_packets fifo_sample) + length [[1, 2, 3], [7 :: u8]] \<le> unat (ff_num fifo_sample)"
    by (simp add: fifo_sample_empty) (simp add: fifo_sample_def)
  ultimately show ?thesis
    using my_fifo_order [OF fifo_sample_wf, of "[[1, 2, 3], [7]]"]
    by (simp add: fifo_sample_empty numeral_2_eq_2 del: drain.simps enq_all.simps)
qed

text \<open>
  C11. A full FIFO refuses: \<open>my_fifo_push\<close> returns \<open>-1\<close> and changes nothing, whatever the packet and
  its length, \<open>my_fifo_wptr\<close> returns the null pointer, and the pointer that \<open>my_fifo_get\<close> returns
  is the slot of the oldest packet.
\<close>

theorem my_fifo_full:
  assumes wf: "fifo_wf f" and full: "length (fifo_packets f) = unat (ff_num f)"
  shows "my_fifo_push f p n = Some (- 1, f) \<and> my_fifo_wptr f = None \<and>
    my_fifo_get f = Some (slot_offset f (ff_rptr f)) \<and> fifo_front f = Some (hd (fifo_packets f))"
proof -
  have "0 < unat (ff_num f)" using wf by (auto simp: fifo_wf_def)
  then have ne: "fifo_packets f \<noteq> []" using full by (metis length_greater_0_conv)
  then have fr: "fifo_front f = Some (hd (fifo_packets f))"
    by (simp add: fifo_front_packets split: list.split)
  then have "my_fifo_get f = Some (slot_offset f (ff_rptr f))"
    by (auto simp: fifo_front_def my_fifo_get_def split: if_splits)
  then show ?thesis using fr guard_count [of f] push_full [of f p n] full by (simp add: my_fifo_wptr_def)
qed

definition fifo_sample_full :: my_fifo_t where
  "fifo_sample_full = \<lparr>ff_size = 4, ff_num = 2, ff_wptr = 1, ff_rptr = 255,
     ff_p = [1, 0, 9, 0, 2, 0, 7, 8]\<rparr>"

theorem my_fifo_full_witness:
  "my_fifo_push fifo_sample_full [5] 1 = Some (- 1, fifo_sample_full) \<and>
   my_fifo_wptr fifo_sample_full = None \<and>
   my_fifo_get fifo_sample_full = Some (slot_offset fifo_sample_full (ff_rptr fifo_sample_full)) \<and>
   fifo_front fifo_sample_full = Some (hd (fifo_packets fifo_sample_full))"
proof -
  have "fifo_wf fifo_sample_full"
    unfolding fifo_wf_def fifo_sample_full_def by (auto intro: exI [of _ "1 :: nat"])
  moreover have "length (fifo_packets fifo_sample_full) = unat (ff_num fifo_sample_full)"
    by (simp add: fifo_count_def) (simp add: fifo_sample_full_def)
  ultimately show ?thesis by (rule my_fifo_full)
qed

text \<open>
  The length guard of \<open>my_fifo_push\<close> is off by the header: it lets a packet of \<open>size - 1\<close> bytes
  through although its two length bytes no longer leave room for it, and when the write counter
  stands on the last slot the copy runs past the end of the buffer.
\<close>

theorem my_fifo_push_overruns_buffer:
  assumes wf: "fifo_wf f" and room: "length (fifo_packets f) < unat (ff_num f)"
    and len: "length p + 1 = unat (ff_size f)"
    and last: "unat (ff_wptr f) mod unat (ff_num f) = unat (ff_num f) - 1"
  shows "my_fifo_push f p (int (length p)) = None"
proof -
  let ?o = "unat (slot_offset f (ff_wptr f))" let ?n = "unat (ff_num f)" let ?s = "unat (ff_size f)"
  have n0: "0 < ?n" using wf by (auto simp: fifo_wf_def)
  have "?n * ?s = (?n - 1) * ?s + ?s" using n0 by (simp add: mult_eq_if)
  then have o': "?o + ?s = length (ff_p f)"
    using slot_offset_unat(1) [OF wf] last wf by (simp add: fifo_wf_def)
  have "length p < 2 ^ LENGTH(32)" using len unat_lt_length [of "ff_size f"] by simp
  then have "unat (of_nat (length p) :: u32) = length p" by (rule unat_of_nat_small)
  then have g2: "\<not> (of_nat (length p) :: u32) \<ge> ff_size f"
    using len by (simp add: not_le word_less_nat_alt)
  have g1: "\<not> ucast (ff_wptr f - ff_rptr f) \<ge> ff_num f"
    using room by (simp add: not_le guard_count)
  show ?thesis
    using g1 g2 o' len unfolding my_fifo_push_def Let_def
    by (auto simp: buf_read_def split: option.split dest!: buf_write_length)
      (auto simp: buf_write_def)
qed

theorem my_fifo_push_overruns_buffer_witness:
  "my_fifo_push fifo_sample [1, 2, 3, 4] 4 = None"
  using my_fifo_push_overruns_buffer [OF fifo_sample_wf, of "[1, 2, 3, 4]"]
  by (simp add: fifo_sample_empty) (simp add: fifo_sample_def)

end
