(* ===== verification/Adpcm.thy ===== *)
theory Adpcm
  imports Prelude
begin

text \<open>
  The IMA-style ADPCM codec of \<open>ble_lt_sdk/vendor/common/tl_audio.c\<close>: the step tables, the
  three encoders (\<open>pcm_to_adpcm\<close>, \<open>mic_to_adpcm\<close>, \<open>mic_to_adpcm_split\<close>) and the decoder
  \<open>adpcm_to_pcm\<close> that the dongle runs on the packets it receives. Samples are C \<open>s16\<close> values,
  modelled as integers; encoded halfwords are 16-bit words, and a packet is its byte list.
\<close>

section \<open>Tables and predictor state\<close>

definition idxtbl :: "int list" where
  "idxtbl = [- 1, - 1, - 1, - 1, 2, 4, 6, 8, - 1, - 1, - 1, - 1, 2, 4, 6, 8]"

definition steptbl :: "int list" where
  "steptbl = [
     7, 8, 9, 10, 11, 12, 13, 14, 16, 17,
     19, 21, 23, 25, 28, 31, 34, 37, 41, 45,
     50, 55, 60, 66, 73, 80, 88, 97, 107, 118,
     130, 143, 157, 173, 190, 209, 230, 253, 279, 307,
     337, 371, 408, 449, 494, 544, 598, 658, 724, 796,
     876, 963, 1060, 1166, 1282, 1411, 1552, 1707, 1878, 2066,
     2272, 2499, 2749, 3024, 3327, 3660, 4026, 4428, 4871, 5358,
     5894, 6484, 7132, 7845, 8630, 9493, 10442, 11487, 12635, 13899,
     15289, 16818, 18500, 20350, 22385, 24623, 27086, 29794, 32767]"

record adpcm =
  predict :: int
  predict_idx :: int

definition clamp_predict :: "int \<Rightarrow> int" where
  "clamp_predict p = (if p > 32767 then 32767 else if p < - 32767 then - 32767 else p)"

definition clamp_idx :: "int \<Rightarrow> int" where
  "clamp_idx i = (if i < 0 then 0 else if i > 88 then 88 else i)"

section \<open>The encoder\<close>

text \<open>The loop \<open>for (j=4; j>0; j=j>>1)\<close>: successive approximation of \<open>diff\<close> by halved steps.\<close>

function quantize :: "nat \<Rightarrow> int \<Rightarrow> int \<Rightarrow> int \<Rightarrow> nat \<Rightarrow> int \<times> nat" where
  "quantize j step diff diffq code =
     (if 0 < j then
        (if diff \<ge> step then quantize (j div 2) (step div 2) (diff - step) (diffq + step) (code + j)
         else quantize (j div 2) (step div 2) diff diffq code)
      else (diffq, code))"
  by pat_completeness auto
termination by (relation "measure (\<lambda>(j, _). j)") auto

declare quantize.simps [simp del]

definition encode_sample :: "adpcm \<Rightarrow> int \<Rightarrow> nat \<times> adpcm" where
  "encode_sample a di =
     (let step = steptbl ! nat (predict_idx a);
          diff = di - predict a;
          code = (if diff \<ge> 0 then 0 else 8);
          diff = (if diff \<ge> 0 then diff else - diff);
          (diffq, code) = quantize 4 step diff (step div 8) code;
          p = (if code \<ge> 8 then predict a - diffq else predict a + diffq)
      in (code, \<lparr>predict = clamp_predict p, predict_idx = clamp_idx (predict_idx a + idxtbl ! code)\<rparr>))"

definition shift_in :: "u16 \<Rightarrow> nat \<Rightarrow> u16" where
  "shift_in code16 code = drop_bit 4 code16 OR push_bit 12 (of_nat code)"

text \<open>
  The sample loop: each code is shifted into the top nibble of \<open>code16\<close>, which is stored after
  every fourth sample index. \<open>i\<close> is the index of the first sample of the list.
\<close>

fun encode_from :: "nat \<Rightarrow> int list \<Rightarrow> u16 \<Rightarrow> adpcm \<Rightarrow> u16 list \<times> adpcm" where
  "encode_from i [] code16 a = ([], a)"
| "encode_from i (di # ds) code16 a =
     (let (code, a') = encode_sample a di;
          code16' = shift_in code16 code;
          (ws, a'') = encode_from (Suc i) ds code16' a'
      in (if i mod 4 = 3 then code16' # ws else ws, a''))"

text \<open>
  \<open>pcm_to_adpcm\<close> stores the first eight samples, \<open>mic_to_adpcm\<close> the first two
  (\<open>NUM_OF_ORIG_SAMPLE\<close>), as they are, and then the codes of the samples from index 1, starting
  from the first sample and step index 1. \<^const>\<open>None\<close>: the code reads past the samples it is given.
\<close>

definition pcm_to_adpcm :: "int list \<Rightarrow> nat \<Rightarrow> u16 list option" where
  "pcm_to_adpcm ps len =
     (if 8 \<le> length ps \<and> len \<le> length ps then
        Some (map word_of_int (take 8 ps) @
              fst (encode_from 1 (tl (take len ps)) 0 \<lparr>predict = ps ! 0, predict_idx = 1\<rparr>))
      else None)"

definition mic_to_adpcm :: "int list \<Rightarrow> nat \<Rightarrow> u16 list option" where
  "mic_to_adpcm ps len =
     (if 2 \<le> length ps \<and> len \<le> length ps then
        Some (map word_of_int (take 2 ps) @
              fst (encode_from 1 (tl (take len ps)) 0 \<lparr>predict = ps ! 0, predict_idx = 1\<rparr>))
      else None)"

text \<open>
  \<open>mic_to_adpcm_split\<close> keeps the predictor in static variables (initially \<open>predict\<close> 0 and
  \<open>predict_idx\<close> 1), so that a packet continues the previous one. With \<open>start\<close>, the packet
  begins with the predictor, its index and the length 124 of the ADPCM data; without it the
  words go on from where the static pointer \<open>pd\<close> stands, so the result is the words to append.
\<close>

definition split_init :: adpcm where
  "split_init = \<lparr>predict = 0, predict_idx = 1\<rparr>"

definition split_header :: "adpcm \<Rightarrow> u8 list" where
  "split_header a = le16 (word_of_int (predict a)) @ [word_of_int (predict_idx a), 124]"

definition mic_to_adpcm_split :: "int list \<Rightarrow> nat \<Rightarrow> bool \<Rightarrow> adpcm \<Rightarrow> (u8 list \<times> adpcm) option" where
  "mic_to_adpcm_split ps len start a =
     (if len \<le> length ps then
        let (ws, a') = encode_from 0 (take len ps) 0 a
        in Some ((if start then split_header a else []) @ concat (map le16 ws), a')
      else None)"

section \<open>The decoder\<close>

text \<open>\<^const>\<open>None\<close>: the step index points outside \<open>steptbl\<close>.\<close>

definition decode_code :: "u8 \<Rightarrow> adpcm \<Rightarrow> adpcm option" where
  "decode_code code a =
     (if predict_idx a < int (length steptbl) then
        let step = steptbl ! nat (predict_idx a);
            diffq = step div 8;
            diffq = (if code AND 4 \<noteq> 0 then diffq + step else diffq);
            step = step div 2;
            diffq = (if code AND 2 \<noteq> 0 then diffq + step else diffq);
            step = step div 2;
            diffq = (if code AND 1 \<noteq> 0 then diffq + step else diffq);
            p = (if code AND 8 \<noteq> 0 then predict a - diffq else predict a + diffq)
        in Some \<lparr>predict = clamp_predict p,
                 predict_idx = clamp_idx (predict_idx a + idxtbl ! unat (code AND 15))\<rparr>
      else None)"

fun decode_from :: "nat \<Rightarrow> nat \<Rightarrow> u8 \<Rightarrow> u8 list \<Rightarrow> adpcm \<Rightarrow> int list option" where
  "decode_from i 0 code bs a = Some []"
| "decode_from i (Suc n) code bs a =
     (case decode_code code a of
        None \<Rightarrow> None
      | Some a' \<Rightarrow>
          if odd i then
            (case bs of
               [] \<Rightarrow> None
             | b # bs' \<Rightarrow> map_option (Cons (predict a')) (decode_from (Suc i) n b bs' a'))
          else map_option (Cons (predict a')) (decode_from (Suc i) n (drop_bit 4 code) bs a'))"

text \<open>\<^const>\<open>None\<close>: the code reads past the bytes of the buffer \<open>src\<close> or outside \<open>steptbl\<close>.\<close>

fun adpcm_to_pcm :: "u8 list \<Rightarrow> nat \<Rightarrow> int list option" where
  "adpcm_to_pcm (p0 # p1 # i0 # l0 # b # bs) len =
     decode_from 0 len b bs \<lparr>predict = sint (u16_le p0 p1), predict_idx = uint i0\<rparr>"
| "adpcm_to_pcm _ len = None"

section \<open>The predictor invariant\<close>

definition adpcm_ok :: "adpcm \<Rightarrow> bool" where
  "adpcm_ok a \<longleftrightarrow> - 32768 \<le> predict a \<and> predict a \<le> 32767 \<and> 0 \<le> predict_idx a \<and> predict_idx a \<le> 88"

lemma clamp_predict_range [simp]: "- 32767 \<le> clamp_predict p" "clamp_predict p \<le> 32767"
  by (simp_all add: clamp_predict_def)

lemma clamp_idx_range [simp]: "0 \<le> clamp_idx i" "clamp_idx i \<le> 88"
  by (simp_all add: clamp_idx_def)

lemma length_steptbl [simp]: "length steptbl = 89"
  by (simp add: steptbl_def)

lemma steptbl_range: "i < 89 \<Longrightarrow> 7 \<le> steptbl ! i \<and> steptbl ! i \<le> 32767"
proof -
  have "\<forall>x \<in> set steptbl. 7 \<le> x \<and> x \<le> 32767" by (simp add: steptbl_def)
  then show "i < 89 \<Longrightarrow> 7 \<le> steptbl ! i \<and> steptbl ! i \<le> 32767"
    by (metis length_steptbl nth_mem)
qed

lemma adpcm_ok_idx: "adpcm_ok a \<Longrightarrow> nat (predict_idx a) < 89"
  by (auto simp: adpcm_ok_def)

lemma split_init_ok: "adpcm_ok split_init"
  by (simp add: adpcm_ok_def split_init_def)

lemma quantize_step:
  "0 < j \<Longrightarrow> quantize j step diff diffq code =
     quantize (j div 2) (step div 2) (if step \<le> diff then diff - step else diff)
       (diffq + (if step \<le> diff then step else 0)) (code + (if step \<le> diff then j else 0))"
  by (simp add: quantize.simps [of j])

lemma quantize_4:
  assumes "d1 = (if step \<le> diff then diff - step else diff)"
    and "d2 = (if step div 2 \<le> d1 then d1 - step div 2 else d1)"
  shows "quantize 4 step diff diffq code =
    (diffq + (if step \<le> diff then step else 0) + (if step div 2 \<le> d1 then step div 2 else 0) +
       (if step div 2 div 2 \<le> d2 then step div 2 div 2 else 0),
     code + (if step \<le> diff then 4 else 0) + (if step div 2 \<le> d1 then 2 else 0) +
       (if step div 2 div 2 \<le> d2 then 1 else 0))"
proof -
  have j: "(4 :: nat) div 2 = 2" "(2 :: nat) div 2 = 1" "(1 :: nat) div 2 = 0"
    "(0 :: nat) < 4" "(0 :: nat) < 2" "(0 :: nat) < 1" by simp_all
  have stop: "quantize 0 s d q c = (q, c)" for s d q c by (simp add: quantize.simps [of 0])
  show ?thesis
    by (simp only: assms quantize_step [OF j(4)] quantize_step [OF j(5)] quantize_step [OF j(6)] j stop)
qed

lemma quantize_bits:
  "\<exists>b2 b1 b0. quantize 4 step diff diffq code =
     (diffq + (if b2 then step else 0) + (if b1 then step div 2 else 0) +
        (if b0 then step div 2 div 2 else 0),
      code + (if b2 then 4 else 0) + (if b1 then 2 else 0) + (if b0 then 1 else 0))"
  using quantize_4 [OF refl refl] by blast

text \<open>
  The quantisation error: where the difference is below twice the step, the reconstructed
  difference is off by at most an eighth of the step, plus two for the rounding of the halvings.
\<close>

lemma quantize_error:
  assumes "0 \<le> diff" "diff < 2 * step"
  shows "\<bar>diff - fst (quantize 4 step diff (step div 8) code)\<bar> \<le> step div 8 + 2"
proof -
  define d1 where "d1 = (if step \<le> diff then diff - step else diff)"
  define d2 where "d2 = (if step div 2 \<le> d1 then d1 - step div 2 else d1)"
  define d3 where "d3 = (if step div 2 div 2 \<le> d2 then d2 - step div 2 div 2 else d2)"
  have "0 \<le> d1" "d1 < step" using assms by (auto simp: d1_def)
  then have "0 \<le> d2" "d2 \<le> step div 2" by (auto simp: d2_def)
  then have "0 \<le> d3" "d3 \<le> step div 2 div 2 + 1" by (auto simp: d3_def)
  then have "\<bar>d3 - step div 8\<bar> \<le> step div 8 + 2" by linarith
  moreover have "diff - fst (quantize 4 step diff (step div 8) code) = d3 - step div 8"
    by (simp add: quantize_4 [OF d1_def d2_def] d3_def) (simp add: d2_def d1_def)
  ultimately show ?thesis by simp
qed

lemma encode_sample_ok: "adpcm_ok (snd (encode_sample a di))"
  by (simp add: encode_sample_def Let_def adpcm_ok_def order_trans [OF _ clamp_predict_range(1)]
      split: prod.split)

lemma quantize_code: "snd (quantize 4 step diff diffq code) \<le> code + 7"
  using quantize_bits [of step diff diffq code] by auto

lemma encode_sample_code: "fst (encode_sample a di) < 16"
proof -
  have "fst (encode_sample a di) =
    snd (quantize 4 (steptbl ! nat (predict_idx a)) \<bar>di - predict a\<bar>
      (steptbl ! nat (predict_idx a) div 8) (if 0 \<le> di - predict a then 0 else 8))"
    by (simp add: encode_sample_def Let_def split: prod.split)
  also have "\<dots> \<le> (if 0 \<le> di - predict a then 0 else 8) + 7" by (rule quantize_code)
  also have "\<dots> < 16" by simp
  finally show ?thesis .
qed

lemma encode_from_Cons:
  "encode_from i (di # ds) c a =
     (let c' = shift_in c (fst (encode_sample a di));
          r = encode_from (Suc i) ds c' (snd (encode_sample a di))
      in (if i mod 4 = 3 then c' # fst r else fst r, snd r))"
  by (simp add: Let_def split_beta)

declare encode_from.simps(2) [simp del]

lemma encode_from_ok: "adpcm_ok a \<Longrightarrow> adpcm_ok (snd (encode_from i ds c a))"
  by (induction ds arbitrary: i c a) (simp_all add: encode_from_Cons Let_def encode_sample_ok)

section \<open>The decoder follows the encoder\<close>

text \<open>The sequence of codes and of reconstructed samples that the encoder produces.\<close>

fun codes_of :: "int list \<Rightarrow> adpcm \<Rightarrow> nat list" where
  "codes_of [] a = []"
| "codes_of (di # ds) a = fst (encode_sample a di) # codes_of ds (snd (encode_sample a di))"

fun track_of :: "int list \<Rightarrow> adpcm \<Rightarrow> adpcm list" where
  "track_of [] a = []"
| "track_of (di # ds) a = snd (encode_sample a di) # track_of ds (snd (encode_sample a di))"

lemma length_track [simp]: "length (track_of ds a) = length ds"
  by (induction ds arbitrary: a) simp_all

lemma track_Nil [simp]: "track_of ds a = [] \<longleftrightarrow> ds = []"
  by (cases ds) simp_all

lemma nibble_bits:
  assumes "(w :: u8) AND 15 = of_nat c" and "c < 16"
  shows "(w AND 8 \<noteq> 0) = (8 \<le> c)" "(w AND 4 \<noteq> 0) = (4 \<le> c mod 8)"
    "(w AND 2 \<noteq> 0) = (2 \<le> c mod 4)" "(w AND 1 \<noteq> 0) = (1 \<le> c mod 2)" "unat (w AND 15) = c"
proof -
  have split: "w AND k = of_nat c AND k" if "15 AND k = k" for k
    using assms(1) that by (metis and.assoc)
  have c: "c \<in> {0, 1, 2, 3, 4, 5, 6, 7, 8, 9, 10, 11, 12, 13, 14, 15}"
  proof -
    have "c \<in> {..<16}" using assms(2) by simp
    then show ?thesis by (auto simp: lessThan_nat_numeral lessThan_Suc)
  qed
  show "(w AND 8 \<noteq> 0) = (8 \<le> c)" "(w AND 4 \<noteq> 0) = (4 \<le> c mod 8)"
    "(w AND 2 \<noteq> 0) = (2 \<le> c mod 4)" "(w AND 1 \<noteq> 0) = (1 \<le> c mod 2)" "unat (w AND 15) = c"
    using c assms(1) split [of 8] split [of 4] split [of 2] split [of 1] by auto
qed

lemma decode_encode_sample:
  assumes ok: "adpcm_ok a" and w: "(w :: u8) AND 15 = of_nat (fst (encode_sample a di))"
  shows "decode_code w a = Some (snd (encode_sample a di))"
proof -
  let ?st = "steptbl ! nat (predict_idx a)" let ?c = "if 0 \<le> di - predict a then 0 else 8 :: nat"
  obtain b2 b1 b0 where q: "quantize 4 ?st \<bar>di - predict a\<bar> (?st div 8) ?c =
     (?st div 8 + (if b2 then ?st else 0) + (if b1 then ?st div 2 else 0) +
        (if b0 then ?st div 2 div 2 else 0),
      ?c + (if b2 then 4 else 0) + (if b1 then 2 else 0) + (if b0 then 1 else 0))"
    using quantize_bits by blast
  have enc: "encode_sample a di =
    (let (dq, code) = quantize 4 ?st \<bar>di - predict a\<bar> (?st div 8) ?c;
         p = if code \<ge> 8 then predict a - dq else predict a + dq
     in (code, \<lparr>predict = clamp_predict p, predict_idx = clamp_idx (predict_idx a + idxtbl ! code)\<rparr>))"
    by (simp add: encode_sample_def Let_def split: prod.split)
  note bits = nibble_bits [OF w encode_sample_code]
  have i: "predict_idx a < int (length steptbl)" using ok by (simp add: adpcm_ok_def)
  show ?thesis
    using i unfolding decode_code_def bits enc q
    by (cases b2; cases b1; cases b0; cases "0 \<le> di - predict a") (simp_all add: Let_def)
qed

section \<open>Packing four codes into a halfword\<close>

definition pack4 :: "nat \<Rightarrow> nat \<Rightarrow> nat \<Rightarrow> nat \<Rightarrow> u16" where
  "pack4 c0 c1 c2 c3 =
     of_nat c0 OR push_bit 4 (of_nat c1) OR push_bit 8 (of_nat c2) OR push_bit 12 (of_nat c3)"

lemma nat_bit_bound:
  assumes "(c :: nat) < 2 ^ k" and "bit c n" shows "n < k"
  using assms by (metis bit_take_bit_iff take_bit_nat_eq_self)

lemma pack4_shifts:
  assumes "c0 < 16" "c1 < 16" "c2 < 16" "c3 < 16"
  shows "shift_in (shift_in (shift_in (shift_in x c0) c1) c2) c3 = pack4 c0 c1 c2 c3"
proof (rule bit_word_eqI)
  fix n assume "n < LENGTH(16)"
  have b: "bit c0 m \<Longrightarrow> m < 4" "bit c1 m \<Longrightarrow> m < 4" "bit c2 m \<Longrightarrow> m < 4" "bit c3 m \<Longrightarrow> m < 4" for m
    using assms nat_bit_bound [of _ 4 m] by simp_all
  show "bit (shift_in (shift_in (shift_in (shift_in x c0) c1) c2) c3) n = bit (pack4 c0 c1 c2 c3) n"
    by (cases "n < 4"; cases "n < 8"; cases "n < 12")
      (auto simp: shift_in_def pack4_def bit_simps dest: b bit_imp_le_length)
qed

lemma pack4_low:
  assumes "c0 < 16" "c1 < 16" "c2 < 16" "c3 < 16"
  shows "(ucast (pack4 c0 c1 c2 c3) :: u8) AND 15 = of_nat c0"
    "drop_bit 4 (ucast (pack4 c0 c1 c2 c3) :: u8) AND 15 = of_nat c1"
    "(ucast (drop_bit 8 (pack4 c0 c1 c2 c3)) :: u8) AND 15 = of_nat c2"
    "drop_bit 4 (ucast (drop_bit 8 (pack4 c0 c1 c2 c3)) :: u8) AND 15 = of_nat c3"
proof -
  have m: "(15 :: u8) = mask 4" by (simp add: mask_eq_exp_minus_1)
  have b: "bit c0 n \<Longrightarrow> n < 4" "bit c1 n \<Longrightarrow> n < 4" "bit c2 n \<Longrightarrow> n < 4" "bit c3 n \<Longrightarrow> n < 4" for n
    using assms nat_bit_bound [of _ 4 n] by simp_all
  show "(ucast (pack4 c0 c1 c2 c3) :: u8) AND 15 = of_nat c0"
    unfolding m by (rule bit_word_eqI) (auto simp: pack4_def bit_simps dest: b)
  show "drop_bit 4 (ucast (pack4 c0 c1 c2 c3) :: u8) AND 15 = of_nat c1"
    unfolding m by (rule bit_word_eqI) (auto simp: pack4_def bit_simps dest: b)
  show "(ucast (drop_bit 8 (pack4 c0 c1 c2 c3)) :: u8) AND 15 = of_nat c2"
    unfolding m by (rule bit_word_eqI) (auto simp: pack4_def bit_simps dest: b)
  show "drop_bit 4 (ucast (drop_bit 8 (pack4 c0 c1 c2 c3)) :: u8) AND 15 = of_nat c3"
    unfolding m by (rule bit_word_eqI) (auto simp: pack4_def bit_simps dest: b)
qed

section \<open>Whole packets\<close>

fun pack_words :: "nat list \<Rightarrow> u16 list" where
  "pack_words (c0 # c1 # c2 # c3 # cs) = pack4 c0 c1 c2 c3 # pack_words cs"
| "pack_words _ = []"

lemma four_list:
  assumes "length xs = 4 * Suc k"
  obtains x0 x1 x2 x3 ys where "xs = x0 # x1 # x2 # x3 # ys" "length ys = 4 * k"
proof -
  have "length xs = Suc (Suc (Suc (Suc (4 * k))))" using assms by simp
  then show thesis using that by (auto simp: length_Suc_conv)
qed

lemma encode_from_words:
  "length ds = 4 * k \<Longrightarrow> i mod 4 = 0 \<Longrightarrow> encode_from i ds c a =
     (pack_words (codes_of ds a), if ds = [] then a else last (track_of ds a))"
proof (induction k arbitrary: ds i c a)
  case 0
  then show ?case by simp
next
  case (Suc k)
  obtain d0 d1 d2 d3 es where ds: "ds = d0 # d1 # d2 # d3 # es" "length es = 4 * k"
    using four_list [OF Suc.prems(1)] .
  have i: "Suc i mod 4 = 1" "Suc (Suc i) mod 4 = 2" "Suc (Suc (Suc i)) mod 4 = 3"
    "Suc (Suc (Suc (Suc i))) mod 4 = 0" using Suc.prems(2) by presburger+
  show ?case
    using Suc.prems(2) i
    by (simp add: ds encode_from_Cons Let_def Suc.IH [OF ds(2)] pack4_shifts encode_sample_code)
qed

lemma decode_from_words:
  "length ds = 4 * k \<Longrightarrow> even i \<Longrightarrow> adpcm_ok a \<Longrightarrow> ds \<noteq> [] \<Longrightarrow>
   concat (map le16 (pack_words (codes_of ds a))) @ [x] = b # bs \<Longrightarrow>
   decode_from i (4 * k) b bs a = Some (map predict (track_of ds a))"
proof (induction k arbitrary: ds i a b bs)
  case 0
  then show ?case by simp
next
  case (Suc k)
  obtain d0 d1 d2 d3 es where ds: "ds = d0 # d1 # d2 # d3 # es" "length es = 4 * k"
    using four_list [OF Suc.prems(1)] .
  let ?a1 = "snd (encode_sample a d0)" let ?a2 = "snd (encode_sample ?a1 d1)"
  let ?a3 = "snd (encode_sample ?a2 d2)" let ?a4 = "snd (encode_sample ?a3 d3)"
  let ?w = "pack4 (fst (encode_sample a d0)) (fst (encode_sample ?a1 d1))
     (fst (encode_sample ?a2 d2)) (fst (encode_sample ?a3 d3))"
  note low = pack4_low [OF encode_sample_code encode_sample_code encode_sample_code encode_sample_code,
      of a d0 ?a1 d1 ?a2 d2 ?a3 d3]
  have ok: "adpcm_ok ?a1" "adpcm_ok ?a2" "adpcm_ok ?a3" "adpcm_ok ?a4"
    by (rule encode_sample_ok)+
  have four: "4 * Suc k = Suc (Suc (Suc (Suc (4 * k))))" by simp
  obtain b' bs' where rest: "concat (map le16 (pack_words (codes_of es ?a4))) @ [x] = b' # bs'"
    by (metis append_is_Nil_conv list.exhaust not_Cons_self2)
  have b: "b = ucast ?w" "bs = ucast (drop_bit 8 ?w) # b' # bs'"
    using Suc.prems(5) rest [unfolded le16_def] by (auto simp: ds le16_def)
  have tail: "decode_from (Suc (Suc (Suc (Suc i)))) (4 * k) b' bs' ?a4 =
      Some (map predict (track_of es ?a4))"
  proof (cases "es = []")
    case True
    with ds(2) show ?thesis by simp
  next
    case False
    with Suc.IH [OF ds(2) _ ok(4) _ rest] Suc.prems(2) show ?thesis by simp
  qed
  show ?case
    unfolding four b
    using Suc.prems(2,3) ok tail
    by (simp add: ds(1) decode_encode_sample [OF _ low(1)] decode_encode_sample [OF _ low(2)]
        decode_encode_sample [OF _ low(3)] decode_encode_sample [OF _ low(4)])
qed

section \<open>Properties\<close>

lemma le16_sint: "- 32768 \<le> p \<Longrightarrow> p \<le> 32767 \<Longrightarrow> sint (word_of_int p :: u16) = p"
  by (simp add: signed_of_int signed_take_bit_int_eq_self)

lemma split_packet:
  assumes "mic_to_adpcm_split ps len True a = Some (pkt, a')" "4 dvd len" "0 < len"
  shows "take len ps \<noteq> []" "length (take len ps) = 4 * (len div 4)"
    "pkt = split_header a @ concat (map le16 (pack_words (codes_of (take len ps) a)))"
    "a' = last (track_of (take len ps) a)"
proof -
  show len: "length (take len ps) = 4 * (len div 4)"
    using assms by (auto simp: mic_to_adpcm_split_def split: if_splits)
  have le: "len \<le> length ps" using assms by (auto simp: mic_to_adpcm_split_def split: if_splits)
  with assms(3) show ne: "take len ps \<noteq> []" by auto
  show "pkt = split_header a @ concat (map le16 (pack_words (codes_of (take len ps) a)))"
    "a' = last (track_of (take len ps) a)"
    using assms(1) ne le encode_from_words [OF len, of 0 0 a] by (auto simp: mic_to_adpcm_split_def)
qed

lemma length_codes [simp]: "length (codes_of ds a) = length ds"
  by (induction ds arbitrary: a) simp_all

lemma length_pack_words:
  "length cs = 4 * k \<Longrightarrow> length (concat (map le16 (pack_words cs))) = 2 * k"
proof (induction k arbitrary: cs)
  case 0
  then show ?case by simp
next
  case (Suc k)
  obtain x0 x1 x2 x3 ys where "cs = x0 # x1 # x2 # x3 # ys" "length ys = 4 * k"
    using four_list [OF Suc.prems] .
  then show ?case using Suc.IH [of ys] by simp
qed

lemma decode_split_packet:
  assumes ok: "adpcm_ok a"
    and enc: "mic_to_adpcm_split ps len True a = Some (pkt, a')" "4 dvd len" "0 < len"
  shows "adpcm_to_pcm (pkt @ [x]) len = Some (map predict (track_of (take len ps) a))"
proof -
  let ?ds = "take len ps"
  note p = split_packet [OF enc]
  let ?body = "concat (map le16 (pack_words (codes_of ?ds a)))"
  obtain b bs where body: "?body @ [x] = b # bs" by (metis append_is_Nil_conv list.exhaust not_Cons_self2)
  have hdr: "pkt @ [x] = ucast (word_of_int (predict a) :: u16) #
      ucast (drop_bit 8 (word_of_int (predict a) :: u16)) # word_of_int (predict_idx a) # 124 # b # bs"
    using p body by (simp add: split_header_def le16_def)
  have st: "\<lparr>predict = sint (u16_le (ucast (word_of_int (predict a) :: u16))
      (ucast (drop_bit 8 (word_of_int (predict a) :: u16)))),
      predict_idx = uint (word_of_int (predict_idx a) :: u8)\<rparr> = a"
    using ok unfolding u16_le_split
    by (cases a) (simp add: adpcm_ok_def le16_sint uint_word_of_int)
  have len: "4 * (len div 4) = len" using enc(2) by simp
  have "decode_from 0 (4 * (len div 4)) b bs a = Some (map predict (track_of ?ds a))"
    using p ok body by (intro decode_from_words [where x = x]) auto
  then show ?thesis unfolding hdr adpcm_to_pcm.simps st by (simp add: len)
qed

text \<open>
  C13. The decoder follows the encoder exactly. From any predictor state, a packet that
  \<open>mic_to_adpcm_split\<close> starts over \<open>len\<close> samples (a multiple of four) is \<open>4 + len / 2\<close> bytes, and
  \<open>adpcm_to_pcm\<close> on it (with one more byte \<open>x\<close> behind it) returns, sample for sample, the predictor
  values that the encoder went through, whatever that byte is; the encoder's final state, which the
  header of the next packet carries, is the last of them. So the two predictors never drift apart.
\<close>

theorem adpcm_decoder_tracks_encoder:
  assumes ok: "adpcm_ok a"
    and enc: "mic_to_adpcm_split ps len True a = Some (pkt, a')" and len: "4 dvd len" "0 < len"
  shows "adpcm_to_pcm (pkt @ [x]) len = Some (map predict (track_of (take len ps) a)) \<and>
    a' = last (track_of (take len ps) a) \<and> adpcm_ok a' \<and> length pkt = 4 + len div 2"
proof -
  let ?ds = "take len ps"
  note p = split_packet [OF enc len]
  have "length pkt = 4 + 2 * (len div 4)"
    using p length_pack_words [of "codes_of ?ds a" "len div 4"] by (simp add: split_header_def)
  moreover have "2 * (len div 4) = len div 2" using len(1) by (auto elim: dvdE)
  moreover have "adpcm_ok a'"
    using ok enc encode_from_ok [of a 0 ?ds 0]
    by (auto simp: mic_to_adpcm_split_def split_beta split: if_splits)
  ultimately show ?thesis using decode_split_packet [OF ok enc len] p(4) by simp
qed

theorem adpcm_decoder_tracks_encoder_witness:
  "\<exists>pkt a'. mic_to_adpcm_split [1000, - 1000, 32767, 5] 4 True split_init = Some (pkt, a') \<and>
     adpcm_to_pcm (pkt @ [255]) 4 = Some (map predict (track_of [1000, - 1000, 32767, 5] split_init)) \<and>
     length pkt = 6"
proof -
  let ?ps = "[1000, - 1000, 32767, 5] :: int list"
  obtain pkt a' where enc: "mic_to_adpcm_split ?ps 4 True split_init = Some (pkt, a')"
    by (simp add: mic_to_adpcm_split_def split_beta)
  have "4 dvd (4 :: nat)" "0 < (4 :: nat)" by simp_all
  from adpcm_decoder_tracks_encoder [OF split_init_ok enc this, of 255] enc show ?thesis by auto
qed

lemma decode_from_needs:
  "decode_from i n code bs a = Some out \<Longrightarrow> (i + n) div 2 \<le> i div 2 + length bs"
proof (induction n arbitrary: i code bs a out)
  case 0
  then show ?case by simp
next
  case (Suc n)
  then obtain a' where a': "decode_code code a = Some a'" by (cases "decode_code code a") auto
  show ?case
  proof (cases "odd i")
    case True
    with Suc.prems a' obtain b bs' o' where "bs = b # bs'" "decode_from (Suc i) n b bs' a' = Some o'"
      by (auto split: list.splits)
    with Suc.IH True show ?thesis by fastforce
  next
    case False
    with Suc.prems a' obtain o' where "decode_from (Suc i) n (drop_bit 4 code) bs a' = Some o'" by auto
    with Suc.IH False show ?thesis by fastforce
  qed
qed

text \<open>
  C14. The decoder reads one byte past its packet: to produce \<open>len\<close> samples it touches byte
  \<open>4 + len / 2\<close>, whatever the packet holds. For the frames of the dongle (128 bytes, 248 samples)
  that is byte 128, which for the last frame of \<open>abuf_mic\<close> lies outside the array.
\<close>

theorem adpcm_decoder_reads_past_packet:
  assumes "length src \<le> 4 + len div 2"
  shows "adpcm_to_pcm src len = None"
proof (cases "\<exists>p0 p1 i0 l0 b bs. src = p0 # p1 # i0 # l0 # b # bs")
  case True
  then obtain p0 p1 i0 l0 b bs where src: "src = p0 # p1 # i0 # l0 # b # bs" by blast
  show ?thesis
  proof (rule ccontr)
    assume "adpcm_to_pcm src len \<noteq> None"
    then obtain out where "decode_from 0 len b bs \<lparr>predict = sint (u16_le p0 p1), predict_idx = uint i0\<rparr> = Some out"
      by (auto simp: src)
    from decode_from_needs [OF this] assms show False by (simp add: src)
  qed
next
  case False
  then show ?thesis by (cases "(src, len)" rule: adpcm_to_pcm.cases) auto
qed

theorem adpcm_decoder_reads_past_packet_witness: "adpcm_to_pcm (replicate 128 0) 248 = None"
  using adpcm_decoder_reads_past_packet [of "replicate 128 0" 248] by simp

lemma clamp_predict_closer:
  "- 32767 \<le> di \<Longrightarrow> di \<le> 32767 \<Longrightarrow> \<bar>di - clamp_predict p\<bar> \<le> \<bar>di - p\<bar>"
  by (auto simp: clamp_predict_def)

lemma signed_choice_error:
  fixes pr q e di :: int
  assumes "neg \<longleftrightarrow> di < pr" "\<bar>\<bar>di - pr\<bar> - q\<bar> \<le> e"
  shows "\<bar>di - (if neg then pr - q else pr + q)\<bar> \<le> e"
  using assms by (cases neg) auto

text \<open>
  C15. Quantisation error of one encoded sample: where the sample is within twice the current step
  of the prediction, the reconstructed value is within an eighth of the step, plus two, of it.
\<close>

theorem adpcm_sample_error_bound:
  assumes ok: "adpcm_ok a" and di: "- 32767 \<le> di" "di \<le> 32767"
    and near: "\<bar>di - predict a\<bar> < 2 * steptbl ! nat (predict_idx a)"
  shows "\<bar>di - predict (snd (encode_sample a di))\<bar> \<le> steptbl ! nat (predict_idx a) div 8 + 2"
proof -
  let ?st = "steptbl ! nat (predict_idx a)" let ?c = "if 0 \<le> di - predict a then 0 else 8 :: nat"
  let ?r = "quantize 4 ?st \<bar>di - predict a\<bar> (?st div 8) ?c"
  have code: "snd ?r \<ge> 8 \<longleftrightarrow> di < predict a"
    using quantize_bits [of ?st "\<bar>di - predict a\<bar>" "?st div 8" ?c] by (auto split: if_splits)
  have err: "\<bar>\<bar>di - predict a\<bar> - fst ?r\<bar> \<le> ?st div 8 + 2"
    using near by (intro quantize_error) simp_all
  let ?p = "if snd ?r \<ge> 8 then predict a - fst ?r else predict a + fst ?r"
  have p: "predict (snd (encode_sample a di)) = clamp_predict ?p"
    by (simp add: encode_sample_def Let_def split_beta)
  have "\<bar>di - clamp_predict ?p\<bar> \<le> \<bar>di - ?p\<bar>" using di by (rule clamp_predict_closer)
  also have "\<dots> \<le> ?st div 8 + 2" using code err by (rule signed_choice_error)
  finally show ?thesis by (simp only: p)
qed

theorem adpcm_sample_error_bound_witness:
  "\<bar>9 - predict (snd (encode_sample split_init 9))\<bar> \<le> 3"
  using adpcm_sample_error_bound [OF split_init_ok, of 9]
  by (simp add: split_init_def steptbl_def)

lemma length_encode_from:
  "length (fst (encode_from i ds c a)) + i div 4 = (i + length ds) div 4"
proof (induction ds arbitrary: i c a)
  case Nil
  then show ?case by simp
next
  case (Cons d ds)
  let ?a = "snd (encode_sample a d)" let ?c = "shift_in c (fst (encode_sample a d))"
  have "Suc i div 4 = (if i mod 4 = 3 then Suc (i div 4) else i div 4)" by presburger
  with Cons.IH [of "Suc i" ?c ?a] show ?case
    by (simp add: encode_from_Cons Let_def split: if_splits)
qed

text \<open>
  C12. Output sizes: for a non-empty run of samples, \<open>pcm_to_adpcm\<close> writes eight raw samples and one
  halfword for each full group of four sample indices, \<open>mic_to_adpcm\<close> two raw samples and the same
  halfwords; with 128 samples the former is the 80 bytes that the code's comment announces.
\<close>

theorem adpcm_output_sizes:
  assumes "0 < len" "len \<le> length ps" "8 \<le> length ps"
  shows "map_option length (pcm_to_adpcm ps len) = Some (8 + len div 4) \<and>
    map_option length (mic_to_adpcm ps len) = Some (2 + len div 4)"
  using assms length_encode_from [of 1 "tl (take len ps)" 0]
  by (simp add: pcm_to_adpcm_def mic_to_adpcm_def)

theorem adpcm_output_sizes_witness:
  "map_option length (pcm_to_adpcm (replicate 128 0) 128) = Some 40 \<and>
   map_option length (mic_to_adpcm (replicate 128 0) 128) = Some 34"
  using adpcm_output_sizes [of 128 "replicate 128 0"] by simp

end
