(* ===== verification/Gpio.thy ===== *)
theory Gpio
  imports Prelude
begin

unbundle bit_operations_syntax

text \<open>
  The GPIO driver of the 8258, \<open>drivers/8258/gpio_8258.c\<close> and the inline functions of
  \<open>gpio_8258.h\<close>. A pin is a sixteen bit number, the group in its high byte and one bit of the low
  byte. The settings of a pin are spread over bit positions of digital registers (\<open>io\<close>, by
  register number) and of analog registers (\<open>ana\<close>); both are plain stores here. What a pin is set
  to is \<open>pin_view\<close>, and the operations of the driver are point updates of it.
\<close>

section \<open>Pins, functions, pull resistors\<close>

named_theorems gpio_consts \<open>the pin, function and pull constants\<close>

definition GPIO_GROUPA :: u16 where [gpio_consts]: "GPIO_GROUPA = 0"
definition GPIO_GROUPB :: u16 where [gpio_consts]: "GPIO_GROUPB = 0x100"
definition GPIO_GROUPC :: u16 where [gpio_consts]: "GPIO_GROUPC = 0x200"
definition GPIO_GROUPD :: u16 where [gpio_consts]: "GPIO_GROUPD = 0x300"
definition GPIO_GROUPE :: u16 where [gpio_consts]: "GPIO_GROUPE = 0x400"
definition GPIO_PA0 :: u16 where [gpio_consts]: "GPIO_PA0 = 1"
definition GPIO_PA1 :: u16 where [gpio_consts]: "GPIO_PA1 = 0x2"
definition GPIO_PA2 :: u16 where [gpio_consts]: "GPIO_PA2 = 0x4"
definition GPIO_PA3 :: u16 where [gpio_consts]: "GPIO_PA3 = 0x8"
definition GPIO_PA4 :: u16 where [gpio_consts]: "GPIO_PA4 = 0x10"
definition GPIO_PA5 :: u16 where [gpio_consts]: "GPIO_PA5 = 0x20"
definition GPIO_PA6 :: u16 where [gpio_consts]: "GPIO_PA6 = 0x40"
definition GPIO_PA7 :: u16 where [gpio_consts]: "GPIO_PA7 = 0x80"
definition GPIO_PB0 :: u16 where [gpio_consts]: "GPIO_PB0 = 0x101"
definition GPIO_PB1 :: u16 where [gpio_consts]: "GPIO_PB1 = 0x102"
definition GPIO_PB2 :: u16 where [gpio_consts]: "GPIO_PB2 = 0x104"
definition GPIO_PB3 :: u16 where [gpio_consts]: "GPIO_PB3 = 0x108"
definition GPIO_PB4 :: u16 where [gpio_consts]: "GPIO_PB4 = 0x110"
definition GPIO_PB5 :: u16 where [gpio_consts]: "GPIO_PB5 = 0x120"
definition GPIO_PB6 :: u16 where [gpio_consts]: "GPIO_PB6 = 0x140"
definition GPIO_PB7 :: u16 where [gpio_consts]: "GPIO_PB7 = 0x180"
definition GPIO_PC0 :: u16 where [gpio_consts]: "GPIO_PC0 = 0x201"
definition GPIO_PC1 :: u16 where [gpio_consts]: "GPIO_PC1 = 0x202"
definition GPIO_PC2 :: u16 where [gpio_consts]: "GPIO_PC2 = 0x204"
definition GPIO_PC3 :: u16 where [gpio_consts]: "GPIO_PC3 = 0x208"
definition GPIO_PC4 :: u16 where [gpio_consts]: "GPIO_PC4 = 0x210"
definition GPIO_PC5 :: u16 where [gpio_consts]: "GPIO_PC5 = 0x220"
definition GPIO_PC6 :: u16 where [gpio_consts]: "GPIO_PC6 = 0x240"
definition GPIO_PC7 :: u16 where [gpio_consts]: "GPIO_PC7 = 0x280"
definition GPIO_PD0 :: u16 where [gpio_consts]: "GPIO_PD0 = 0x301"
definition GPIO_PD1 :: u16 where [gpio_consts]: "GPIO_PD1 = 0x302"
definition GPIO_PD2 :: u16 where [gpio_consts]: "GPIO_PD2 = 0x304"
definition GPIO_PD3 :: u16 where [gpio_consts]: "GPIO_PD3 = 0x308"
definition GPIO_PD4 :: u16 where [gpio_consts]: "GPIO_PD4 = 0x310"
definition GPIO_PD5 :: u16 where [gpio_consts]: "GPIO_PD5 = 0x320"
definition GPIO_PD6 :: u16 where [gpio_consts]: "GPIO_PD6 = 0x340"
definition GPIO_PD7 :: u16 where [gpio_consts]: "GPIO_PD7 = 0x380"
definition GPIO_PE0 :: u16 where [gpio_consts]: "GPIO_PE0 = 0x401"
definition GPIO_PE1 :: u16 where [gpio_consts]: "GPIO_PE1 = 0x402"
definition GPIO_PE2 :: u16 where [gpio_consts]: "GPIO_PE2 = 0x404"
definition GPIO_PE3 :: u16 where [gpio_consts]: "GPIO_PE3 = 0x408"
definition NOT_AS_GPIO :: u8 where [gpio_consts]: "NOT_AS_GPIO = 0"
definition AS_GPIO :: u8 where [gpio_consts]: "AS_GPIO = 1"
definition AS_MSPI :: u8 where [gpio_consts]: "AS_MSPI = 2"
definition AS_SWIRE :: u8 where [gpio_consts]: "AS_SWIRE = 3"
definition AS_UART :: u8 where [gpio_consts]: "AS_UART = 4"
definition AS_I2C :: u8 where [gpio_consts]: "AS_I2C = 5"
definition AS_SPI :: u8 where [gpio_consts]: "AS_SPI = 6"
definition AS_I2S :: u8 where [gpio_consts]: "AS_I2S = 7"
definition AS_AMIC :: u8 where [gpio_consts]: "AS_AMIC = 8"
definition AS_DMIC :: u8 where [gpio_consts]: "AS_DMIC = 9"
definition AS_SDM :: u8 where [gpio_consts]: "AS_SDM = 10"
definition AS_USB :: u8 where [gpio_consts]: "AS_USB = 11"
definition AS_ADC :: u8 where [gpio_consts]: "AS_ADC = 12"
definition AS_CMP :: u8 where [gpio_consts]: "AS_CMP = 13"
definition AS_ATS :: u8 where [gpio_consts]: "AS_ATS = 14"
definition AS_PWM0 :: u8 where [gpio_consts]: "AS_PWM0 = 20"
definition AS_PWM1 :: u8 where [gpio_consts]: "AS_PWM1 = 21"
definition AS_PWM2 :: u8 where [gpio_consts]: "AS_PWM2 = 22"
definition AS_PWM3 :: u8 where [gpio_consts]: "AS_PWM3 = 23"
definition AS_PWM4 :: u8 where [gpio_consts]: "AS_PWM4 = 24"
definition AS_PWM5 :: u8 where [gpio_consts]: "AS_PWM5 = 25"
definition AS_PWM0_N :: u8 where [gpio_consts]: "AS_PWM0_N = 26"
definition AS_PWM1_N :: u8 where [gpio_consts]: "AS_PWM1_N = 27"
definition AS_PWM2_N :: u8 where [gpio_consts]: "AS_PWM2_N = 28"
definition AS_PWM3_N :: u8 where [gpio_consts]: "AS_PWM3_N = 29"
definition AS_PWM4_N :: u8 where [gpio_consts]: "AS_PWM4_N = 30"
definition AS_PWM5_N :: u8 where [gpio_consts]: "AS_PWM5_N = 31"
definition PM_PIN_UP_DOWN_FLOAT :: u8 where [gpio_consts]: "PM_PIN_UP_DOWN_FLOAT = 0"
definition PM_PIN_PULLUP_1M :: u8 where [gpio_consts]: "PM_PIN_PULLUP_1M = 1"
definition PM_PIN_PULLDOWN_100K :: u8 where [gpio_consts]: "PM_PIN_PULLDOWN_100K = 2"
definition PM_PIN_PULLUP_10K :: u8 where [gpio_consts]: "PM_PIN_PULLUP_10K = 3"

section \<open>Registers\<close>

record gpio_st =
  io :: "nat \<Rightarrow> u8"
  ana :: "u8 \<Rightarrow> u8"

definition reg_gpio_in :: "u16 \<Rightarrow> nat" where "reg_gpio_in i = 0x580 + 8 * unat (drop_bit 8 i)"
definition reg_gpio_ie :: "u16 \<Rightarrow> nat" where "reg_gpio_ie i = 0x581 + 8 * unat (drop_bit 8 i)"
definition reg_gpio_oen :: "u16 \<Rightarrow> nat" where "reg_gpio_oen i = 0x582 + 8 * unat (drop_bit 8 i)"
definition reg_gpio_out :: "u16 \<Rightarrow> nat" where "reg_gpio_out i = 0x583 + 8 * unat (drop_bit 8 i)"
definition reg_gpio_pol :: "u16 \<Rightarrow> nat" where "reg_gpio_pol i = 0x584 + 8 * unat (drop_bit 8 i)"
definition reg_gpio_ds :: "u16 \<Rightarrow> nat" where "reg_gpio_ds i = 0x585 + 8 * unat (drop_bit 8 i)"
definition reg_gpio_gpio_func :: "u16 \<Rightarrow> nat" where "reg_gpio_gpio_func i = 0x586 + 8 * unat (drop_bit 8 i)"
definition reg_gpio_irq_wakeup_en :: "u16 \<Rightarrow> nat" where "reg_gpio_irq_wakeup_en i = 0x587 + 8 * unat (drop_bit 8 i)"
definition reg_gpio_irq_risc0_en :: "u16 \<Rightarrow> nat" where "reg_gpio_irq_risc0_en i = 0x5b8 + unat (drop_bit 8 i)"
definition reg_gpio_irq_risc1_en :: "u16 \<Rightarrow> nat" where "reg_gpio_irq_risc1_en i = 0x5c0 + unat (drop_bit 8 i)"

definition anaReg_gpioPB_ie :: u8 where "anaReg_gpioPB_ie = 0xBD"
definition anaReg_gpioPB_ds :: u8 where "anaReg_gpioPB_ds = 0xBF"
definition anaReg_gpioPC_ie :: u8 where "anaReg_gpioPC_ie = 0xC0"
definition anaReg_gpioPC_ds :: u8 where "anaReg_gpioPC_ds = 0xC2"

definition write_io :: "nat \<Rightarrow> u8 \<Rightarrow> gpio_st \<Rightarrow> gpio_st" where
  "write_io a v st = st\<lparr>io := (io st)(a := v)\<rparr>"

definition write_ana :: "u8 \<Rightarrow> u8 \<Rightarrow> gpio_st \<Rightarrow> gpio_st" where
  "write_ana a v st = st\<lparr>ana := (ana st)(a := v)\<rparr>"

definition BM_SET :: "nat \<Rightarrow> u8 \<Rightarrow> gpio_st \<Rightarrow> gpio_st" where
  "BM_SET a m st = write_io a (io st a OR m) st"

definition BM_CLR :: "nat \<Rightarrow> u8 \<Rightarrow> gpio_st \<Rightarrow> gpio_st" where
  "BM_CLR a m st = write_io a (io st a AND NOT m) st"

definition pin_bit :: "u16 \<Rightarrow> u8" where "pin_bit pin = ucast (pin AND 0xff)"
definition pin_group :: "u16 \<Rightarrow> u16" where "pin_group pin = pin AND 0xf00"

section \<open>Operations\<close>

definition gpio_setup_up_down_resistor :: "u16 \<Rightarrow> u8 \<Rightarrow> gpio_st \<Rightarrow> gpio_st" where
  "gpio_setup_up_down_resistor gpio up_down st =
     (let r_val = up_down AND 0x03;
          base_ana_reg = 0x0e + push_bit 1 (ucast (drop_bit 8 gpio)) + (if gpio AND 0xf0 \<noteq> 0 then 1 else 0) :: u8;
          put = (\<lambda>shift_num mask_not.
            write_ana base_ana_reg ((ana st base_ana_reg AND mask_not) OR push_bit shift_num r_val) st)
      in if gpio AND 0x11 \<noteq> 0 then put 0 0xfc
         else if gpio AND 0x22 \<noteq> 0 then put 2 0xf3
         else if gpio AND 0x44 \<noteq> 0 then put 4 0xcf
         else if gpio AND 0x88 \<noteq> 0 then put 6 0x3f
         else st)"

definition gpio_set_wakeup :: "u16 \<Rightarrow> bool \<Rightarrow> bool \<Rightarrow> gpio_st \<Rightarrow> gpio_st" where
  "gpio_set_wakeup pin level_high en st =
     (let bit = pin_bit pin;
          st1 = (if en then BM_SET (reg_gpio_irq_wakeup_en pin) bit st else BM_CLR (reg_gpio_irq_wakeup_en pin) bit st)
      in if level_high then BM_CLR (reg_gpio_pol pin) bit st1 else BM_SET (reg_gpio_pol pin) bit st1)"

definition gpio_set_input_en :: "u16 \<Rightarrow> bool \<Rightarrow> gpio_st \<Rightarrow> gpio_st" where
  "gpio_set_input_en pin value st =
     (let bit = pin_bit pin; group = pin_group pin in
      if group = GPIO_GROUPA \<or> group = GPIO_GROUPD \<or> group = GPIO_GROUPE
      then if value then BM_SET (reg_gpio_ie pin) bit st else BM_CLR (reg_gpio_ie pin) bit st
      else if group = GPIO_GROUPB
      then if value then write_ana anaReg_gpioPB_ie (ana st anaReg_gpioPB_ie OR bit) st
           else write_ana anaReg_gpioPB_ie (ana st anaReg_gpioPB_ie AND NOT bit) st
      else if group = GPIO_GROUPC
      then if value then write_ana anaReg_gpioPC_ie (ana st anaReg_gpioPC_ie OR bit) st
           else write_ana anaReg_gpioPC_ie (ana st anaReg_gpioPC_ie AND NOT bit) st
      else st)"

definition gpio_set_data_strength :: "u16 \<Rightarrow> bool \<Rightarrow> gpio_st \<Rightarrow> gpio_st" where
  "gpio_set_data_strength pin value st =
     (let bit = pin_bit pin; group = pin_group pin in
      if group = GPIO_GROUPA \<or> group = GPIO_GROUPD \<or> group = GPIO_GROUPE
      then if value then BM_SET (reg_gpio_ds pin) bit st else BM_CLR (reg_gpio_ds pin) bit st
      else if group = GPIO_GROUPB
      then if value then write_ana anaReg_gpioPB_ds (ana st anaReg_gpioPB_ds OR bit) st
           else write_ana anaReg_gpioPB_ds (ana st anaReg_gpioPB_ds AND NOT bit) st
      else if group = GPIO_GROUPC
      then if value then write_ana anaReg_gpioPC_ds (ana st anaReg_gpioPC_ds OR bit) st
           else write_ana anaReg_gpioPC_ds (ana st anaReg_gpioPC_ds AND NOT bit) st
      else st)"

definition gpio_core_wakeup_enable_all :: "bool \<Rightarrow> gpio_st \<Rightarrow> gpio_st" where
  "gpio_core_wakeup_enable_all en st = (if en then BM_SET 0x5b5 4 st else BM_CLR 0x5b5 4 st)"

definition gpio_core_irq_enable_all :: "bool \<Rightarrow> gpio_st \<Rightarrow> gpio_st" where
  "gpio_core_irq_enable_all en st = (if en then BM_SET 0x5b5 8 st else BM_CLR 0x5b5 8 st)"

definition gpio_is_output_en :: "u16 \<Rightarrow> gpio_st \<Rightarrow> bool" where
  "gpio_is_output_en pin st \<longleftrightarrow> io st (reg_gpio_oen pin) AND pin_bit pin = 0"

definition gpio_is_input_en :: "u16 \<Rightarrow> gpio_st \<Rightarrow> bool" where
  "gpio_is_input_en pin st \<longleftrightarrow> io st (reg_gpio_ie pin) AND pin_bit pin \<noteq> 0"

definition gpio_set_output_en :: "u16 \<Rightarrow> bool \<Rightarrow> gpio_st \<Rightarrow> gpio_st" where
  "gpio_set_output_en pin value st =
     (if \<not> value then BM_SET (reg_gpio_oen pin) (pin_bit pin) st else BM_CLR (reg_gpio_oen pin) (pin_bit pin) st)"

definition gpio_write :: "u16 \<Rightarrow> bool \<Rightarrow> gpio_st \<Rightarrow> gpio_st" where
  "gpio_write pin value st =
     (if value then BM_SET (reg_gpio_out pin) (pin_bit pin) st else BM_CLR (reg_gpio_out pin) (pin_bit pin) st)"

definition gpio_toggle :: "u16 \<Rightarrow> gpio_st \<Rightarrow> gpio_st" where
  "gpio_toggle pin st = write_io (reg_gpio_out pin) (io st (reg_gpio_out pin) XOR pin_bit pin) st"

definition gpio_read :: "u16 \<Rightarrow> gpio_st \<Rightarrow> u8" where
  "gpio_read pin st = io st (reg_gpio_in pin) AND pin_bit pin"

text \<open>A cache holds the input registers of the first four groups; a pin of group E reads past it.\<close>

definition gpio_read_all :: "gpio_st \<Rightarrow> u8 list" where
  "gpio_read_all st = [io st 0x580, io st 0x588, io st 0x590, io st 0x598]"

definition gpio_read_cache :: "u16 \<Rightarrow> u8 list \<Rightarrow> u8 option" where
  "gpio_read_cache pin p =
     (let g = unat (drop_bit 8 pin) in if g < length p then Some (p ! g AND pin_bit pin) else None)"

definition gpio_set_interrupt_pol :: "u16 \<Rightarrow> bool \<Rightarrow> gpio_st \<Rightarrow> gpio_st" where
  "gpio_set_interrupt_pol pin falling st =
     (if falling then BM_SET (reg_gpio_pol pin) (pin_bit pin) st else BM_CLR (reg_gpio_pol pin) (pin_bit pin) st)"

definition gpio_en_interrupt :: "u16 \<Rightarrow> bool \<Rightarrow> gpio_st \<Rightarrow> gpio_st" where
  "gpio_en_interrupt pin en st =
     (if en then BM_SET (reg_gpio_irq_wakeup_en pin) (pin_bit pin) st
      else BM_CLR (reg_gpio_irq_wakeup_en pin) (pin_bit pin) st)"

definition gpio_set_interrupt :: "u16 \<Rightarrow> bool \<Rightarrow> gpio_st \<Rightarrow> gpio_st" where
  "gpio_set_interrupt pin falling st =
     (let st1 = BM_SET (reg_gpio_irq_wakeup_en pin) (pin_bit pin) st
      in if falling then BM_SET (reg_gpio_pol pin) (pin_bit pin) st1 else BM_CLR (reg_gpio_pol pin) (pin_bit pin) st1)"

definition gpio_en_interrupt_risc0 :: "u16 \<Rightarrow> bool \<Rightarrow> gpio_st \<Rightarrow> gpio_st" where
  "gpio_en_interrupt_risc0 pin en st =
     (if en then BM_SET (reg_gpio_irq_risc0_en pin) (pin_bit pin) st
      else BM_CLR (reg_gpio_irq_risc0_en pin) (pin_bit pin) st)"

definition gpio_set_interrupt_risc0 :: "u16 \<Rightarrow> bool \<Rightarrow> gpio_st \<Rightarrow> gpio_st" where
  "gpio_set_interrupt_risc0 pin falling st =
     (let st1 = BM_SET (reg_gpio_irq_risc0_en pin) (pin_bit pin) st
      in if falling then BM_SET (reg_gpio_pol pin) (pin_bit pin) st1 else BM_CLR (reg_gpio_pol pin) (pin_bit pin) st1)"

definition gpio_en_interrupt_risc1 :: "u16 \<Rightarrow> bool \<Rightarrow> gpio_st \<Rightarrow> gpio_st" where
  "gpio_en_interrupt_risc1 pin en st =
     (if en then BM_SET (reg_gpio_irq_risc1_en pin) (pin_bit pin) st
      else BM_CLR (reg_gpio_irq_risc1_en pin) (pin_bit pin) st)"

definition gpio_set_interrupt_risc1 :: "u16 \<Rightarrow> bool \<Rightarrow> gpio_st \<Rightarrow> gpio_st" where
  "gpio_set_interrupt_risc1 pin falling st =
     (let st1 = BM_SET (reg_gpio_irq_risc1_en pin) (pin_bit pin) st
      in if falling then BM_SET (reg_gpio_pol pin) (pin_bit pin) st1 else BM_CLR (reg_gpio_pol pin) (pin_bit pin) st1)"

section \<open>Special functions\<close>

text \<open>
  The cases of \<open>gpio_config_special_func\<close> by group: the mask that clears the field of the pin and,
  in the order of the tests, the functions with the value each one selects.
\<close>

definition mux_a :: "(u16 \<times> u8 \<times> (u8 \<times> u8) list) list" where
  "mux_a =
    [(GPIO_PA0, (0xfc, [(AS_DMIC, 0), (AS_PWM0_N, 1), (AS_UART, 2)])),
     (GPIO_PA1, (0xf3, [(AS_DMIC, 0), (AS_UART, 4), (AS_I2S, 8)])),
     (GPIO_PA2, (0xcf, [(AS_SPI, 0), (AS_UART, 0x10), (AS_PWM0, 0x20)])),
     (GPIO_PA3, (0x3f, [(AS_SPI, 0), (AS_I2C, 0), (AS_UART, 0x40), (AS_PWM1, 0x80)])),
     (GPIO_PA4, (0xfc, [(AS_SPI, 0), (AS_I2C, 0), (AS_UART, 1), (AS_PWM2, 2)])),
     (GPIO_PA7, (0x3f, [(AS_SWIRE, 0), (AS_UART, 0x40)]))]"

definition mux_b :: "(u16 \<times> u8 \<times> (u8 \<times> u8) list) list" where
  "mux_b =
    [(GPIO_PB0, (0xfc, [(AS_PWM3, 0), (AS_UART, 1), (AS_ATS, 2)])),
     (GPIO_PB1, (0xf3, [(AS_PWM4, 0), (AS_UART, 4), (AS_ATS, 8)])),
     (GPIO_PB2, (0xcf, [(AS_PWM5, 0), (AS_UART, 0x10)])),
     (GPIO_PB3, (0x3f, [(AS_PWM0_N, 0), (AS_UART, 0x40)])),
     (GPIO_PB4, (0xfc, [(AS_SDM, 0), (AS_PWM4, 1), (AS_CMP, 2)])),
     (GPIO_PB5, (0xf3, [(AS_SDM, 0), (AS_PWM5, 4), (AS_CMP, 8)])),
     (GPIO_PB6, (0xcf, [(AS_SDM, 0), (AS_SPI, 0x10), (AS_I2C, 0x10), (AS_UART, 0x20)])),
     (GPIO_PB7, (0x3f, [(AS_SDM, 0), (AS_SPI, 0x40), (AS_UART, 0x80)]))]"

definition mux_c :: "(u16 \<times> u8 \<times> (u8 \<times> u8) list) list" where
  "mux_c =
    [(GPIO_PC0, (0xfc, [(AS_I2C, 0), (AS_PWM4_N, 1), (AS_UART, 2)])),
     (GPIO_PC1, (0xf3, [(AS_I2C, 0), (AS_PWM1_N, 4), (AS_PWM0, 8)])),
     (GPIO_PC2, (0xcf, [(AS_PWM0, 0), (AS_UART, 0x10), (AS_I2C, 0x20)])),
     (GPIO_PC3, (0x3f, [(AS_PWM1, 0), (AS_UART, 0x40), (AS_I2C, 0x80)])),
     (GPIO_PC4, (0xfc, [(AS_PWM2, 0), (AS_UART, 1), (AS_PWM0_N, 2)])),
     (GPIO_PC5, (0xf3, [(AS_PWM3_N, 0), (AS_UART, 4), (AS_ATS, 8)])),
     (GPIO_PC6, (0xcf, [(AS_ATS, 0x10), (AS_PWM4_N, 0x20)])),
     (GPIO_PC7, (0x3f, [(AS_ATS, 0x40), (AS_PWM5_N, 0x80)]))]"

definition mux_d :: "(u16 \<times> u8 \<times> (u8 \<times> u8) list) list" where
  "mux_d =
    [(GPIO_PD0, (0xfc, [(AS_CMP, 1), (AS_UART, 2)])),
     (GPIO_PD1, (0xf3, [(AS_CMP, 1), (AS_UART, 4)])),
     (GPIO_PD2, (0xcf, [(AS_SPI, 0), (AS_I2S, 0x10), (AS_PWM3, 0x20)])),
     (GPIO_PD3, (0x3f, [(AS_PWM1_N, 0), (AS_I2S, 0x40), (AS_UART, 0x80)])),
     (GPIO_PD4, (0xfc, [(AS_SWIRE, 0), (AS_I2S, 1), (AS_PWM2_N, 2)])),
     (GPIO_PD5, (0xf3, [(AS_PWM0, 0), (AS_CMP, 4), (AS_PWM0_N, 8)])),
     (GPIO_PD6, (0xcf, [(AS_SPI, 0), (AS_UART, 0x10), (AS_ATS, 0x20)])),
     (GPIO_PD7, (0x3f, [(AS_SPI, 0), (AS_I2C, 0), (AS_I2S, 0x40), (AS_UART, 0x80)]))]"

definition gpio_config_special_func :: "u16 \<Rightarrow> u8 \<Rightarrow> gpio_st \<Rightarrow> gpio_st" where
  "gpio_config_special_func pin func st =
     (let st1 = (if pin = GPIO_PA5 \<or> pin = GPIO_PA6 then gpio_set_input_en pin True st else st);
          (msk, val) = (case map_of (mux_a @ mux_b @ mux_c @ mux_d) pin of
              None \<Rightarrow> (0xff, 0)
            | Some (msk, fs) \<Rightarrow> (msk, case map_of fs func of None \<Rightarrow> 0 | Some v \<Rightarrow> v));
          reg = 0x5a8 + 2 * unat (drop_bit 8 pin) + (if pin AND 0x0f0 \<noteq> 0 then 1 else 0)
      in write_io reg ((io st1 reg AND msk) OR val) st1)"

definition gpio_set_func :: "u16 \<Rightarrow> u8 \<Rightarrow> gpio_st \<Rightarrow> gpio_st" where
  "gpio_set_func pin func st =
     (if func = AS_GPIO then BM_SET (reg_gpio_gpio_func pin) (pin_bit pin) st
      else let st1 = BM_CLR (reg_gpio_gpio_func pin) (pin_bit pin) st
           in if func > AS_GPIO then gpio_config_special_func pin func st1 else st1)"

definition gpio_config_baseband_debug_mode :: "gpio_st \<Rightarrow> gpio_st" where
  "gpio_config_baseband_debug_mode st =
     (let st1 = BM_SET 0x5b6 4 (BM_SET 0x5b6 2 (BM_CLR 0x5b6 1 st));
          st2 = write_io 0x586 (io st1 0x586 AND 0xE0) st1;
          st3 = write_io 0x5a9 0x03 (write_io 0x5a8 0xFF st2);
          st4 = write_io 0x596 (io st3 0x596 AND 0xF8) st3
      in write_io 0x5ac 0x3F st4)"

section \<open>Initialisation from the configuration of the board\<close>

record pin_cfg =
  INPUT_ENABLE :: u32
  OUTPUT_ENABLE :: u32
  DATA_STRENGTH :: u32
  DATA_OUT :: u32
  FUNC :: u8
  PULL :: u8

definition pa_default :: "pin_cfg list" where
  "pa_default =
    [pin_cfg.make 0 0 1 0 AS_GPIO 0,
     pin_cfg.make 0 0 1 0 AS_GPIO 0,
     pin_cfg.make 0 0 1 0 AS_GPIO 0,
     pin_cfg.make 0 0 1 0 AS_GPIO 0,
     pin_cfg.make 0 0 1 0 AS_GPIO 0,
     pin_cfg.make 0 0 1 0 AS_GPIO 0,
     pin_cfg.make 0 0 1 0 AS_GPIO 0,
     pin_cfg.make 1 0 1 0 AS_SWIRE PM_PIN_PULLUP_1M]"

definition pb_default :: "pin_cfg list" where
  "pb_default =
    [pin_cfg.make 0 0 1 0 AS_GPIO 0,
     pin_cfg.make 0 0 1 0 AS_GPIO 0,
     pin_cfg.make 0 0 1 0 AS_GPIO 0,
     pin_cfg.make 0 0 1 0 AS_GPIO 0,
     pin_cfg.make 0 0 1 0 AS_GPIO 0,
     pin_cfg.make 0 0 1 0 AS_GPIO 0,
     pin_cfg.make 0 0 1 0 AS_GPIO 0,
     pin_cfg.make 0 0 1 0 AS_GPIO 0]"

definition pc_default :: "pin_cfg list" where
  "pc_default =
    [pin_cfg.make 0 0 1 0 AS_GPIO 0,
     pin_cfg.make 0 0 1 0 AS_GPIO 0,
     pin_cfg.make 0 0 1 0 AS_GPIO 0,
     pin_cfg.make 0 0 1 0 AS_GPIO 0,
     pin_cfg.make 0 0 1 0 AS_GPIO 0,
     pin_cfg.make 0 0 1 0 AS_GPIO 0,
     pin_cfg.make 0 0 1 0 AS_GPIO 0,
     pin_cfg.make 0 0 1 0 AS_GPIO 0]"

definition pd_default :: "pin_cfg list" where
  "pd_default =
    [pin_cfg.make 0 0 1 0 AS_GPIO 0,
     pin_cfg.make 0 0 1 0 AS_GPIO 0,
     pin_cfg.make 0 0 1 0 AS_GPIO 0,
     pin_cfg.make 0 0 1 0 AS_GPIO 0,
     pin_cfg.make 0 0 1 0 AS_GPIO 0,
     pin_cfg.make 0 0 1 0 AS_GPIO 0,
     pin_cfg.make 0 0 1 0 AS_GPIO 0,
     pin_cfg.make 0 0 1 0 AS_GPIO 0]"

definition pe_default :: "pin_cfg list" where
  "pe_default =
    [pin_cfg.make 1 0 1 0 AS_MSPI 0,
     pin_cfg.make 1 0 1 0 AS_MSPI 0,
     pin_cfg.make 1 0 1 0 AS_MSPI 0,
     pin_cfg.make 1 0 1 0 AS_MSPI 0]"

record gpio_cfg =
  pa :: "pin_cfg list"
  pb :: "pin_cfg list"
  pc :: "pin_cfg list"
  pd :: "pin_cfg list"
  pe :: "pin_cfg list"

definition default_cfg :: gpio_cfg where
  "default_cfg = \<lparr>pa = pa_default, pb = pb_default, pc = pc_default, pd = pd_default, pe = pe_default\<rparr>"

text \<open>The long sums of \<open>gpio_init\<close>: one value for each pin of a group, shifted to its place.\<close>

definition or_pins :: "nat \<Rightarrow> (pin_cfg \<Rightarrow> u32) \<Rightarrow> pin_cfg list \<Rightarrow> u32" where
  "or_pins s f ps = foldr (\<lambda>(i, p) acc. push_bit (s + i) (f p) OR acc) (enumerate 0 ps) 0"

definition OEN :: "pin_cfg \<Rightarrow> u32" where "OEN p = (if OUTPUT_ENABLE p \<noteq> 0 then 0 else 1)"
definition AS_GPIO_BIT :: "pin_cfg \<Rightarrow> u32" where "AS_GPIO_BIT p = (if FUNC p = AS_GPIO then 1 else 0)"

definition write_io32 :: "nat \<Rightarrow> u32 \<Rightarrow> gpio_st \<Rightarrow> gpio_st" where
  "write_io32 a v st =
     write_io (a + 3) (ucast (drop_bit 24 v)) (write_io (a + 2) (ucast (drop_bit 16 v))
       (write_io (a + 1) (ucast (drop_bit 8 v)) (write_io a (ucast v) st)))"

definition setting1 :: "pin_cfg list \<Rightarrow> u32" where
  "setting1 ps = or_pins 8 INPUT_ENABLE ps OR or_pins 16 OEN ps OR or_pins 24 DATA_OUT ps"

definition setting2 :: "pin_cfg list \<Rightarrow> u32" where
  "setting2 ps = or_pins 8 DATA_STRENGTH ps OR or_pins 16 AS_GPIO_BIT ps"

definition pull_byte :: "pin_cfg list \<Rightarrow> nat \<Rightarrow> u8" where
  "pull_byte ps k = PULL (ps ! k) OR push_bit 2 (PULL (ps ! (k + 1))) OR push_bit 4 (PULL (ps ! (k + 2))) OR
     push_bit 6 (PULL (ps ! (k + 3)))"

definition gpio_analog_resistance_init :: "gpio_cfg \<Rightarrow> gpio_st \<Rightarrow> gpio_st" where
  "gpio_analog_resistance_init c st =
     write_ana 0x15 (pull_byte (pd c) 4) (write_ana 0x14 (pull_byte (pd c) 0)
       (write_ana 0x13 (pull_byte (pc c) 4) (write_ana 0x12 (pull_byte (pc c) 0)
         (write_ana 0x11 (pull_byte (pb c) 4) (write_ana 0x10 (pull_byte (pb c) 0)
           (write_ana 0x0f (pull_byte (pa c) 4) (write_ana 0x0e (pull_byte (pa c) 0) st)))))))"

definition gpio_init :: "gpio_cfg \<Rightarrow> bool \<Rightarrow> gpio_st \<Rightarrow> gpio_st" where
  "gpio_init c anaRes_init_en st =
     (let st1 = write_io32 0x584 (setting2 (pa c)) (write_io32 0x580 (setting1 (pa c)) st);
          st2 = write_ana anaReg_gpioPB_ie (ucast (or_pins 0 INPUT_ENABLE (pb c))) st1;
          st3 = write_io 0x58b (ucast (or_pins 0 DATA_OUT (pb c))) (write_io 0x58a (ucast (or_pins 0 OEN (pb c))) st2);
          st4 = write_io 0x58e (ucast (or_pins 0 AS_GPIO_BIT (pb c)))
                  (write_ana anaReg_gpioPB_ds (ucast (or_pins 0 DATA_STRENGTH (pb c))) st3);
          st5 = write_ana anaReg_gpioPC_ie (ucast (or_pins 0 INPUT_ENABLE (pc c))) st4;
          st6 = write_io 0x593 (ucast (or_pins 0 DATA_OUT (pc c))) (write_io 0x592 (ucast (or_pins 0 OEN (pc c))) st5);
          st7 = write_io 0x596 (ucast (or_pins 0 AS_GPIO_BIT (pc c)))
                  (write_ana anaReg_gpioPC_ds (ucast (or_pins 0 DATA_STRENGTH (pc c))) st6);
          st8 = write_io32 0x59c (setting2 (pd c)) (write_io32 0x598 (setting1 (pd c)) st7);
          st9 = write_io 0x5a2 (ucast (or_pins 0 OEN (pe c))) (write_io 0x5a1 (ucast (or_pins 0 INPUT_ENABLE (pe c))) st8);
          st10 = write_io 0x5a6 (ucast (or_pins 0 AS_GPIO_BIT (pe c)))
                   (write_io 0x5a5 (ucast (or_pins 0 DATA_STRENGTH (pe c)))
                     (write_io 0x5a3 (ucast (or_pins 0 DATA_OUT (pe c))) st9))
      in if anaRes_init_en then gpio_analog_resistance_init c st10 else st10)"


section \<open>What a pin is set to\<close>

text \<open>Pin \<open>i\<close> of group \<open>g\<close>, and where the hardware keeps its settings.\<close>

definition pin_of :: "nat \<Rightarrow> nat \<Rightarrow> u16" where
  "pin_of g i = push_bit 8 (of_nat g) OR push_bit i 1"

definition is_pin :: "nat \<Rightarrow> nat \<Rightarrow> bool" where
  "is_pin g i \<longleftrightarrow> g < 4 \<and> i < 8 \<or> g = 4 \<and> i < 4"

record pin_view =
  v_input :: bool
  v_output :: bool
  v_out :: bool
  v_pol :: bool
  v_strength :: bool
  v_gpio :: bool
  v_irq :: bool
  v_risc0 :: bool
  v_risc1 :: bool
  v_pull :: u8
  v_mux :: u8

definition field2 :: "nat \<Rightarrow> u8 \<Rightarrow> u8" where
  "field2 k x = drop_bit (2 * k) x AND 3"

definition pin_view :: "gpio_st \<Rightarrow> nat \<Rightarrow> nat \<Rightarrow> pin_view" where
  "pin_view st g i = \<lparr>
     v_input = bit (if g = 1 then ana st anaReg_gpioPB_ie else if g = 2 then ana st anaReg_gpioPC_ie
                    else io st (0x581 + 8 * g)) i,
     v_output = (\<not> bit (io st (0x582 + 8 * g)) i),
     v_out = bit (io st (0x583 + 8 * g)) i,
     v_pol = bit (io st (0x584 + 8 * g)) i,
     v_strength = bit (if g = 1 then ana st anaReg_gpioPB_ds else if g = 2 then ana st anaReg_gpioPC_ds
                    else io st (0x585 + 8 * g)) i,
     v_gpio = bit (io st (0x586 + 8 * g)) i,
     v_irq = bit (io st (0x587 + 8 * g)) i,
     v_risc0 = bit (io st (0x5b8 + g)) i,
     v_risc1 = bit (io st (0x5c0 + g)) i,
     v_pull = (if g < 4 then field2 (i mod 4) (ana st (of_nat (0x0e + 2 * g + i div 4))) else 0),
     v_mux = (if g < 4 then field2 (i mod 4) (io st (0x5a8 + 2 * g + i div 4)) else 0)\<rparr>"

datatype gpio_op =
    Pull u8 | Wakeup bool bool | Input_en bool | Strength bool | Output_en bool | Write bool | Toggle
  | Interrupt_pol bool | En_interrupt bool | Set_interrupt bool
  | En_interrupt_risc0 bool | Set_interrupt_risc0 bool | En_interrupt_risc1 bool | Set_interrupt_risc1 bool
  | Func u8

fun gpio_do :: "gpio_op \<Rightarrow> u16 \<Rightarrow> gpio_st \<Rightarrow> gpio_st" where
  "gpio_do (Pull v) p = gpio_setup_up_down_resistor p v"
| "gpio_do (Wakeup high en) p = gpio_set_wakeup p high en"
| "gpio_do (Input_en b) p = gpio_set_input_en p b"
| "gpio_do (Strength b) p = gpio_set_data_strength p b"
| "gpio_do (Output_en b) p = gpio_set_output_en p b"
| "gpio_do (Write b) p = gpio_write p b"
| "gpio_do Toggle p = gpio_toggle p"
| "gpio_do (Interrupt_pol f) p = gpio_set_interrupt_pol p f"
| "gpio_do (En_interrupt b) p = gpio_en_interrupt p b"
| "gpio_do (Set_interrupt f) p = gpio_set_interrupt p f"
| "gpio_do (En_interrupt_risc0 b) p = gpio_en_interrupt_risc0 p b"
| "gpio_do (Set_interrupt_risc0 f) p = gpio_set_interrupt_risc0 p f"
| "gpio_do (En_interrupt_risc1 b) p = gpio_en_interrupt_risc1 p b"
| "gpio_do (Set_interrupt_risc1 f) p = gpio_set_interrupt_risc1 p f"
| "gpio_do (Func f) p = gpio_set_func p f"

text \<open>The contract: what each operation makes of the settings of its pin.\<close>

definition mux_value :: "u16 \<Rightarrow> u8 \<Rightarrow> u8 option" where
  "mux_value pin func = (case map_of (mux_a @ mux_b @ mux_c @ mux_d) pin of None \<Rightarrow> None
     | Some (msk, fs) \<Rightarrow> Some (case map_of fs func of None \<Rightarrow> 0 | Some v \<Rightarrow> v))"

fun view_do :: "gpio_op \<Rightarrow> nat \<Rightarrow> nat \<Rightarrow> pin_view \<Rightarrow> pin_view" where
  "view_do (Pull v) g i w = (if g < 4 then w\<lparr>v_pull := v AND 3\<rparr> else w)"
| "view_do (Wakeup high en) g i w = w\<lparr>v_irq := en, v_pol := \<not> high\<rparr>"
| "view_do (Input_en b) g i w = w\<lparr>v_input := b\<rparr>"
| "view_do (Strength b) g i w = w\<lparr>v_strength := b\<rparr>"
| "view_do (Output_en b) g i w = w\<lparr>v_output := b\<rparr>"
| "view_do (Write b) g i w = w\<lparr>v_out := b\<rparr>"
| "view_do Toggle g i w = w\<lparr>v_out := \<not> v_out w\<rparr>"
| "view_do (Interrupt_pol f) g i w = w\<lparr>v_pol := f\<rparr>"
| "view_do (En_interrupt b) g i w = w\<lparr>v_irq := b\<rparr>"
| "view_do (Set_interrupt f) g i w = w\<lparr>v_irq := True, v_pol := f\<rparr>"
| "view_do (En_interrupt_risc0 b) g i w = w\<lparr>v_risc0 := b\<rparr>"
| "view_do (Set_interrupt_risc0 f) g i w = w\<lparr>v_risc0 := True, v_pol := f\<rparr>"
| "view_do (En_interrupt_risc1 b) g i w = w\<lparr>v_risc1 := b\<rparr>"
| "view_do (Set_interrupt_risc1 f) g i w = w\<lparr>v_risc1 := True, v_pol := f\<rparr>"
| "view_do (Func f) g i w =
     (let w1 = w\<lparr>v_gpio := (f = AS_GPIO)\<rparr> in
      if f \<le> AS_GPIO then w1
      else if g = 0 \<and> (i = 5 \<or> i = 6) then w1\<lparr>v_input := True\<rparr>
      else case mux_value (pin_of g i) f of None \<Rightarrow> w1 | Some v \<Rightarrow> w1\<lparr>v_mux := field2 (i mod 4) v\<rparr>)"

section \<open>Pins and bits\<close>

lemma less_5: "g < 5 \<longleftrightarrow> g = 0 \<or> g = 1 \<or> g = 2 \<or> g = 3 \<or> g = (4::nat)" by auto

lemma less_8: "i < 8 \<longleftrightarrow> i = 0 \<or> i = 1 \<or> i = 2 \<or> i = 3 \<or> i = 4 \<or> i = 5 \<or> i = 6 \<or> i = (7::nat)" by auto

lemma is_pin_bounds: "is_pin g i \<Longrightarrow> g < 5 \<and> i < 8"
  by (auto simp: is_pin_def)

lemma pin_of_parts:
  assumes "is_pin g i"
  shows "unat (drop_bit 8 (pin_of g i)) = g" "pin_bit (pin_of g i) = push_bit i 1"
    "pin_group (pin_of g i) = push_bit 8 (of_nat g)"
  using is_pin_bounds [OF assms] by (auto simp: less_5 less_8 pin_of_def pin_bit_def pin_group_def)

lemma bit_pin [simp]: "bit (push_bit i 1 :: u8) j \<longleftrightarrow> j = i \<and> i < 8"
  by (auto simp: bit_simps)

section \<open>Addresses of the settings\<close>

definition bank :: "nat \<Rightarrow> nat \<Rightarrow> nat" where "bank k g = 0x580 + k + 8 * g"
definition risc_reg :: "nat \<Rightarrow> nat \<Rightarrow> nat" where "risc_reg k g = 0x5b8 + 8 * k + g"
definition mux_reg :: "nat \<Rightarrow> nat \<Rightarrow> nat" where "mux_reg g i = 0x5a8 + 2 * g + i div 4"
definition pull_reg :: "nat \<Rightarrow> nat \<Rightarrow> u8" where "pull_reg g i = of_nat (0x0e + 2 * g + i div 4)"

lemma reg_of_pin:
  assumes "is_pin g i"
  shows "reg_gpio_ie (pin_of g i) = bank 1 g" "reg_gpio_oen (pin_of g i) = bank 2 g"
    "reg_gpio_out (pin_of g i) = bank 3 g" "reg_gpio_pol (pin_of g i) = bank 4 g"
    "reg_gpio_ds (pin_of g i) = bank 5 g" "reg_gpio_gpio_func (pin_of g i) = bank 6 g"
    "reg_gpio_irq_wakeup_en (pin_of g i) = bank 7 g"
    "reg_gpio_irq_risc0_en (pin_of g i) = risc_reg 0 g" "reg_gpio_irq_risc1_en (pin_of g i) = risc_reg 1 g"
  using pin_of_parts(1) [OF assms]
  by (simp_all add: reg_gpio_ie_def reg_gpio_oen_def reg_gpio_out_def reg_gpio_pol_def reg_gpio_ds_def
      reg_gpio_gpio_func_def reg_gpio_irq_wakeup_en_def reg_gpio_irq_risc0_en_def reg_gpio_irq_risc1_en_def
      bank_def risc_reg_def)

lemma even_odd_pair: "a \<le> 1 \<Longrightarrow> b \<le> 1 \<Longrightarrow> 2 * g + a = 2 * h + b \<Longrightarrow> g = h \<and> a = b" for a b g h :: nat
  by presburger

lemma reg_distinct [simp]:
  "\<lbrakk>k < 8; l < 8\<rbrakk> \<Longrightarrow> bank k g = bank l h \<longleftrightarrow> k = l \<and> g = h"
  "\<lbrakk>g < 5; h < 5\<rbrakk> \<Longrightarrow> risc_reg k g = risc_reg l h \<longleftrightarrow> k = l \<and> g = h"
  "\<lbrakk>i < 8; j < 8\<rbrakk> \<Longrightarrow> mux_reg g i = mux_reg h j \<longleftrightarrow> g = h \<and> i div 4 = j div 4"
  "\<lbrakk>k < 8; g < 5\<rbrakk> \<Longrightarrow> bank k g \<noteq> risc_reg l h" "\<lbrakk>k < 8; g < 5\<rbrakk> \<Longrightarrow> risc_reg l h \<noteq> bank k g"
  "\<lbrakk>k < 8; g < 5\<rbrakk> \<Longrightarrow> bank k g \<noteq> mux_reg h j" "\<lbrakk>k < 8; g < 5\<rbrakk> \<Longrightarrow> mux_reg h j \<noteq> bank k g"
  "\<lbrakk>h < 4; j < 8\<rbrakk> \<Longrightarrow> risc_reg k g \<noteq> mux_reg h j" "\<lbrakk>h < 4; j < 8\<rbrakk> \<Longrightarrow> mux_reg h j \<noteq> risc_reg k g"
proof -
  have d: "i div 4 \<le> 1" if "i < 8" for i :: nat using that by linarith
  show "\<lbrakk>k < 8; l < 8\<rbrakk> \<Longrightarrow> bank k g = bank l h \<longleftrightarrow> k = l \<and> g = h"
    unfolding bank_def by presburger
  show "\<lbrakk>g < 5; h < 5\<rbrakk> \<Longrightarrow> risc_reg k g = risc_reg l h \<longleftrightarrow> k = l \<and> g = h"
    unfolding risc_reg_def by presburger
  show "\<lbrakk>i < 8; j < 8\<rbrakk> \<Longrightarrow> mux_reg g i = mux_reg h j \<longleftrightarrow> g = h \<and> i div 4 = j div 4"
    using even_odd_pair [of "i div 4" "j div 4" g h] d [of i] d [of j] by (auto simp: mux_reg_def)
  show "\<lbrakk>k < 8; g < 5\<rbrakk> \<Longrightarrow> bank k g \<noteq> risc_reg l h" "\<lbrakk>k < 8; g < 5\<rbrakk> \<Longrightarrow> risc_reg l h \<noteq> bank k g"
    "\<lbrakk>k < 8; g < 5\<rbrakk> \<Longrightarrow> bank k g \<noteq> mux_reg h j" "\<lbrakk>k < 8; g < 5\<rbrakk> \<Longrightarrow> mux_reg h j \<noteq> bank k g"
    by (simp_all add: bank_def risc_reg_def mux_reg_def)
  show "\<lbrakk>h < 4; j < 8\<rbrakk> \<Longrightarrow> risc_reg k g \<noteq> mux_reg h j" "\<lbrakk>h < 4; j < 8\<rbrakk> \<Longrightarrow> mux_reg h j \<noteq> risc_reg k g"
    unfolding risc_reg_def mux_reg_def using d [of j] by linarith+
qed

lemma pull_reg_distinct [simp]:
  "\<lbrakk>g < 5; h < 4; i < 8; j < 8\<rbrakk> \<Longrightarrow> pull_reg h j = pull_reg g i \<longleftrightarrow> g = h \<and> i div 4 = j div 4"
  "\<lbrakk>g < 5; i < 8\<rbrakk> \<Longrightarrow> pull_reg g i \<noteq> 0xBD" "\<lbrakk>g < 5; i < 8\<rbrakk> \<Longrightarrow> pull_reg g i \<noteq> 0xBF"
  "\<lbrakk>g < 5; i < 8\<rbrakk> \<Longrightarrow> pull_reg g i \<noteq> 0xC0" "\<lbrakk>g < 5; i < 8\<rbrakk> \<Longrightarrow> pull_reg g i \<noteq> 0xC2"
proof -
  have nat: "unat (pull_reg g i) = 0x0e + 2 * g + i div 4" if "g < 5" "i < 8" for g i
    using that unfolding pull_reg_def unat_of_nat by simp
  show "pull_reg h j = pull_reg g i \<longleftrightarrow> g = h \<and> i div 4 = j div 4" if "g < 5" "h < 4" "i < 8" "j < 8"
    using nat [of g i] nat [of h j] even_odd_pair [of "i div 4" "j div 4" g h] that by (auto simp: word_unat_eq_iff)
  show "pull_reg g i \<noteq> 0xBD" "pull_reg g i \<noteq> 0xBF" "pull_reg g i \<noteq> 0xC0" "pull_reg g i \<noteq> 0xC2"
    if "g < 5" "i < 8" using nat [OF that] that by (auto simp: word_unat_eq_iff)
qed

lemma pin_view_regs:
  "pin_view st g i = \<lparr>
     v_input = bit (if g = 1 then ana st 0xBD else if g = 2 then ana st 0xC0 else io st (bank 1 g)) i,
     v_output = (\<not> bit (io st (bank 2 g)) i),
     v_out = bit (io st (bank 3 g)) i, v_pol = bit (io st (bank 4 g)) i,
     v_strength = bit (if g = 1 then ana st 0xBF else if g = 2 then ana st 0xC2 else io st (bank 5 g)) i,
     v_gpio = bit (io st (bank 6 g)) i, v_irq = bit (io st (bank 7 g)) i,
     v_risc0 = bit (io st (risc_reg 0 g)) i, v_risc1 = bit (io st (risc_reg 1 g)) i,
     v_pull = (if g < 4 then field2 (i mod 4) (ana st (pull_reg g i)) else 0),
     v_mux = (if g < 4 then field2 (i mod 4) (io st (mux_reg g i)) else 0)\<rparr>"
  by (simp add: pin_view_def bank_def risc_reg_def mux_reg_def pull_reg_def anaReg_gpioPB_ie_def
      anaReg_gpioPB_ds_def anaReg_gpioPC_ie_def anaReg_gpioPC_ds_def)

section \<open>One bit and one field of a register\<close>

lemma bit_set_clear [simp]:
  "bit (x OR 2 ^ i :: u8) j \<longleftrightarrow> j = i \<and> i < 8 \<or> bit x j"
  "bit (x AND NOT (2 ^ i) :: u8) j \<longleftrightarrow> bit x j \<and> j \<noteq> i"
  "bit (x XOR 2 ^ i :: u8) j \<longleftrightarrow> (bit x j \<noteq> (j = i \<and> i < 8))"
  by (auto simp: bit_simps dest: bit_imp_le_length)

text \<open>\<open>put_bit\<close> is what the operations do to one bit of a register, chosen by a flag.\<close>

definition put_bit :: "nat \<Rightarrow> nat \<Rightarrow> bool \<Rightarrow> gpio_st \<Rightarrow> gpio_st" where
  "put_bit a i b st = (if b then BM_SET a (push_bit i 1) st else BM_CLR a (push_bit i 1) st)"

lemma put_bit_regs [simp]:
  "i < 8 \<Longrightarrow> bit (io (put_bit a i b st) c) j \<longleftrightarrow> (if c = a \<and> j = i then b else bit (io st c) j)"
  "c \<noteq> a \<Longrightarrow> io (put_bit a i b st) c = io st c"
  "ana (put_bit a i b st) = ana st"
  by (auto simp: put_bit_def BM_SET_def BM_CLR_def write_io_def)

lemma write_regs [simp]:
  "io (write_ana c v st) = io st" "ana (write_ana c v st) d = (if d = c then v else ana st d)"
  "io (write_io a v st) b = (if b = a then v else io st b)" "ana (write_io a v st) = ana st"
  by (simp_all add: write_io_def write_ana_def)

lemma view_put:
  assumes p: "is_pin g i" "is_pin h j"
  shows "pin_view (put_bit (bank 2 g) i b st) h j = (if h = g \<and> j = i then (pin_view st g i)\<lparr>v_output := \<not> b\<rparr> else pin_view st h j)"
    and "pin_view (put_bit (bank 3 g) i b st) h j = (if h = g \<and> j = i then (pin_view st g i)\<lparr>v_out := b\<rparr> else pin_view st h j)"
    and "pin_view (put_bit (bank 4 g) i b st) h j = (if h = g \<and> j = i then (pin_view st g i)\<lparr>v_pol := b\<rparr> else pin_view st h j)"
    and "pin_view (put_bit (bank 6 g) i b st) h j = (if h = g \<and> j = i then (pin_view st g i)\<lparr>v_gpio := b\<rparr> else pin_view st h j)"
    and "pin_view (put_bit (bank 7 g) i b st) h j = (if h = g \<and> j = i then (pin_view st g i)\<lparr>v_irq := b\<rparr> else pin_view st h j)"
    and "pin_view (put_bit (risc_reg 0 g) i b st) h j = (if h = g \<and> j = i then (pin_view st g i)\<lparr>v_risc0 := b\<rparr> else pin_view st h j)"
    and "pin_view (put_bit (risc_reg 1 g) i b st) h j = (if h = g \<and> j = i then (pin_view st g i)\<lparr>v_risc1 := b\<rparr> else pin_view st h j)"
  using is_pin_bounds [OF p(1)] is_pin_bounds [OF p(2)] by (simp_all add: pin_view_regs)


section \<open>Fields of two bits\<close>

definition field_mask :: "nat \<Rightarrow> u8" where "field_mask k = NOT (push_bit (2 * k) 3)"

lemma field_masks [simp]: "field_mask 0 = 0xfc" "field_mask (Suc 0) = 0xf3" "field_mask 2 = 0xcf" "field_mask 3 = 0x3f"
  by (simp_all add: field_mask_def)

lemma field2_put:
  assumes "s < 4" "t < 4"
  shows "field2 t ((x AND field_mask s) OR push_bit (2 * s) (v AND 3)) = (if t = s then v AND 3 else field2 t x)"
proof (rule bit_eqI)
  have three: "(3 :: u8) = mask 2"
    by (simp add: mask_eq_exp_minus_1)
  fix n assume "possible_bit TYPE(u8) n"
  hence n: "n < 8" by simp
  consider "t = s" | "t < s" | "s < t" by linarith
  thus "bit (field2 t ((x AND field_mask s) OR push_bit (2 * s) (v AND 3))) n
      \<longleftrightarrow> bit (if t = s then v AND 3 else field2 t x) n"
    using assms n unfolding field2_def field_mask_def three
    by cases (auto simp: bit_simps dest: bit_imp_le_length)
qed

text \<open>Every entry of the tables is one field of two bits, except one.\<close>

definition mux_entry_ok :: "nat \<Rightarrow> nat \<Rightarrow> bool" where
  "mux_entry_ok g i \<longleftrightarrow> (case map_of (mux_a @ mux_b @ mux_c @ mux_d) (pin_of g i) of None \<Rightarrow> True
     | Some (m, fs) \<Rightarrow> m = field_mask (i mod 4) \<and>
         list_all (\<lambda>(f, v). v = push_bit (2 * (i mod 4)) (field2 (i mod 4) v) \<or> pin_of g i = GPIO_PD1 \<and> f = AS_CMP) fs)"

lemma mux_entries_ok: "is_pin g i \<Longrightarrow> mux_entry_ok g i"
proof -
  have "\<forall>g \<in> set [0..<5]. \<forall>i \<in> set [0..<8]. mux_entry_ok g i" by code_simp
  thus "is_pin g i \<Longrightarrow> mux_entry_ok g i" by (auto dest: is_pin_bounds)
qed

section \<open>The operations are point updates\<close>

definition put_ana :: "u8 \<Rightarrow> nat \<Rightarrow> bool \<Rightarrow> gpio_st \<Rightarrow> gpio_st" where
  "put_ana a i b st = write_ana a (if b then ana st a OR push_bit i 1 else ana st a AND NOT (push_bit i 1)) st"

lemma put_ana_regs [simp]:
  "i < 8 \<Longrightarrow> bit (ana (put_ana a i b st) c) j \<longleftrightarrow> (if c = a \<and> j = i then b else bit (ana st c) j)"
  "c \<noteq> a \<Longrightarrow> ana (put_ana a i b st) c = ana st c"
  "io (put_ana a i b st) = io st"
  by (auto simp: put_ana_def)

lemma pin_group_cases:
  assumes "is_pin g i"
  shows "pin_group (pin_of g i) = GPIO_GROUPA \<or> pin_group (pin_of g i) = GPIO_GROUPD \<or>
      pin_group (pin_of g i) = GPIO_GROUPE \<longleftrightarrow> g \<noteq> 1 \<and> g \<noteq> 2"
    "pin_group (pin_of g i) = GPIO_GROUPB \<longleftrightarrow> g = 1" "pin_group (pin_of g i) = GPIO_GROUPC \<longleftrightarrow> g = 2"
proof -
  have "pin_group (pin_of g i) = 0x100 * of_nat g"
    using pin_of_parts(3) [OF assms] by (simp add: push_bit_eq_mult)
  moreover have "g = 0 \<or> g = 1 \<or> g = 2 \<or> g = 3 \<or> g = 4"
    using is_pin_bounds [OF assms] by (simp add: less_5)
  ultimately show "pin_group (pin_of g i) = GPIO_GROUPA \<or> pin_group (pin_of g i) = GPIO_GROUPD \<or>
      pin_group (pin_of g i) = GPIO_GROUPE \<longleftrightarrow> g \<noteq> 1 \<and> g \<noteq> 2"
    "pin_group (pin_of g i) = GPIO_GROUPB \<longleftrightarrow> g = 1" "pin_group (pin_of g i) = GPIO_GROUPC \<longleftrightarrow> g = 2"
    by (elim disjE; simp add: gpio_consts)+
qed

lemma ops_put:
  assumes p: "is_pin g i"
  shows "gpio_set_input_en (pin_of g i) b st = (if g = 1 then put_ana 0xBD i b st else if g = 2 then put_ana 0xC0 i b st
      else put_bit (bank 1 g) i b st)"
    "gpio_set_data_strength (pin_of g i) b st = (if g = 1 then put_ana 0xBF i b st else if g = 2 then put_ana 0xC2 i b st
      else put_bit (bank 5 g) i b st)"
    "gpio_set_output_en (pin_of g i) b st = put_bit (bank 2 g) i (\<not> b) st"
    "gpio_write (pin_of g i) b st = put_bit (bank 3 g) i b st"
    "gpio_set_interrupt_pol (pin_of g i) b st = put_bit (bank 4 g) i b st"
    "gpio_en_interrupt (pin_of g i) b st = put_bit (bank 7 g) i b st"
    "gpio_en_interrupt_risc0 (pin_of g i) b st = put_bit (risc_reg 0 g) i b st"
    "gpio_en_interrupt_risc1 (pin_of g i) b st = put_bit (risc_reg 1 g) i b st"
    "gpio_set_interrupt (pin_of g i) b st = put_bit (bank 4 g) i b (put_bit (bank 7 g) i True st)"
    "gpio_set_interrupt_risc0 (pin_of g i) b st = put_bit (bank 4 g) i b (put_bit (risc_reg 0 g) i True st)"
    "gpio_set_interrupt_risc1 (pin_of g i) b st = put_bit (bank 4 g) i b (put_bit (risc_reg 1 g) i True st)"
    "gpio_set_wakeup (pin_of g i) b c st = put_bit (bank 4 g) i (\<not> b) (put_bit (bank 7 g) i c st)"
  unfolding gpio_set_input_en_def gpio_set_data_strength_def gpio_set_output_en_def gpio_write_def
    gpio_set_interrupt_pol_def gpio_en_interrupt_def gpio_en_interrupt_risc0_def gpio_en_interrupt_risc1_def
    gpio_set_interrupt_def gpio_set_interrupt_risc0_def gpio_set_interrupt_risc1_def gpio_set_wakeup_def
    Let_def pin_group_cases [OF p] reg_of_pin [OF p] pin_of_parts(2) [OF p] put_bit_def put_ana_def
    anaReg_gpioPB_ie_def anaReg_gpioPB_ds_def anaReg_gpioPC_ie_def anaReg_gpioPC_ds_def
  by simp_all

lemma view_put_input:
  assumes p: "is_pin g i" "is_pin h j"
  shows "pin_view (gpio_set_input_en (pin_of g i) b st) h j =
      (if h = g \<and> j = i then (pin_view st g i)\<lparr>v_input := b\<rparr> else pin_view st h j)"
    and "pin_view (gpio_set_data_strength (pin_of g i) b st) h j =
      (if h = g \<and> j = i then (pin_view st g i)\<lparr>v_strength := b\<rparr> else pin_view st h j)"
  unfolding ops_put [OF p(1)] using is_pin_bounds [OF p(1)] is_pin_bounds [OF p(2)]
  by (simp_all add: pin_view_regs)

lemma toggle_put: "is_pin g i \<Longrightarrow> gpio_toggle (pin_of g i) st = put_bit (bank 3 g) i (\<not> bit (io st (bank 3 g)) i) st"
proof -
  assume p: "is_pin g i"
  have "x XOR push_bit i 1 = (if \<not> bit x i then x OR push_bit i 1 else x AND NOT (push_bit i 1))" for x :: u8
    using is_pin_bounds [OF p] by (auto intro!: bit_eqI)
  thus ?thesis by (simp add: gpio_toggle_def reg_of_pin [OF p] pin_of_parts(2) [OF p] put_bit_def BM_SET_def BM_CLR_def)
qed

text \<open>The tests the code makes on a pin, for every pin.\<close>

lemma pin_tests:
  shows "\<forall>g \<in> set [0..<5]. \<forall>i \<in> set [0..<8]. (pin_of g i AND 0x11 \<noteq> 0) = (i mod 4 = 0)"
    and "\<forall>g \<in> set [0..<5]. \<forall>i \<in> set [0..<8]. (pin_of g i AND 0x22 \<noteq> 0) = (i mod 4 = 1)"
    and "\<forall>g \<in> set [0..<5]. \<forall>i \<in> set [0..<8]. (pin_of g i AND 0x44 \<noteq> 0) = (i mod 4 = 2)"
    and "\<forall>g \<in> set [0..<5]. \<forall>i \<in> set [0..<8]. (pin_of g i AND 0x88 \<noteq> 0) = (i mod 4 = 3)"
    and "\<forall>g \<in> set [0..<5]. \<forall>i \<in> set [0..<8]. (pin_of g i AND 0xf0 \<noteq> 0) = (i \<ge> 4)"
    and "\<forall>g \<in> set [0..<5]. \<forall>i \<in> set [0..<8]. (pin_of g i = 0x20 \<or> pin_of g i = 0x40) = (g = 0 \<and> (i = 5 \<or> i = 6))"
    and "\<forall>g \<in> set [0..<5]. \<forall>i \<in> set [0..<8]. (pin_of g i = 0x302) = (g = 3 \<and> i = 1)"
    and "\<forall>g \<in> set [0..<5]. \<forall>i \<in> set [0..<8]. push_bit 1 (ucast (drop_bit 8 (pin_of g i))) = (of_nat (2 * g) :: u8)"
  subgoal by code_simp
  subgoal by code_simp
  subgoal by code_simp
  subgoal by code_simp
  subgoal by code_simp
  subgoal by code_simp
  subgoal by code_simp
  subgoal by code_simp
  done

lemma pin_parts:
  assumes "is_pin g i"
  shows "pin_of g i AND 0x11 \<noteq> 0 \<longleftrightarrow> i mod 4 = 0" "pin_of g i AND 0x22 \<noteq> 0 \<longleftrightarrow> i mod 4 = 1"
    "pin_of g i AND 0x44 \<noteq> 0 \<longleftrightarrow> i mod 4 = 2" "pin_of g i AND 0x88 \<noteq> 0 \<longleftrightarrow> i mod 4 = 3"
    "pin_of g i AND 0xf0 \<noteq> 0 \<longleftrightarrow> i \<ge> 4"
    "pin_of g i = 0x20 \<or> pin_of g i = 0x40 \<longleftrightarrow> g = 0 \<and> (i = 5 \<or> i = 6)"
    "pin_of g i = 0x302 \<longleftrightarrow> g = 3 \<and> i = 1"
    "push_bit 1 (ucast (drop_bit 8 (pin_of g i))) = (of_nat (2 * g) :: u8)"
  using pin_tests is_pin_bounds [OF assms] by (simp_all only: atLeastLessThan_upt [symmetric] atLeastLessThan_iff ball_simps) simp_all

lemma pin_addr:
  assumes "is_pin g i"
  shows "0x0e + push_bit 1 (ucast (drop_bit 8 (pin_of g i))) + (if pin_of g i AND 0xf0 \<noteq> 0 then 1 else 0) = pull_reg g i"
    "0x5a8 + 2 * unat (drop_bit 8 (pin_of g i)) + (if pin_of g i AND 0xf0 \<noteq> 0 then 1 else 0) = mux_reg g i"
proof -
  have "i < 8" using is_pin_bounds [OF assms] by simp
  hence d: "i div 4 = (if 4 \<le> i then 1 else 0)" by auto
  show "0x0e + push_bit 1 (ucast (drop_bit 8 (pin_of g i))) + (if pin_of g i AND 0xf0 \<noteq> 0 then 1 else 0) = pull_reg g i"
    unfolding pin_parts [OF assms] pull_reg_def d by simp
  show "0x5a8 + 2 * unat (drop_bit 8 (pin_of g i)) + (if pin_of g i AND 0xf0 \<noteq> 0 then 1 else 0) = mux_reg g i"
    unfolding pin_parts [OF assms] pin_of_parts(1) [OF assms] mux_reg_def d by simp
qed

lemma no_mux:
  "i < 8 \<Longrightarrow> map_of (mux_a @ mux_b @ mux_c @ mux_d) (pin_of 4 i) = None"
  "i = 5 \<or> i = 6 \<Longrightarrow> map_of (mux_a @ mux_b @ mux_c @ mux_d) (pin_of 0 i) = None"
proof -
  have "\<forall>i \<in> set [0..<8]. map_of (mux_a @ mux_b @ mux_c @ mux_d) (pin_of 4 i) = None" by code_simp
  thus "i < 8 \<Longrightarrow> map_of (mux_a @ mux_b @ mux_c @ mux_d) (pin_of 4 i) = None" by simp
  have "\<forall>i \<in> set [5, 6]. map_of (mux_a @ mux_b @ mux_c @ mux_d) (pin_of 0 i) = None" by code_simp
  thus "i = 5 \<or> i = 6 \<Longrightarrow> map_of (mux_a @ mux_b @ mux_c @ mux_d) (pin_of 0 i) = None" by auto
qed

lemma pull_put:
  assumes p: "is_pin g i"
  shows "gpio_setup_up_down_resistor (pin_of g i) v st = write_ana (pull_reg g i)
    ((ana st (pull_reg g i) AND field_mask (i mod 4)) OR push_bit (2 * (i mod 4)) (v AND 3)) st"
proof -
  have "i mod 4 = 0 \<or> i mod 4 = 1 \<or> i mod 4 = 2 \<or> i mod 4 = 3" by presburger
  thus ?thesis
    unfolding gpio_setup_up_down_resistor_def Let_def pin_parts(1-4) [OF p] pin_addr [OF p] by (elim disjE) simp_all
qed

lemma same_field: "i < 8 \<Longrightarrow> j < 8 \<Longrightarrow> i div 4 = j div 4 \<Longrightarrow> i mod 4 = j mod 4 \<longleftrightarrow> i = j" for i j :: nat
  by (metis div_mod_decomp)

lemma view_pull:
  assumes p: "is_pin g i" "is_pin h j"
  shows "pin_view (gpio_setup_up_down_resistor (pin_of g i) v st) h j =
    (if h = g \<and> j = i then view_do (Pull v) g i (pin_view st g i) else pin_view st h j)"
proof (cases "h < 4 \<and> pull_reg h j = pull_reg g i")
  case True
  hence same: "g = h" "i div 4 = j div 4" using is_pin_bounds [OF p(1)] is_pin_bounds [OF p(2)] by auto
  show ?thesis
    unfolding pull_put [OF p(1)]
    using True is_pin_bounds [OF p(1)] is_pin_bounds [OF p(2)] same_field [of j i] same
      field2_put [of "i mod 4" "j mod 4"] by (simp add: pin_view_regs del: pull_reg_distinct(1))
next
  case False
  thus ?thesis
    unfolding pull_put [OF p(1)] using is_pin_bounds [OF p(1)] is_pin_bounds [OF p(2)]
    by (auto simp: pin_view_regs)
qed

lemma view_mux:
  assumes p: "is_pin g i" "is_pin h j" and "g < 4"
  shows "pin_view (write_io (mux_reg g i) ((io st (mux_reg g i) AND field_mask (i mod 4)) OR
      push_bit (2 * (i mod 4)) (v AND 3)) st) h j =
    (if h = g \<and> j = i then (pin_view st g i)\<lparr>v_mux := v AND 3\<rparr> else pin_view st h j)"
proof (cases "h < 4 \<and> mux_reg h j = mux_reg g i")
  case True
  hence same: "g = h" "i div 4 = j div 4" using is_pin_bounds [OF p(1)] is_pin_bounds [OF p(2)] by auto
  show ?thesis
    using True is_pin_bounds [OF p(1)] is_pin_bounds [OF p(2)] same_field [of j i] same
      field2_put [of "i mod 4" "j mod 4"] by (simp add: pin_view_regs del: reg_distinct(3))
next
  case False
  thus ?thesis using is_pin_bounds [OF p(1)] is_pin_bounds [OF p(2)] \<open>g < 4\<close> by (auto simp: pin_view_regs)
qed

lemma write_same [simp]: "write_io a (io st a) st = st"
  by (simp add: write_io_def)

lemma special_func_none:
  assumes p: "is_pin g i" and none: "map_of (mux_a @ mux_b @ mux_c @ mux_d) (pin_of g i) = None"
  shows "gpio_config_special_func (pin_of g i) f st =
    (if g = 0 \<and> (i = 5 \<or> i = 6) then gpio_set_input_en (pin_of g i) True st else st)"
proof -
  have ff: "x AND 0xff OR 0 = x" for x :: u8
    by (rule bit_eqI) (auto simp: bit_simps dest: bit_imp_le_length)
  show ?thesis
    using pin_parts(6) [OF p] by (simp only: gpio_config_special_func_def none Let_def option.case prod.case
      pin_addr [OF p] gpio_consts ff write_same)
qed

lemma special_func_some:
  assumes p: "is_pin g i" and some: "map_of (mux_a @ mux_b @ mux_c @ mux_d) (pin_of g i) = Some (m, fs)"
    and nd: "\<not> (g = 3 \<and> i = 1 \<and> f = AS_CMP)"
  shows "gpio_config_special_func (pin_of g i) f st = write_io (mux_reg g i)
      ((io st (mux_reg g i) AND field_mask (i mod 4)) OR
       push_bit (2 * (i mod 4)) (field2 (i mod 4) (case map_of fs f of None \<Rightarrow> 0 | Some v \<Rightarrow> v) AND 3)) st"
proof -
  have ok: "m = field_mask (i mod 4)" "list_all (\<lambda>(f, v). v = push_bit (2 * (i mod 4)) (field2 (i mod 4) v) \<or>
      pin_of g i = GPIO_PD1 \<and> f = AS_CMP) fs"
    using mux_entries_ok [OF p] some by (simp_all add: mux_entry_ok_def)
  have "pin_of g i = GPIO_PD1 \<longleftrightarrow> g = 3 \<and> i = 1" using pin_parts(7) [OF p] by (simp add: GPIO_PD1_def)
  hence "v = push_bit (2 * (i mod 4)) (field2 (i mod 4) v)" if "map_of fs f = Some v" for v
    using ok(2) map_of_SomeD [OF that] nd unfolding list_all_iff by fastforce
  hence v: "(case map_of fs f of None \<Rightarrow> 0 | Some v \<Rightarrow> v) =
      push_bit (2 * (i mod 4)) (field2 (i mod 4) (case map_of fs f of None \<Rightarrow> 0 | Some v \<Rightarrow> v) AND 3)"
    by (cases "map_of fs f") (simp_all add: field2_def and.assoc)
  have "\<not> (pin_of g i = 0x20 \<or> pin_of g i = 0x40)"
    using pin_parts(6) [OF p] no_mux(2) [of i] some by (cases "g = 0") auto
  thus ?thesis
    by (simp only: gpio_config_special_func_def some Let_def option.case prod.case ok(1)
      pin_addr [OF p] GPIO_PA5_def GPIO_PA6_def if_False v [symmetric])
qed

lemma view_func:
  assumes p: "is_pin g i" "is_pin h j" and nd: "\<not> (g = 3 \<and> i = 1 \<and> f = AS_CMP)"
  shows "pin_view (gpio_set_func (pin_of g i) f st) h j =
    (if h = g \<and> j = i then view_do (Func f) g i (pin_view st g i) else pin_view st h j)"
proof -
  let ?p = "pin_of g i"
  let ?st1 = "put_bit (bank 6 g) i (f = AS_GPIO) st"
  have setf: "gpio_set_func ?p f st = (if f > AS_GPIO then gpio_config_special_func ?p f ?st1 else ?st1)"
    by (simp add: gpio_set_func_def reg_of_pin [OF p(1)] pin_of_parts(2) [OF p(1)] put_bit_def Let_def del: push_bit_of_1)
  show ?thesis
  proof (cases "f > AS_GPIO")
    case False
    thus ?thesis by (simp add: setf view_put [OF p] view_put [OF p(1) p(1)] Let_def not_less)
  next
    case True
    hence big: "\<not> f \<le> AS_GPIO" "f > AS_GPIO" by simp_all
    show ?thesis
    proof (cases "map_of (mux_a @ mux_b @ mux_c @ mux_d) ?p")
      case None
      have mv: "mux_value ?p f = None" unfolding mux_value_def None by simp
      show ?thesis
      proof (cases "g = 0 \<and> (i = 5 \<or> i = 6)")
        case True
        have e: "gpio_set_func ?p f st = gpio_set_input_en ?p True ?st1"
          unfolding setf special_func_none [OF p(1) None] using big(2) True by simp
        show ?thesis unfolding e view_put_input [OF p] view_put [OF p] view_put [OF p(1) p(1)]
          using big True by (simp add: Let_def)
      next
        case False
        have e: "gpio_set_func ?p f st = ?st1"
          by (simp only: setf special_func_none [OF p(1) None] big(2) False if_True if_False)
        show ?thesis unfolding e view_put [OF p] view_put [OF p(1) p(1)]
          using big False mv by (auto simp: Let_def)
      qed
    next
      case (Some a)
      obtain m fs where a: "a = (m, fs)" by (cases a)
      have four: "g < 4" using no_mux(1) [of i] is_pin_bounds [OF p(1)] Some by (cases "g = 4") auto
      have no: "\<not> (g = 0 \<and> (i = 5 \<or> i = 6))" using no_mux(2) [of i] Some by (cases "g = 0") auto
      have mv: "mux_value ?p f = Some (case map_of fs f of None \<Rightarrow> 0 | Some v \<Rightarrow> v)"
        unfolding mux_value_def Some a by simp
      have idem: "field2 k x AND 3 = field2 k x" for k x by (simp add: field2_def and.assoc)
      have e: "pin_view (gpio_set_func ?p f st) h j = (if h = g \<and> j = i
          then (pin_view ?st1 g i)\<lparr>v_mux := field2 (i mod 4) (case map_of fs f of None \<Rightarrow> 0 | Some v \<Rightarrow> v)\<rparr>
          else pin_view ?st1 h j)"
        using view_mux [OF p four, where st = ?st1 and v = "field2 (i mod 4) (case map_of fs f of None \<Rightarrow> 0 | Some v \<Rightarrow> v)"]
        by (simp only: setf special_func_some [OF p(1) Some [unfolded a] nd] big(2) if_True idem)
      show ?thesis unfolding e view_put [OF p] view_put [OF p(1) p(1)]
        using big(1) no mv by (auto simp: Let_def)
    qed
  qed
qed

section \<open>The driver refines the table of pin settings\<close>



section \<open>The configured pins after gpio_init\<close>

definition group_cfg :: "gpio_cfg \<Rightarrow> nat \<Rightarrow> pin_cfg list" where
  "group_cfg c g = [pa c, pb c, pc c, pd c, pe c] ! g"

text \<open>A configuration gives every pin flags of zero or one and one of the four pull values.\<close>

definition cfg_ok :: "gpio_cfg \<Rightarrow> bool" where
  "cfg_ok c \<longleftrightarrow> map length [pa c, pb c, pc c, pd c, pe c] = [8, 8, 8, 8, 4] \<and>
     list_all (\<lambda>p. INPUT_ENABLE p \<le> 1 \<and> DATA_STRENGTH p \<le> 1 \<and> DATA_OUT p \<le> 1 \<and> PULL p \<le> 3)
       (pa c @ pb c @ pc c @ pd c @ pe c)"

text \<open>The view of a pin that the configuration asks for; the interrupt settings and the selection of the
  function are not part of it, except that the second word of groups A and D clears two of them.\<close>

definition cfg_view :: "nat \<Rightarrow> pin_cfg \<Rightarrow> pin_view \<Rightarrow> pin_view" where
  "cfg_view g p w = w\<lparr>v_input := (INPUT_ENABLE p = 1), v_output := (OUTPUT_ENABLE p \<noteq> 0), v_out := (DATA_OUT p = 1),
     v_pol := (v_pol w \<and> g \<noteq> 0 \<and> g \<noteq> 3), v_strength := (DATA_STRENGTH p = 1), v_gpio := (FUNC p = AS_GPIO),
     v_irq := (v_irq w \<and> g \<noteq> 0 \<and> g \<noteq> 3), v_pull := (if g < 4 then PULL p else v_pull w)\<rparr>"

lemma bit_flag: "x \<le> 1 \<Longrightarrow> bit (push_bit k x) n \<longleftrightarrow> n = k \<and> k < 32 \<and> x = 1" for x :: u32
proof -
  assume "x \<le> 1"
  hence "x = 0 \<or> x = 1" by (simp add: word_le_nat_alt word_unat_eq_iff le_Suc_eq)
  thus ?thesis by (auto simp: bit_simps)
qed

lemma bit_or_pins:
  assumes "\<forall>p \<in> set ps. f p \<le> 1"
  shows "bit (or_pins s f ps) n \<longleftrightarrow> s \<le> n \<and> n < s + length ps \<and> n < 32 \<and> f (ps ! (n - s)) = 1"
proof -
  have "bit (foldr (\<lambda>(i, p) acc. push_bit (s + i) (f p) OR acc) (enumerate k ps) 0) n \<longleftrightarrow>
      s + k \<le> n \<and> n < s + k + length ps \<and> n < 32 \<and> f (ps ! (n - s - k)) = 1" for k
    using assms
  proof (induction ps arbitrary: k)
    case (Cons p ps)
    show ?case
    proof (cases "n = s + k")
      case True
      thus ?thesis using Cons by (simp add: bit_or_iff bit_flag)
    next
      case False
      hence "n - s - k = Suc (n - s - Suc k)" if "s + k \<le> n" using that by arith
      thus ?thesis using Cons False by (auto simp: bit_or_iff bit_flag Suc_le_eq)
    qed
  qed simp
  from this [of 0] show ?thesis by (simp add: or_pins_def)
qed

lemma bit_byte: "bit (ucast (drop_bit k (x :: u32)) :: u8) i \<longleftrightarrow> i < 8 \<and> bit x (k + i)"
  "bit (ucast x :: u8) i \<longleftrightarrow> i < 8 \<and> bit x i"
  by (auto simp: bit_simps)

lemma bit_settings:
  assumes "length ps = 8" "list_all (\<lambda>p. INPUT_ENABLE p \<le> 1 \<and> DATA_STRENGTH p \<le> 1 \<and> DATA_OUT p \<le> 1 \<and> PULL p \<le> 3) ps" "i < 8"
  shows "bit (setting1 ps) (8 + i) \<longleftrightarrow> INPUT_ENABLE (ps ! i) = 1" "bit (setting1 ps) (16 + i) \<longleftrightarrow> OUTPUT_ENABLE (ps ! i) = 0"
    "bit (setting1 ps) (24 + i) \<longleftrightarrow> DATA_OUT (ps ! i) = 1"
    "bit (setting2 ps) (8 + i) \<longleftrightarrow> DATA_STRENGTH (ps ! i) = 1" "bit (setting2 ps) (16 + i) \<longleftrightarrow> FUNC (ps ! i) = AS_GPIO"
    "\<not> bit (setting2 ps) i" "\<not> bit (setting2 ps) (24 + i)"
proof -
  have le: "\<forall>p \<in> set ps. INPUT_ENABLE p \<le> 1" "\<forall>p \<in> set ps. DATA_STRENGTH p \<le> 1" "\<forall>p \<in> set ps. DATA_OUT p \<le> 1"
    "\<forall>p \<in> set ps. OEN p \<le> 1" "\<forall>p \<in> set ps. AS_GPIO_BIT p \<le> 1"
    using assms(2) by (simp_all add: list_all_iff OEN_def AS_GPIO_BIT_def)
  show "bit (setting1 ps) (8 + i) \<longleftrightarrow> INPUT_ENABLE (ps ! i) = 1" "bit (setting1 ps) (16 + i) \<longleftrightarrow> OUTPUT_ENABLE (ps ! i) = 0"
    "bit (setting1 ps) (24 + i) \<longleftrightarrow> DATA_OUT (ps ! i) = 1"
    "bit (setting2 ps) (8 + i) \<longleftrightarrow> DATA_STRENGTH (ps ! i) = 1" "bit (setting2 ps) (16 + i) \<longleftrightarrow> FUNC (ps ! i) = AS_GPIO"
    "\<not> bit (setting2 ps) i" "\<not> bit (setting2 ps) (24 + i)"
    using assms(1,3)
    by (simp_all add: setting1_def setting2_def bit_or_iff bit_or_pins le) (simp_all add: OEN_def AS_GPIO_BIT_def)
qed

lemma flag_byte: "x \<le> 3 \<Longrightarrow> x = 0 \<or> x = 1 \<or> x = 2 \<or> x = 3" for x :: u8
  by (simp add: word_le_nat_alt word_unat_eq_iff) linarith

lemma field2_or: "field2 k (x OR y) = field2 k x OR field2 k y"
  by (simp add: field2_def bit.conj_disj_distrib2)

lemma field2_push: "x \<le> 3 \<Longrightarrow> k < 4 \<Longrightarrow> l < 4 \<Longrightarrow> field2 k (push_bit (2 * l) x) = (if k = l then x else 0)"
proof -
  have "\<forall>k \<in> set [0..<4]. \<forall>l \<in> set [0..<4]. \<forall>x \<in> set [0, 1, 2, 3]. field2 k (push_bit (2 * l) x) = (if k = l then x else 0)"
    by code_simp
  thus "x \<le> 3 \<Longrightarrow> k < 4 \<Longrightarrow> l < 4 \<Longrightarrow> field2 k (push_bit (2 * l) x) = (if k = l then x else 0)"
    using flag_byte [of x] by auto
qed

lemma field2_pull_byte:
  assumes "k < 4" "PULL (ps ! n) \<le> 3" "PULL (ps ! (n + 1)) \<le> 3" "PULL (ps ! (n + 2)) \<le> 3" "PULL (ps ! (n + 3)) \<le> 3"
  shows "field2 k (pull_byte ps n) = PULL (ps ! (n + k))"
proof -
  have k: "k = 0 \<or> k = 1 \<or> k = 2 \<or> k = 3" using assms(1) by auto
  note f = field2_push [OF assms(2,1), of 0] field2_push [OF assms(3,1), of 1]
    field2_push [OF assms(4,1), of 2] field2_push [OF assms(5,1), of 3]
  show ?thesis using k f by (elim disjE) (simp_all add: pull_byte_def field2_or)
qed

text \<open>The addresses as the code writes them.\<close>

lemma reg_numbers:
  "bank 1 0 = 0x581" "bank 2 0 = 0x582" "bank 3 0 = 0x583" "bank 4 0 = 0x584" "bank 5 0 = 0x585" "bank 6 0 = 0x586" "bank 7 0 = 0x587"
  "bank 2 1 = 0x58a" "bank 3 1 = 0x58b" "bank 4 1 = 0x58c" "bank 6 1 = 0x58e" "bank 7 1 = 0x58f"
  "bank 2 2 = 0x592" "bank 3 2 = 0x593" "bank 4 2 = 0x594" "bank 6 2 = 0x596" "bank 7 2 = 0x597"
  "bank 1 3 = 0x599" "bank 2 3 = 0x59a" "bank 3 3 = 0x59b" "bank 4 3 = 0x59c" "bank 5 3 = 0x59d" "bank 6 3 = 0x59e" "bank 7 3 = 0x59f"
  "bank 1 4 = 0x5a1" "bank 2 4 = 0x5a2" "bank 3 4 = 0x5a3" "bank 4 4 = 0x5a4" "bank 5 4 = 0x5a5" "bank 6 4 = 0x5a6" "bank 7 4 = 0x5a7"
  by (simp_all add: bank_def)

lemma gpio_init_io:
  "io (gpio_init c b st) a =
    (if a = 0x581 then ucast (drop_bit 8 (setting1 (pa c))) else if a = 0x582 then ucast (drop_bit 16 (setting1 (pa c)))
     else if a = 0x583 then ucast (drop_bit 24 (setting1 (pa c))) else if a = 0x584 then ucast (setting2 (pa c))
     else if a = 0x585 then ucast (drop_bit 8 (setting2 (pa c))) else if a = 0x586 then ucast (drop_bit 16 (setting2 (pa c)))
     else if a = 0x587 then ucast (drop_bit 24 (setting2 (pa c)))
     else if a = 0x58a then ucast (or_pins 0 OEN (pb c)) else if a = 0x58b then ucast (or_pins 0 DATA_OUT (pb c))
     else if a = 0x58e then ucast (or_pins 0 AS_GPIO_BIT (pb c))
     else if a = 0x592 then ucast (or_pins 0 OEN (pc c)) else if a = 0x593 then ucast (or_pins 0 DATA_OUT (pc c))
     else if a = 0x596 then ucast (or_pins 0 AS_GPIO_BIT (pc c))
     else if a = 0x599 then ucast (drop_bit 8 (setting1 (pd c))) else if a = 0x59a then ucast (drop_bit 16 (setting1 (pd c)))
     else if a = 0x59b then ucast (drop_bit 24 (setting1 (pd c))) else if a = 0x59c then ucast (setting2 (pd c))
     else if a = 0x59d then ucast (drop_bit 8 (setting2 (pd c))) else if a = 0x59e then ucast (drop_bit 16 (setting2 (pd c)))
     else if a = 0x59f then ucast (drop_bit 24 (setting2 (pd c)))
     else if a = 0x5a1 then ucast (or_pins 0 INPUT_ENABLE (pe c)) else if a = 0x5a2 then ucast (or_pins 0 OEN (pe c))
     else if a = 0x5a3 then ucast (or_pins 0 DATA_OUT (pe c)) else if a = 0x5a5 then ucast (or_pins 0 DATA_STRENGTH (pe c))
     else if a = 0x5a6 then ucast (or_pins 0 AS_GPIO_BIT (pe c))
     else if a = 0x580 then ucast (setting1 (pa c)) else if a = 0x598 then ucast (setting1 (pd c)) else io st a)"
  by (cases b) (simp_all add: gpio_init_def gpio_analog_resistance_init_def write_io32_def Let_def)

lemma gpio_init_ana:
  "ana (gpio_init c b st) a =
    (if a = 0xBD then ucast (or_pins 0 INPUT_ENABLE (pb c)) else if a = 0xBF then ucast (or_pins 0 DATA_STRENGTH (pb c))
     else if a = 0xC0 then ucast (or_pins 0 INPUT_ENABLE (pc c)) else if a = 0xC2 then ucast (or_pins 0 DATA_STRENGTH (pc c))
     else if b then
       if a = 0x0e then pull_byte (pa c) 0 else if a = 0x0f then pull_byte (pa c) 4
       else if a = 0x10 then pull_byte (pb c) 0 else if a = 0x11 then pull_byte (pb c) 4
       else if a = 0x12 then pull_byte (pc c) 0 else if a = 0x13 then pull_byte (pc c) 4
       else if a = 0x14 then pull_byte (pd c) 0 else if a = 0x15 then pull_byte (pd c) 4 else ana st a
     else ana st a)"
  by (cases b) (simp_all add: gpio_init_def gpio_analog_resistance_init_def write_io32_def Let_def
      anaReg_gpioPB_ie_def anaReg_gpioPB_ds_def anaReg_gpioPC_ie_def anaReg_gpioPC_ds_def)

lemma gpio_init_bank:
  "io (gpio_init c b st) (bank 1 0) = ucast (drop_bit 8 (setting1 (pa c)))"
  "io (gpio_init c b st) (bank 2 0) = ucast (drop_bit 16 (setting1 (pa c)))"
  "io (gpio_init c b st) (bank 3 0) = ucast (drop_bit 24 (setting1 (pa c)))"
  "io (gpio_init c b st) (bank 4 0) = ucast (setting2 (pa c))"
  "io (gpio_init c b st) (bank 5 0) = ucast (drop_bit 8 (setting2 (pa c)))"
  "io (gpio_init c b st) (bank 6 0) = ucast (drop_bit 16 (setting2 (pa c)))"
  "io (gpio_init c b st) (bank 7 0) = ucast (drop_bit 24 (setting2 (pa c)))"
  "io (gpio_init c b st) (bank 1 3) = ucast (drop_bit 8 (setting1 (pd c)))"
  "io (gpio_init c b st) (bank 2 3) = ucast (drop_bit 16 (setting1 (pd c)))"
  "io (gpio_init c b st) (bank 3 3) = ucast (drop_bit 24 (setting1 (pd c)))"
  "io (gpio_init c b st) (bank 4 3) = ucast (setting2 (pd c))"
  "io (gpio_init c b st) (bank 5 3) = ucast (drop_bit 8 (setting2 (pd c)))"
  "io (gpio_init c b st) (bank 6 3) = ucast (drop_bit 16 (setting2 (pd c)))"
  "io (gpio_init c b st) (bank 7 3) = ucast (drop_bit 24 (setting2 (pd c)))"
  "io (gpio_init c b st) (bank 2 1) = ucast (or_pins 0 OEN (pb c))"
  "io (gpio_init c b st) (bank 3 1) = ucast (or_pins 0 DATA_OUT (pb c))"
  "io (gpio_init c b st) (bank 4 1) = io st (bank 4 1)"
  "io (gpio_init c b st) (bank 6 1) = ucast (or_pins 0 AS_GPIO_BIT (pb c))"
  "io (gpio_init c b st) (bank 7 1) = io st (bank 7 1)"
  "io (gpio_init c b st) (bank 2 2) = ucast (or_pins 0 OEN (pc c))"
  "io (gpio_init c b st) (bank 3 2) = ucast (or_pins 0 DATA_OUT (pc c))"
  "io (gpio_init c b st) (bank 4 2) = io st (bank 4 2)"
  "io (gpio_init c b st) (bank 6 2) = ucast (or_pins 0 AS_GPIO_BIT (pc c))"
  "io (gpio_init c b st) (bank 7 2) = io st (bank 7 2)"
  "io (gpio_init c b st) (bank 1 4) = ucast (or_pins 0 INPUT_ENABLE (pe c))"
  "io (gpio_init c b st) (bank 2 4) = ucast (or_pins 0 OEN (pe c))"
  "io (gpio_init c b st) (bank 3 4) = ucast (or_pins 0 DATA_OUT (pe c))"
  "io (gpio_init c b st) (bank 4 4) = io st (bank 4 4)"
  "io (gpio_init c b st) (bank 5 4) = ucast (or_pins 0 DATA_STRENGTH (pe c))"
  "io (gpio_init c b st) (bank 6 4) = ucast (or_pins 0 AS_GPIO_BIT (pe c))"
  "io (gpio_init c b st) (bank 7 4) = io st (bank 7 4)"
  by (simp_all only: gpio_init_io reg_numbers) simp_all

lemma gpio_init_keeps:
  "io (gpio_init c b st) (risc_reg k g) = io st (risc_reg k g)" "io (gpio_init c b st) (mux_reg g i) = io st (mux_reg g i)"
  by (simp_all add: gpio_init_io risc_reg_def mux_reg_def)

lemma pull_reg_numbers:
  assumes "i < 8"
  shows "pull_reg 0 i = (if i < 4 then 0x0e else 0x0f)" "pull_reg 1 i = (if i < 4 then 0x10 else 0x11)"
    "pull_reg 2 i = (if i < 4 then 0x12 else 0x13)" "pull_reg 3 i = (if i < 4 then 0x14 else 0x15)"
proof -
  have "i div 4 = (if i < 4 then 0 else 1)" using assms by auto
  thus "pull_reg 0 i = (if i < 4 then 0x0e else 0x0f)" "pull_reg 1 i = (if i < 4 then 0x10 else 0x11)"
    "pull_reg 2 i = (if i < 4 then 0x12 else 0x13)" "pull_reg 3 i = (if i < 4 then 0x14 else 0x15)"
    by (simp_all add: pull_reg_def)
qed

lemma pull_of_group:
  assumes "list_all (\<lambda>p. PULL p \<le> 3) ps" "length ps = 8" "i < 8"
  shows "field2 (i mod 4) (if i < 4 then pull_byte ps 0 else pull_byte ps 4) = PULL (ps ! i)"
proof -
  have le: "k < 8 \<Longrightarrow> PULL (ps ! k) \<le> 3" for k using assms by (simp add: list_all_length)
  show ?thesis
  proof (cases "i < 4")
    case True
    thus ?thesis using field2_pull_byte [of i ps 0] le by simp
  next
    case False
    hence "i mod 4 = i - 4" using assms(3) by (simp add: le_mod_geq)
    thus ?thesis using field2_pull_byte [of "i - 4" ps 4] le assms(3) False by simp
  qed
qed

lemma group_bits:
  assumes "list_all (\<lambda>p. INPUT_ENABLE p \<le> 1 \<and> DATA_STRENGTH p \<le> 1 \<and> DATA_OUT p \<le> 1 \<and> PULL p \<le> 3) ps"
    and "length ps \<le> 8" "i < length ps"
  shows "bit (or_pins 0 INPUT_ENABLE ps) i \<longleftrightarrow> INPUT_ENABLE (ps ! i) = 1" "bit (or_pins 0 OEN ps) i \<longleftrightarrow> OUTPUT_ENABLE (ps ! i) = 0"
    "bit (or_pins 0 DATA_OUT ps) i \<longleftrightarrow> DATA_OUT (ps ! i) = 1" "bit (or_pins 0 DATA_STRENGTH ps) i \<longleftrightarrow> DATA_STRENGTH (ps ! i) = 1"
    "bit (or_pins 0 AS_GPIO_BIT ps) i \<longleftrightarrow> FUNC (ps ! i) = AS_GPIO"
  using assms by (simp_all add: bit_or_pins list_all_iff OEN_def AS_GPIO_BIT_def)

text \<open>
  C8. After \<open>gpio_init\<close> with the pull resistors, every pin is set as the configuration of the board
  says; the polarity and interrupt enable of the pins of groups A and D are off, those of the other
  groups and all routing fields are as before.
\<close>

theorem gpio_init_configures:
  assumes p: "is_pin g i" and c: "cfg_ok c"
  shows "pin_view (gpio_init c True st) g i = cfg_view g (group_cfg c g ! i) (pin_view st g i)"
proof -
  have b: "i < 8" "g = 4 \<Longrightarrow> i < 4" using p by (auto simp: is_pin_def)
  have len: "length (pa c) = 8" "length (pb c) = 8" "length (pc c) = 8" "length (pd c) = 8" "length (pe c) = 4"
    using c by (simp_all add: cfg_ok_def)
  have all: "list_all (\<lambda>p. INPUT_ENABLE p \<le> 1 \<and> DATA_STRENGTH p \<le> 1 \<and> DATA_OUT p \<le> 1 \<and> PULL p \<le> 3) ps"
    if "ps \<in> {pa c, pb c, pc c, pd c, pe c}" for ps using c that by (auto simp: cfg_ok_def)
  have pull: "list_all (\<lambda>p. PULL p \<le> 3) ps" if "ps \<in> {pa c, pb c, pc c, pd c, pe c}" for ps
    using all [OF that] by (simp add: list_all_iff)
  note facts = pin_view_regs cfg_view_def group_cfg_def gpio_init_keeps gpio_init_bank gpio_init_bank [unfolded One_nat_def] gpio_init_ana bit_byte
    pull_reg_numbers [OF b(1)] pull_reg_numbers [OF b(1), unfolded One_nat_def]
  have "g = 0 \<or> g = 1 \<or> g = 2 \<or> g = 3 \<or> g = 4" using is_pin_bounds [OF p] by (simp add: less_5)
  thus ?thesis
  proof (elim disjE)
    assume g: "g = 0"
    show ?thesis unfolding g using bit_settings [OF len(1) all b(1), simplified] pull_of_group [OF pull len(1) b(1), simplified] b
      by (cases "i < 4") (simp_all add: facts bit_drop_bit_eq)
  next
    assume g: "g = 3"
    show ?thesis unfolding g using bit_settings [OF len(4) all b(1), simplified] pull_of_group [OF pull len(4) b(1), simplified] b
      by (cases "i < 4") (simp_all add: facts bit_drop_bit_eq)
  next
    assume g: "g = 1"
    show ?thesis unfolding g using group_bits [OF all, of "pb c" i, simplified] pull_of_group [OF pull len(2) b(1), simplified] b len
      by (cases "i < 4") (simp_all add: facts bit_drop_bit_eq)
  next
    assume g: "g = 2"
    show ?thesis unfolding g using group_bits [OF all, of "pc c" i, simplified] pull_of_group [OF pull len(3) b(1), simplified] b len
      by (cases "i < 4") (simp_all add: facts bit_drop_bit_eq)
  next
    assume g: "g = 4"
    show ?thesis unfolding g using group_bits [OF all, of "pe c" i, simplified] b(1) b(2) [OF g] len
      by (cases "i < 4") (simp_all add: facts bit_drop_bit_eq)
  qed
qed


theorem gpio_init_configures_witness:
  "pin_view (gpio_init default_cfg True \<lparr>io = (\<lambda>_. 0xff), ana = (\<lambda>_. 0xff)\<rparr>) 0 7 =
     cfg_view 0 (pin_cfg.make 1 0 1 0 AS_SWIRE PM_PIN_PULLUP_1M) (pin_view \<lparr>io = (\<lambda>_. 0xff), ana = (\<lambda>_. 0xff)\<rparr> 0 7)"
  by (subst gpio_init_configures)
     (simp_all add: is_pin_def cfg_ok_def default_cfg_def pa_default_def pb_default_def pc_default_def pd_default_def
      pe_default_def group_cfg_def pin_cfg.defs gpio_consts)

section \<open>Reading back\<close>

lemma and_pin_bit: "i < 8 \<Longrightarrow> x AND push_bit i 1 \<noteq> 0 \<longleftrightarrow> bit x i" for x :: u8
  by (simp add: and_exp_eq_0_iff_not_bit)

text \<open>
  A cache filled by \<open>gpio_read_all\<close> answers as the input registers do for the pins of the first
  four groups; for a pin of group E the read is past the four bytes of the cache.
\<close>

theorem gpio_read_cache_agrees:
  assumes p: "is_pin g i"
  shows "gpio_read_cache (pin_of g i) (gpio_read_all st) = (if g < 4 then Some (gpio_read (pin_of g i) st) else None)"
proof -
  have "g = 0 \<or> g = 1 \<or> g = 2 \<or> g = 3 \<or> g = 4" using is_pin_bounds [OF p] by (simp add: less_5)
  thus ?thesis
    using pin_of_parts(1) [OF p]
    by (elim disjE) (simp_all add: gpio_read_cache_def gpio_read_all_def gpio_read_def reg_gpio_in_def)
qed

theorem gpio_read_cache_agrees_witness:
  "gpio_read_cache (pin_of 2 5) (gpio_read_all \<lparr>io = (\<lambda>a. if a = 0x590 then 0x30 else 0), ana = (\<lambda>_. 0)\<rparr>) = Some 0x20"
  by (subst gpio_read_cache_agrees) (simp_all add: is_pin_def gpio_read_def reg_gpio_in_def pin_of_def pin_bit_def)

text \<open>
  \<open>gpio_is_input_en\<close> reads back what \<open>gpio_set_input_en\<close> set for groups A, D and E; for groups
  B and C, whose enable bits are in analog registers, it reads a digital register that was not written.
\<close>

theorem gpio_input_en_reads_back:
  assumes p: "is_pin g i"
  shows "gpio_is_input_en (pin_of g i) (gpio_set_input_en (pin_of g i) b st) =
    (if g = 1 \<or> g = 2 then gpio_is_input_en (pin_of g i) st else b)"
  unfolding gpio_is_input_en_def ops_put [OF p] reg_of_pin [OF p] pin_of_parts(2) [OF p]
  using is_pin_bounds [OF p] and_pin_bit [of i] by simp

theorem gpio_input_en_reads_back_witness:
  "\<not> gpio_is_input_en (pin_of 1 3) (gpio_set_input_en (pin_of 1 3) True \<lparr>io = (\<lambda>_. 0), ana = (\<lambda>_. 0)\<rparr>)"
  by (subst gpio_input_en_reads_back) (simp_all add: is_pin_def gpio_is_input_en_def)

text \<open>
  Selecting the comparator on PD1 leaves PD1 on its first function and switches PD0 instead.
\<close>

theorem pd1_cmp_selects_on_pd0:
  "v_mux (pin_view (gpio_set_func GPIO_PD1 AS_CMP st) 3 1) = 0 \<and>
   v_mux (pin_view (gpio_set_func GPIO_PD1 AS_CMP st) 3 0) = v_mux (pin_view st 3 0) OR 1"
proof -
  have some: "map_of (mux_a @ mux_b @ mux_c @ mux_d) GPIO_PD1 = Some (0xf3, [(AS_CMP, 1), (AS_UART, 4)])"
    by (simp add: mux_a_def mux_b_def mux_c_def mux_d_def gpio_consts)
  have f: "field2 0 ((x AND 0xf3) OR 1) = field2 0 x OR 1" "field2 (Suc 0) ((x AND 0xf3) OR 1) = 0" for x
    by (simp_all add: field2_def drop_bit_or drop_bit_and bit.conj_disj_distrib2 and.assoc)
  have "gpio_config_special_func GPIO_PD1 AS_CMP s = write_io 0x5ae ((io s 0x5ae AND 0xf3) OR 1) s" for s
    unfolding gpio_config_special_func_def some by (simp add: gpio_consts)
  hence "gpio_set_func GPIO_PD1 AS_CMP st = write_io 0x5ae ((io st 0x5ae AND 0xf3) OR 1) (BM_CLR 0x59e 2 st)"
    unfolding gpio_set_func_def Let_def by (simp add: gpio_consts reg_gpio_gpio_func_def pin_bit_def BM_CLR_def)
  thus ?thesis by (simp add: pin_view_def f BM_CLR_def)
qed

end
