(* ===== verification/Soft_Timer.thy ===== *)
theory Soft_Timer
  imports Prelude "HOL-Library.Multiset"
begin

text \<open>
  The software timers of \<open>ble_sdk_multimode/vendor/common/blt_soft_timer.c\<close>: a table of at most
  four timers kept sorted by deadline, processed from the main loop and from the low-power wake-up
  callback. Ticks are 32-bit and wrap; deadlines are compared modulo 2^32. The stack's
  \<open>bls_pm_setAppWakeupLowPower\<close> is recorded by its last arguments; the user's callbacks are a
  parameter that returns the C \<open>int\<close> and may change the table.
\<close>

section \<open>State\<close>

record time_event =
  ev_cb :: nat
  ev_t :: u32
  ev_interval :: u32

record soft_timer =
  st_timer :: "time_event list"
  st_num :: u8
  st_wakeup :: "u32 \<times> bool"

text \<open>The value the code leaves in the debug register before a \<open>while(1)\<close>.\<close>

datatype timer_halt = Timer_halt u32

definition MAX_TIMER_NUM :: nat where "MAX_TIMER_NUM = 4"

definition CLOCK_16M_SYS_TIMER_CLK_1US :: u32 where "CLOCK_16M_SYS_TIMER_CLK_1US = 16"
definition CLOCK_16M_SYS_TIMER_CLK_1MS :: u32 where "CLOCK_16M_SYS_TIMER_CLK_1MS = 16000"
definition CLOCK_16M_SYS_TIMER_CLK_1S :: u32 where "CLOCK_16M_SYS_TIMER_CLK_1S = 16000000"

definition time_compare_big :: "u32 \<Rightarrow> u32 \<Rightarrow> bool" where
  "time_compare_big t1 t2 \<longleftrightarrow> t1 - t2 < push_bit 30 1"

definition blt_is_timer_expired :: "u32 \<Rightarrow> u32 \<Rightarrow> bool" where
  "blt_is_timer_expired t now \<longleftrightarrow>
     now + push_bit 7 CLOCK_16M_SYS_TIMER_CLK_1US - t < push_bit 2 CLOCK_16M_SYS_TIMER_CLK_1S"

section \<open>Sorting\<close>

text \<open>The inner and the outer loop of the bubble sort, by index as in the code.\<close>

function bubble_inner :: "nat \<Rightarrow> nat \<Rightarrow> time_event list \<Rightarrow> time_event list" where
  "bubble_inner j m xs =
     (if j < m then
        bubble_inner (Suc j) m
          (if time_compare_big (ev_t (xs ! j)) (ev_t (xs ! (j + 1)))
           then xs[j := xs ! (j + 1), j + 1 := xs ! j] else xs)
      else xs)"
  by pat_completeness auto
termination by (relation "measure (\<lambda>(j, m, _). m - j)") auto

function bubble_outer :: "nat \<Rightarrow> nat \<Rightarrow> time_event list \<Rightarrow> time_event list" where
  "bubble_outer i n xs =
     (if i < n - 1 then bubble_outer (Suc i) n (bubble_inner 0 (n - i - 1) xs) else xs)"
  by pat_completeness auto
termination by (relation "measure (\<lambda>(i, n, _). n - i)") auto

declare bubble_inner.simps [simp del] bubble_outer.simps [simp del]

definition blt_soft_timer_sort :: "soft_timer \<Rightarrow> timer_halt + soft_timer" where
  "blt_soft_timer_sort st =
     (if unat (st_num st) < 1 \<or> unat (st_num st) > MAX_TIMER_NUM then Inl (Timer_halt 0x11111120)
      else Inr (st\<lparr>st_timer := bubble_outer 0 (unat (st_num st)) (st_timer st)\<rparr>))"

section \<open>Adding and deleting\<close>

definition blt_soft_timer_add :: "u32 \<Rightarrow> nat \<Rightarrow> u32 \<Rightarrow> soft_timer \<Rightarrow> timer_halt + int \<times> soft_timer" where
  "blt_soft_timer_add now func interval_us st =
     (if unat (st_num st) \<ge> MAX_TIMER_NUM then Inr (0, st)
      else
        let interval = interval_us * CLOCK_16M_SYS_TIMER_CLK_1US;
            e = \<lparr>ev_cb = func, ev_t = now + interval, ev_interval = interval\<rparr>;
            st' = st\<lparr>st_timer := (st_timer st)[unat (st_num st) := e], st_num := st_num st + 1\<rparr>
        in map_sum id (\<lambda>s. (1, s)) (blt_soft_timer_sort st'))"

definition blt_soft_timer_delete_by_index :: "nat \<Rightarrow> soft_timer \<Rightarrow> timer_halt + soft_timer" where
  "blt_soft_timer_delete_by_index index st =
     (if index \<ge> unat (st_num st) then Inl (Timer_halt 0x11111121)
      else Inr (st\<lparr>st_timer := shift_down index (unat (st_num st) - 1) (st_timer st),
                   st_num := st_num st - 1\<rparr>))"

text \<open>
  \<open>blt_soft_timer_delete\<close> searches for the callback; when it deletes the first timer it reads the
  clock (\<open>now\<close>) and programs the wake-up from whatever now stands in \<open>timer[0]\<close>.
\<close>

function delete_from :: "nat \<Rightarrow> u32 \<Rightarrow> nat \<Rightarrow> soft_timer \<Rightarrow> timer_halt + int \<times> soft_timer" where
  "delete_from i now func st =
     (if i < unat (st_num st) then
        if ev_cb (st_timer st ! i) = func then
          (case blt_soft_timer_delete_by_index i st of
             Inl h \<Rightarrow> Inl h
           | Inr st' \<Rightarrow>
               Inr (1, if i = 0 then
                         if ev_t (st_timer st' ! 0) - now < 3000 * CLOCK_16M_SYS_TIMER_CLK_1MS
                         then st'\<lparr>st_wakeup := (ev_t (st_timer st' ! 0), True)\<rparr>
                         else st'\<lparr>st_wakeup := (0, False)\<rparr>
                       else st'))
        else delete_from (Suc i) now func st
      else Inr (0, st))"
  by pat_completeness auto
termination by (relation "measure (\<lambda>(i, _, _, st). unat (st_num st) - i)") auto

declare delete_from.simps [simp del]

definition blt_soft_timer_delete :: "u32 \<Rightarrow> nat \<Rightarrow> soft_timer \<Rightarrow> timer_halt + int \<times> soft_timer" where
  "blt_soft_timer_delete now func st = delete_from 0 now func st"

section \<open>Processing\<close>

text \<open>
  The loop over the table. \<open>call c st\<close> is the callback \<open>c\<close> run in state \<open>st\<close>. The index is
  incremented after every round, also after the deletion of the current timer.
\<close>

function process_loop ::
  "(nat \<Rightarrow> soft_timer \<Rightarrow> int \<times> soft_timer) \<Rightarrow> u32 \<Rightarrow> nat \<Rightarrow> bool \<Rightarrow> soft_timer
   \<Rightarrow> timer_halt + bool \<times> soft_timer" where
  "process_loop call now i change st =
     (if i < unat (st_num st) then
        if blt_is_timer_expired (ev_t (st_timer st ! i)) now then
          if ev_cb (st_timer st ! i) = 0 then Inl (Timer_halt 0x11111122)
          else
            let (result, st1) = call (ev_cb (st_timer st ! i)) st in
            if result < 0 then
              (case blt_soft_timer_delete_by_index i st1 of
                 Inl h \<Rightarrow> Inl h
               | Inr st2 \<Rightarrow> process_loop call now (Suc i) change st2)
            else
              let interval = (if result = 0 then ev_interval (st_timer st1 ! i)
                              else word_of_int result * CLOCK_16M_SYS_TIMER_CLK_1US);
                  e = (st_timer st1 ! i)\<lparr>ev_interval := interval, ev_t := now + interval\<rparr>
              in process_loop call now (Suc i) True (st1\<lparr>st_timer := (st_timer st1)[i := e]\<rparr>)
        else process_loop call now (Suc i) change st
      else Inr (change, st))"
  by pat_completeness auto
termination
  by (relation "measure (\<lambda>(_, _, i, _, _). 256 - i)")
    (auto dest!: less_unat_u8 intro: diff_less_mono2)

declare process_loop.simps [simp del]

definition blt_soft_timer_process ::
  "(nat \<Rightarrow> soft_timer \<Rightarrow> int \<times> soft_timer) \<Rightarrow> u32 \<Rightarrow> soft_timer \<Rightarrow> timer_halt + soft_timer" where
  "blt_soft_timer_process call now st =
     (if st_num st = 0 then Inr (st\<lparr>st_wakeup := (0, False)\<rparr>)
      else if \<not> blt_is_timer_expired (ev_t (st_timer st ! 0)) now then Inr st
      else
        case process_loop call now 0 False st of
          Inl h \<Rightarrow> Inl h
        | Inr (change, st1) \<Rightarrow>
            if st_num st1 \<noteq> 0 then
              (case (if change then blt_soft_timer_sort st1 else Inr st1) of
                 Inl h \<Rightarrow> Inl h
               | Inr st2 \<Rightarrow>
                   if ev_t (st_timer st2 ! 0) - now < 3000 * CLOCK_16M_SYS_TIMER_CLK_1MS
                   then Inr (st2\<lparr>st_wakeup := (ev_t (st_timer st2 ! 0), True)\<rparr>)
                   else Inr (st2\<lparr>st_wakeup := (0, False)\<rparr>))
            else Inr (st1\<lparr>st_wakeup := (0, False)\<rparr>))"

section \<open>The sort\<close>

text \<open>
  Deadlines are compared by their distance from a common base tick. When all distances are below
  2^30 (about 67 seconds), \<open>TIME_COMPARE_BIG\<close> is the order of the distances.
\<close>

definition dist :: "u32 \<Rightarrow> time_event \<Rightarrow> nat" where
  "dist base e = unat (ev_t e - base)"

lemma time_compare_big_dist:
  assumes "dist base x < 2 ^ 30" "dist base y < 2 ^ 30"
  shows "time_compare_big (ev_t x) (ev_t y) \<longleftrightarrow> dist base y \<le> dist base x"
proof -
  let ?a = "ev_t x - base" let ?b = "ev_t y - base"
  have d: "ev_t x - ev_t y = ?a - ?b" by simp
  have p: "unat (push_bit 30 1 :: u32) = 2 ^ 30" by simp
  show ?thesis
  proof (cases "?b \<le> ?a")
    case True
    then have "unat (?a - ?b) = unat ?a - unat ?b" by (rule unat_sub)
    with True assms p show ?thesis
      unfolding time_compare_big_def d by (simp add: word_less_nat_alt word_le_nat_alt dist_def)
  next
    case False
    then have "unat (?a - ?b) = 2 ^ 32 - (unat ?b - unat ?a)" using unat_sub_neg [of ?a ?b] by simp
    with False assms p show ?thesis
      unfolding time_compare_big_def d by (simp add: word_less_nat_alt word_le_nat_alt dist_def)
  qed
qed

definition in_window :: "u32 \<Rightarrow> nat \<Rightarrow> time_event list \<Rightarrow> bool" where
  "in_window base n xs \<longleftrightarrow> (\<forall>e \<in> set (take n xs). dist base e < 2 ^ 30)"

lemma in_window_nth: "in_window base n xs \<Longrightarrow> n \<le> length xs \<Longrightarrow> k < n \<Longrightarrow> dist base (xs ! k) < 2 ^ 30"
  by (force simp: in_window_def set_conv_nth)

lemma in_window_mset: "mset (take n ys) = mset (take n xs) \<Longrightarrow> in_window base n ys = in_window base n xs"
  unfolding in_window_def by (metis set_mset_mset)

lemma bubble_inner_max:
  "j \<le> m \<Longrightarrow> m < length xs \<Longrightarrow> in_window base (Suc m) xs \<Longrightarrow>
   \<forall>k<j. dist base (xs ! k) \<le> dist base (xs ! j) \<Longrightarrow>
   length (bubble_inner j m xs) = length xs \<and>
   mset (take (Suc m) (bubble_inner j m xs)) = mset (take (Suc m) xs) \<and>
   drop (Suc m) (bubble_inner j m xs) = drop (Suc m) xs \<and>
   (\<forall>k\<le>m. dist base (bubble_inner j m xs ! k) \<le> dist base (bubble_inner j m xs ! m))"
proof (induction j m xs rule: bubble_inner.induct)
  case (1 j m xs)
  show ?case
  proof (cases "j < m")
    case False
    then have "bubble_inner j m xs = xs" by (simp add: bubble_inner.simps [of j m xs])
    with False "1.prems" show ?thesis by (auto simp: le_eq_less_or_eq)
  next
    case True
    let ?b = "time_compare_big (ev_t (xs ! j)) (ev_t (xs ! (j + 1)))"
    let ?ys = "if ?b then xs[j := xs ! (j + 1), j + 1 := xs ! j] else xs"
    have len: "length ?ys = length xs" by simp
    have ms: "mset (take (Suc m) ?ys) = mset (take (Suc m) xs)"
      using True "1.prems"(2) mset_swap [of "j + 1" "take (Suc m) xs" j] by (simp add: take_update_swap)
    have dr: "drop (Suc m) ?ys = drop (Suc m) xs" using True by simp
    have b: "?b \<longleftrightarrow> dist base (xs ! (j + 1)) \<le> dist base (xs ! j)"
      using True "1.prems" in_window_nth [OF "1.prems"(3)] by (intro time_compare_big_dist) auto
    have pre: "\<forall>k<Suc j. dist base (?ys ! k) \<le> dist base (?ys ! Suc j)"
      using "1.prems"(2,4) b True by (auto simp: nth_list_update less_Suc_eq intro: le_trans)
    have "in_window base (Suc m) ?ys" using "1.prems"(3) ms in_window_mset by blast
    with "1.IH" [OF True _ _ _ pre] True "1.prems"(2) len ms dr show ?thesis
      by (simp only: bubble_inner.simps [of j m xs] if_True) simp
  qed
qed

text \<open>The sorted part of the table grows from the end.\<close>

definition top_sorted :: "u32 \<Rightarrow> nat \<Rightarrow> nat \<Rightarrow> time_event list \<Rightarrow> bool" where
  "top_sorted base lo n xs \<longleftrightarrow>
     (\<forall>a b. a \<le> b \<longrightarrow> lo \<le> b \<longrightarrow> b < n \<longrightarrow> dist base (xs ! a) \<le> dist base (xs ! b))"

lemma bubble_outer_sorted:
  "i \<le> n - 1 \<Longrightarrow> n \<le> length xs \<Longrightarrow> in_window base n xs \<Longrightarrow> top_sorted base (n - i) n xs \<Longrightarrow>
   length (bubble_outer i n xs) = length xs \<and>
   mset (take n (bubble_outer i n xs)) = mset (take n xs) \<and>
   drop n (bubble_outer i n xs) = drop n xs \<and> top_sorted base 1 n (bubble_outer i n xs)"
proof (induction i n xs rule: bubble_outer.induct)
  case (1 i n xs)
  show ?case
  proof (cases "i < n - 1")
    case False
    with "1.prems" have "n - i \<le> 1" by simp
    with "1.prems"(4) have "top_sorted base 1 n xs" unfolding top_sorted_def by (meson le_trans)
    moreover have "bubble_outer i n xs = xs" using False by (simp add: bubble_outer.simps [of i n xs])
    ultimately show ?thesis by simp
  next
    case True
    let ?m = "n - i - 1" let ?ys = "bubble_inner 0 ?m xs"
    have m: "?m < length xs" "Suc ?m \<le> n" using True "1.prems"(2) by simp_all
    have w: "in_window base (Suc ?m) xs"
      using "1.prems"(3) m(2) unfolding in_window_def by (meson set_take_subset_set_take subsetD)
    have inn: "length ?ys = length xs" "mset (take (Suc ?m) ?ys) = mset (take (Suc ?m) xs)"
      "drop (Suc ?m) ?ys = drop (Suc ?m) xs" "\<forall>k\<le>?m. dist base (?ys ! k) \<le> dist base (?ys ! ?m)"
      using bubble_inner_max [of 0 ?m xs base] m(1) w by auto
    have high: "?ys ! k = xs ! k" if "Suc ?m \<le> k" "k < length xs" for k
      using arg_cong [OF inn(3), of "\<lambda>l. l ! (k - Suc ?m)"] that inn(1) by simp
    have tk: "take n zs = take (Suc ?m) zs @ take (n - Suc ?m) (drop (Suc ?m) zs)" for zs :: "time_event list"
      using m(2) take_add [of "Suc ?m" "n - Suc ?m" zs] by simp
    have ms: "mset (take n ?ys) = mset (take n xs)"
      by (simp only: tk mset_append inn)
    have dr: "drop n ?ys = drop n xs"
      using arg_cong [OF inn(3), of "drop (n - Suc ?m)"] m(2) by (simp add: drop_drop)
    have ts: "top_sorted base (n - Suc i) n ?ys"
      unfolding top_sorted_def
    proof (intro allI impI)
      fix a b assume ab: "a \<le> b" "n - Suc i \<le> b" "b < n"
      show "dist base (?ys ! a) \<le> dist base (?ys ! b)"
      proof (cases "b = ?m")
        case True
        then show ?thesis using inn(4) ab(1) by simp
      next
        case False
        then have b: "Suc ?m \<le> b" "b < length xs" using ab "1.prems"(2) by auto
        have nb: "n - i \<le> b" using b(1) True by simp
        show ?thesis
        proof (cases "a \<le> ?m")
          case True
          then have "?ys ! a \<in> set (take (Suc ?m) ?ys)"
            using m inn(1) by (auto simp: set_conv_nth intro!: exI [of _ a])
          then have "?ys ! a \<in> set (take (Suc ?m) xs)" using inn(2) by (metis set_mset_mset)
          then obtain c where "c \<le> ?m" "?ys ! a = xs ! c"
            by (auto simp: in_set_conv_nth less_Suc_eq_le)
          then show ?thesis
            using "1.prems"(4) high [OF b] b(1) nb ab(3) unfolding top_sorted_def by simp
        next
          case False
          then show ?thesis
            using "1.prems"(4) high [OF b] high [of a] b nb ab unfolding top_sorted_def by simp
        qed
      qed
    qed
    have "in_window base n ?ys" using "1.prems"(3) ms in_window_mset by blast
    with "1.IH" [OF True] True "1.prems"(2) inn(1) ms dr ts show ?thesis
      by (simp only: bubble_outer.simps [of i n xs] if_True)
  qed
qed

section \<open>What the operations do to the live timers\<close>

definition timer_inv :: "soft_timer \<Rightarrow> bool" where
  "timer_inv st \<longleftrightarrow> length (st_timer st) = MAX_TIMER_NUM \<and> unat (st_num st) \<le> MAX_TIMER_NUM"

definition live :: "soft_timer \<Rightarrow> time_event list" where
  "live st = take (unat (st_num st)) (st_timer st)"

lemma length_live: "timer_inv st \<Longrightarrow> length (live st) = unat (st_num st)"
  by (simp add: timer_inv_def live_def)

lemma live_nth: "i < unat (st_num st) \<Longrightarrow> live st ! i = st_timer st ! i"
  by (simp add: live_def)

definition deadlines_sorted :: "u32 \<Rightarrow> soft_timer \<Rightarrow> bool" where
  "deadlines_sorted base st \<longleftrightarrow> sorted (map (dist base) (live st))"

lemma sort_live:
  assumes inv: "timer_inv st" and ne: "st_num st \<noteq> 0" and w: "\<forall>e \<in> set (live st). dist base e < 2 ^ 30"
  shows "\<exists>st'. blt_soft_timer_sort st = Inr st' \<and> timer_inv st' \<and> mset (live st') = mset (live st) \<and>
    deadlines_sorted base st' \<and> st_num st' = st_num st \<and> st_wakeup st' = st_wakeup st"
proof -
  let ?n = "unat (st_num st)" let ?xs = "st_timer st" let ?ys = "bubble_outer 0 ?n ?xs"
  have n: "0 < ?n" "?n \<le> length ?xs" using inv ne by (simp_all add: timer_inv_def unat_gt_0)
  have "in_window base ?n ?xs" using w by (simp add: in_window_def live_def)
  moreover have "top_sorted base (?n - 0) ?n ?xs" by (simp add: top_sorted_def)
  ultimately have o': "length ?ys = length ?xs" "mset (take ?n ?ys) = mset (take ?n ?xs)"
    "top_sorted base 1 ?n ?ys"
    using bubble_outer_sorted [of 0 ?n ?xs base] n by auto
  let ?st = "st\<lparr>st_timer := ?ys\<rparr>"
  have s: "blt_soft_timer_sort st = Inr ?st"
    using inv n by (simp add: blt_soft_timer_sort_def timer_inv_def)
  have "deadlines_sorted base ?st"
    unfolding deadlines_sorted_def sorted_iff_nth_mono
  proof (intro allI impI)
    fix i j assume "i \<le> j" "j < length (map (dist base) (live ?st))"
    then show "map (dist base) (live ?st) ! i \<le> map (dist base) (live ?st) ! j"
      using o'(1,3) by (cases "j = 0") (auto simp: live_def top_sorted_def)
  qed
  with s inv o' show ?thesis by (auto simp: timer_inv_def live_def)
qed

lemma add_live:
  assumes inv: "timer_inv st" and room: "unat (st_num st) < MAX_TIMER_NUM"
    and e: "e = \<lparr>ev_cb = func, ev_t = now + us * 16, ev_interval = us * 16\<rparr>"
    and w: "\<forall>x \<in> set (e # live st). dist base x < 2 ^ 30"
  shows "\<exists>st'. blt_soft_timer_add now func us st = Inr (1, st') \<and> timer_inv st' \<and>
    mset (live st') = mset (e # live st) \<and> deadlines_sorted base st' \<and>
    st_num st' = st_num st + 1 \<and> st_wakeup st' = st_wakeup st"
proof -
  let ?n = "unat (st_num st)"
  let ?st = "st\<lparr>st_timer := (st_timer st)[?n := e], st_num := st_num st + 1\<rparr>"
  have n1: "unat (st_num st + 1) = ?n + 1"
    using room by (intro unat_plus_one) (simp add: MAX_TIMER_NUM_def)
  have lv: "live ?st = live st @ [e]"
    using inv room by (simp add: live_def n1 timer_inv_def take_Suc_conv_app_nth)
  have "timer_inv ?st" using inv room n1 by (simp add: timer_inv_def)
  moreover have "st_num ?st \<noteq> 0" using n1 by (auto dest: arg_cong [of _ _ unat])
  ultimately obtain st' where "blt_soft_timer_sort ?st = Inr st'" "timer_inv st'"
    "mset (live st') = mset (live ?st)" "deadlines_sorted base st'"
    "st_num st' = st_num ?st" "st_wakeup st' = st_wakeup ?st"
    using sort_live [of ?st base] w lv by auto
  then show ?thesis
    using room lv by (simp add: blt_soft_timer_add_def Let_def e CLOCK_16M_SYS_TIMER_CLK_1US_def not_le)
qed

lemma delete_by_index_live:
  assumes inv: "timer_inv st" and i: "i < unat (st_num st)"
  shows "\<exists>st'. blt_soft_timer_delete_by_index i st = Inr st' \<and> timer_inv st' \<and>
    live st' = take i (live st) @ drop (Suc i) (live st) \<and> st_wakeup st' = st_wakeup st \<and>
    unat (st_num st') = unat (st_num st) - 1"
proof -
  let ?n = "unat (st_num st)" let ?xs = "st_timer st"
  let ?st = "st\<lparr>st_timer := shift_down i (?n - 1) ?xs, st_num := st_num st - 1\<rparr>"
  have len: "?n \<le> length ?xs" using inv by (simp add: timer_inv_def)
  have n1: "unat (st_num st - 1) = ?n - 1" using i by (intro unat_minus_one) auto
  have sh: "length (shift_down i (?n - 1) ?xs) = length ?xs"
    "\<forall>k < length ?xs. shift_down i (?n - 1) ?xs ! k = (if i \<le> k \<and> k < ?n - 1 then ?xs ! Suc k else ?xs ! k)"
    using shift_down_nth [of i "?n - 1" ?xs] i len by auto
  have lv: "live ?st = take i (live st) @ drop (Suc i) (live st)"
  proof (rule nth_equalityI)
    show "length (live ?st) = length (take i (live st) @ drop (Suc i) (live st))"
      using i len sh(1) by (simp add: live_def n1)
  next
    fix k assume "k < length (live ?st)"
    then have "k < ?n - 1" using sh(1) len by (simp add: live_def n1)
    then show "live ?st ! k = (take i (live st) @ drop (Suc i) (live st)) ! k"
      using sh(2) len i by (simp add: live_def n1 nth_append)
  qed
  have "timer_inv ?st" using inv sh(1) n1 by (auto simp: timer_inv_def)
  then show ?thesis using lv i n1 by (simp add: blt_soft_timer_delete_by_index_def)
qed

lemma delete_from_live:
  "timer_inv st \<Longrightarrow> i \<le> unat (st_num st) \<Longrightarrow> \<forall>k<i. ev_cb (live st ! k) \<noteq> func \<Longrightarrow>
   \<exists>r st'. delete_from i now func st = Inr (r, st') \<and> timer_inv st' \<and>
     r = (if \<exists>e \<in> set (live st). ev_cb e = func then 1 else 0) \<and>
     live st' = takeWhile (\<lambda>e. ev_cb e \<noteq> func) (live st) @ tl (dropWhile (\<lambda>e. ev_cb e \<noteq> func) (live st))"
proof (induction "unat (st_num st) - i" arbitrary: i rule: less_induct)
  case less
  let ?P = "\<lambda>e. ev_cb e \<noteq> func" let ?n = "unat (st_num st)"
  note len = length_live [OF less.prems(1)]
  show ?case
  proof (cases "i < ?n")
    case False
    then have all: "\<forall>e \<in> set (live st). ?P e" using less.prems(2,3) len by (auto simp: in_set_conv_nth)
    then have tw: "takeWhile ?P (live st) = live st" "dropWhile ?P (live st) = []"
      by (auto simp: takeWhile_eq_all_conv)
    have "delete_from i now func st = Inr (0, st)"
      using False by (simp add: delete_from.simps [of i])
    then show ?thesis unfolding tw using less.prems(1) all by auto
  next
    case True
    show ?thesis
    proof (cases "ev_cb (st_timer st ! i) = func")
      case False
      then have "\<forall>k<Suc i. ?P (live st ! k)" using less.prems(3) True by (auto simp: less_Suc_eq live_nth)
      moreover have "delete_from i now func st = delete_from (Suc i) now func st"
        using True False by (simp add: delete_from.simps [of i])
      ultimately show ?thesis using less.hyps [of "Suc i"] less.prems True by simp
    next
      case hit: True
      obtain st' where st': "blt_soft_timer_delete_by_index i st = Inr st'" "timer_inv st'"
        "live st' = take i (live st) @ drop (Suc i) (live st)"
        using delete_by_index_live [OF less.prems(1) True] by auto
      have h: "\<not> ?P (live st ! i)" using hit True by (simp add: live_nth)
      have tw: "takeWhile ?P (live st) = take i (live st)"
        using less.prems(3) True len h by (intro takeWhile_eq_take_P_nth) auto
      then have dw: "dropWhile ?P (live st) = drop i (live st)"
        by (metis append_eq_conv_conj append_take_drop_id takeWhile_dropWhile_id)
      have "live st ! i \<in> set (live st)" using True len by simp
      with h have "\<exists>e \<in> set (live st). ev_cb e = func" by auto
      moreover have "\<exists>st2. delete_from i now func st = Inr (1, st2) \<and> timer_inv st2 \<and> live st2 = live st'"
        using True hit st'(1,2) by (auto simp: delete_from.simps [of i] timer_inv_def live_def)
      ultimately show ?thesis using st'(3) by (auto simp: tw dw drop_Suc tl_drop)
    qed
  qed
qed

section \<open>One round of processing\<close>

text \<open>
  What one pass of the loop does to the list of live timers, for callbacks that return \<open>res\<close> and
  leave the table alone: an expired timer is rescheduled, or deleted when its callback returns a
  negative value; after a deletion the timer that moved into the slot is passed over.
\<close>

definition reschedule :: "int \<Rightarrow> u32 \<Rightarrow> time_event \<Rightarrow> time_event" where
  "reschedule r now e =
     (let interval = (if r = 0 then ev_interval e else word_of_int r * CLOCK_16M_SYS_TIMER_CLK_1US)
      in e\<lparr>ev_interval := interval, ev_t := now + interval\<rparr>)"

fun process_spec :: "(nat \<Rightarrow> int) \<Rightarrow> u32 \<Rightarrow> time_event list \<Rightarrow> time_event list" where
  "process_spec res now [] = []"
| "process_spec res now (e # es) =
     (if \<not> blt_is_timer_expired (ev_t e) now then e # process_spec res now es
      else if res (ev_cb e) < 0 then
        (case es of [] \<Rightarrow> [] | x # es' \<Rightarrow> x # process_spec res now es')
      else reschedule (res (ev_cb e)) now e # process_spec res now es)"

lemma process_spec_drop:
  assumes "i < length xs"
  shows "process_spec res now (drop i xs) =
     (if \<not> blt_is_timer_expired (ev_t (xs ! i)) now then xs ! i # process_spec res now (drop (Suc i) xs)
      else if res (ev_cb (xs ! i)) < 0 then
        (if Suc i < length xs then xs ! Suc i # process_spec res now (drop (Suc (Suc i)) xs) else [])
      else reschedule (res (ev_cb (xs ! i))) now (xs ! i) # process_spec res now (drop (Suc i) xs))"
  using assms
  by (simp add: Cons_nth_drop_Suc [symmetric] del: drop_Suc_Cons split: list.split)

lemma process_loop_spec:
  "timer_inv st \<Longrightarrow> \<forall>e \<in> set (live st). ev_cb e \<noteq> 0 \<Longrightarrow> i \<le> unat (st_num st) \<Longrightarrow>
   \<exists>ch' st'. process_loop (\<lambda>c s. (res c, s)) now i ch st = Inr (ch', st') \<and> timer_inv st' \<and>
     live st' = take i (live st) @ process_spec res now (drop i (live st)) \<and>
     st_wakeup st' = st_wakeup st"
proof (induction "unat (st_num st) - i" arbitrary: i st ch rule: less_induct)
  case less
  let ?n = "unat (st_num st)" let ?call = "\<lambda>c s. (res c, s)" let ?e = "live st ! i"
  note len = length_live [OF less.prems(1)]
  show ?case
  proof (cases "i < ?n")
    case False
    then have "process_loop ?call now i ch st = Inr (ch, st)"
      by (simp add: process_loop.simps [of _ _ i])
    with False less.prems len show ?thesis by simp
  next
    case True
    then have e: "st_timer st ! i = ?e" by (simp add: live_nth)
    have cb: "ev_cb ?e \<noteq> 0" using less.prems(2) True len by auto
    have tk: "take (Suc i) (live st) = take i (live st) @ [?e]"
      using True len by (simp add: take_Suc_conv_app_nth)
    note spec = process_spec_drop [of i "live st" res now]
    show ?thesis
    proof (cases "blt_is_timer_expired (ev_t ?e) now")
      case False
      then have "process_loop ?call now i ch st = process_loop ?call now (Suc i) ch st"
        using True e by (simp add: process_loop.simps [of _ _ i])
      moreover have "\<exists>ch' st'. process_loop ?call now (Suc i) ch st = Inr (ch', st') \<and> timer_inv st' \<and>
        live st' = take (Suc i) (live st) @ process_spec res now (drop (Suc i) (live st)) \<and>
        st_wakeup st' = st_wakeup st"
        using True less.prems by (intro less.hyps) auto
      ultimately show ?thesis using False True len spec tk by simp
    next
      case exp: True
      show ?thesis
      proof (cases "res (ev_cb ?e) < 0")
        case True
        obtain st2 where st2: "blt_soft_timer_delete_by_index i st = Inr st2" "timer_inv st2"
          "live st2 = take i (live st) @ drop (Suc i) (live st)" "st_wakeup st2 = st_wakeup st"
          "unat (st_num st2) = ?n - 1"
          using delete_by_index_live [OF less.prems(1) \<open>i < ?n\<close>] by auto
        have "process_loop ?call now i ch st = process_loop ?call now (Suc i) ch st2"
          using \<open>i < ?n\<close> e cb exp True st2(1) by (simp add: process_loop.simps [of _ _ i])
        moreover have "\<exists>ch' st'. process_loop ?call now (Suc i) ch st2 = Inr (ch', st') \<and> timer_inv st' \<and>
          live st' = take i (live st) @ process_spec res now (drop i (live st)) \<and>
          st_wakeup st' = st_wakeup st"
        proof (cases "Suc i < ?n")
          case True
          have "\<forall>x \<in> set (live st2). ev_cb x \<noteq> 0"
            using less.prems(2) st2(3) by (auto dest: in_set_takeD in_set_dropD)
          then obtain ch' st' where r: "process_loop ?call now (Suc i) ch st2 = Inr (ch', st')" "timer_inv st'"
            "live st' = take (Suc i) (live st2) @ process_spec res now (drop (Suc i) (live st2))"
            "st_wakeup st' = st_wakeup st2"
          proof -
            have "unat (st_num st2) - Suc i < ?n - i" "Suc i \<le> unat (st_num st2)"
              using st2(5) True by linarith+
            with less.hyps [of st2 "Suc i" ch] st2(2) \<open>\<forall>x \<in> set (live st2). ev_cb x \<noteq> 0\<close> that
            show thesis by blast
          qed
          have "take (Suc i) (live st2) = take i (live st) @ [live st ! Suc i]"
            "drop (Suc i) (live st2) = drop (Suc (Suc i)) (live st)"
            using st2(3) True len by (simp_all add: take_Suc_conv_app_nth nth_append)
          with r st2(4) exp \<open>res (ev_cb ?e) < 0\<close> spec True len show ?thesis by simp
        next
          case False
          with \<open>i < ?n\<close> have n: "?n = Suc i" by simp
          then have "process_loop ?call now (Suc i) ch st2 = Inr (ch, st2)"
            using st2(5) by (simp add: process_loop.simps [of _ _ "Suc i"])
          with n st2 exp \<open>res (ev_cb ?e) < 0\<close> spec len show ?thesis by simp
        qed
        ultimately show ?thesis by simp
      next
        case False
        let ?e' = "reschedule (res (ev_cb ?e)) now ?e"
        let ?st = "st\<lparr>st_timer := (st_timer st)[i := ?e']\<rparr>"
        have lv: "live ?st = (live st)[i := ?e']" by (simp add: live_def take_update_swap)
        have "process_loop ?call now i ch st = process_loop ?call now (Suc i) True ?st"
          using \<open>i < ?n\<close> e cb exp False
          by (simp add: process_loop.simps [of _ _ i] reschedule_def Let_def split: if_splits)
        moreover have "timer_inv ?st" using less.prems(1) by (simp add: timer_inv_def)
        moreover have "\<forall>x \<in> set (live ?st). ev_cb x \<noteq> 0"
          using less.prems(2) cb unfolding lv
          by (auto simp: reschedule_def Let_def dest!: subsetD [OF set_update_subset_insert])
        ultimately obtain ch' st' where r: "process_loop ?call now i ch st = Inr (ch', st')" "timer_inv st'"
          "live st' = take (Suc i) (live ?st) @ process_spec res now (drop (Suc i) (live ?st))"
          "st_wakeup st' = st_wakeup st"
        proof -
          assume a: "process_loop ?call now i ch st = process_loop ?call now (Suc i) True ?st"
            "timer_inv ?st" "\<forall>x \<in> set (live ?st). ev_cb x \<noteq> 0"
          have "unat (st_num ?st) - Suc i < ?n - i" "Suc i \<le> unat (st_num ?st)"
            using \<open>i < ?n\<close> by simp_all
          from less.hyps [OF this(1) a(2,3) this(2), of True] obtain ch' st' where
            "process_loop ?call now (Suc i) True ?st = Inr (ch', st')" "timer_inv st'"
            "live st' = take (Suc i) (live ?st) @ process_spec res now (drop (Suc i) (live ?st))"
            "st_wakeup st' = st_wakeup ?st" by blast
          with a(1) show thesis by (intro that [of ch' st']) simp_all
        qed
        have "take (Suc i) (live ?st) = take i (live st) @ [?e']"
          "drop (Suc i) (live ?st) = drop (Suc i) (live st)"
          using \<open>i < ?n\<close> len unfolding lv by (simp_all add: take_Suc_conv_app_nth)
        with r exp False spec \<open>i < ?n\<close> len show ?thesis by simp
      qed
    qed
  qed
qed

lemma three_seconds: "3000 * CLOCK_16M_SYS_TIMER_CLK_1MS = 48000000"
  by (simp add: CLOCK_16M_SYS_TIMER_CLK_1MS_def)

lemma process_live:
  assumes inv: "timer_inv st" and cb: "\<forall>e \<in> set (live st). ev_cb e \<noteq> 0"
    and ne: "live st \<noteq> []" and due: "blt_is_timer_expired (ev_t (hd (live st))) now"
    and w: "\<forall>e \<in> set (process_spec res now (live st)). dist base e < 2 ^ 30"
  shows "\<exists>st'. blt_soft_timer_process (\<lambda>c s. (res c, s)) now st = Inr st' \<and> timer_inv st' \<and>
    mset (live st') = mset (process_spec res now (live st)) \<and>
    st_wakeup st' =
      (if live st' \<noteq> [] \<and> ev_t (hd (live st')) - now < 48000000 then (ev_t (hd (live st')), True)
       else (0, False))"
proof -
  let ?call = "\<lambda>c s. (res c, s)"
  have n: "0 < unat (st_num st)" using ne by (auto simp: live_def)
  have hd: "hd (live s) = st_timer s ! 0" if "live s \<noteq> []" for s
    using that by (metis live_nth hd_conv_nth length_greater_0_conv length_take live_def min_less_iff_conj)
  obtain ch st1 where st1: "process_loop ?call now 0 False st = Inr (ch, st1)" "timer_inv st1"
    "live st1 = process_spec res now (live st)"
    using process_loop_spec [OF inv cb, of 0 res now False] by auto
  have p: "blt_soft_timer_process ?call now st =
    (if st_num st1 \<noteq> 0 then
       (case (if ch then blt_soft_timer_sort st1 else Inr st1) of
          Inl h \<Rightarrow> Inl h
        | Inr st2 \<Rightarrow>
            if ev_t (st_timer st2 ! 0) - now < 48000000
            then Inr (st2\<lparr>st_wakeup := (ev_t (st_timer st2 ! 0), True)\<rparr>)
            else Inr (st2\<lparr>st_wakeup := (0, False)\<rparr>))
     else Inr (st1\<lparr>st_wakeup := (0, False)\<rparr>))"
    using n due st1(1) hd [OF ne]
    by (simp add: blt_soft_timer_process_def three_seconds unat_gt_0 cong: if_cong sum.case_cong)
  have lv0: "live s = [] \<longleftrightarrow> st_num s = 0" if "timer_inv s" for s
    using length_live [OF that] by (metis length_0_conv unat_0_iff)
  have upd: "live (s\<lparr>st_wakeup := x\<rparr>) = live s" "timer_inv (s\<lparr>st_wakeup := x\<rparr>) = timer_inv s" for s x
    by (simp_all add: live_def timer_inv_def)
  show ?thesis
  proof (cases "st_num st1 = 0")
    case True
    then have "live st1 = []" using lv0 st1(2) by simp
    with True p st1 upd show ?thesis by auto
  next
    case False
    obtain st2 where st2: "(if ch then blt_soft_timer_sort st1 else Inr st1) = Inr st2" "timer_inv st2"
      "mset (live st2) = mset (live st1)"
      using sort_live [OF st1(2) False, of base] w st1(2,3) by (cases ch) auto
    then have "live st2 \<noteq> []" using False lv0 st1(2) by (metis mset_zero_iff)
    then show ?thesis using False p st1(3) st2 upd hd by auto
  qed
qed

section \<open>Properties\<close>

text \<open>
  C17. The sort: on a table of one to four live timers whose deadlines all lie within 2^30 ticks after
  some base tick, \<open>blt_soft_timer_sort\<close> returns a permutation of the live timers in the order of
  their deadlines, also when the deadlines wrap around 2^32.
\<close>

theorem soft_timer_sort_correct:
  assumes "timer_inv st" and "st_num st \<noteq> 0" and "\<forall>e \<in> set (live st). dist base e < 2 ^ 30"
  shows "\<exists>st'. blt_soft_timer_sort st = Inr st' \<and> mset (live st') = mset (live st) \<and>
    sorted (map (dist base) (live st'))"
  using sort_live [OF assms] by (auto simp: deadlines_sorted_def)

definition timer_sample :: soft_timer where
  "timer_sample =
     \<lparr>st_timer = [\<lparr>ev_cb = 1, ev_t = 5, ev_interval = 100\<rparr>, \<lparr>ev_cb = 2, ev_t = 0xFFFFFFF0, ev_interval = 100\<rparr>,
        \<lparr>ev_cb = 0, ev_t = 0, ev_interval = 0\<rparr>, \<lparr>ev_cb = 0, ev_t = 0, ev_interval = 0\<rparr>],
      st_num = 2, st_wakeup = (0, False)\<rparr>"

lemma timer_sample_inv: "timer_inv timer_sample"
  by (simp add: timer_inv_def timer_sample_def MAX_TIMER_NUM_def)

lemma timer_sample_live:
  "live timer_sample = [\<lparr>ev_cb = 1, ev_t = 5, ev_interval = 100\<rparr>, \<lparr>ev_cb = 2, ev_t = 0xFFFFFFF0, ev_interval = 100\<rparr>]"
  by (simp add: live_def timer_sample_def)

theorem soft_timer_sort_correct_witness:
  "\<exists>st'. blt_soft_timer_sort timer_sample = Inr st' \<and> mset (live st') = mset (live timer_sample) \<and>
    sorted (map (dist 0xFFFFFF00) (live st'))"
proof (rule soft_timer_sort_correct [OF timer_sample_inv])
  show "st_num timer_sample \<noteq> 0" by (simp add: timer_sample_def)
  show "\<forall>e \<in> set (live timer_sample). dist 0xFFFFFF00 e < 2 ^ 30"
    by (simp add: timer_sample_live dist_def)
qed

text \<open>
  C15. Adding: while there is room, \<open>blt_soft_timer_add\<close> returns 1 and the live timers become the old
  ones and the new one (deadline \<open>now + interval_us * 16\<close>), sorted by deadline; the table invariant
  is kept. With four live timers it returns 0 and changes nothing.
\<close>

theorem soft_timer_add_correct:
  assumes "timer_inv st"
    and "\<forall>x \<in> set (\<lparr>ev_cb = func, ev_t = now + us * 16, ev_interval = us * 16\<rparr> # live st). dist base x < 2 ^ 30"
  shows "if length (live st) < 4
    then \<exists>st'. blt_soft_timer_add now func us st = Inr (1, st') \<and> timer_inv st' \<and>
      mset (live st') = mset (\<lparr>ev_cb = func, ev_t = now + us * 16, ev_interval = us * 16\<rparr> # live st) \<and>
      sorted (map (dist base) (live st'))
    else blt_soft_timer_add now func us st = Inr (0, st)"
  using add_live [OF assms(1) _ refl assms(2)] length_live [OF assms(1)]
  by (auto simp: deadlines_sorted_def MAX_TIMER_NUM_def blt_soft_timer_add_def not_less)

theorem soft_timer_add_correct_witness:
  "if length (live timer_sample) < 4
    then \<exists>st'. blt_soft_timer_add 16 7 10 timer_sample = Inr (1, st') \<and> timer_inv st' \<and>
      mset (live st') = mset (\<lparr>ev_cb = 7, ev_t = 16 + 10 * 16, ev_interval = 10 * 16\<rparr> # live timer_sample) \<and>
      sorted (map (dist 0xFFFFFF00) (live st'))
    else blt_soft_timer_add 16 7 10 timer_sample = Inr (0, timer_sample)"
  by (rule soft_timer_add_correct [OF timer_sample_inv]) (simp add: timer_sample_live dist_def)

text \<open>
  C17. Deleting: \<open>blt_soft_timer_delete\<close> removes exactly the first live timer of the callback, keeps the
  others in their order and returns 1, or returns 0 when there is none; it never stops at the
  assertion of \<open>blt_soft_timer_delete_by_index\<close>.
\<close>

theorem soft_timer_delete_correct:
  assumes "timer_inv st"
  shows "\<exists>r st'. blt_soft_timer_delete now func st = Inr (r, st') \<and> timer_inv st' \<and>
     r = (if func \<in> ev_cb ` set (live st) then 1 else 0) \<and>
     live st' = takeWhile (\<lambda>e. ev_cb e \<noteq> func) (live st) @ tl (dropWhile (\<lambda>e. ev_cb e \<noteq> func) (live st))"
  using delete_from_live [OF assms, of 0 func now]
  by (auto simp: blt_soft_timer_delete_def image_iff Bex_def)

theorem soft_timer_delete_correct_witness:
  "\<exists>r st'. blt_soft_timer_delete 0 2 timer_sample = Inr (r, st') \<and> timer_inv st' \<and>
     r = (if 2 \<in> ev_cb ` set (live timer_sample) then 1 else 0) \<and>
     live st' = takeWhile (\<lambda>e. ev_cb e \<noteq> 2) (live timer_sample) @
       tl (dropWhile (\<lambda>e. ev_cb e \<noteq> 2) (live timer_sample))"
  by (rule soft_timer_delete_correct [OF timer_sample_inv])



text \<open>
  A due timer can be passed over and its wake-up lost: with two timers due, when the first one's
  callback returns a negative value, the second is moved into its slot, is not called in this round,
  stays in the table unchanged, and, its deadline being past, the low-power wake-up is disarmed.
\<close>

theorem soft_timer_process_skips_due_timer:
  assumes inv: "timer_inv st" and lv: "live st = [a, b]" and cb: "ev_cb a \<noteq> 0" "ev_cb b \<noteq> 0"
    and due: "blt_is_timer_expired (ev_t a) now" "blt_is_timer_expired (ev_t b) now"
    and neg: "res (ev_cb a) < 0" and past: "\<not> ev_t b - now < 48000000"
  shows "\<exists>st'. blt_soft_timer_process (\<lambda>c s. (res c, s)) now st = Inr st' \<and>
    live st' = [b] \<and> st_wakeup st' = (0, False)"
proof -
  have sp: "process_spec res now (live st) = [b]" using due neg by (simp add: lv)
  have "\<forall>e \<in> set (live st). ev_cb e \<noteq> 0" "live st \<noteq> []" "blt_is_timer_expired (ev_t (hd (live st))) now"
    "\<forall>e \<in> set (process_spec res now (live st)). dist (ev_t b) e < 2 ^ 30"
    using cb due neg by (simp_all add: lv dist_def sp [unfolded lv])
  from process_live [OF inv this] sp past show ?thesis by auto
qed

theorem soft_timer_process_skips_due_timer_witness:
  "\<exists>st'. blt_soft_timer_process (\<lambda>c s. (- 1, s)) 10 timer_sample = Inr st' \<and>
    live st' = [\<lparr>ev_cb = 2, ev_t = 0xFFFFFFF0, ev_interval = 100\<rparr>] \<and> st_wakeup st' = (0, False)"
  by (rule soft_timer_process_skips_due_timer [OF timer_sample_inv timer_sample_live])
    (simp_all add: blt_is_timer_expired_def CLOCK_16M_SYS_TIMER_CLK_1US_def CLOCK_16M_SYS_TIMER_CLK_1S_def)

text \<open>
  Deleting the only timer leaves its deadline armed: the wake-up is programmed from \<open>timer[0]\<close>
  although the table is now empty, so the stack is told to wake for the deleted timer.
\<close>

theorem soft_timer_delete_last_arms_stale:
  assumes inv: "timer_inv st" and lv: "live st = [a]" and near: "ev_t a - now < 48000000"
  shows "\<exists>st'. blt_soft_timer_delete now (ev_cb a) st = Inr (1, st') \<and> live st' = [] \<and>
    st_wakeup st' = (ev_t a, True)"
proof -
  have n: "unat (st_num st) = 1" using length_live [OF inv] lv by simp
  then have n1: "st_num st = 1" by (metis unat_1 word_unat_eq_iff)
  have t0: "st_timer st ! 0 = a" using live_nth [of 0 st] n lv by simp
  have "shift_down 0 0 (st_timer st) = st_timer st" by (simp add: shift_down.simps [of 0 0])
  then show ?thesis
    using near t0
    by (simp add: blt_soft_timer_delete_def delete_from.simps [of 0] blt_soft_timer_delete_by_index_def
        n1 CLOCK_16M_SYS_TIMER_CLK_1MS_def live_def)
qed

theorem soft_timer_delete_last_arms_stale_witness:
  "\<exists>st'. blt_soft_timer_delete 0 1 (timer_sample\<lparr>st_num := 1\<rparr>) = Inr (1, st') \<and> live st' = [] \<and>
    st_wakeup st' = (5, True)"
  using soft_timer_delete_last_arms_stale
    [of "timer_sample\<lparr>st_num := 1\<rparr>" "\<lparr>ev_cb = 1, ev_t = 5, ev_interval = 100\<rparr>" 0]
  by (simp add: timer_inv_def live_def timer_sample_def MAX_TIMER_NUM_def)

end
