(* ===== verification/Strings_C.thy ===== *)
theory Strings_C
  imports Prelude
begin

text \<open>
  The memory and string routines of \<open>ble_sdk_multimode/common/string.c\<close>, over one flat memory of
  bytes, so that source and destination may overlap. A pointer is an offset into the memory, a
  pointer the code compares with \<open>NULL\<close> is an option; an access outside the memory is
  \<^const>\<open>None\<close>. Whether the compiler's plain \<open>char\<close> is signed is a parameter of \<open>strchr\<close>, the only
  routine that depends on it. Lengths are the values of the code's unsigned integers.
\<close>

type_synonym mem = "u8 list"

section \<open>Copying\<close>

text \<open>The two copying loops: upwards, and downwards from the last byte.\<close>

fun copy_up :: "nat \<Rightarrow> nat \<Rightarrow> nat \<Rightarrow> mem \<Rightarrow> mem option" where
  "copy_up d s 0 m = Some m"
| "copy_up d s (Suc n) m =
     (if d < length m \<and> s < length m then copy_up (d + 1) (s + 1) n (m[d := m ! s]) else None)"

fun copy_down :: "nat \<Rightarrow> nat \<Rightarrow> nat \<Rightarrow> mem \<Rightarrow> mem option" where
  "copy_down d s 0 m = Some m"
| "copy_down d s (Suc n) m =
     (if d + n < length m \<and> s + n < length m then copy_down d s n (m[d + n := m ! (s + n)]) else None)"

definition memmove :: "nat \<Rightarrow> nat \<Rightarrow> nat \<Rightarrow> mem \<Rightarrow> mem option" where
  "memmove dest src n m = copy_up dest src n m"

definition bbcopy :: "nat \<Rightarrow> nat \<Rightarrow> nat \<Rightarrow> mem \<Rightarrow> mem option" where
  "bbcopy src dest len m = (if dest < src then copy_up dest src len m else copy_down dest src len m)"

definition bcopy :: "nat \<Rightarrow> nat \<Rightarrow> nat \<Rightarrow> mem \<Rightarrow> mem option" where
  "bcopy src dest len m = bbcopy src dest len m"

definition memcpy :: "nat \<Rightarrow> nat \<Rightarrow> nat \<Rightarrow> mem \<Rightarrow> mem option" where
  "memcpy out inp len m = bcopy inp out len m"

text \<open>One word of \<open>memcpy4\<close> and \<open>memset4\<close> is four bytes.\<close>

fun copy_words :: "nat \<Rightarrow> nat \<Rightarrow> nat \<Rightarrow> mem \<Rightarrow> mem option" where
  "copy_words d s 0 m = Some m"
| "copy_words d s (Suc n) m =
     (case buf_read s 4 m of None \<Rightarrow> None
      | Some w \<Rightarrow> (case buf_write d w m of None \<Rightarrow> None
                 | Some m' \<Rightarrow> copy_words (d + 4) (s + 4) n m'))"

text \<open>
  The \<open>assert\<close>s of \<open>memcpy4\<close> (word alignment, no overlap) are empty in a release build and only
  print in a debug build: none stops the copy.
\<close>

definition memcpy4 :: "nat \<Rightarrow> nat \<Rightarrow> nat \<Rightarrow> mem \<Rightarrow> mem option" where
  "memcpy4 d s len m = copy_words d s (len div 4) m"

section \<open>Filling\<close>

fun memset :: "nat \<Rightarrow> u8 \<Rightarrow> nat \<Rightarrow> mem \<Rightarrow> mem option" where
  "memset dest val 0 m = Some m"
| "memset dest val (Suc n) m =
     (if dest < length m then memset (dest + 1) val n (m[dest := val]) else None)"

fun set_words :: "nat \<Rightarrow> u32 \<Rightarrow> nat \<Rightarrow> mem \<Rightarrow> mem option" where
  "set_words p val 0 m = Some m"
| "set_words p val (Suc n) m =
     (case buf_write p (le32 val) m of None \<Rightarrow> None | Some m' \<Rightarrow> set_words (p + 4) val n m')"

definition memset4 :: "nat \<Rightarrow> u32 \<Rightarrow> nat \<Rightarrow> mem \<Rightarrow> mem option" where
  "memset4 dest val len m = set_words dest val (len div 4) m"

definition zeromem4 :: "nat \<Rightarrow> nat \<Rightarrow> mem \<Rightarrow> mem option" where
  "zeromem4 dest len m = memset4 dest 0 len m"

section \<open>Comparing and searching\<close>

fun memcmp :: "nat \<Rightarrow> nat \<Rightarrow> nat \<Rightarrow> mem \<Rightarrow> int option" where
  "memcmp p q 0 m = Some 0"
| "memcmp p q (Suc n) m =
     (if p < length m \<and> q < length m then
        (if m ! p \<noteq> m ! q then Some (int (unat (m ! p)) - int (unat (m ! q)))
         else memcmp (p + 1) (q + 1) n m)
      else None)"

text \<open>The outer option is the access, the inner one the pointer returned.\<close>

fun memchr :: "nat \<Rightarrow> int \<Rightarrow> nat \<Rightarrow> mem \<Rightarrow> nat option option" where
  "memchr p c 0 m = Some None"
| "memchr p c (Suc n) m =
     (if p < length m then
        (if int (unat (m ! p)) = c then Some (Some p) else memchr (p + 1) c n m)
      else None)"

definition word_at :: "nat \<Rightarrow> mem \<Rightarrow> u32 option" where
  "word_at p m =
     (if p + 4 \<le> length m then Some (u32_le (m ! p) (m ! (p + 1)) (m ! (p + 2)) (m ! (p + 3))) else None)"

fun all_words :: "u32 \<Rightarrow> nat \<Rightarrow> nat \<Rightarrow> mem \<Rightarrow> int option" where
  "all_words v p 0 m = Some 1"
| "all_words v p (Suc n) m =
     (case word_at p m of None \<Rightarrow> None
      | Some w \<Rightarrow> if w \<noteq> v then Some 0 else all_words v (p + 4) n m)"

definition ismemzero4 :: "nat \<Rightarrow> nat \<Rightarrow> mem \<Rightarrow> int option" where
  "ismemzero4 p len m = all_words 0 p (len div 4) m"

definition ismemf4 :: "nat \<Rightarrow> nat \<Rightarrow> mem \<Rightarrow> int option" where
  "ismemf4 p len m = all_words 0xffffffff p (len div 4) m"

section \<open>Strings\<close>

text \<open>Every loop below leaves the memory, and so ends in \<^const>\<open>None\<close>, when it meets no NUL.\<close>

function strcpy :: "nat \<Rightarrow> nat \<Rightarrow> mem \<Rightarrow> mem option" where
  "strcpy d s m =
     (if d < length m \<and> s < length m then
        (if m ! s = 0 then Some (m[d := m ! s]) else strcpy (d + 1) (s + 1) (m[d := m ! s]))
      else None)"
  by pat_completeness auto
termination by (relation "measure (\<lambda>(d, s, m). length m - s)") auto

function strchr :: "(u8 \<Rightarrow> int) \<Rightarrow> nat \<Rightarrow> int \<Rightarrow> mem \<Rightarrow> nat option option" where
  "strchr cval s c m =
     (if s < length m then
        (if cval (m ! s) = c then Some (Some s)
         else if m ! s \<noteq> 0 then strchr cval (s + 1) c m else Some None)
      else None)"
  by pat_completeness auto
termination by (relation "measure (\<lambda>(_, s, _, m). length m - s)") auto

function strlen_loop :: "nat \<Rightarrow> nat \<Rightarrow> mem \<Rightarrow> nat option" where
  "strlen_loop p len m =
     (if p < length m then (if m ! p \<noteq> 0 then strlen_loop (p + 1) (len + 1) m else Some len)
      else None)"
  by pat_completeness auto
termination by (relation "measure (\<lambda>(p, _, m). length m - p)") auto

definition strlen :: "nat option \<Rightarrow> mem \<Rightarrow> nat option" where
  "strlen str m = (case str of None \<Rightarrow> Some 0 | Some p \<Rightarrow> strlen_loop p 0 m)"

function strcmp :: "nat \<Rightarrow> nat \<Rightarrow> mem \<Rightarrow> int option" where
  "strcmp p q m =
     (if p < length m \<and> q < length m then
        (if m ! p = m ! q then (if m ! p = 0 then Some 0 else strcmp (p + 1) (q + 1) m)
         else if int (unat (m ! p)) - int (unat (m ! q)) < 0 then Some (- 1) else Some 1)
      else None)"
  by pat_completeness auto
termination by (relation "measure (\<lambda>(p, _, m). length m - p)") auto

declare strcpy.simps [simp del] strchr.simps [simp del] strlen_loop.simps [simp del] strcmp.simps [simp del]

text \<open>
  \<open>strncpy\<close>: the copying loop tests the pointer \<open>t\<close>, not the character; with \<open>t = NULL\<close> the last
  loop writes \<open>n + 1\<close> zeros.
\<close>

definition strncpy :: "nat option \<Rightarrow> nat option \<Rightarrow> nat \<Rightarrow> mem \<Rightarrow> mem option" where
  "strncpy s t n m =
     (case s of None \<Rightarrow> Some m
      | Some d \<Rightarrow>
          (case t of Some src \<Rightarrow> copy_up d src n m
           | None \<Rightarrow> memset d 0 (n + 1) m))"

section \<open>What the copying loops do\<close>

lemma copy_up_length: "copy_up d s n m = Some m' \<Longrightarrow> length m' = length m"
  by (induction d s n m rule: copy_up.induct) (auto split: if_splits)

lemma copy_up_defined: "d + n \<le> length m \<Longrightarrow> s + n \<le> length m \<Longrightarrow> \<exists>m'. copy_up d s n m = Some m'"
  by (induction d s n m rule: copy_up.induct) auto

lemma copy_up_outside:
  "copy_up d s n m = Some m' \<Longrightarrow> k < d \<or> d + n \<le> k \<Longrightarrow> m' ! k = m ! k"
  by (induction d s n m rule: copy_up.induct) (auto split: if_splits)

lemma copy_up_before:
  "copy_up d s n m = Some m' \<Longrightarrow> d \<le> s \<Longrightarrow> i < n \<Longrightarrow> m' ! (d + i) = m ! (s + i)"
proof (induction d s n m arbitrary: i rule: copy_up.induct)
  case (2 d s n m)
  then have r: "copy_up (d + 1) (s + 1) n (m[d := m ! s]) = Some m'" and d: "d < length m"
    by (auto split: if_splits)
  show ?case
  proof (cases i)
    case 0
    with d copy_up_outside [OF r, of d] show ?thesis by simp
  next
    case (Suc j)
    with 2 d r have "m' ! (d + 1 + j) = m[d := m ! s] ! (s + 1 + j)" by (auto split: if_splits)
    with Suc "2.prems"(2) show ?thesis by simp
  qed
qed simp

text \<open>Copying upwards into a later place, every byte is the one that stands \<open>d - s\<close> places before it.\<close>

lemma copy_up_after:
  "copy_up d s n m = Some m' \<Longrightarrow> s < d \<Longrightarrow> i < n \<Longrightarrow> m' ! (d + i) = m' ! (s + i)"
proof (induction d s n m arbitrary: i rule: copy_up.induct)
  case (2 d s n m)
  then have r: "copy_up (d + 1) (s + 1) n (m[d := m ! s]) = Some m'" and d: "d < length m"
    by (auto split: if_splits)
  show ?case
  proof (cases i)
    case 0
    with d "2.prems"(2) copy_up_outside [OF r, of d] copy_up_outside [OF r, of s] show ?thesis by simp
  next
    case (Suc j)
    with 2 d r have "m' ! (d + 1 + j) = m' ! (s + 1 + j)" by (auto split: if_splits)
    with Suc show ?thesis by simp
  qed
qed simp

lemma copy_up_periodic:
  assumes r: "copy_up d s n m = Some m'" and sd: "s < d"
  shows "i < n \<Longrightarrow> m' ! (d + i) = m ! (s + i mod (d - s))"
proof (induction i rule: less_induct)
  case (less i)
  let ?p = "d - s"
  have a: "m' ! (d + i) = m' ! (s + i)" using copy_up_after [OF r sd less.prems] .
  show ?case
  proof (cases "i < ?p")
    case True
    then have "s + i < d" using sd by linarith
    then have "m' ! (s + i) = m ! (s + i)" using copy_up_outside [OF r, of "s + i"] by blast
    with a True show ?thesis by simp
  next
    case False
    then have "i - ?p < i" "i - ?p < n" "s + i = d + (i - ?p)" using sd less.prems by linarith+
    moreover from this have "m' ! (d + (i - ?p)) = m ! (s + (i - ?p) mod ?p)"
      by (intro less.IH)
    moreover have "(i - ?p) mod ?p = i mod ?p" using False by (simp add: le_mod_geq)
    ultimately show ?thesis using a by simp
  qed
qed

lemma copy_down_length: "copy_down d s n m = Some m' \<Longrightarrow> length m' = length m"
  by (induction d s n m rule: copy_down.induct) (auto split: if_splits)

lemma copy_down_defined: "d + n \<le> length m \<Longrightarrow> s + n \<le> length m \<Longrightarrow> \<exists>m'. copy_down d s n m = Some m'"
  by (induction d s n m rule: copy_down.induct) auto

lemma copy_down_outside:
  "copy_down d s n m = Some m' \<Longrightarrow> k < d \<or> d + n \<le> k \<Longrightarrow> m' ! k = m ! k"
  by (induction d s n m rule: copy_down.induct) (auto split: if_splits)

lemma copy_down_inside:
  "copy_down d s n m = Some m' \<Longrightarrow> s \<le> d \<Longrightarrow> i < n \<Longrightarrow> m' ! (d + i) = m ! (s + i)"
proof (induction d s n m rule: copy_down.induct)
  case (2 d s n m)
  then have r: "copy_down d s n (m[d + n := m ! (s + n)]) = Some m'" and d: "d + n < length m"
    by (auto split: if_splits)
  show ?case
  proof (cases "i = n")
    case True
    with d copy_down_outside [OF r, of "d + n"] show ?thesis by simp
  next
    case False
    with 2 r have "m' ! (d + i) = m[d + n := m ! (s + n)] ! (s + i)" by (auto split: if_splits)
    with "2.prems" False show ?thesis by (simp add: nth_list_update)
  qed
qed simp

lemma nth_buf_write:
  "buf_write d bs m = Some m' \<Longrightarrow> k < length m \<Longrightarrow>
   m' ! k = (if d \<le> k \<and> k < d + length bs then bs ! (k - d) else m ! k)"
  by (auto simp: buf_write_def nth_append split: if_splits)

text \<open>A memory that agrees with the source inside a window and with the old memory outside it.\<close>

lemma window_eq_buf_write:
  assumes "length m' = length m" "d + length bs \<le> length m"
    and "\<And>i. i < length bs \<Longrightarrow> m' ! (d + i) = bs ! i"
    and "\<And>k. k < d \<or> d + length bs \<le> k \<Longrightarrow> m' ! k = m ! k"
  shows "Some m' = buf_write d bs m"
proof -
  obtain w where w: "buf_write d bs m = Some w" using assms(2) by (simp add: buf_write_def)
  have "m' = w"
  proof (rule nth_equalityI)
    show "length m' = length w" using w assms(1) buf_write_length by metis
  next
    fix k assume "k < length m'"
    then have k: "w ! k = (if d \<le> k \<and> k < d + length bs then bs ! (k - d) else m ! k)"
      using nth_buf_write [OF w, of k] assms(1) by simp
    show "m' ! k = w ! k"
    proof (cases "d \<le> k \<and> k < d + length bs")
      case True
      then have "k - d < length bs" "d + (k - d) = k" by linarith+
      with True k assms(3) [of "k - d"] show ?thesis by simp
    next
      case False
      then have "k < d \<or> d + length bs \<le> k" by linarith
      with k assms(4) [of k] show ?thesis unfolding if_not_P [OF False] by simp
    qed
  qed
  with w show ?thesis by simp
qed

lemma memset_fills:
  "d + n \<le> length m \<Longrightarrow> memset d v n m = buf_write d (replicate n v) m"
proof (induction d v n m rule: memset.induct)
  case (1 dest val m)
  then show ?case by (simp add: buf_write_def)
next
  case (2 dest val n m)
  then have "memset (dest + 1) val n (m[dest := val]) =
    Some (take (dest + 1) (m[dest := val]) @ replicate n val @ drop (dest + 1 + n) (m[dest := val]))"
    by (simp add: buf_write_def)
  with "2.prems" show ?case
    by (simp add: buf_write_def take_Suc_conv_app_nth)
qed

lemma set_words_fills:
  "d + 4 * n \<le> length m \<Longrightarrow> set_words d v n m = buf_write d (concat (replicate n (le32 v))) m"
proof (induction d v n m rule: set_words.induct)
  case (1 p val m)
  then show ?case by (simp add: buf_write_def)
next
  case (2 p val n m)
  let ?m = "take p m @ le32 val @ drop (p + 4) m"
  have w: "buf_write p (le32 val) m = Some ?m" using "2.prems" by (simp add: buf_write_def)
  have len: "length (concat (replicate n (le32 val))) = 4 * n"
    by (simp add: length_concat sum_list_replicate)
  have "set_words (p + 4) val n ?m = buf_write (p + 4) (concat (replicate n (le32 val))) ?m"
    using 2 w by simp
  with w len "2.prems" show ?case by (simp add: buf_write_def ac_simps)
qed

section \<open>C strings\<close>

definition cstr :: "nat \<Rightarrow> u8 list \<Rightarrow> mem \<Rightarrow> bool" where
  "cstr p xs m \<longleftrightarrow> p + length xs < length m \<and> take (length xs) (drop p m) = xs \<and>
     m ! (p + length xs) = 0 \<and> 0 \<notin> set xs"

lemma cstr_Nil [simp]: "cstr p [] m \<longleftrightarrow> p < length m \<and> m ! p = 0"
  by (simp add: cstr_def)

lemma cstr_Cons [simp]: "cstr p (x # xs) m \<longleftrightarrow> x \<noteq> 0 \<and> p < length m \<and> m ! p = x \<and> cstr (p + 1) xs m"
  by (auto simp: cstr_def take_Suc_conv_app_nth Cons_nth_drop_Suc [symmetric])

lemma cstr_update:
  "cstr p xs m \<Longrightarrow> k < p \<or> p + length xs < k \<Longrightarrow> cstr p xs (m[k := v])"
  by (induction xs arbitrary: p) (auto simp: nth_list_update)

lemma strlen_loop_cstr: "cstr p xs m \<Longrightarrow> strlen_loop p k m = Some (k + length xs)"
proof (induction xs arbitrary: p k)
  case Nil
  then show ?case by (simp add: strlen_loop.simps [of p])
next
  case (Cons x xs)
  then show ?case by (auto simp: strlen_loop.simps [of p])
qed

lemma neq_0_pos: "(w :: u8) \<noteq> 0 \<Longrightarrow> 0 < uint w"
  by (metis uint_0_iff uint_ge_0 order_le_neq_trans)

lemma strcmp_cstr:
  "cstr p xs m \<Longrightarrow> cstr q ys m \<Longrightarrow>
   strcmp p q m = Some (if xs = ys then 0 else if ord_class.lexordp xs ys then - 1 else 1)"
proof (induction xs arbitrary: p q ys)
  case Nil
  then show ?case by (cases ys) (auto simp: strcmp.simps [of p] word_less_def neq_0_pos)
next
  case (Cons x xs)
  then show ?case
    by (cases ys) (auto simp: strcmp.simps [of p] word_less_def neq_0_pos word_uint_eq_iff)
qed

lemma strcpy_cstr:
  "cstr s xs m \<Longrightarrow> d + length xs < length m \<Longrightarrow> d \<le> s \<or> s + length xs < d \<Longrightarrow>
   strcpy d s m = buf_write d (xs @ [0]) m"
proof (induction xs arbitrary: d s m)
  case Nil
  then show ?case by (auto simp: strcpy.simps [of d] buf_write_def upd_conv_take_nth_drop)
next
  case (Cons x xs)
  let ?m = "m[d := x]"
  have "cstr (s + 1) xs ?m"
    using Cons.prems by (intro cstr_update) auto
  then have "strcpy (d + 1) (s + 1) ?m = buf_write (d + 1) (xs @ [0]) ?m"
    using Cons.prems by (intro Cons.IH) auto
  then show ?case using Cons.prems
    by (simp add: strcpy.simps [of d] buf_write_def take_Suc_conv_app_nth)
qed

section \<open>Words against bytes\<close>

lemma le32_bytes [tlk_bytes]: "le32 (u32_le a b c d) = [a, b, c, d]"
proof -
  have "ucast (u32_le a b c d) = a" "(ucast (drop_bit 8 (u32_le a b c d)) :: u8) = b"
    "(ucast (drop_bit 16 (u32_le a b c d)) :: u8) = c" "(ucast (drop_bit 24 (u32_le a b c d)) :: u8) = d"
    by (rule bit_word_eqI; auto simp: u32_le_def bit_simps dest: bit_imp_le_length)+
  then show ?thesis by (simp add: le32_def)
qed

lemma u32_le_inject: "u32_le a b c d = u32_le a' b' c' d' \<longleftrightarrow> [a, b, c, d] = [a', b', c', d']"
proof
  assume "u32_le a b c d = u32_le a' b' c' d'"
  then have "le32 (u32_le a b c d) = le32 (u32_le a' b' c' d')" by (rule arg_cong)
  then show "[a, b, c, d] = [a', b', c', d']" unfolding le32_bytes .
next
  assume "[a, b, c, d] = [a', b', c', d']"
  then show "u32_le a b c d = u32_le a' b' c' d'" unfolding list.inject by - (elim conjE, hypsubst, rule refl)
qed

lemma take_Suc4: "p + 4 \<le> length m \<Longrightarrow> take (4 + k) (drop p m) = [m ! p, m ! (p + 1), m ! (p + 2), m ! (p + 3)] @ take k (drop (p + 4) m)"
proof -
  assume "p + 4 \<le> length m"
  then have "drop p m = m ! p # m ! (p + 1) # m ! (p + 2) # m ! (p + 3) # drop (p + 4) m"
    by (simp add: Cons_nth_drop_Suc numeral_eq_Suc)
  then show ?thesis by (simp add: numeral_eq_Suc)
qed

lemma all_words_correct:
  "p + 4 * n \<le> length m \<Longrightarrow> v = u32_le b b b b \<Longrightarrow>
   all_words v p n m = Some (if take (4 * n) (drop p m) = replicate (4 * n) b then 1 else 0)"
proof (induction v p n m rule: all_words.induct)
  case (2 v p n m)
  have t: "take (4 * Suc n) (drop p m) = [m ! p, m ! (p + 1), m ! (p + 2), m ! (p + 3)] @ take (4 * n) (drop (p + 4) m)"
    using "2.prems" take_Suc4 [of p m "4 * n"] by simp
  have r: "replicate (4 * Suc n) b = [b, b, b, b] @ replicate (4 * n) b"
    by (simp add: numeral_eq_Suc)
  have w: "word_at p m = Some (u32_le (m ! p) (m ! (p + 1)) (m ! (p + 2)) (m ! (p + 3)))"
    using "2.prems" by (simp add: word_at_def)
  show ?case
  proof (cases "u32_le (m ! p) (m ! (p + 1)) (m ! (p + 2)) (m ! (p + 3)) = v")
    case True
    then have e: "[m ! p, m ! (p + 1), m ! (p + 2), m ! (p + 3)] = [b, b, b, b]"
      using "2.prems"(2) u32_le_inject by metis
    have "all_words v p (Suc n) m = all_words v (p + 4) n m" using w True by simp
    moreover have "\<dots> = Some (if take (4 * n) (drop (p + 4) m) = replicate (4 * n) b then 1 else 0)"
      using "2.IH" [OF w] True "2.prems" by simp
    ultimately show ?thesis unfolding t r using e by simp
  next
    case False
    then have e: "[m ! p, m ! (p + 1), m ! (p + 2), m ! (p + 3)] \<noteq> [b, b, b, b]"
      using "2.prems"(2) u32_le_inject by metis
    have "all_words v p (Suc n) m = Some 0" using w False by simp
    then show ?thesis unfolding t r using e by (auto simp del: all_words.simps)
  qed
qed simp

section \<open>Properties\<close>

definition sample_mem :: mem where
  "sample_mem = [104, 101, 108, 108, 111, 0, 104, 105, 0, 7, 7, 7]"

lemma sample_strings: "cstr 0 [104, 101, 108, 108, 111] sample_mem" "cstr 6 [104, 105] sample_mem"
  "length sample_mem = 12"
  by (simp_all add: sample_mem_def)

text \<open>
  C19. \<open>memcpy\<close> is safe for overlapping ranges: whatever the overlap, the destination receives the
  bytes that the source held before the call and nothing else changes, because \<open>bbcopy\<close> picks
  the direction.
\<close>

theorem memcpy_overlap_safe:
  assumes "d + n \<le> length m" and "s + n \<le> length m"
  shows "memcpy d s n m = buf_write d (take n (drop s m)) m"
proof (cases "d < s")
  case True
  obtain m' where r: "copy_up d s n m = Some m'" using copy_up_defined [OF assms] by blast
  have "Some m' = buf_write d (take n (drop s m)) m"
    using assms True copy_up_before [OF r] copy_up_outside [OF r] copy_up_length [OF r]
    by (intro window_eq_buf_write) auto
  with r True show ?thesis by (simp add: memcpy_def bcopy_def bbcopy_def)
next
  case False
  obtain m' where r: "copy_down d s n m = Some m'" using copy_down_defined [OF assms] by blast
  have "Some m' = buf_write d (take n (drop s m)) m"
    using assms False copy_down_inside [OF r] copy_down_outside [OF r] copy_down_length [OF r]
    by (intro window_eq_buf_write) auto
  with r False show ?thesis by (simp add: memcpy_def bcopy_def bbcopy_def)
qed

theorem memcpy_overlap_safe_witness:
  "memcpy 2 0 5 sample_mem = buf_write 2 (take 5 (drop 0 sample_mem)) sample_mem"
  by (rule memcpy_overlap_safe) (simp_all add: sample_strings)

text \<open>
  C19. \<open>memmove\<close> is not safe for overlapping ranges: it always copies upwards, so when the
  destination starts \<open>d - s\<close> places inside the source, the first \<open>d - s\<close> bytes are repeated over
  the whole destination.
\<close>

theorem memmove_repeats_on_overlap:
  assumes "s < d" and "d + n \<le> length m"
  shows "\<exists>m'. memmove d s n m = Some m' \<and>
    map (\<lambda>i. m' ! (d + i)) [0..<n] = map (\<lambda>i. m ! (s + i mod (d - s))) [0..<n]"
proof -
  obtain m' where "copy_up d s n m = Some m'" using copy_up_defined [of d n m s] assms by auto
  with copy_up_periodic [OF this assms(1)] show ?thesis by (simp add: memmove_def)
qed

theorem memmove_repeats_on_overlap_witness:
  "\<exists>m'. memmove 2 0 5 sample_mem = Some m' \<and>
    map (\<lambda>i. m' ! (2 + i)) [0..<5] = map (\<lambda>i. sample_mem ! (0 + i mod (2 - 0))) [0..<5]"
  by (rule memmove_repeats_on_overlap) (simp_all add: sample_strings)

text \<open>
  \<open>strncpy\<close> is a plain copy of \<open>n\<close> bytes: it passes over the terminator of the source string
  and copies what stands behind it, instead of padding with zeros.
\<close>

theorem strncpy_ignores_terminator:
  assumes "cstr s xs m" and "length xs < n" and "s + n \<le> length m" and "d + n \<le> s"
  shows "strncpy (Some d) (Some s) n m =
    buf_write d (xs @ [0] @ take (n - length xs - 1) (drop (s + length xs + 1) m)) m"
proof -
  let ?k = "n - length xs - 1"
  have n: "n = length xs + (1 + ?k)" using assms(2) by simp
  have l: "length (take n (drop s m)) = n" using assms(3) by simp
  obtain m' where r: "copy_up d s n m = Some m'" using copy_up_defined [of d n m s] assms(3,4) by auto
  have "Some m' = buf_write d (take n (drop s m)) m"
    using assms(3,4) copy_up_before [OF r] copy_up_outside [OF r] copy_up_length [OF r]
    by (intro window_eq_buf_write) auto
  moreover have "take (1 + ?k) (drop (s + length xs) m) = 0 # take ?k (drop (s + length xs + 1) m)"
    using assms(1) by (simp add: cstr_def flip: Cons_nth_drop_Suc)
  then have "take n (drop s m) = xs @ [0] @ take ?k (drop (s + length xs + 1) m)"
    using assms(1) by (subst n, subst take_add) (simp add: cstr_def add.commute)
  ultimately show ?thesis using r by (simp add: strncpy_def)
qed

theorem strncpy_ignores_terminator_witness:
  "strncpy (Some 0) (Some 6) 5 sample_mem =
    buf_write 0 ([104, 105] @ [0] @ take (5 - length [104, 105 :: u8] - 1)
      (drop (6 + length [104, 105 :: u8] + 1) sample_mem)) sample_mem"
  by (rule strncpy_ignores_terminator [OF sample_strings(2)]) (simp_all add: sample_strings)

text \<open>
  \<open>strcmp\<close> on two terminated strings returns 0, -1 or 1 as the first equals, precedes or follows
  the second in the lexicographic order of unsigned bytes, and reads no byte past the terminators.
\<close>

theorem strcmp_lexicographic:
  assumes "cstr p xs m" and "cstr q ys m"
  shows "strcmp p q m = Some (if xs = ys then 0 else if ord_class.lexordp xs ys then - 1 else 1)"
  by (rule strcmp_cstr [OF assms])

theorem strcmp_lexicographic_witness:
  "strcmp 0 6 sample_mem = Some (if [104, 101, 108, 108, 111] = [104, 105 :: u8] then 0
     else if ord_class.lexordp [104, 101, 108, 108, 111] [104, 105 :: u8] then - 1 else 1)"
  by (rule strcmp_lexicographic [OF sample_strings(1,2)])

text \<open>
  C24. The word-wise routines agree with their byte-wise reading: \<open>memset4\<close> fills with the
  little-endian bytes of the value, and \<open>ismemzero4\<close> and \<open>ismemf4\<close> return 1 exactly when the
  \<open>4 * (len div 4)\<close> bytes are all 0x00, respectively 0xff.
\<close>

theorem word_routines_correct:
  assumes "p + 4 * (len div 4) \<le> length m"
  shows "memset4 p v len m = buf_write p (concat (replicate (len div 4) (le32 v))) m \<and>
    ismemzero4 p len m =
      Some (if take (4 * (len div 4)) (drop p m) = replicate (4 * (len div 4)) 0 then 1 else 0) \<and>
    ismemf4 p len m =
      Some (if take (4 * (len div 4)) (drop p m) = replicate (4 * (len div 4)) 0xff then 1 else 0)"
proof -
  have "(0 :: u32) = u32_le 0 0 0 0" "(0xffffffff :: u32) = u32_le 0xff 0xff 0xff 0xff"
    by (simp_all add: u32_le_def)
  note w = all_words_correct [OF assms this(1)] all_words_correct [OF assms this(2)]
  show ?thesis
    using assms unfolding memset4_def ismemzero4_def ismemf4_def w by (simp add: set_words_fills)
qed

theorem word_routines_correct_witness:
  "memset4 4 0x01020304 8 sample_mem = buf_write 4 (concat (replicate (8 div 4) (le32 0x01020304))) sample_mem \<and>
    ismemzero4 4 8 sample_mem =
      Some (if take (4 * (8 div 4)) (drop 4 sample_mem) = replicate (4 * (8 div 4)) 0 then 1 else 0) \<and>
    ismemf4 4 8 sample_mem =
      Some (if take (4 * (8 div 4)) (drop 4 sample_mem) = replicate (4 * (8 div 4)) 0xff then 1 else 0)"
  by (rule word_routines_correct) (simp add: sample_strings)

end
