(* ===== verification/Util.thy ===== *)
theory Util
  imports Strings_C "HOL-Library.Multiset"
begin

text \<open>
  The byte-order helpers of \<open>ble_sdk_multimode/common/utility.c\<close>, over the flat memory of
  \<open>Strings_C\<close>, and the sorting routines of \<open>ble_sdk_multimode/common/selection_sort.c\<close>.
\<close>

section \<open>Byte order\<close>

fun swap_from :: "nat \<Rightarrow> nat \<Rightarrow> nat \<Rightarrow> nat \<Rightarrow> nat \<Rightarrow> mem \<Rightarrow> mem option" where
  "swap_from src dst len i 0 m = Some m"
| "swap_from src dst len i (Suc k) m =
     (if src + i < length m \<and> dst + (len - 1 - i) < length m
      then swap_from src dst len (i + 1) k (m[dst + (len - 1 - i) := m ! (src + i)]) else None)"

definition swapX :: "nat \<Rightarrow> nat \<Rightarrow> nat \<Rightarrow> mem \<Rightarrow> mem option" where
  "swapX src dst len m = swap_from src dst len 0 len m"

definition swap24 :: "nat \<Rightarrow> nat \<Rightarrow> mem \<Rightarrow> mem option" where
  "swap24 dst src = swapX src dst 3"

definition swap32 :: "nat \<Rightarrow> nat \<Rightarrow> mem \<Rightarrow> mem option" where
  "swap32 dst src = swapX src dst 4"

definition swap48 :: "nat \<Rightarrow> nat \<Rightarrow> mem \<Rightarrow> mem option" where
  "swap48 dst src = swapX src dst 6"

definition swap56 :: "nat \<Rightarrow> nat \<Rightarrow> mem \<Rightarrow> mem option" where
  "swap56 dst src = swapX src dst 7"

definition swap64 :: "nat \<Rightarrow> nat \<Rightarrow> mem \<Rightarrow> mem option" where
  "swap64 dst src = swapX src dst 8"

definition swap128 :: "nat \<Rightarrow> nat \<Rightarrow> mem \<Rightarrow> mem option" where
  "swap128 dst src = swapX src dst 16"

text \<open>One assignment \<open>dst[i] = src[j]\<close>.\<close>

definition move_byte :: "nat \<Rightarrow> nat \<Rightarrow> mem \<Rightarrow> mem option" where
  "move_byte d s m = (if d < length m \<and> s < length m then Some (m[d := m ! s]) else None)"

fun move_bytes :: "(nat \<times> nat) list \<Rightarrow> mem \<Rightarrow> mem option" where
  "move_bytes [] m = Some m"
| "move_bytes ((d, s) # ps) m = (case move_byte d s m of None \<Rightarrow> None | Some m' \<Rightarrow> move_bytes ps m')"

definition flip_addr :: "nat \<Rightarrow> nat \<Rightarrow> mem \<Rightarrow> mem option" where
  "flip_addr dest src m =
     move_bytes [(dest, src + 5), (dest + 1, src + 4), (dest + 2, src + 3), (dest + 3, src + 2),
                 (dest + 4, src + 1), (dest + 5, src)] m"

text \<open>The position is a \<open>u16\<close> that the code increments: at 0xffff the second byte goes to offset 0.\<close>

definition net_store_16 :: "nat \<Rightarrow> u16 \<Rightarrow> u16 \<Rightarrow> mem \<Rightarrow> mem option" where
  "net_store_16 buffer pos value m =
     (case buf_write (buffer + unat pos) [ucast (drop_bit 8 value)] m of None \<Rightarrow> None
      | Some m' \<Rightarrow> buf_write (buffer + unat (pos + 1)) [ucast value] m')"

definition store_16 :: "nat \<Rightarrow> u16 \<Rightarrow> u16 \<Rightarrow> mem \<Rightarrow> mem option" where
  "store_16 buffer pos value m =
     (case buf_write (buffer + unat pos) [ucast value] m of None \<Rightarrow> None
      | Some m' \<Rightarrow> buf_write (buffer + unat (pos + 1)) [ucast (drop_bit 8 value)] m')"

text \<open>\<open>addrExtCmp\<close> compares eight bytes.\<close>

fun addr_cmp_from :: "nat \<Rightarrow> nat \<Rightarrow> nat \<Rightarrow> mem \<Rightarrow> bool option" where
  "addr_cmp_from p q 0 m = Some True"
| "addr_cmp_from p q (Suc i) m =
     (if p < length m \<and> q < length m then
        (if m ! p \<noteq> m ! q then Some False else addr_cmp_from (p + 1) (q + 1) i m)
      else None)"

definition addrExtCmp :: "nat \<Rightarrow> nat \<Rightarrow> mem \<Rightarrow> bool option" where
  "addrExtCmp p q m = addr_cmp_from p q 8 m"

section \<open>Sorting\<close>

text \<open>
  The exchange sort of \<open>selection_sort_char\<close> and \<open>selection_sort_int\<close>, which differ only in the
  element type: a linear order here.
\<close>

function sel_inner :: "nat \<Rightarrow> nat \<Rightarrow> nat \<Rightarrow> 'a::linorder list \<Rightarrow> 'a list" where
  "sel_inner i j sz arr =
     (if j < sz then
        sel_inner i (j + 1) sz (if arr ! j < arr ! i then arr[i := arr ! j, j := arr ! i] else arr)
      else arr)"
  by pat_completeness auto
termination by (relation "measure (\<lambda>(_, j, sz, _). sz - j)") auto

function sel_outer :: "nat \<Rightarrow> nat \<Rightarrow> 'a::linorder list \<Rightarrow> 'a list" where
  "sel_outer i sz arr =
     (if i < sz then sel_outer (i + 1) sz (sel_inner i (i + 1) sz arr) else arr)"
  by pat_completeness auto
termination by (relation "measure (\<lambda>(i, sz, _). sz - i)") auto

declare sel_inner.simps [simp del] sel_outer.simps [simp del]

definition selection_sort_char :: "u8 list \<Rightarrow> nat \<Rightarrow> u8 list" where
  "selection_sort_char arr sz = sel_outer 0 sz arr"

definition selection_sort_int :: "u32 list \<Rightarrow> nat \<Rightarrow> u32 list" where
  "selection_sort_int arr sz = sel_outer 0 sz arr"

section \<open>What the byte loops do\<close>

lemma swap_from_spec:
  "i + k = len \<Longrightarrow> src + len \<le> length m \<Longrightarrow> dst + len \<le> length m \<Longrightarrow> src + len \<le> dst \<or> dst + len \<le> src \<Longrightarrow>
   \<exists>m'. swap_from src dst len i k m = Some m' \<and> length m' = length m \<and>
     (\<forall>j < k. m' ! (dst + j) = m ! (src + (len - 1 - j))) \<and>
     (\<forall>p. p < dst \<or> dst + k \<le> p \<longrightarrow> m' ! p = m ! p)"
proof (induction k arbitrary: i m)
  case (Suc k)
  let ?m = "m[dst + (len - 1 - i) := m ! (src + i)]"
  have k: "len - 1 - i = k" using Suc.prems(1) by simp
  obtain m' where m': "swap_from src dst len (i + 1) k ?m = Some m'" "length m' = length m"
    "\<forall>j < k. m' ! (dst + j) = ?m ! (src + (len - 1 - j))"
    "\<forall>p. p < dst \<or> dst + k \<le> p \<longrightarrow> m' ! p = ?m ! p"
    using Suc.IH [of "i + 1" ?m] Suc.prems by auto
  have s: "swap_from src dst len i (Suc k) m = Some m'" using Suc.prems m'(1) by simp
  have "m' ! (dst + j) = m ! (src + (len - 1 - j))" if "j < Suc k" for j
  proof (cases "j = k")
    case True
    have i: "len - 1 - k = i" using Suc.prems(1) by simp
    have "m' ! (dst + k) = ?m ! (dst + k)" using m'(4) by blast
    then show ?thesis using True k i Suc.prems(1,3) unfolding k by simp
  next
    case False
    then have "j < k" using that by simp
    moreover have "src + (len - 1 - j) \<noteq> dst + k" using Suc.prems(1,4) \<open>j < k\<close> by linarith
    ultimately show ?thesis using m'(3) k by simp
  qed
  moreover have "m' ! p = m ! p" if "p < dst \<or> dst + Suc k \<le> p" for p
    using that m'(4) k by (auto simp: nth_list_update)
  ultimately show ?case using s m'(2) by auto
qed simp

lemma swapX_reverses:
  assumes "src + len \<le> length m" "dst + len \<le> length m" "src + len \<le> dst \<or> dst + len \<le> src"
  shows "swapX src dst len m = buf_write dst (rev (take len (drop src m))) m"
proof -
  obtain m' where m': "swap_from src dst len 0 len m = Some m'" "length m' = length m"
    "\<forall>j < len. m' ! (dst + j) = m ! (src + (len - 1 - j))"
    "\<forall>p. p < dst \<or> dst + len \<le> p \<longrightarrow> m' ! p = m ! p"
    using swap_from_spec [of 0 len len src m dst] assms by auto
  have "Some m' = buf_write dst (rev (take len (drop src m))) m"
    using m' assms by (intro window_eq_buf_write) (auto simp: rev_nth)
  with m'(1) show ?thesis by (simp add: swapX_def)
qed

lemma addr_cmp_from_eq:
  "p + n \<le> length m \<Longrightarrow> q + n \<le> length m \<Longrightarrow>
   addr_cmp_from p q n m = Some (take n (drop p m) = take n (drop q m))"
proof (induction n arbitrary: p q)
  case (Suc n)
  then have "take (Suc n) (drop p m) = m ! p # take n (drop (p + 1) m)"
    "take (Suc n) (drop q m) = m ! q # take n (drop (q + 1) m)"
    by (simp_all flip: Cons_nth_drop_Suc)
  with Suc show ?case by simp
qed simp

lemma move_bytes_disjoint:
  "\<forall>p \<in> set ps. fst p < length a \<and> snd p < length a \<and> a ! snd p = m ! snd p \<Longrightarrow>
   fst ` set ps \<inter> snd ` set ps = {} \<Longrightarrow>
   move_bytes ps a = Some (fold (\<lambda>p x. x[fst p := m ! snd p]) ps a)"
proof (induction ps arbitrary: a)
  case (Cons p ps)
  obtain d s where p: "p = (d, s)" by fastforce
  have "\<forall>q \<in> set ps. snd q \<noteq> d" using Cons.prems(2) p by force
  then have "move_bytes ps (a[d := m ! s]) = Some (fold (\<lambda>p x. x[fst p := m ! snd p]) ps (a[d := m ! s]))"
    using Cons.prems by (intro Cons.IH) (auto simp: p nth_list_update)
  then show ?case using Cons.prems by (simp add: p move_byte_def)
qed simp

lemma flip_addr_spec:
  assumes "src + 6 \<le> length m" "dst + 6 \<le> length m" "src + 6 \<le> dst \<or> dst + 6 \<le> src"
  shows "\<exists>m'. flip_addr dst src m = Some m' \<and> length m' = length m \<and>
    (\<forall>j < 6. m' ! (dst + j) = m ! (src + (5 - j))) \<and> (\<forall>p. p < dst \<or> dst + 6 \<le> p \<longrightarrow> m' ! p = m ! p)"
proof -
  let ?m = "m[dst := m ! (src + 5), dst + 1 := m ! (src + 4), dst + 2 := m ! (src + 3),
    dst + 3 := m ! (src + 2), dst + 4 := m ! (src + 1), dst + 5 := m ! src]"
  have "flip_addr dst src m = Some ?m"
    unfolding flip_addr_def using assms by (subst move_bytes_disjoint [where m = m]) auto
  moreover have "\<forall>j < 6. ?m ! (dst + j) = m ! (src + (5 - j))"
    using assms by (auto simp: numeral_eq_Suc less_Suc_eq)
  moreover have "\<forall>p. p < dst \<or> dst + 6 \<le> p \<longrightarrow> ?m ! p = m ! p" by auto
  ultimately show ?thesis by auto
qed

section \<open>What the sort does\<close>

lemma sel_inner_spec:
  "i < j \<Longrightarrow> j \<le> sz \<Longrightarrow> sz \<le> length arr \<Longrightarrow> \<forall>k. i < k \<and> k < j \<longrightarrow> arr ! i \<le> arr ! k \<Longrightarrow>
   length (sel_inner i j sz arr) = length arr \<and>
   mset (take sz (sel_inner i j sz arr)) = mset (take sz arr) \<and>
   drop sz (sel_inner i j sz arr) = drop sz arr \<and>
   take i (sel_inner i j sz arr) = take i arr \<and>
   (\<forall>k. i < k \<and> k < sz \<longrightarrow> sel_inner i j sz arr ! i \<le> sel_inner i j sz arr ! k)"
proof (induction i j sz arr rule: sel_inner.induct)
  case (1 i j sz arr)
  show ?case
  proof (cases "j < sz")
    case False
    then have "sel_inner i j sz arr = arr" by (simp add: sel_inner.simps [of i j])
    with False "1.prems" show ?thesis by auto
  next
    case True
    let ?b = "arr ! j < arr ! i"
    let ?ys = "if ?b then arr[i := arr ! j, j := arr ! i] else arr"
    have ms: "mset (take sz ?ys) = mset (take sz arr)"
      using True "1.prems" mset_swap [of j "take sz arr" i] by (simp add: take_update_swap)
    have dr: "drop sz ?ys = drop sz arr" using True "1.prems" by simp
    have tk: "take i ?ys = take i arr" using "1.prems" by simp
    have pre: "\<forall>k. i < k \<and> k < j + 1 \<longrightarrow> ?ys ! i \<le> ?ys ! k"
      using "1.prems" True by (auto simp: nth_list_update less_Suc_eq)
    have "length ?ys = length arr" by simp
    with "1.IH" [OF True _ _ _ pre] True "1.prems" ms dr tk show ?thesis
      by (simp only: sel_inner.simps [of i j] if_True) simp
  qed
qed

lemma sel_outer_spec:
  "i \<le> sz \<Longrightarrow> sz \<le> length arr \<Longrightarrow>
   sorted (take i arr) \<Longrightarrow> \<forall>a k. a < i \<and> i \<le> k \<and> k < sz \<longrightarrow> arr ! a \<le> arr ! k \<Longrightarrow>
   length (sel_outer i sz arr) = length arr \<and>
   mset (take sz (sel_outer i sz arr)) = mset (take sz arr) \<and>
   drop sz (sel_outer i sz arr) = drop sz arr \<and> sorted (take sz (sel_outer i sz arr))"
proof (induction i sz arr rule: sel_outer.induct)
  case (1 i sz arr)
  show ?case
  proof (cases "i < sz")
    case False
    then have "sel_outer i sz arr = arr" by (simp add: sel_outer.simps [of i sz])
    moreover have "i = sz" using False "1.prems" by simp
    ultimately show ?thesis using "1.prems" by simp
  next
    case True
    let ?ys = "sel_inner i (i + 1) sz arr"
    have inn: "length ?ys = length arr" "mset (take sz ?ys) = mset (take sz arr)"
      "drop sz ?ys = drop sz arr" "take i ?ys = take i arr"
      "\<forall>k. i < k \<and> k < sz \<longrightarrow> ?ys ! i \<le> ?ys ! k"
    proof -
      have "\<forall>k. i < k \<and> k < i + 1 \<longrightarrow> arr ! i \<le> arr ! k" by auto
      with sel_inner_spec [of i "i + 1" sz arr] True "1.prems"(2)
      show "length ?ys = length arr" "mset (take sz ?ys) = mset (take sz arr)"
        "drop sz ?ys = drop sz arr" "take i ?ys = take i arr"
        "\<forall>k. i < k \<and> k < sz \<longrightarrow> ?ys ! i \<le> ?ys ! k" by simp_all
    qed
    have low: "?ys ! a = arr ! a" if "a < i" for a
      using that inn(4) by (metis nth_take)
    have bound: "?ys ! a \<le> ?ys ! k" if a: "a < i" and k: "i \<le> k" "k < sz" for a k
    proof -
      have m: "mset (drop i (take sz ?ys)) = mset (drop i (take sz arr))"
      proof -
        have s: "mset (take sz z) = mset (take i z) + mset (drop i (take sz z))" for z :: "'a list"
          using append_take_drop_id [of i "take sz z"] True
          by (metis mset_append min.absorb1 nat_less_le take_take)
        show ?thesis using inn(2,4) s [of ?ys] s [of arr] by simp
      qed
      have l: "k - i < length (drop i (take sz ?ys))" using k inn(1) "1.prems"(2) by simp
      have "drop i (take sz ?ys) ! (k - i) = ?ys ! k" using k inn(1) "1.prems"(2) by simp
      with nth_mem [OF l] have "?ys ! k \<in> set (drop i (take sz ?ys))" by simp
      then have "?ys ! k \<in> set (drop i (take sz arr))" using mset_eq_setD [OF m] by simp
      then obtain c where "c < sz - i" "?ys ! k = arr ! (i + c)"
        using "1.prems"(2) by (auto simp: in_set_conv_nth)
      then show ?thesis using "1.prems"(4) a low [OF a] by simp
    qed
    have tk: "take (i + 1) ?ys = take i arr @ [?ys ! i]"
      using True inn(1,4) "1.prems"(2) by (simp add: take_Suc_conv_app_nth)
    have "sorted (take (i + 1) ?ys)"
      using "1.prems"(2,3) True bound [of _ i] low unfolding tk
      by (auto simp: sorted_append in_set_conv_nth)
    moreover have "\<forall>a k. a < i + 1 \<and> i + 1 \<le> k \<and> k < sz \<longrightarrow> ?ys ! a \<le> ?ys ! k"
      using bound inn(5) by (auto simp: less_Suc_eq)
    ultimately show ?thesis
      using "1.IH" [OF True] True "1.prems"(2) inn(1-3)
      by (simp only: sel_outer.simps [of i sz arr] if_True)
  qed
qed

section \<open>Properties\<close>

text \<open>
  The selection sort: the first \<open>size\<close> elements become a sorted permutation of themselves and
  the rest of the array stays.
\<close>

theorem selection_sort_correct:
  assumes "sz \<le> length arr"
  shows "\<exists>ys. selection_sort_int arr sz = ys @ drop sz arr \<and> sorted ys \<and>
    mset ys = mset (take sz arr)"
proof -
  have "drop sz (sel_outer 0 sz arr) = drop sz arr" "sorted (take sz (sel_outer 0 sz arr))"
    "mset (take sz (sel_outer 0 sz arr)) = mset (take sz arr)"
    using sel_outer_spec [of 0 sz arr] assms by auto
  then show ?thesis
    unfolding selection_sort_int_def by (metis append_take_drop_id)
qed

theorem selection_sort_correct_witness:
  "\<exists>ys. selection_sort_int [5, 3, 9, 3, 1] 4 = ys @ drop 4 [5, 3, 9, 3, 1] \<and> sorted ys \<and>
    mset ys = mset (take 4 [5, 3, 9, 3, 1])"
  by (rule selection_sort_correct) simp

text \<open>
  C26. The byte-order helpers: between disjoint buffers \<open>swapX\<close> writes the bytes in reverse order, and
  \<open>flip_addr\<close> is \<open>swap48\<close>.
\<close>

theorem swap_reverses:
  assumes "src + len \<le> length m" and "dst + len \<le> length m" and "src + len \<le> dst \<or> dst + len \<le> src"
  shows "swapX src dst len m = buf_write dst (rev (take len (drop src m))) m \<and>
    (len = 6 \<longrightarrow> flip_addr dst src m = swap48 dst src m)"
proof -
  have "flip_addr dst src m = swap48 dst src m" if len: "len = 6"
  proof -
    obtain m' where m': "flip_addr dst src m = Some m'" "length m' = length m"
      "\<forall>j < 6. m' ! (dst + j) = m ! (src + (5 - j))" "\<forall>p. p < dst \<or> dst + 6 \<le> p \<longrightarrow> m' ! p = m ! p"
      using flip_addr_spec [of src m dst] assms len by auto
    have "Some m' = buf_write dst (rev (take 6 (drop src m))) m"
      using m' assms len by (intro window_eq_buf_write) (auto simp: rev_nth)
    with m'(1) swapX_reverses [OF assms] len show ?thesis by (simp add: swap48_def)
  qed
  with swapX_reverses [OF assms] show ?thesis by blast
qed

theorem swap_reverses_witness:
  "swapX 0 6 6 sample_mem = buf_write 6 (rev (take 6 (drop 0 sample_mem))) sample_mem \<and>
    flip_addr 6 0 sample_mem = swap48 6 0 sample_mem"
  using swap_reverses [of 0 6 sample_mem 6] by (simp add: sample_strings)

end
