(* ===== verification/Crc_Sw.thy ===== *)
theory Crc_Sw
  imports Prelude
begin

text \<open>
  The software checksums of \<open>ble_lt_sdk/proj/simu/crc_sw.c\<close>: bit-serial CRC-16 and CRC-32 (which
  shift the message bits out of the caller's buffer), bit reversal, the reflected \<open>crc16_calc\<close> with
  its 128-byte copy, and the table builder.
\<close>

section \<open>The bit-serial register\<close>

definition top_bit :: "'a::len word \<Rightarrow> bool" where
  "top_bit c \<longleftrightarrow> bit c (LENGTH('a) - 1)"

text \<open>One turn of the inner loop with message bit \<open>b\<close>, and one turn of the final loop.\<close>

definition crc_step :: "'a::len word \<Rightarrow> 'a word \<Rightarrow> bool \<Rightarrow> 'a word" where
  "crc_step poly c b =
     (if top_bit c then (push_bit 1 c OR of_bool b) XOR poly else push_bit 1 c OR of_bool b)"

definition crc_shift :: "'a::len word \<Rightarrow> 'a word \<Rightarrow> 'a word" where
  "crc_shift poly c = (if top_bit c then push_bit 1 c XOR poly else push_bit 1 c)"

fun crc_byte :: "nat \<Rightarrow> 'a::len word \<Rightarrow> 'a word \<Rightarrow> u8 \<Rightarrow> 'a word \<times> u8" where
  "crc_byte 0 poly c b = (c, b)"
| "crc_byte (Suc j) poly c b = crc_byte j poly (crc_step poly c (b AND 0x80 \<noteq> 0)) (push_bit 1 b)"

text \<open>
  The outer loop: \<open>i\<close> is the 32-bit counter compared with \<open>len_m1\<close>, \<open>k\<close> the stream pointer. The
  stream is returned as the loop leaves it.
\<close>

function crc_bytes ::
  "'a::len word \<Rightarrow> 'a word \<Rightarrow> u32 \<Rightarrow> u32 \<Rightarrow> nat \<Rightarrow> u8 list \<Rightarrow> ('a word \<times> u8 list) option" where
  "crc_bytes poly c i len_m1 k xs =
     (if i \<le> len_m1 then
        (if k < length xs then
           (let (c', b') = crc_byte 8 poly c (xs ! k)
            in crc_bytes poly c' (i + 1) len_m1 (k + 1) (xs[k := b']))
         else None)
      else Some (c, xs))"
  by pat_completeness auto
termination by (relation "measure (\<lambda>(_, _, _, _, k, xs). length xs - k)") auto

declare crc_bytes.simps [simp del]

definition crc_bitwise :: "nat \<Rightarrow> u8 list \<Rightarrow> u32 \<Rightarrow> 'a::len word \<Rightarrow> ('a word \<times> u8 list) option" where
  "crc_bitwise width p_stream len_m1 poly =
     (case crc_bytes poly 0 0 len_m1 0 p_stream of None \<Rightarrow> None
      | Some (c, xs) \<Rightarrow> Some ((crc_shift poly ^^ width) c, xs))"

definition crc16_bitwise :: "u8 list \<Rightarrow> u32 \<Rightarrow> u16 \<Rightarrow> (u16 \<times> u8 list) option" where
  "crc16_bitwise = crc_bitwise 16"

definition crc32_bitwise :: "u8 list \<Rightarrow> u32 \<Rightarrow> u32 \<Rightarrow> (u32 \<times> u8 list) option" where
  "crc32_bitwise = crc_bitwise 32"

section \<open>The table\<close>

definition CRC_MODE3_POLY :: u32 where "CRC_MODE3_POLY = 0x04c11db7"

definition crc32_table_step :: "bool \<Rightarrow> u32 \<Rightarrow> u32 \<Rightarrow> u32" where
  "crc32_table_step endian polynomial c =
     (if endian then (if c AND 0x80000000 \<noteq> 0 then push_bit 1 c XOR polynomial else push_bit 1 c)
      else (if c AND 1 \<noteq> 0 then drop_bit 1 c XOR polynomial else drop_bit 1 c))"

definition crc32_buildTable :: "bool \<Rightarrow> u32 list" where
  "crc32_buildTable endian =
     (let polynomial = (if endian then CRC_MODE3_POLY else 0xedb88320)
      in map (\<lambda>i. (crc32_table_step endian polynomial ^^ 8)
                    (if endian then push_bit 24 (of_nat i) else of_nat i)) [0..<256])"

section \<open>Bit reversal\<close>

definition reverse_step :: "'a::len word \<times> 'a word \<Rightarrow> 'a word \<times> 'a word" where
  "reverse_step = (\<lambda>(result, temp). (push_bit 1 result + (temp AND 1), drop_bit 1 temp))"

definition crc_reverseBitU32 :: "u32 \<Rightarrow> u32" where
  "crc_reverseBitU32 src = fst ((reverse_step ^^ 32) (0, src))"

definition crc_reverseBitU16 :: "u16 \<Rightarrow> u16" where
  "crc_reverseBitU16 src = fst ((reverse_step ^^ 16) (0, src))"

definition reverseBitU8 :: "u8 \<Rightarrow> u8" where
  "reverseBitU8 src = fst ((reverse_step ^^ 8) (0, src))"

section \<open>The reflected CRC-16\<close>

definition CRC_MODE0_POLY :: u16 where "CRC_MODE0_POLY = 0x1021"

text \<open>
  \<open>junk\<close> is what the uninitialised \<open>temp[128]\<close> holds. The length argument \<open>len - 1\<close> is an \<open>int\<close> that
  becomes a \<open>u32\<close>: for \<open>len = 0\<close> it is 0xffffffff.
\<close>

definition crc16_calc :: "u8 list \<Rightarrow> u8 list \<Rightarrow> u8 \<Rightarrow> u16 option" where
  "crc16_calc junk crcArray len =
     (case buf_read 0 (unat len) crcArray of None \<Rightarrow> None
      | Some bs \<Rightarrow>
          (case buf_write 0 bs junk of None \<Rightarrow> None
           | Some temp \<Rightarrow>
               let temp' = map reverseBitU8 (take (unat len) temp) @ drop (unat len) temp
               in map_option (\<lambda>(c, _). crc_reverseBitU16 c)
                    (crc16_bitwise temp' (ucast len - 1) CRC_MODE0_POLY)))"

section \<open>The register is linear\<close>

abbreviation crc_run :: "'a::len word \<Rightarrow> 'a word \<Rightarrow> bool list \<Rightarrow> 'a word" where
  "crc_run poly \<equiv> foldl (crc_step poly)"

lemma bit_times_2 [simp]: "bit (c * 2) n \<longleftrightarrow> n < LENGTH('a) \<and> 0 < n \<and> bit c (n - 1)" for c :: "'a::len word"
proof -
  have "c * 2 = push_bit 1 c" by (simp add: push_bit_eq_mult)
  then show ?thesis by (simp only: bit_push_bit_iff) (auto simp: bit_simps)
qed

lemma or_bit0: "push_bit 1 c OR of_bool b = push_bit 1 c XOR (of_bool b :: 'a::len word)"
  by (rule bit_word_eqI) (auto simp: bit_simps)

lemma push_bit_xor: "push_bit n (a XOR b) = push_bit n a XOR push_bit n (b :: 'a::len word)"
  by (rule bit_word_eqI) (auto simp: bit_simps)

lemma crc_step_xor: "crc_step poly (a XOR b) (x \<noteq> y) = crc_step poly a x XOR crc_step poly b y"
  unfolding crc_step_def or_bit0 push_bit_xor
  by (rule bit_word_eqI) (auto simp: bit_simps top_bit_def)

declare crc_step_xor [simplified, simp]

lemma crc_run_xor:
  "length xs = length ys \<Longrightarrow>
   crc_run poly (a XOR b) (map2 (\<noteq>) xs ys) = crc_run poly a xs XOR crc_run poly b ys"
  by (induction xs ys arbitrary: a b rule: list_induct2) simp_all

lemma crc_shift_step: "crc_shift poly c = crc_step poly c False"
  by (simp add: crc_shift_def crc_step_def)

lemma crc_shift_run: "(crc_shift poly ^^ n) c = crc_run poly c (replicate n False)"
  by (induction n arbitrary: c) (simp_all add: funpow_swap1 crc_shift_step del: funpow.simps(2) add: funpow_Suc_right)

lemma crc_run_0: "crc_run poly 0 (replicate n False) = 0"
  by (induction n) (simp_all add: crc_step_def top_bit_def)

text \<open>Shifting the bits of a word into an empty register gives the word back.\<close>

definition msb_bits :: "'a::len word \<Rightarrow> bool list" where
  "msb_bits w = map (\<lambda>k. bit w (LENGTH('a) - 1 - k)) [0..<LENGTH('a)]"

lemma length_msb_bits [simp]: "length (msb_bits (w :: 'a::len word)) = LENGTH('a)"
  by (simp add: msb_bits_def)

lemma crc_run_load_part:
  "n \<le> LENGTH('a) \<Longrightarrow>
   crc_run poly 0 (map (\<lambda>k. bit w (LENGTH('a) - 1 - k)) [0..<n]) = drop_bit (LENGTH('a) - n) (w :: 'a::len word)"
proof (induction n)
  case 0
  then show ?case by (simp add: bit_eq_iff bit_simps)
next
  case (Suc n)
  let ?m = "LENGTH('a) - Suc n"
  have "\<not> top_bit (drop_bit (LENGTH('a) - n) w)"
    using Suc.prems by (auto simp: top_bit_def bit_simps dest: bit_imp_le_length)
  then have "crc_step poly (drop_bit (LENGTH('a) - n) w) (bit w (LENGTH('a) - 1 - n)) =
    push_bit 1 (drop_bit (LENGTH('a) - n) w) OR of_bool (bit w ?m)"
    by (simp add: crc_step_def)
  also have "\<dots> = drop_bit ?m w"
  proof (rule bit_word_eqI)
    fix k assume "k < LENGTH('a)"
    moreover have "LENGTH('a) - n + (k - 1) = ?m + k" if "0 < k" using that Suc.prems by simp
    ultimately show "bit (push_bit 1 (drop_bit (LENGTH('a) - n) w) OR of_bool (bit w ?m)) k =
        bit (drop_bit ?m w) k"
      by (cases k) (auto simp: bit_simps)
  qed
  finally show ?case using Suc by simp
qed

lemma crc_run_load: "crc_run poly 0 (msb_bits w) = w"
  using crc_run_load_part [of "LENGTH('a)" poly "w :: 'a::len word"] by (simp add: msb_bits_def)

text \<open>Hence the register is cleared by its own remainder.\<close>

lemma crc_run_remainder:
  fixes c :: "'a::len word"
  assumes "r = crc_run poly c (replicate LENGTH('a) False)"
  shows "crc_run poly c (msb_bits r) = 0"
proof -
  have m: "map2 (\<noteq>) (replicate LENGTH('a) False) (msb_bits r) = msb_bits r"
    by (rule nth_equalityI) simp_all
  have "crc_run poly (c XOR 0) (map2 (\<noteq>) (replicate LENGTH('a) False) (msb_bits r)) =
    crc_run poly c (replicate LENGTH('a) False) XOR crc_run poly 0 (msb_bits r)"
    by (rule crc_run_xor) simp
  then show ?thesis unfolding m using assms by (simp add: crc_run_load)
qed

section \<open>The byte loops feed the register bit by bit\<close>

lemma crc_byte_run:
  "j \<le> 8 \<Longrightarrow> crc_byte j poly c b = (crc_run poly c (map (\<lambda>k. bit b (7 - k)) [0..<j]), push_bit j b)"
proof (induction j arbitrary: c b)
  case (Suc j)
  have t: "(b AND 0x80 \<noteq> 0) = bit b 7"
    by (simp add: bit_iff_and_push_bit_not_eq_0)
  have sh: "map (\<lambda>k. bit (push_bit 1 b) (7 - k)) [0..<j] = map (\<lambda>k. bit b (7 - k)) [1..<Suc j]"
    using Suc.prems by (intro nth_equalityI) (auto simp del: upt_Suc)
  have up: "[0..<Suc j] = 0 # [1..<Suc j]" by (simp add: upt_conv_Cons del: upt_Suc)
  have "crc_byte j poly c' (push_bit 1 b) =
      (crc_run poly c' (map (\<lambda>k. bit b (7 - k)) [1..<Suc j]), push_bit (Suc j) b)" for c'
    using Suc.IH [of c' "push_bit 1 b"] Suc.prems unfolding sh by (simp add: push_bit_push_bit)
  then show ?case by (simp add: t up del: upt_Suc)
qed simp

lemma crc_byte_8: "crc_byte 8 poly c b = (crc_run poly c (msb_bits b), 0)"
proof -
  have "push_bit 8 b = 0" by (rule bit_word_eqI) (simp add: bit_simps)
  with crc_byte_run [of 8 poly c b] show ?thesis by (simp add: msb_bits_def)
qed

lemma crc_bytes_run:
  fixes poly :: "'a::len word"
  shows "unat i = k \<Longrightarrow> k \<le> n \<Longrightarrow> unat len_m1 + 1 = n \<Longrightarrow> n < 2 ^ 32 \<Longrightarrow> n \<le> length xs \<Longrightarrow>
   crc_bytes poly c i len_m1 k xs =
     Some (crc_run poly c (concat (map msb_bits (drop k (take n xs)))),
           take k xs @ replicate (n - k) 0 @ drop n xs)"
proof (induction "n - k" arbitrary: c i k xs)
  case 0
  then have "\<not> i \<le> len_m1" by (simp add: word_le_nat_alt)
  with 0 show ?case by (simp add: crc_bytes.simps [of _ _ i])
next
  case (Suc d)
  then have k: "k < length xs" "i \<le> len_m1" "k < n" by (simp_all add: word_le_nat_alt)
  have i1: "unat (i + 1) = k + 1" using Suc.prems k by (subst unat_plus_one) simp_all
  have "crc_bytes poly c i len_m1 k xs =
    crc_bytes poly (crc_run poly c (msb_bits (xs ! k))) (i + 1) len_m1 (k + 1) (xs[k := 0])"
    using k by (simp add: crc_bytes.simps [of _ _ i] crc_byte_8)
  also have "\<dots> = Some (crc_run poly (crc_run poly c (msb_bits (xs ! k)))
      (concat (map msb_bits (drop (k + 1) (take n (xs[k := 0]))))),
    take (k + 1) (xs[k := 0]) @ replicate (n - (k + 1)) 0 @ drop n (xs[k := 0]))"
    using Suc.prems Suc.hyps(2) k i1 by (intro Suc.hyps(1)) simp_all
  also have "drop (k + 1) (take n (xs[k := 0])) = drop (k + 1) (take n xs)"
    by (simp add: take_update_swap)
  also have "take (k + 1) (xs[k := 0]) @ replicate (n - (k + 1)) 0 @ drop n (xs[k := 0]) =
    take k xs @ replicate (n - k) 0 @ drop n xs"
  proof -
    have "n - k = Suc (n - (k + 1))" using k by simp
    then show ?thesis using k by (simp add: take_Suc_conv_app_nth)
  qed
  also have "drop k (take n xs) = xs ! k # drop (k + 1) (take n xs)"
    using k Suc.prems by (simp add: Cons_nth_drop_Suc [symmetric])
  then have "crc_run poly (crc_run poly c (msb_bits (xs ! k))) (concat (map msb_bits (drop (k + 1) (take n xs)))) =
    crc_run poly c (concat (map msb_bits (drop k (take n xs))))"
    by (simp del: drop_take)
  finally show ?case .
qed

text \<open>The remainder of a message, over its bits.\<close>

definition crc_of_bytes :: "'a::len word \<Rightarrow> u8 list \<Rightarrow> 'a word" where
  "crc_of_bytes poly xs =
     crc_run poly (crc_run poly 0 (concat (map msb_bits xs))) (replicate LENGTH('a) False)"

lemma crc_bitwise_run:
  fixes poly :: "'a::len word"
  assumes "xs \<noteq> []" "length xs < 2 ^ 32"
  shows "crc_bitwise LENGTH('a) (xs @ ys) (of_nat (length xs) - 1) poly =
    Some (crc_of_bytes poly xs, replicate (length xs) 0 @ ys)"
proof -
  have "unat (of_nat (length xs) - 1 :: u32) + 1 = length xs"
  proof -
    have l: "unat (of_nat (length xs) :: u32) = length xs" using assms(2) by (simp add: unat_of_nat_small)
    moreover have "(of_nat (length xs) :: u32) \<noteq> 0" using l assms(1) by (metis length_0_conv unat_0)
    ultimately show ?thesis using assms(1) by (simp add: unat_minus_one Suc_leI)
  qed
  then have "crc_bytes poly 0 0 (of_nat (length xs) - 1) 0 (xs @ ys) =
    Some (crc_run poly 0 (concat (map msb_bits (drop 0 (take (length xs) (xs @ ys))))),
      take 0 (xs @ ys) @ replicate (length xs - 0) 0 @ drop (length xs) (xs @ ys))"
    using assms(2) by (intro crc_bytes_run) simp_all
  then show ?thesis by (simp add: crc_bitwise_def crc_shift_run crc_of_bytes_def)
qed

section \<open>Bit reversal\<close>

lemma reverse_steps:
  "n \<le> LENGTH('a) \<Longrightarrow>
   (reverse_step ^^ n) (0, w) =
     (push_bit n 0 OR horner_sum of_bool 2 (rev (map (bit w) [0..<n])), drop_bit n (w :: 'a::len word))"
proof (induction n)
  case (Suc n)
  let ?h = "horner_sum of_bool 2 (rev (map (bit w) [0..<n])) :: 'a word"
  have "(drop_bit n w AND 1) = of_bool (bit w n)" by (simp add: and_one_eq bit_iff_odd_drop_bit odd_iff_mod_2_eq_one)
  then show ?case using Suc by (simp add: reverse_step_def funpow_Suc_right drop_bit_drop_bit mult.commute add.commute)
qed simp

lemma bit_reverse_steps:
  assumes "n = LENGTH('a)" "k < LENGTH('a)"
  shows "bit (fst ((reverse_step ^^ n) (0, w :: 'a::len word))) k = bit w (LENGTH('a) - 1 - k)"
  using assms by (simp add: reverse_steps bit_horner_sum_bit_word_iff rev_nth)

lemma msb_bits_reverse:
  assumes "n = LENGTH('a)"
  shows "msb_bits (fst ((reverse_step ^^ n) (0, w :: 'a::len word))) = map (bit w) [0..<LENGTH('a)]"
  unfolding msb_bits_def using assms by (intro nth_equalityI) (simp_all add: bit_reverse_steps)

lemma reverse_involution:
  assumes "n = LENGTH('a)"
  shows "fst ((reverse_step ^^ n) (0, fst ((reverse_step ^^ n) (0, w)))) = (w :: 'a::len word)"
  by (rule bit_word_eqI) (simp add: bit_reverse_steps [OF assms])

lemma bits_of_halfword:
  "map (bit (ucast c :: u8)) [0..<8] @ map (bit (ucast (drop_bit 8 c) :: u8)) [0..<8] =
   map (bit (c :: u16)) [0..<16]"
  by (rule nth_equalityI) (auto simp: nth_append bit_simps)

lemma crc_of_bytes_append_remainder:
  fixes poly :: "'a::len word"
  assumes "concat (map msb_bits ys) = msb_bits (crc_of_bytes poly xs)"
  shows "crc_of_bytes poly (xs @ ys) = 0"
  using crc_run_remainder [OF refl, of poly "crc_run poly 0 (concat (map msb_bits xs))"] assms
  by (simp add: crc_of_bytes_def crc_run_0)

lemma crc16_calc_run:
  assumes "xs \<noteq> []" "length xs \<le> 128" "length junk = 128"
  shows "crc16_calc junk xs (of_nat (length xs)) =
    Some (crc_reverseBitU16 (crc_of_bytes CRC_MODE0_POLY (map reverseBitU8 xs)))"
proof -
  have l: "unat (of_nat (length xs) :: u8) = length xs" using assms(2) by (simp add: unat_of_nat_small)
  have u: "ucast (of_nat (length xs) :: u8) = (of_nat (length xs) :: u32)"
    by (metis l of_nat_unat)
  have "crc_bitwise LENGTH(16) (map reverseBitU8 xs @ drop (length xs) junk)
      (of_nat (length (map reverseBitU8 xs)) - 1) CRC_MODE0_POLY =
    Some (crc_of_bytes CRC_MODE0_POLY (map reverseBitU8 xs),
      replicate (length (map reverseBitU8 xs)) 0 @ drop (length xs) junk)"
    using assms by (intro crc_bitwise_run) simp_all
  then show ?thesis using assms
    by (simp add: crc16_calc_def l u buf_read_def buf_write_def crc16_bitwise_def)
qed

section \<open>Properties\<close>

text \<open>
  C18. \<open>crc16_calc\<close> is a checksum: the code of a message followed by its own checksum, low byte first,
  is 0, for every message that fits the 128-byte copy with its checksum.
\<close>

theorem crc16_calc_check_is_zero:
  assumes "xs \<noteq> []" and "length xs + 2 \<le> 128" and "length junk = 128"
  shows "\<exists>c. crc16_calc junk xs (of_nat (length xs)) = Some c \<and>
    crc16_calc junk (xs @ le16 c) (of_nat (length xs + 2)) = Some 0"
proof -
  let ?r = "crc_of_bytes CRC_MODE0_POLY (map reverseBitU8 xs)" let ?c = "crc_reverseBitU16 ?r"
  have b: "concat (map msb_bits (map reverseBitU8 (le16 ?c))) = msb_bits ?r"
  proof -
    have "msb_bits (reverseBitU8 b) = map (bit b) [0..<8]" for b
      using msb_bits_reverse [of 8 b] by (simp add: reverseBitU8_def)
    then have "concat (map msb_bits (map reverseBitU8 (le16 ?c))) = map (bit ?c) [0..<16]"
      unfolding le16_def list.map concat.simps append_Nil2 by (simp only: bits_of_halfword)
    also have "\<dots> = msb_bits (crc_reverseBitU16 ?c)"
      unfolding crc_reverseBitU16_def using msb_bits_reverse [of 16 "?c"] by (simp add: crc_reverseBitU16_def)
    also have "crc_reverseBitU16 ?c = ?r"
      unfolding crc_reverseBitU16_def by (rule reverse_involution) simp
    finally show ?thesis .
  qed
  have "crc16_calc junk xs (of_nat (length xs)) = Some ?c" using assms by (intro crc16_calc_run) auto
  moreover have "crc16_calc junk (xs @ le16 ?c) (of_nat (length (xs @ le16 ?c))) =
      Some (crc_reverseBitU16 (crc_of_bytes CRC_MODE0_POLY (map reverseBitU8 (xs @ le16 ?c))))"
    using assms by (intro crc16_calc_run) auto
  moreover have "crc_of_bytes CRC_MODE0_POLY (map reverseBitU8 (xs @ le16 ?c)) = 0"
    using crc_of_bytes_append_remainder [OF b] by simp
  moreover have "crc_reverseBitU16 0 = 0" by (simp add: crc_reverseBitU16_def reverse_step_def numeral_eq_Suc)
  ultimately show ?thesis by auto
qed

theorem crc16_calc_check_is_zero_witness:
  "\<exists>c. crc16_calc (replicate 128 0xcc) [1, 2, 3] (of_nat (length [1, 2, 3 :: u8])) = Some c \<and>
    crc16_calc (replicate 128 0xcc) ([1, 2, 3] @ le16 c) (of_nat (length [1, 2, 3 :: u8] + 2)) = Some 0"
  by (rule crc16_calc_check_is_zero) simp_all

text \<open>
  C27. The bit-serial checksums destroy their input: after \<open>crc16_bitwise\<close> (and likewise
  \<open>crc32_bitwise\<close>) every byte of the message in the caller's buffer is 0, the bytes behind it are
  untouched.
\<close>

theorem crc_bitwise_clears_message:
  assumes "xs \<noteq> []" and "length xs < 2 ^ 32"
  shows "\<exists>c d. crc16_bitwise (xs @ ys) (of_nat (length xs) - 1) p16 = Some (c, replicate (length xs) 0 @ ys) \<and>
    crc32_bitwise (xs @ ys) (of_nat (length xs) - 1) p32 = Some (d, replicate (length xs) 0 @ ys)"
  using crc_bitwise_run [OF assms, of ys p16] crc_bitwise_run [OF assms, of ys p32]
  by (simp add: crc16_bitwise_def crc32_bitwise_def)

theorem crc_bitwise_clears_message_witness:
  "\<exists>c d. crc16_bitwise ([1, 2] @ [9]) (of_nat (length [1, 2 :: u8]) - 1) 0x1021 =
      Some (c, replicate (length [1, 2 :: u8]) 0 @ [9]) \<and>
    crc32_bitwise ([1, 2] @ [9]) (of_nat (length [1, 2 :: u8]) - 1) 0x04c11db7 =
      Some (d, replicate (length [1, 2 :: u8]) 0 @ [9])"
  by (rule crc_bitwise_clears_message) simp_all

text \<open>
  C24. An empty message is not handled: for \<open>len = 0\<close> the last index is 0xffffffff and
  \<open>crc16_calc\<close> runs over the end of its 128-byte buffer.
\<close>

theorem crc16_calc_empty_overruns:
  assumes "length junk = 128"
  shows "crc16_calc junk crcArray 0 = None"
proof -
  have m: "i \<le> (- 1 :: u32)" for i
    by (rule word_n1_ge)
  have run: "crc_bytes poly c i (- 1) k xs = None" if "length xs - k = n" "k \<le> length xs"
    for n and poly :: u16 and c i k xs
    using that
  proof (induction n arbitrary: c i k xs)
    case 0
    then show ?case using m by (simp add: crc_bytes.simps [of _ _ i])
  next
    case (Suc n)
    show ?case using Suc m
      by (simp add: crc_bytes.simps [of _ _ i _ k] split: prod.split)
  qed
  then show ?thesis using assms run [OF refl, of 0 junk]
    by (simp add: crc16_calc_def buf_read_def buf_write_def crc16_bitwise_def crc_bitwise_def)
qed

theorem crc16_calc_empty_overruns_witness:
  "crc16_calc (replicate 128 0) [1, 2, 3] 0 = None"
  by (rule crc16_calc_empty_overruns) simp

end
