(* ===== verification/Flash.thy ===== *)
theory Flash
  imports Prelude
begin

text \<open>
  The flash driver of \<open>ble_sdk_multimode/drivers/8258/flash.c\<close> (the 826x driver
  \<open>ble_lt_sdk/proj/drivers/flash.c\<close> differs by one watchdog kick), as the SPI transactions it sends,
  and what they do to a serial NOR flash chip.

  The chip is not code of the repository: it is the parameter \<open>xfer\<close> (a transaction that only
  sends bytes, from chip select low to chip select high) and \<open>fetch\<close> (a transaction that sends a
  command and then clocks out bytes). The locale \<open>nor_chip\<close> states the data-sheet behaviour the
  driver relies on. The bounded wait for the busy bit is taken to end with the chip ready.
\<close>

definition FLASH_WRITE_CMD :: u8 where "FLASH_WRITE_CMD = 0x02"
definition FLASH_READ_CMD :: u8 where "FLASH_READ_CMD = 0x03"
definition FLASH_READ_STATUS_CMD :: u8 where "FLASH_READ_STATUS_CMD = 0x05"
definition FLASH_WRITE_ENABLE_CMD :: u8 where "FLASH_WRITE_ENABLE_CMD = 0x06"
definition FLASH_SECT_ERASE_CMD :: u8 where "FLASH_SECT_ERASE_CMD = 0x20"

section \<open>The driver\<close>

definition flash_send_addr :: "u32 \<Rightarrow> u8 list" where
  "flash_send_addr addr = [ucast (drop_bit 16 addr), ucast (drop_bit 8 addr), ucast addr]"

definition flash_wait_done :: "(u8 list \<Rightarrow> 'f \<Rightarrow> 'f) \<Rightarrow> 'f \<Rightarrow> 'f" where
  "flash_wait_done xfer f = xfer [FLASH_READ_STATUS_CMD] f"

definition flash_erase_sector :: "(u8 list \<Rightarrow> 'f \<Rightarrow> 'f) \<Rightarrow> u32 \<Rightarrow> 'f \<Rightarrow> 'f" where
  "flash_erase_sector xfer addr f =
     flash_wait_done xfer
       (xfer (FLASH_SECT_ERASE_CMD # flash_send_addr addr) (xfer [FLASH_WRITE_ENABLE_CMD] f))"

definition flash_write_page :: "(u8 list \<Rightarrow> 'f \<Rightarrow> 'f) \<Rightarrow> u32 \<Rightarrow> u8 list \<Rightarrow> 'f \<Rightarrow> 'f" where
  "flash_write_page xfer addr buf f =
     flash_wait_done xfer
       (xfer (FLASH_WRITE_CMD # flash_send_addr addr @ buf) (xfer [FLASH_WRITE_ENABLE_CMD] f))"

definition flash_read_page :: "(u8 list \<Rightarrow> nat \<Rightarrow> 'f \<Rightarrow> u8 list) \<Rightarrow> u32 \<Rightarrow> nat \<Rightarrow> 'f \<Rightarrow> u8 list" where
  "flash_read_page fetch addr len f = fetch (FLASH_READ_CMD # flash_send_addr addr) len f"

section \<open>The chip\<close>

text \<open>
  \<open>mem\<close> is the contents by address, \<open>wel\<close> the write-enable latch. Erasing sets the 4096 bytes of the
  sector to 0xff; programming inside one 256-byte page clears bits and never sets one.
\<close>

definition erased :: "nat \<Rightarrow> (nat \<Rightarrow> u8) \<Rightarrow> nat \<Rightarrow> u8" where
  "erased addr m = (\<lambda>a. if a div 4096 = addr div 4096 then 0xff else m a)"

definition programmed :: "nat \<Rightarrow> u8 list \<Rightarrow> (nat \<Rightarrow> u8) \<Rightarrow> nat \<Rightarrow> u8" where
  "programmed addr bs m =
     (\<lambda>a. if addr \<le> a \<and> a < addr + length bs then m a AND bs ! (a - addr) else m a)"

locale nor_chip =
  fixes xfer :: "u8 list \<Rightarrow> 'f \<Rightarrow> 'f"
    and fetch :: "u8 list \<Rightarrow> nat \<Rightarrow> 'f \<Rightarrow> u8 list"
    and mem :: "'f \<Rightarrow> nat \<Rightarrow> u8"
    and wel :: "'f \<Rightarrow> bool"
  assumes write_enable: "mem (xfer [0x06] f) = mem f" "wel (xfer [0x06] f)"
    and read_status: "mem (xfer [0x05] f) = mem f"
    and sector_erase: "wel f \<Longrightarrow> unat addr < 2 ^ 24 \<Longrightarrow>
      mem (xfer (0x20 # flash_send_addr addr) f) = erased (unat addr) (mem f)"
    and page_program: "wel f \<Longrightarrow> unat addr < 2 ^ 24 \<Longrightarrow> unat addr mod 256 + length bs \<le> 256 \<Longrightarrow>
      mem (xfer (0x02 # flash_send_addr addr @ bs) f) = programmed (unat addr) bs (mem f)"
    and read_data: "unat addr + n \<le> 2 ^ 24 \<Longrightarrow>
      fetch (0x03 # flash_send_addr addr) n f = map (\<lambda>i. mem f (unat addr + i)) [0..<n]"
begin

lemma mem_erase_sector:
  "unat addr < 2 ^ 24 \<Longrightarrow> mem (flash_erase_sector xfer addr f) = erased (unat addr) (mem f)"
  by (simp add: flash_erase_sector_def flash_wait_done_def FLASH_READ_STATUS_CMD_def
      FLASH_SECT_ERASE_CMD_def FLASH_WRITE_ENABLE_CMD_def read_status sector_erase write_enable)

lemma mem_write_page:
  "unat addr < 2 ^ 24 \<Longrightarrow> unat addr mod 256 + length bs \<le> 256 \<Longrightarrow>
   mem (flash_write_page xfer addr bs f) = programmed (unat addr) bs (mem f)"
  by (simp add: flash_write_page_def flash_wait_done_def FLASH_READ_STATUS_CMD_def
      FLASH_WRITE_CMD_def FLASH_WRITE_ENABLE_CMD_def read_status page_program write_enable)

lemma read_page:
  "unat addr + n \<le> 2 ^ 24 \<Longrightarrow>
   flash_read_page fetch addr n f = map (\<lambda>i. mem f (unat addr + i)) [0..<n]"
  by (simp add: flash_read_page_def FLASH_READ_CMD_def read_data)

text \<open>Programming erased bytes stores them; reading a page back shows them.\<close>

lemma write_then_read:
  assumes "unat addr < 2 ^ 24" "unat addr mod 256 + length bs \<le> 256" "unat addr + length bs \<le> 2 ^ 24"
    and "\<forall>a. unat addr \<le> a \<and> a < unat addr + length bs \<longrightarrow> mem f a = 0xff"
  shows "flash_read_page fetch addr (length bs) (flash_write_page xfer addr bs f) = bs"
  using assms by (intro nth_equalityI) (simp_all add: read_page mem_write_page programmed_def)

end

section \<open>A reference chip\<close>

text \<open>
  A chip that decodes the four commands, with its contents as a function of the address. It shows
  that the laws of \<open>nor_chip\<close> can be met and is the chip of the witnesses.
\<close>

record sim_chip =
  chip_mem :: "nat \<Rightarrow> u8"
  chip_wel :: bool

definition addr_of :: "u8 \<Rightarrow> u8 \<Rightarrow> u8 \<Rightarrow> nat" where
  "addr_of a2 a1 a0 = unat (u32_le a0 a1 a2 0)"

fun chip_xfer :: "u8 list \<Rightarrow> sim_chip \<Rightarrow> sim_chip" where
  "chip_xfer (c # a2 # a1 # a0 # bs) f =
     (if \<not> chip_wel f then f
      else if c = 0x20 then f\<lparr>chip_mem := erased (addr_of a2 a1 a0) (chip_mem f), chip_wel := False\<rparr>
      else if c = 0x02 then f\<lparr>chip_mem := programmed (addr_of a2 a1 a0) bs (chip_mem f), chip_wel := False\<rparr>
      else f)"
| "chip_xfer [c] f = (if c = 0x06 then f\<lparr>chip_wel := True\<rparr> else f)"
| "chip_xfer _ f = f"

fun chip_fetch :: "u8 list \<Rightarrow> nat \<Rightarrow> sim_chip \<Rightarrow> u8 list" where
  "chip_fetch [c, a2, a1, a0] n f = map (\<lambda>i. chip_mem f (addr_of a2 a1 a0 + i)) [0..<n]"
| "chip_fetch _ n f = []"

lemma addr_of_bytes:
  "unat addr < 2 ^ 24 \<Longrightarrow> addr_of (ucast (drop_bit 16 addr)) (ucast (drop_bit 8 addr)) (ucast addr) = unat (addr :: u32)"
proof -
  assume a: "unat addr < 2 ^ 24"
  have "drop_bit 24 addr = 0"
    by (metis a drop_bit_eq_div div_less unat_drop_bit_eq unat_eq_zero)
  then have "u32_le (ucast addr) (ucast (drop_bit 8 addr)) (ucast (drop_bit 16 addr)) 0 = addr"
    using u32_le_split [of addr] by simp
  then show ?thesis by (simp add: addr_of_def)
qed

interpretation sim: nor_chip chip_xfer chip_fetch chip_mem chip_wel
  by unfold_locales (simp_all add: flash_send_addr_def addr_of_bytes)

lemma sim_chip_laws: "nor_chip chip_xfer chip_fetch chip_mem chip_wel"
  by (rule sim.nor_chip_axioms)

definition blank_chip :: sim_chip where
  "blank_chip = \<lparr>chip_mem = (\<lambda>_. 0xff), chip_wel = False\<rparr>"

end
