(* ===== verification/Pair_Table.thy ===== *)
theory Pair_Table
  imports Flash
begin

text \<open>
  The bonding table of the BLE master dongle, \<open>vendor/8258_master_kma_dongle/blm_pair.c\<close>: the
  bonded slaves in RAM and their log in one 4 kB flash sector, in records of 8 bytes whose first
  byte is a mark (0x5A valid, 0x00 deleted, 0xff not yet written). The flash is written through
  the driver of \<open>Flash\<close>; \<open>rom\<close> is the memory-mapped view of the flash that the start-up scan
  reads.
\<close>

section \<open>State\<close>

record mac_addr =
  bond_mark :: u8
  adr_type :: u8
  address :: "u8 list"

definition mac_bytes :: "mac_addr \<Rightarrow> u8 list" where
  "mac_bytes d = [bond_mark d, adr_type d] @ address d"

definition mac_of_bytes :: "u8 list \<Rightarrow> mac_addr" where
  "mac_of_bytes bs = \<lparr>bond_mark = bs ! 0, adr_type = bs ! 1, address = drop 2 bs\<rparr>"

record 'f slave_tbl =
  bond_flash_idx :: "u32 list"
  bond_device :: "mac_addr list"
  cur_num :: u8
  cfg_idx :: int
  pflash :: 'f

definition USER_PAIR_SLAVE_MAX_NUM :: nat where "USER_PAIR_SLAVE_MAX_NUM = 1"
definition FLASH_ADR_PARING :: u32 where "FLASH_ADR_PARING = 0x78000"
definition ADR_BOND_MARK :: u8 where "ADR_BOND_MARK = 0x5A"
definition ADR_ERASE_MARK :: u8 where "ADR_ERASE_MARK = 0x00"

section \<open>Operations\<close>

definition user_tbl_slave_mac_delete_by_index ::
  "(u8 list \<Rightarrow> 'f \<Rightarrow> 'f) \<Rightarrow> nat \<Rightarrow> 'f slave_tbl \<Rightarrow> 'f slave_tbl" where
  "user_tbl_slave_mac_delete_by_index xfer index st =
     (let f = flash_write_page xfer (FLASH_ADR_PARING + bond_flash_idx st ! index) [ADR_ERASE_MARK] (pflash st);
          n = unat (cur_num st)
      in st\<lparr>pflash := f, bond_flash_idx := shift_down index (n - 1) (bond_flash_idx st),
           bond_device := shift_down index (n - 1) (bond_device st), cur_num := cur_num st - 1\<rparr>)"

definition user_tbl_slave_mac_add ::
  "(u8 list \<Rightarrow> 'f \<Rightarrow> 'f) \<Rightarrow> u8 \<Rightarrow> u8 list \<Rightarrow> 'f slave_tbl \<Rightarrow> int \<times> 'f slave_tbl" where
  "user_tbl_slave_mac_add xfer ty adr st =
     (let st1 = (if unat (cur_num st) \<ge> USER_PAIR_SLAVE_MAX_NUM
                 then user_tbl_slave_mac_delete_by_index xfer 0 st else st);
          k = unat (cur_num st1);
          dev = \<lparr>bond_mark = ADR_BOND_MARK, adr_type = ty, address = take 6 adr\<rparr>;
          idx = cfg_idx st1 + 8
      in (1, st1\<lparr>bond_device := (bond_device st1)[k := dev], cfg_idx := idx,
                pflash := flash_write_page xfer (FLASH_ADR_PARING + word_of_int idx) (mac_bytes dev) (pflash st1),
                bond_flash_idx := (bond_flash_idx st1)[k := word_of_int idx],
                cur_num := cur_num st1 + 1\<rparr>))"

definition mac_matches :: "u8 \<Rightarrow> u8 list \<Rightarrow> mac_addr \<Rightarrow> bool" where
  "mac_matches ty adr d \<longleftrightarrow> adr_type d = ty \<and> take 6 (address d) = take 6 adr"

text \<open>The index of the first match from \<open>i\<close> on, as the two search loops compute it.\<close>

function mac_find :: "u8 \<Rightarrow> u8 list \<Rightarrow> nat \<Rightarrow> 'f slave_tbl \<Rightarrow> nat option" where
  "mac_find ty adr i st =
     (if i < unat (cur_num st) then
        if mac_matches ty adr (bond_device st ! i) then Some i else mac_find ty adr (i + 1) st
      else None)"
  by pat_completeness auto
termination by (relation "measure (\<lambda>(_, _, i, st). unat (cur_num st) - i)") auto

declare mac_find.simps [simp del]

definition user_tbl_slave_mac_search :: "u8 \<Rightarrow> u8 list \<Rightarrow> 'f slave_tbl \<Rightarrow> int" where
  "user_tbl_slave_mac_search ty adr st =
     (case mac_find ty adr 0 st of None \<Rightarrow> 0 | Some i \<Rightarrow> int i + 1)"

definition user_tbl_slave_mac_delete_by_adr ::
  "(u8 list \<Rightarrow> 'f \<Rightarrow> 'f) \<Rightarrow> u8 \<Rightarrow> u8 list \<Rightarrow> 'f slave_tbl \<Rightarrow> int \<times> 'f slave_tbl" where
  "user_tbl_slave_mac_delete_by_adr xfer ty adr st =
     (case mac_find ty adr 0 st of
        None \<Rightarrow> (0, st)
      | Some i \<Rightarrow> (1, user_tbl_slave_mac_delete_by_index xfer i st))"

fun delete_all_from :: "(u8 list \<Rightarrow> 'f \<Rightarrow> 'f) \<Rightarrow> nat \<Rightarrow> nat \<Rightarrow> 'f slave_tbl \<Rightarrow> 'f slave_tbl" where
  "delete_all_from xfer i 0 st = st"
| "delete_all_from xfer i (Suc k) st =
     delete_all_from xfer (i + 1) k
       (st\<lparr>pflash := flash_write_page xfer (FLASH_ADR_PARING + bond_flash_idx st ! i) [ADR_ERASE_MARK] (pflash st),
          bond_device := (bond_device st)[i := mac_of_bytes (replicate 8 0)]\<rparr>)"

definition user_tbl_slave_mac_delete_all :: "(u8 list \<Rightarrow> 'f \<Rightarrow> 'f) \<Rightarrow> 'f slave_tbl \<Rightarrow> 'f slave_tbl" where
  "user_tbl_slave_mac_delete_all xfer st = (delete_all_from xfer 0 (unat (cur_num st)) st)\<lparr>cur_num := 0\<rparr>"

definition user_tbl_salve_mac_unpair_proc :: "(u8 list \<Rightarrow> 'f \<Rightarrow> 'f) \<Rightarrow> 'f slave_tbl \<Rightarrow> 'f slave_tbl" where
  "user_tbl_salve_mac_unpair_proc xfer st = user_tbl_slave_mac_delete_all xfer st"

text \<open>Rewriting the table at the beginning of the erased sector.\<close>

fun rewrite_from :: "(u8 list \<Rightarrow> 'f \<Rightarrow> 'f) \<Rightarrow> nat \<Rightarrow> nat \<Rightarrow> 'f slave_tbl \<Rightarrow> 'f slave_tbl" where
  "rewrite_from xfer i 0 st = st"
| "rewrite_from xfer i (Suc k) st =
     (let idx = cfg_idx st + 8
      in rewrite_from xfer (i + 1) k
           (st\<lparr>cfg_idx := idx,
              pflash := flash_write_page xfer (FLASH_ADR_PARING + word_of_int idx)
                          (mac_bytes (bond_device st ! i)) (pflash st),
              bond_flash_idx := (bond_flash_idx st)[i := word_of_int idx]\<rparr>))"

definition user_bond_slave_flash_clean :: "(u8 list \<Rightarrow> 'f \<Rightarrow> 'f) \<Rightarrow> 'f slave_tbl \<Rightarrow> 'f slave_tbl" where
  "user_bond_slave_flash_clean xfer st =
     (if cfg_idx st < 2048 then st
      else rewrite_from xfer 0 (unat (cur_num st))
             (st\<lparr>pflash := flash_erase_sector xfer FLASH_ADR_PARING (pflash st), cfg_idx := - 8\<rparr>))"

text \<open>The start-up scan. \<open>Inl ()\<close> is the \<open>while(1)\<close> when the sector holds more bonds than the table.\<close>

function init_scan ::
  "(u8 list \<Rightarrow> nat \<Rightarrow> 'f \<Rightarrow> u8 list) \<Rightarrow> ('f \<Rightarrow> nat \<Rightarrow> u8) \<Rightarrow> int \<Rightarrow> 'f slave_tbl \<Rightarrow> unit + 'f slave_tbl" where
  "init_scan fetch rom c st =
     (if c < 4096 then
        let mark = rom (pflash st) (unat (FLASH_ADR_PARING + word_of_int c)) in
        if mark = ADR_BOND_MARK then
          if unat (cur_num st) < USER_PAIR_SLAVE_MAX_NUM then
            init_scan fetch rom (c + 8)
              (st\<lparr>bond_flash_idx := (bond_flash_idx st)[unat (cur_num st) := word_of_int c],
                 bond_device := (bond_device st)[unat (cur_num st) :=
                   mac_of_bytes (flash_read_page fetch (FLASH_ADR_PARING + word_of_int c) 8 (pflash st))],
                 cur_num := cur_num st + 1\<rparr>)
          else Inl ()
        else if mark = 0xff then Inr (st\<lparr>cfg_idx := c\<rparr>)
        else init_scan fetch rom (c + 8) st
      else Inr (st\<lparr>cfg_idx := c\<rparr>))"
  by pat_completeness auto
termination by (relation "measure (\<lambda>(_, _, c, _). nat (4096 - c))") auto

declare init_scan.simps [simp del]

definition user_master_host_pairing_flash_init ::
  "(u8 list \<Rightarrow> 'f \<Rightarrow> 'f) \<Rightarrow> (u8 list \<Rightarrow> nat \<Rightarrow> 'f \<Rightarrow> u8 list) \<Rightarrow> ('f \<Rightarrow> nat \<Rightarrow> u8) \<Rightarrow>
   'f slave_tbl \<Rightarrow> unit + 'f slave_tbl" where
  "user_master_host_pairing_flash_init xfer fetch rom st =
     (case init_scan fetch rom 0 st of
        Inl h \<Rightarrow> Inl h
      | Inr st1 \<Rightarrow> Inr (user_bond_slave_flash_clean xfer (st1\<lparr>cfg_idx := cfg_idx st1 - 8\<rparr>)))"

text \<open>The zero-initialised table at power-on.\<close>

definition power_on_tbl :: "'f \<Rightarrow> 'f slave_tbl" where
  "power_on_tbl f = \<lparr>bond_flash_idx = replicate USER_PAIR_SLAVE_MAX_NUM 0,
     bond_device = replicate USER_PAIR_SLAVE_MAX_NUM (mac_of_bytes (replicate 8 0)),
     cur_num = 0, cfg_idx = 0, pflash = f\<rparr>"

section \<open>Pairing and unpairing in the main loop\<close>

text \<open>
  The flags of \<open>host_pair_unpair_proc\<close>. \<open>conn1\<close> and \<open>conn2\<close> are whether the stack's link layer is
  connected at the two places that ask for it, \<open>disc\<close> the status of \<open>blm_ll_disconnect\<close>.
\<close>

record 'f pair_ctl =
  manual_pair :: u8
  pair_tick :: u32
  dongle_unpair_enable :: bool
  master_disconnect_flag :: bool
  slave_tbl :: "'f slave_tbl"

definition host_pair_unpair_proc ::
  "(u8 list \<Rightarrow> 'f \<Rightarrow> 'f) \<Rightarrow> u32 \<Rightarrow> bool \<Rightarrow> u8 \<Rightarrow> bool \<Rightarrow> 'f pair_ctl \<Rightarrow> 'f pair_ctl" where
  "host_pair_unpair_proc xfer now conn1 disc conn2 s =
     (let s1 = (if manual_pair s \<noteq> 0 \<and> clock_time_exceed now (pair_tick s) 2000000
                then s\<lparr>manual_pair := 0\<rparr> else s);
          s2 = (if dongle_unpair_enable s1 then
                  if \<not> master_disconnect_flag s1 \<and> conn1 then
                    if disc = 0 then
                      s1\<lparr>master_disconnect_flag := True, dongle_unpair_enable := False,
                         slave_tbl := user_tbl_salve_mac_unpair_proc xfer (slave_tbl s1)\<rparr>
                    else s1
                  else s1
                else s1)
      in if master_disconnect_flag s2 \<and> \<not> conn2 then s2\<lparr>master_disconnect_flag := False\<rparr> else s2)"

section \<open>The log in the sector\<close>

definition slot_adr :: "nat \<Rightarrow> nat" where "slot_adr k = 491520 + 8 * k"

definition slot_bytes :: "(nat \<Rightarrow> u8) \<Rightarrow> nat \<Rightarrow> u8 list" where
  "slot_bytes m k = map (\<lambda>i. m (slot_adr k + i)) [0..<8]"

definition valid_slots :: "(nat \<Rightarrow> u8) \<Rightarrow> nat \<Rightarrow> nat list" where
  "valid_slots m n = filter (\<lambda>k. m (slot_adr k) = ADR_BOND_MARK) [0..<n]"

text \<open>\<open>n\<close> records are written, the rest of the sector is erased.\<close>

definition log_ok :: "(nat \<Rightarrow> u8) \<Rightarrow> nat \<Rightarrow> bool" where
  "log_ok m n \<longleftrightarrow> n \<le> 512 \<and> (\<forall>k<n. m (slot_adr k) \<noteq> 0xff) \<and>
     (\<forall>a. slot_adr n \<le> a \<and> a < slot_adr 512 \<longrightarrow> m a = 0xff)"

definition live_devices :: "'f slave_tbl \<Rightarrow> mac_addr list" where
  "live_devices st = take (unat (cur_num st)) (bond_device st)"

text \<open>The table in RAM is the list of the valid records of the log, in their order.\<close>

definition mirrors :: "(nat \<Rightarrow> u8) \<Rightarrow> nat list \<Rightarrow> 'f slave_tbl \<Rightarrow> bool" where
  "mirrors m vs st \<longleftrightarrow>
     length (bond_flash_idx st) = USER_PAIR_SLAVE_MAX_NUM \<and>
     length (bond_device st) = USER_PAIR_SLAVE_MAX_NUM \<and>
     unat (cur_num st) = length vs \<and> length vs \<le> USER_PAIR_SLAVE_MAX_NUM \<and>
     map unat (take (unat (cur_num st)) (bond_flash_idx st)) = map ((*) 8) vs \<and>
     map mac_bytes (live_devices st) = map (slot_bytes m) vs"

definition pair_inv :: "('f \<Rightarrow> nat \<Rightarrow> u8) \<Rightarrow> nat \<Rightarrow> 'f slave_tbl \<Rightarrow> bool" where
  "pair_inv mem n st \<longleftrightarrow> log_ok (mem (pflash st)) n \<and> cfg_idx st = 8 * int n - 8 \<and>
     mirrors (mem (pflash st)) (valid_slots (mem (pflash st)) n) st"

lemma pairing_adr:
  assumes "unat idx = 8 * k" "k \<le> 65536"
  shows "unat (FLASH_ADR_PARING + idx) = slot_adr k"
  using assms by (simp add: FLASH_ADR_PARING_def slot_adr_def unat_word_ariths)

lemma unat_idx: "k \<le> 65536 \<Longrightarrow> unat (word_of_int (8 * int k) :: u32) = 8 * k"
proof -
  assume "k \<le> 65536"
  moreover have "word_of_int (8 * int k) = (of_nat (8 * k) :: u32)" by simp
  ultimately show ?thesis by (simp only: unat_of_nat) (simp add: take_bit_nat_eq_self)
qed

lemma slot_adr_inj: "slot_adr j = slot_adr k \<longleftrightarrow> j = k"
  by (simp add: slot_adr_def)

lemma slot_adr_page: "slot_adr k mod 256 + 8 \<le> 256"
proof -
  have "slot_adr k mod 256 = (8 * k) mod (8 * 32)"
    using mod_mult_self2 [of "8 * k" 256 1920] by (simp add: slot_adr_def add.commute)
  then have "slot_adr k mod 256 = 8 * (k mod 32)" by (simp only: mod_mult_mult1)
  moreover have "k mod 32 < 32" by simp
  ultimately show ?thesis by linarith
qed

lemma slot_adr_bound: "k \<le> 65536 \<Longrightarrow> slot_adr k + 8 < 2 ^ 24"
  by (simp add: slot_adr_def)

lemma valid_slots_Suc:
  "valid_slots m (Suc n) = valid_slots m n @ (if m (slot_adr n) = ADR_BOND_MARK then [n] else [])"
  by (simp add: valid_slots_def)

lemma valid_slots_distinct: "distinct (valid_slots m n)"
  by (simp add: valid_slots_def)

lemma valid_slots_less: "k \<in> set (valid_slots m n) \<Longrightarrow> k < n"
  by (simp add: valid_slots_def)

lemma filter_distinct_nth:
  "distinct xs \<Longrightarrow> i < length xs \<Longrightarrow> filter (\<lambda>x. x \<noteq> xs ! i) xs = take i xs @ drop (Suc i) xs"
proof (induction xs arbitrary: i)
  case (Cons x xs)
  then show ?case
  proof (cases i)
    case 0
    with Cons.prems show ?thesis by (auto simp: filter_id_conv)
  next
    case (Suc j)
    with Cons have "x \<noteq> xs ! j" by (auto simp: in_set_conv_nth)
    with Cons Suc show ?thesis by simp
  qed
qed simp

text \<open>A deletion mark at the \<open>i\<close>-th valid record, and a new record behind the last.\<close>

lemma valid_slots_mark:
  assumes "i < length (valid_slots m n)"
  shows "valid_slots (m(slot_adr (valid_slots m n ! i) := 0)) n =
    take i (valid_slots m n) @ drop (Suc i) (valid_slots m n)"
proof -
  have "valid_slots (m(slot_adr (valid_slots m n ! i) := 0)) n =
      filter (\<lambda>x. x \<noteq> valid_slots m n ! i) (valid_slots m n)"
    unfolding valid_slots_def filter_filter
    by (rule filter_cong) (auto simp: slot_adr_inj ADR_BOND_MARK_def)
  then show ?thesis using filter_distinct_nth [OF valid_slots_distinct assms] by simp
qed

lemma slot_bytes_upd_other: "k \<noteq> j \<Longrightarrow> slot_bytes (m(slot_adr j := v)) k = slot_bytes m k"
  by (auto simp: slot_bytes_def slot_adr_def intro!: map_cong)

lemma log_ok_mark: "log_ok m n \<Longrightarrow> k < n \<Longrightarrow> log_ok (m(slot_adr k := 0)) n"
  by (auto simp: log_ok_def slot_adr_def)

lemma slot_bytes_programmed:
  assumes "length bs = 8" "\<forall>a. slot_adr n \<le> a \<and> a < slot_adr n + 8 \<longrightarrow> m a = 0xff"
  shows "slot_bytes (programmed (slot_adr n) bs m) n = bs"
  using assms by (intro nth_equalityI) (simp_all add: slot_bytes_def programmed_def)

lemma programmed_other_slot:
  assumes "length bs = 8" "k \<noteq> n" "i < 8"
  shows "programmed (slot_adr n) bs m (slot_adr k + i) = m (slot_adr k + i)"
  using assms by (auto simp: programmed_def slot_adr_def)

lemma valid_slots_cong:
  "(\<And>k. k < n \<Longrightarrow> m (slot_adr k) = m' (slot_adr k)) \<Longrightarrow> valid_slots m n = valid_slots m' n"
  unfolding valid_slots_def by (rule filter_cong) auto

lemma valid_slots_programmed:
  assumes "length bs = 8" "\<forall>a. slot_adr n \<le> a \<and> a < slot_adr n + 8 \<longrightarrow> m a = 0xff"
    and "bs ! 0 = ADR_BOND_MARK"
  shows "valid_slots (programmed (slot_adr n) bs m) (Suc n) = valid_slots m n @ [n]"
proof -
  have "programmed (slot_adr n) bs m (slot_adr n) = ADR_BOND_MARK"
    using assms by (simp add: programmed_def)
  moreover have "valid_slots (programmed (slot_adr n) bs m) n = valid_slots m n"
    using programmed_other_slot [OF assms(1), of _ n 0 m] by (intro valid_slots_cong) auto
  ultimately show ?thesis by (simp add: valid_slots_Suc)
qed

lemma log_ok_programmed:
  assumes "log_ok m n" "n < 512" "length bs = 8" "bs ! 0 = ADR_BOND_MARK"
  shows "log_ok (programmed (slot_adr n) bs m) (Suc n)"
proof -
  have e: "\<forall>a. slot_adr n \<le> a \<and> a < slot_adr n + 8 \<longrightarrow> m a = 0xff"
    using assms(1,2) by (auto simp: log_ok_def slot_adr_def)
  have "programmed (slot_adr n) bs m (slot_adr k) \<noteq> 0xff" if "k < Suc n" for k
  proof (cases "k = n")
    case True
    with assms(3,4) e show ?thesis by (simp add: programmed_def ADR_BOND_MARK_def)
  next
    case False
    with that assms(1) programmed_other_slot [OF assms(3), of k n 0 m] show ?thesis
      by (simp add: log_ok_def)
  qed
  moreover have "\<forall>a. slot_adr (Suc n) \<le> a \<and> a < slot_adr 512 \<longrightarrow> programmed (slot_adr n) bs m a = 0xff"
    using assms(1,3) by (auto simp: log_ok_def programmed_def slot_adr_def)
  ultimately show ?thesis using assms(2) by (simp add: log_ok_def)
qed

lemma mac_bytes_roundtrip: "2 \<le> length bs \<Longrightarrow> mac_bytes (mac_of_bytes bs) = bs"
  by (cases bs; cases "tl bs") (auto simp: mac_bytes_def mac_of_bytes_def)

text \<open>The live devices after an addition: the oldest makes room in a full table.\<close>

definition devices_after_add :: "u8 \<Rightarrow> u8 list \<Rightarrow> mac_addr list \<Rightarrow> mac_addr list" where
  "devices_after_add ty adr ds =
     (if length ds \<ge> USER_PAIR_SLAVE_MAX_NUM then tl ds else ds) @
     [\<lparr>bond_mark = ADR_BOND_MARK, adr_type = ty, address = adr\<rparr>]"

section \<open>Histories of pairing operations\<close>

datatype pair_op = Pair u8 "u8 list" | Unpair u8 "u8 list" | Unpair_all

fun op_ok :: "pair_op \<Rightarrow> bool" where
  "op_ok (Pair ty adr) = (length adr = 6)"
| "op_ok _ = True"

fun run_op :: "(u8 list \<Rightarrow> 'f \<Rightarrow> 'f) \<Rightarrow> pair_op \<Rightarrow> 'f slave_tbl \<Rightarrow> 'f slave_tbl" where
  "run_op xfer (Pair ty adr) st = snd (user_tbl_slave_mac_add xfer ty adr st)"
| "run_op xfer (Unpair ty adr) st = snd (user_tbl_slave_mac_delete_by_adr xfer ty adr st)"
| "run_op xfer Unpair_all st = user_tbl_salve_mac_unpair_proc xfer st"

text \<open>What the operations mean for the list of bonded devices, oldest first.\<close>

fun spec_op :: "pair_op \<Rightarrow> mac_addr list \<Rightarrow> mac_addr list" where
  "spec_op (Pair ty adr) ds = devices_after_add ty adr ds"
| "spec_op (Unpair ty adr) ds =
     takeWhile (\<lambda>d. \<not> mac_matches ty adr d) ds @ tl (dropWhile (\<lambda>d. \<not> mac_matches ty adr d) ds)"
| "spec_op Unpair_all ds = []"

lemma mac_bytes_inject: "mac_bytes d = mac_bytes e \<longleftrightarrow> d = e"
  by (cases d; cases e) (auto simp: mac_bytes_def)

section \<open>The operations keep the table and the log in step\<close>

context nor_chip
begin

lemma mem_mark:
  assumes "unat idx = 8 * k" "k < 512"
  shows "mem (flash_write_page xfer (FLASH_ADR_PARING + idx) [ADR_ERASE_MARK] f) = (mem f)(slot_adr k := 0)"
proof -
  have a: "unat (FLASH_ADR_PARING + idx) = slot_adr k" using assms by (intro pairing_adr) auto
  have "slot_adr k mod 256 + 1 \<le> 256" using slot_adr_page [of k] by simp
  then show ?thesis
    using a slot_adr_bound [of k] assms(2)
    by (simp add: mem_write_page programmed_def ADR_ERASE_MARK_def fun_eq_iff)
qed

lemma mem_record:
  assumes "n \<le> 512" "length bs = 8"
  shows "mem (flash_write_page xfer (FLASH_ADR_PARING + word_of_int (8 * int n)) bs f) =
    programmed (slot_adr n) bs (mem f)"
proof -
  have "unat (FLASH_ADR_PARING + word_of_int (8 * int n)) = slot_adr n"
    using assms(1) by (intro pairing_adr unat_idx) auto
  then show ?thesis using slot_adr_page [of n] slot_adr_bound [of n] assms by (simp add: mem_write_page)
qed

lemma delete_by_index_inv:
  assumes inv: "pair_inv mem n st" and i: "i < unat (cur_num st)"
  shows "pair_inv mem n (user_tbl_slave_mac_delete_by_index xfer i st)"
    and "live_devices (user_tbl_slave_mac_delete_by_index xfer i st) =
      take i (live_devices st) @ drop (Suc i) (live_devices st)"
    and "unat (cur_num (user_tbl_slave_mac_delete_by_index xfer i st)) = unat (cur_num st) - 1"
    and "\<exists>k < n. mem (pflash (user_tbl_slave_mac_delete_by_index xfer i st)) = (mem (pflash st))(slot_adr k := 0)"
proof -
  let ?m = "mem (pflash st)" let ?vs = "valid_slots ?m n" let ?c = "unat (cur_num st)"
  let ?st = "user_tbl_slave_mac_delete_by_index xfer i st"
  have mir: "mirrors ?m ?vs st" and ok: "log_ok ?m n" and cfg: "cfg_idx st = 8 * int n - 8"
    using inv by (auto simp: pair_inv_def)
  have len: "?c = length ?vs" "?c \<le> length (bond_flash_idx st)" "?c \<le> length (bond_device st)"
    using mir by (auto simp: mirrors_def)
  have "map unat (take ?c (bond_flash_idx st)) = map ((*) 8) ?vs" using mir unfolding mirrors_def by (elim conjE)
  then have "map unat (take ?c (bond_flash_idx st)) ! i = map ((*) 8) ?vs ! i" by (rule arg_cong)
  then have idx: "unat (bond_flash_idx st ! i) = 8 * (?vs ! i)" using i len by simp
  have v: "?vs ! i < n" using i len valid_slots_less [of "?vs ! i" ?m n] by simp
  then have m': "mem (pflash ?st) = ?m(slot_adr (?vs ! i) := 0)"
    using mem_mark [OF idx] ok by (simp add: user_tbl_slave_mac_delete_by_index_def Let_def log_ok_def)
  with v show "\<exists>k < n. mem (pflash ?st) = ?m(slot_adr k := 0)" by blast
  have c': "unat (cur_num ?st) = ?c - 1"
  proof -
    have "cur_num st \<noteq> 0" using i by auto
    then show ?thesis by (simp add: user_tbl_slave_mac_delete_by_index_def Let_def unat_minus_one)
  qed
  then show "unat (cur_num ?st) = ?c - 1" .
  have idx': "take (?c - 1) (bond_flash_idx ?st) = take i (take ?c (bond_flash_idx st)) @ drop (Suc i) (take ?c (bond_flash_idx st))"
    using shift_down_delete [OF i len(2)] i by (simp add: user_tbl_slave_mac_delete_by_index_def Let_def min_def)
  have dev': "live_devices ?st = take i (live_devices st) @ drop (Suc i) (live_devices st)"
    using shift_down_delete [OF i len(3)] i c' unfolding live_devices_def
    by (simp add: user_tbl_slave_mac_delete_by_index_def Let_def min_def)
  then show "live_devices ?st = take i (live_devices st) @ drop (Suc i) (live_devices st)" .
  have vs': "valid_slots (mem (pflash ?st)) n = take i ?vs @ drop (Suc i) ?vs"
    unfolding m' using i len by (intro valid_slots_mark) simp
  have "set (take i ?vs @ drop (Suc i) ?vs) = {x \<in> set ?vs. x \<noteq> ?vs ! i}"
    using filter_distinct_nth [OF valid_slots_distinct, of i ?m n] i len by (metis set_filter)
  then have sb: "map (slot_bytes (mem (pflash ?st))) (take i ?vs @ drop (Suc i) ?vs) =
      map (slot_bytes ?m) (take i ?vs @ drop (Suc i) ?vs)"
    unfolding m' by (intro map_cong refl slot_bytes_upd_other) auto
  have e: "map unat (take ?c (bond_flash_idx st)) = map ((*) 8) ?vs"
    "map mac_bytes (live_devices st) = map (slot_bytes ?m) ?vs"
    using mir unfolding mirrors_def by auto
  have e': "map unat (take i (take ?c (bond_flash_idx st)) @ drop (Suc i) (take ?c (bond_flash_idx st))) =
      map ((*) 8) (take i ?vs @ drop (Suc i) ?vs)"
    "map mac_bytes (take i (live_devices st) @ drop (Suc i) (live_devices st)) =
      map (slot_bytes ?m) (take i ?vs @ drop (Suc i) ?vs)"
    by (rule map_remove_cong [OF e(1)], rule map_remove_cong [OF e(2)])
  have "length (bond_flash_idx ?st) = length (bond_flash_idx st)" "length (bond_device ?st) = length (bond_device st)"
    using shift_down_delete(2) [OF i len(2)] shift_down_delete(2) [OF i len(3)]
    by (simp_all add: user_tbl_slave_mac_delete_by_index_def Let_def)
  then have "mirrors (mem (pflash ?st)) (valid_slots (mem (pflash ?st)) n) ?st"
    unfolding mirrors_def vs' c' idx' dev' sb e' using mir i len by (auto simp: mirrors_def)
  moreover have "log_ok (mem (pflash ?st)) n" unfolding m' using ok v by (rule log_ok_mark)
  ultimately show "pair_inv mem n ?st"
    using cfg by (simp add: pair_inv_def) (simp add: user_tbl_slave_mac_delete_by_index_def Let_def)
qed

lemma append_record_inv:
  assumes inv: "pair_inv mem n st" and room: "n < 512" "unat (cur_num st) < USER_PAIR_SLAVE_MAX_NUM"
    and adr: "length adr = 6"
    and dev: "dev = \<lparr>bond_mark = ADR_BOND_MARK, adr_type = ty, address = adr\<rparr>"
    and k: "k = unat (cur_num st)"
  shows "pair_inv mem (Suc n)
      (st\<lparr>bond_device := (bond_device st)[k := dev], cfg_idx := cfg_idx st + 8,
         pflash := flash_write_page xfer (FLASH_ADR_PARING + word_of_int (cfg_idx st + 8)) (mac_bytes dev) (pflash st),
         bond_flash_idx := (bond_flash_idx st)[k := word_of_int (cfg_idx st + 8)],
         cur_num := cur_num st + 1\<rparr>)" (is "pair_inv mem (Suc n) ?st")
    and "take (k + 1) ((bond_device st)[k := dev]) = live_devices st @ [dev]"
    and "unat (cur_num st + 1) = k + 1"
proof -
  let ?m = "mem (pflash st)" let ?vs = "valid_slots ?m n"
  have mir: "mirrors ?m ?vs st" and ok: "log_ok ?m n" and cfg: "cfg_idx st + 8 = 8 * int n"
    using inv by (auto simp: pair_inv_def)
  have len: "k < length (bond_flash_idx st)" "k < length (bond_device st)" "k = length ?vs"
    using mir room(2) k by (auto simp: mirrors_def)
  have bs: "length (mac_bytes dev) = 8" "mac_bytes dev ! 0 = ADR_BOND_MARK"
    using adr dev by (simp_all add: mac_bytes_def)
  have e: "\<forall>a. slot_adr n \<le> a \<and> a < slot_adr n + 8 \<longrightarrow> ?m a = 0xff"
    using ok room(1) by (auto simp: log_ok_def slot_adr_def)
  have m': "mem (pflash ?st) = programmed (slot_adr n) (mac_bytes dev) ?m"
    unfolding cfg using room(1) bs(1) mem_record [of n "mac_bytes dev" "pflash st"] by simp
  show c': "unat (cur_num st + 1) = k + 1"
    using room(2) k by (subst unat_plus_one) (simp_all add: USER_PAIR_SLAVE_MAX_NUM_def)
  have vs': "valid_slots (mem (pflash ?st)) (Suc n) = ?vs @ [n]"
    unfolding m' using bs e by (intro valid_slots_programmed)
  have sb: "slot_bytes (mem (pflash ?st)) j = slot_bytes ?m j" if "j \<in> set ?vs" for j
    unfolding m' using programmed_other_slot [OF bs(1), of j n _ ?m] valid_slots_less [OF that]
    by (auto simp: slot_bytes_def)
  have sbn: "slot_bytes (mem (pflash ?st)) n = mac_bytes dev"
    unfolding m' using bs(1) e by (rule slot_bytes_programmed)
  have idx: "unat (word_of_int (8 * int n) :: u32) = 8 * n" using room(1) by (intro unat_idx) simp
  show dev': "take (k + 1) ((bond_device st)[k := dev]) = live_devices st @ [dev]"
    using len(2) k by (simp add: live_devices_def take_Suc_conv_app_nth)
  have live': "live_devices ?st = live_devices st @ [dev]"
    unfolding live_devices_def using c' dev' by (simp add: live_devices_def)
  have idx': "take (k + 1) ((bond_flash_idx st)[k := word_of_int (8 * int n)]) =
      take k (bond_flash_idx st) @ [word_of_int (8 * int n)]"
    using len(1) by (simp add: take_Suc_conv_app_nth)
  have "map mac_bytes (live_devices ?st) = map (slot_bytes (mem (pflash ?st))) (?vs @ [n])"
    unfolding live' using mir sb sbn by (simp add: mirrors_def)
  moreover have "map unat (take (unat (cur_num ?st)) (bond_flash_idx ?st)) = map ((*) 8) (?vs @ [n])"
  proof -
    have "map unat (take k (bond_flash_idx st)) = map ((*) 8) ?vs" using mir k unfolding mirrors_def by auto
    then show ?thesis using c' idx idx' unfolding cfg by simp
  qed
  ultimately have "mirrors (mem (pflash ?st)) (valid_slots (mem (pflash ?st)) (Suc n)) ?st"
    unfolding vs' mirrors_def using mir c' len k room(2) by (simp add: mirrors_def)
  moreover have "log_ok (mem (pflash ?st)) (Suc n)"
    unfolding m' using ok room(1) bs by (rule log_ok_programmed)
  ultimately show "pair_inv mem (Suc n) ?st" using cfg by (simp add: pair_inv_def)
qed

lemma add_inv:
  assumes inv: "pair_inv mem n st" and room: "n < 512" and adr: "length adr = 6"
  shows "\<exists>st'. user_tbl_slave_mac_add xfer ty adr st = (1, st') \<and> pair_inv mem (Suc n) st' \<and>
    live_devices st' = devices_after_add ty adr (live_devices st)"
proof -
  let ?full = "unat (cur_num st) \<ge> USER_PAIR_SLAVE_MAX_NUM"
  let ?st1 = "if ?full then user_tbl_slave_mac_delete_by_index xfer 0 st else st"
  let ?dev = "\<lparr>bond_mark = ADR_BOND_MARK, adr_type = ty, address = adr\<rparr>"
  have c: "unat (cur_num st) \<le> USER_PAIR_SLAVE_MAX_NUM" "length (live_devices st) = unat (cur_num st)"
    using inv by (auto simp: pair_inv_def mirrors_def live_devices_def)
  have st1: "pair_inv mem n ?st1" "unat (cur_num ?st1) < USER_PAIR_SLAVE_MAX_NUM"
    "live_devices ?st1 = (if length (live_devices st) \<ge> USER_PAIR_SLAVE_MAX_NUM then tl (live_devices st) else live_devices st)"
  proof -
    have "0 < unat (cur_num st)" if ?full using that by (simp add: USER_PAIR_SLAVE_MAX_NUM_def)
    with delete_by_index_inv [OF inv, of 0] inv c
    show "pair_inv mem n ?st1" "unat (cur_num ?st1) < USER_PAIR_SLAVE_MAX_NUM"
      "live_devices ?st1 = (if length (live_devices st) \<ge> USER_PAIR_SLAVE_MAX_NUM then tl (live_devices st) else live_devices st)"
      by (auto simp: drop_Suc)
  qed
  obtain s1 where s1: "s1 = ?st1" by simp
  let ?k = "unat (cur_num s1)" let ?idx = "cfg_idx s1 + 8"
  let ?st' = "s1\<lparr>bond_device := (bond_device s1)[?k := ?dev], cfg_idx := ?idx,
    pflash := flash_write_page xfer (FLASH_ADR_PARING + word_of_int ?idx) (mac_bytes ?dev) (pflash s1),
    bond_flash_idx := (bond_flash_idx s1)[?k := word_of_int ?idx], cur_num := cur_num s1 + 1\<rparr>"
  have t: "take 6 adr = adr" using adr by simp
  have run: "user_tbl_slave_mac_add xfer ty adr st = (1, ?st')"
    unfolding user_tbl_slave_mac_add_def Let_def t s1 ..
  have r: "pair_inv mem (Suc n) ?st'" "take (?k + 1) ((bond_device s1)[?k := ?dev]) = live_devices s1 @ [?dev]"
    "unat (cur_num s1 + 1) = ?k + 1"
    using append_record_inv [where ty = ty, OF _ room(1) _ adr refl refl] st1(1,2) unfolding s1 by blast+
  have "live_devices ?st' = live_devices s1 @ [?dev]" using r(2,3) by (simp add: live_devices_def)
  then have "live_devices ?st' = devices_after_add ty adr (live_devices st)"
    unfolding devices_after_add_def s1 st1(3) .
  with run r(1) show ?thesis by blast
qed

lemma mac_find_Some:
  "mac_find ty adr i st = Some j \<Longrightarrow>
   j < unat (cur_num st) \<and> mac_matches ty adr (bond_device st ! j) \<and>
   (\<forall>k. i \<le> k \<and> k < j \<longrightarrow> \<not> mac_matches ty adr (bond_device st ! k))"
proof (induction "unat (cur_num st) - i" arbitrary: i)
  case 0
  then show ?case by (simp add: mac_find.simps [of _ _ i])
next
  case (Suc d)
  show ?case
  proof (cases "mac_matches ty adr (bond_device st ! i)")
    case True
    with Suc show ?thesis by (auto simp: mac_find.simps [of _ _ i] split: if_splits)
  next
    case False
    have "mac_find ty adr (i + 1) st = Some j"
      using Suc.prems Suc.hyps(2) False by (simp add: mac_find.simps [of _ _ i] split: if_splits)
    with Suc.hyps(1) [of "i + 1"] Suc.hyps(2)
    have "j < unat (cur_num st)" "mac_matches ty adr (bond_device st ! j)"
      "\<And>k. i + 1 \<le> k \<Longrightarrow> k < j \<Longrightarrow> \<not> mac_matches ty adr (bond_device st ! k)" by auto
    moreover from this False have "\<not> mac_matches ty adr (bond_device st ! k)" if "i \<le> k" "k < j" for k
      using that by (cases "k = i") auto
    ultimately show ?thesis by blast
  qed
qed

lemma delete_by_adr_inv:
  assumes inv: "pair_inv mem n st"
  shows "pair_inv mem n (snd (user_tbl_slave_mac_delete_by_adr xfer ty adr st))"
proof (cases "mac_find ty adr 0 st")
  case (Some i)
  with mac_find_Some [OF Some] delete_by_index_inv(1) [OF inv, of i] show ?thesis
    by (simp add: user_tbl_slave_mac_delete_by_adr_def)
qed (use inv in \<open>simp add: user_tbl_slave_mac_delete_by_adr_def\<close>)

lemma delete_all_from_effect:
  "i + k \<le> length ks \<Longrightarrow> \<forall>j<length ks. unat (bond_flash_idx st ! j) = 8 * (ks ! j) \<and> ks ! j < 512 \<Longrightarrow>
   st' = delete_all_from xfer i k st \<Longrightarrow>
   mem (pflash st') = (\<lambda>a. if \<exists>j. i \<le> j \<and> j < i + k \<and> a = slot_adr (ks ! j) then 0 else mem (pflash st) a) \<and>
   cfg_idx st' = cfg_idx st \<and> bond_flash_idx st' = bond_flash_idx st \<and> cur_num st' = cur_num st \<and>
   length (bond_device st') = length (bond_device st)"
proof (induction k arbitrary: i st)
  case (Suc k)
  let ?f = "flash_write_page xfer (FLASH_ADR_PARING + bond_flash_idx st ! i) [ADR_ERASE_MARK] (pflash st)"
  let ?st = "st\<lparr>pflash := ?f, bond_device := (bond_device st)[i := mac_of_bytes (replicate 8 0)]\<rparr>"
  have m: "mem ?f = (mem (pflash st))(slot_adr (ks ! i) := 0)"
    using Suc.prems(1,2) by (intro mem_mark) auto
  have IH: "mem (pflash st') = (\<lambda>a. if \<exists>j. i + 1 \<le> j \<and> j < i + 1 + k \<and> a = slot_adr (ks ! j) then 0 else mem (pflash ?st) a)"
    "cfg_idx st' = cfg_idx ?st \<and> bond_flash_idx st' = bond_flash_idx ?st \<and> cur_num st' = cur_num ?st \<and>
    length (bond_device st') = length (bond_device ?st)"
    using Suc.IH [of "i + 1" ?st] Suc.prems by auto
  have ex: "(\<exists>j. i \<le> j \<and> j < i + Suc k \<and> P j) \<longleftrightarrow> P i \<or> (\<exists>j. i + 1 \<le> j \<and> j < i + 1 + k \<and> P j)" for P
  proof -
    have "i \<le> j \<and> j < i + Suc k \<longleftrightarrow> j = i \<or> i + 1 \<le> j \<and> j < i + 1 + k" for j by auto
    then show ?thesis by (simp only: conj_assoc [symmetric]) auto
  qed
  have "mem (pflash st') = (\<lambda>a. if \<exists>j. i \<le> j \<and> j < i + Suc k \<and> a = slot_adr (ks ! j) then 0 else mem (pflash st) a)"
  proof
    fix a
    have "mem (pflash ?st) a = (if a = slot_adr (ks ! i) then 0 else mem (pflash st) a)" using m by simp
    then show "mem (pflash st') a =
        (if \<exists>j. i \<le> j \<and> j < i + Suc k \<and> a = slot_adr (ks ! j) then 0 else mem (pflash st) a)"
      unfolding IH(1) ex
      by (cases "a = slot_adr (ks ! i)") (simp_all only: simp_thms if_True if_False if_cancel)
  qed
  with IH(2) show ?case by simp
next
  case 0
  have e: "(\<exists>j. i \<le> j \<and> j < i + 0 \<and> P j) = False" for P by auto
  show ?case using "0.prems"(3) unfolding e by simp
qed

lemma delete_all_inv:
  assumes inv: "pair_inv mem n st"
  shows "pair_inv mem n (user_tbl_slave_mac_delete_all xfer st)"
    and "live_devices (user_tbl_slave_mac_delete_all xfer st) = []"
proof -
  let ?m = "mem (pflash st)" let ?vs = "valid_slots ?m n" let ?c = "unat (cur_num st)"
  obtain s2 where s2: "s2 = delete_all_from xfer 0 ?c st" by simp
  have mir: "mirrors ?m ?vs st" and ok: "log_ok ?m n" and cfg: "cfg_idx st = 8 * int n - 8"
    using inv by (auto simp: pair_inv_def)
  have e: "map unat (take ?c (bond_flash_idx st)) = map ((*) 8) ?vs" and len: "?c = length ?vs"
    "?c \<le> length (bond_flash_idx st)"
    using mir unfolding mirrors_def by auto
  have "unat (bond_flash_idx st ! j) = 8 * (?vs ! j)" if "j < length ?vs" for j
    using arg_cong [OF e, of "\<lambda>l. l ! j"] that len by simp
  moreover have "?vs ! j < n" if "j < length ?vs" for j
    using that valid_slots_less [of "?vs ! j" ?m n] by simp
  moreover have "n \<le> 512" using ok by (simp add: log_ok_def)
  ultimately have "\<forall>j < length ?vs. unat (bond_flash_idx st ! j) = 8 * (?vs ! j) \<and> ?vs ! j < 512"
    by (meson less_le_trans)
  from delete_all_from_effect [OF _ this s2] len
  have eff: "mem (pflash s2) = (\<lambda>a. if \<exists>j. j < ?c \<and> a = slot_adr (?vs ! j) then 0 else ?m a)"
    "cfg_idx s2 = cfg_idx st" "bond_flash_idx s2 = bond_flash_idx st"
    "length (bond_device s2) = length (bond_device st)" by simp_all
  have mk: "mem (pflash s2) (slot_adr k) = (if k \<in> set ?vs then 0 else ?m (slot_adr k))" for k
    unfolding eff(1) len(1) by (auto simp: slot_adr_inj in_set_conv_nth)
  have "valid_slots (mem (pflash s2)) n = []"
    by (auto simp: valid_slots_def mk filter_empty_conv ADR_BOND_MARK_def)
  moreover have "log_ok (mem (pflash s2)) n"
  proof -
    have "mem (pflash s2) a = ?m a" if "slot_adr n \<le> a" for a
    proof -
      have "a \<noteq> slot_adr (?vs ! j)" if "j < length ?vs" for j
        using \<open>slot_adr n \<le> a\<close> valid_slots_less [OF nth_mem [OF that]] by (simp add: slot_adr_def)
      then have "\<not> (\<exists>j. j < ?c \<and> a = slot_adr (?vs ! j))" using len(1) by metis
      then show ?thesis unfolding eff(1) by (simp only: if_False)
    qed
    then show ?thesis using ok mk by (auto simp: log_ok_def)
  qed
  moreover have "length (bond_flash_idx s2) = USER_PAIR_SLAVE_MAX_NUM"
    "length (bond_device s2) = USER_PAIR_SLAVE_MAX_NUM"
    using mir eff(3,4) by (simp_all add: mirrors_def)
  ultimately have "pair_inv mem n (s2\<lparr>cur_num := 0\<rparr>)"
    using cfg eff(2) by (simp add: pair_inv_def mirrors_def live_devices_def)
  then show "pair_inv mem n (user_tbl_slave_mac_delete_all xfer st)"
    unfolding user_tbl_slave_mac_delete_all_def s2 .
  show "live_devices (user_tbl_slave_mac_delete_all xfer st) = []"
    by (simp add: user_tbl_slave_mac_delete_all_def live_devices_def)
qed

text \<open>Rewriting: before the \<open>i\<close>-th step the log holds the first \<open>i\<close> devices, one per record.\<close>

definition rewritten :: "nat \<Rightarrow> 'f slave_tbl \<Rightarrow> bool" where
  "rewritten i st \<longleftrightarrow> log_ok (mem (pflash st)) i \<and> cfg_idx st = 8 * int i - 8 \<and>
     valid_slots (mem (pflash st)) i = [0..<i] \<and>
     map unat (take i (bond_flash_idx st)) = map ((*) 8) [0..<i] \<and>
     map mac_bytes (take i (bond_device st)) = map (slot_bytes (mem (pflash st))) [0..<i]"

lemma rewrite_from_correct:
  "rewritten i st \<Longrightarrow> i + k \<le> 512 \<Longrightarrow> i + k \<le> length (bond_flash_idx st) \<Longrightarrow> i + k \<le> length (bond_device st) \<Longrightarrow>
   \<forall>j. i \<le> j \<and> j < i + k \<longrightarrow> length (mac_bytes (bond_device st ! j)) = 8 \<and> bond_mark (bond_device st ! j) = ADR_BOND_MARK \<Longrightarrow>
   rewritten (i + k) (rewrite_from xfer i k st) \<and> bond_device (rewrite_from xfer i k st) = bond_device st \<and>
   cur_num (rewrite_from xfer i k st) = cur_num st \<and>
   length (bond_flash_idx (rewrite_from xfer i k st)) = length (bond_flash_idx st)"
proof (induction k arbitrary: i st)
  case (Suc k)
  let ?bs = "mac_bytes (bond_device st ! i)" let ?m = "mem (pflash st)"
  let ?f = "flash_write_page xfer (FLASH_ADR_PARING + word_of_int (8 * int i)) ?bs (pflash st)"
  let ?st = "st\<lparr>cfg_idx := 8 * int i, pflash := ?f, bond_flash_idx := (bond_flash_idx st)[i := word_of_int (8 * int i)]\<rparr>"
  have cfg: "cfg_idx st + 8 = 8 * int i" and ok: "log_ok ?m i"
    using Suc.prems(1) by (simp_all add: rewritten_def)
  have bs: "length ?bs = 8" "?bs ! 0 = ADR_BOND_MARK"
    using Suc.prems(5) by (auto simp: mac_bytes_def)
  have i: "i < 512" using Suc.prems(2) by simp
  have e: "\<forall>a. slot_adr i \<le> a \<and> a < slot_adr i + 8 \<longrightarrow> ?m a = 0xff"
    using ok i by (auto simp: log_ok_def slot_adr_def)
  have m': "mem ?f = programmed (slot_adr i) ?bs ?m" using i bs(1) mem_record [of i ?bs "pflash st"] by simp
  have sb: "slot_bytes (mem ?f) j = slot_bytes ?m j" if "j < i" for j
    unfolding m' using programmed_other_slot [OF bs(1), of j i _ ?m] that by (auto simp: slot_bytes_def)
  have "valid_slots (mem ?f) (Suc i) = [0..<Suc i]"
    unfolding m' using valid_slots_programmed [OF bs(1) e bs(2)] Suc.prems(1) by (simp add: rewritten_def)
  moreover have "log_ok (mem ?f) (Suc i)" unfolding m' using ok i bs by (rule log_ok_programmed)
  moreover have "map unat (take (Suc i) (bond_flash_idx ?st)) = map ((*) 8) [0..<Suc i]"
  proof -
    have "unat (word_of_int (8 * int i) :: u32) = 8 * i" using i by (intro unat_idx) simp
    moreover have "map unat (take i (bond_flash_idx st)) = map ((*) 8) [0..<i]"
      using Suc.prems(1) by (simp add: rewritten_def)
    ultimately show ?thesis using Suc.prems(3) by (simp add: take_Suc_conv_app_nth)
  qed
  moreover have "map mac_bytes (take (Suc i) (bond_device ?st)) = map (slot_bytes (mem ?f)) [0..<Suc i]"
  proof -
    have "slot_bytes (mem ?f) i = ?bs" unfolding m' using bs(1) e by (rule slot_bytes_programmed)
    then show ?thesis using Suc.prems(1,4) sb by (simp add: rewritten_def take_Suc_conv_app_nth)
  qed
  ultimately have "rewritten (Suc i) ?st" by (simp add: rewritten_def)
  from Suc.IH [OF this] Suc.prems(2-5) cfg show ?case by (simp add: Let_def)
qed simp

lemma live_device_record:
  assumes "pair_inv mem n st" "d \<in> set (live_devices st)"
  shows "length (mac_bytes d) = 8 \<and> bond_mark d = ADR_BOND_MARK"
proof -
  let ?m = "mem (pflash st)"
  have "map mac_bytes (live_devices st) = map (slot_bytes ?m) (valid_slots ?m n)"
    using assms(1) by (simp add: pair_inv_def mirrors_def)
  then have "mac_bytes d \<in> slot_bytes ?m ` set (valid_slots ?m n)"
    using assms(2) by (metis image_eqI set_map)
  then obtain v where v: "v \<in> set (valid_slots ?m n)" "mac_bytes d = slot_bytes ?m v" by blast
  have "slot_bytes ?m v ! 0 = ADR_BOND_MARK" using v(1) by (simp add: slot_bytes_def valid_slots_def)
  then have "bond_mark d = ADR_BOND_MARK" unfolding v(2) [symmetric] by (simp add: mac_bytes_def)
  moreover have "length (mac_bytes d) = 8" unfolding v(2) by (simp add: slot_bytes_def)
  ultimately show ?thesis by simp
qed

lemma clean_inv:
  assumes inv: "pair_inv mem n st"
  shows "\<exists>n' \<le> 256. pair_inv mem n' (user_bond_slave_flash_clean xfer st) \<and>
    live_devices (user_bond_slave_flash_clean xfer st) = live_devices st"
proof (cases "cfg_idx st < 2048")
  case True
  then have "n \<le> 256" using inv by (simp add: pair_inv_def)
  with inv True show ?thesis by (auto simp: user_bond_slave_flash_clean_def)
next
  case False
  let ?c = "unat (cur_num st)"
  obtain s0 where s0: "s0 = st\<lparr>pflash := flash_erase_sector xfer FLASH_ADR_PARING (pflash st), cfg_idx := - 8\<rparr>"
    by simp
  obtain s1 where s1: "s1 = rewrite_from xfer 0 ?c s0" by simp
  have run: "user_bond_slave_flash_clean xfer st = s1"
    using False by (simp add: user_bond_slave_flash_clean_def s0 s1)
  have len: "length (bond_flash_idx st) = USER_PAIR_SLAVE_MAX_NUM"
    "length (bond_device st) = USER_PAIR_SLAVE_MAX_NUM" "?c \<le> USER_PAIR_SLAVE_MAX_NUM"
    using inv by (auto simp: pair_inv_def mirrors_def)
  have m0: "mem (pflash s0) = erased 491520 (mem (pflash st))"
    by (simp add: s0 mem_erase_sector FLASH_ADR_PARING_def)
  have "log_ok (mem (pflash s0)) 0"
    unfolding m0 by (auto simp: log_ok_def erased_def slot_adr_def)
  then have "rewritten 0 s0" by (simp add: rewritten_def s0 valid_slots_def)
  moreover have "length (mac_bytes (bond_device s0 ! j)) = 8 \<and> bond_mark (bond_device s0 ! j) = ADR_BOND_MARK"
    if "j < ?c" for j
    using that len by (intro live_device_record [OF inv]) (auto simp: live_devices_def s0 in_set_conv_nth)
  ultimately have r: "rewritten ?c s1" "bond_device s1 = bond_device st" "cur_num s1 = cur_num st"
    "length (bond_flash_idx s1) = USER_PAIR_SLAVE_MAX_NUM"
    using rewrite_from_correct [of 0 s0 ?c] len by (simp_all add: s0 s1 USER_PAIR_SLAVE_MAX_NUM_def)
  have "mirrors (mem (pflash s1)) (valid_slots (mem (pflash s1)) ?c) s1"
    using r len by (simp add: rewritten_def mirrors_def live_devices_def)
  then have "pair_inv mem ?c s1" using r(1) by (simp add: pair_inv_def rewritten_def)
  moreover have "live_devices s1 = live_devices st" using r(2,3) by (simp add: live_devices_def)
  moreover have "?c \<le> 256" using len(3) by (simp add: USER_PAIR_SLAVE_MAX_NUM_def)
  ultimately show ?thesis unfolding run by blast
qed

lemma init_scan_mirrors:
  assumes ok: "log_ok (mem f) n" and few: "length (valid_slots (mem f) n) \<le> USER_PAIR_SLAVE_MAX_NUM"
  shows "k \<le> n \<Longrightarrow> pflash st = f \<Longrightarrow> mirrors (mem f) (valid_slots (mem f) k) st \<Longrightarrow>
    \<exists>st'. init_scan fetch mem (8 * int k) st = Inr st' \<and> cfg_idx st' = 8 * int n \<and> pflash st' = f \<and>
      mirrors (mem f) (valid_slots (mem f) n) st'"
proof (induction "n - k" arbitrary: k st)
  case 0
  then have k: "k = n" by simp
  have "init_scan fetch mem (8 * int k) st = Inr (st\<lparr>cfg_idx := 8 * int n\<rparr>)"
  proof (cases "n < 512")
    case True
    then have "unat (FLASH_ADR_PARING + word_of_int (8 * int n)) = slot_adr n"
      by (intro pairing_adr unat_idx) auto
    moreover have "mem f (slot_adr n) = 0xff" using ok True by (simp add: log_ok_def slot_adr_def)
    ultimately show ?thesis
      using k True "0.prems"(2) by (simp add: init_scan.simps [of _ _ "8 * int n"] ADR_BOND_MARK_def)
  next
    case False
    then show ?thesis using k by (simp add: init_scan.simps [of _ _ "8 * int n"])
  qed
  with 0 k show ?case by (auto simp: mirrors_def live_devices_def)
next
  case (Suc d)
  have k: "k < n" "k < 512" using Suc.hyps(2) ok by (auto simp: log_ok_def)
  have a: "unat (FLASH_ADR_PARING + word_of_int (8 * int k)) = slot_adr k"
    using k by (intro pairing_adr unat_idx) auto
  have nff: "mem f (slot_adr k) \<noteq> 0xff" using ok k by (simp add: log_ok_def)
  have c8: "8 * int k + 8 = 8 * int (Suc k)" by simp
  show ?case
  proof (cases "mem f (slot_adr k) = ADR_BOND_MARK")
    case False
    then have "init_scan fetch mem (8 * int k) st = init_scan fetch mem (8 * int (Suc k)) st"
      using k nff a Suc.prems(2) unfolding c8 [symmetric]
      by (subst init_scan.simps) (simp add: Let_def)
    moreover have "valid_slots (mem f) (Suc k) = valid_slots (mem f) k" using False by (simp add: valid_slots_Suc)
    ultimately show ?thesis using Suc.hyps(1) [of "Suc k" st] Suc.hyps(2) Suc.prems k by auto
  next
    case True
    let ?vs = "valid_slots (mem f) k" let ?c = "unat (cur_num st)"
    have vs: "valid_slots (mem f) (Suc k) = ?vs @ [k]" using True by (simp add: valid_slots_Suc)
    have "length (valid_slots (mem f) (Suc k)) \<le> length (valid_slots (mem f) n)"
      unfolding valid_slots_def using k
      by (metis Suc_leI append_eq_append_conv_if filter_append le_Suc_ex length_append le_add1 upt_add_eq_append zero_le)
    then have room: "?c < USER_PAIR_SLAVE_MAX_NUM"
      using few Suc.prems(3) vs by (simp add: mirrors_def)
    let ?d = "mac_of_bytes (slot_bytes (mem f) k)"
    let ?st = "st\<lparr>bond_flash_idx := (bond_flash_idx st)[?c := word_of_int (8 * int k)],
      bond_device := (bond_device st)[?c := ?d], cur_num := cur_num st + 1\<rparr>"
    have rd: "flash_read_page fetch (FLASH_ADR_PARING + word_of_int (8 * int k)) 8 f = slot_bytes (mem f) k"
      using a slot_adr_bound [of k] k by (simp add: read_page slot_bytes_def)
    have step: "init_scan fetch mem (8 * int k) st = init_scan fetch mem (8 * int (Suc k)) ?st"
      using k True a room rd Suc.prems(2) unfolding c8 [symmetric]
      by (subst init_scan.simps) (simp add: Let_def)
    have c': "unat (cur_num st + 1) = ?c + 1"
      using room by (intro unat_plus_one) (simp add: USER_PAIR_SLAVE_MAX_NUM_def)
    have len: "?c < length (bond_flash_idx st)" "?c < length (bond_device st)" "?c = length ?vs"
      using room Suc.prems(3) by (simp_all add: mirrors_def)
    have "unat (word_of_int (8 * int k) :: u32) = 8 * k" using k by (intro unat_idx) simp
    moreover have "mac_bytes ?d = slot_bytes (mem f) k"
      by (rule mac_bytes_roundtrip) (simp add: slot_bytes_def)
    moreover have "map unat (take ?c (bond_flash_idx st)) = map ((*) 8) ?vs"
      "map mac_bytes (take ?c (bond_device st)) = map (slot_bytes (mem f)) ?vs"
      using Suc.prems(3) by (auto simp: mirrors_def live_devices_def)
    ultimately have "mirrors (mem f) (valid_slots (mem f) (Suc k)) ?st"
      unfolding vs mirrors_def using Suc.prems(3) len c' room
      by (simp add: live_devices_def take_Suc_conv_app_nth mirrors_def)
    with Suc.hyps(1) [of "Suc k" ?st] Suc.hyps(2) Suc.prems(2) k step show ?thesis by auto
  qed
qed

lemma flash_init_mirrors:
  assumes ok: "log_ok (mem f) n" and few: "length (valid_slots (mem f) n) \<le> USER_PAIR_SLAVE_MAX_NUM"
  shows "\<exists>st n'. user_master_host_pairing_flash_init xfer fetch mem (power_on_tbl f) = Inr st \<and>
    n' \<le> 256 \<and> pair_inv mem n' st \<and>
    map mac_bytes (live_devices st) = map (slot_bytes (mem f)) (valid_slots (mem f) n)"
proof -
  have "mirrors (mem f) (valid_slots (mem f) 0) (power_on_tbl f)"
    by (simp add: mirrors_def power_on_tbl_def valid_slots_def live_devices_def)
  then obtain st where st: "init_scan fetch mem 0 (power_on_tbl f) = Inr st" "cfg_idx st = 8 * int n"
    "pflash st = f" "mirrors (mem f) (valid_slots (mem f) n) st"
    using init_scan_mirrors [OF ok few, of 0 "power_on_tbl f"] by (auto simp: power_on_tbl_def)
  let ?st = "st\<lparr>cfg_idx := cfg_idx st - 8\<rparr>"
  have inv: "pair_inv mem n ?st"
    using st ok by (auto simp: pair_inv_def mirrors_def live_devices_def)
  obtain n' where n': "n' \<le> 256" "pair_inv mem n' (user_bond_slave_flash_clean xfer ?st)"
    "live_devices (user_bond_slave_flash_clean xfer ?st) = live_devices ?st"
    using clean_inv [OF inv] by blast
  have "map mac_bytes (live_devices ?st) = map (slot_bytes (mem f)) (valid_slots (mem f) n)"
    using st(4) by (auto simp: mirrors_def live_devices_def)
  then show ?thesis
    using st(1) n' by (simp add: user_master_host_pairing_flash_init_def) blast
qed

lemma mac_find_None:
  "mac_find ty adr i st = None \<Longrightarrow> i \<le> k \<Longrightarrow> k < unat (cur_num st) \<Longrightarrow>
   \<not> mac_matches ty adr (bond_device st ! k)"
proof (induction "unat (cur_num st) - i" arbitrary: i)
  case (Suc d)
  then have "\<not> mac_matches ty adr (bond_device st ! i)" "mac_find ty adr (i + 1) st = None"
    by (auto simp: mac_find.simps [of _ _ i] split: if_splits)
  with Suc.hyps(1) [of "i + 1"] Suc.hyps(2) Suc.prems show ?case by (cases "k = i") auto
qed auto

lemma delete_by_adr_devices:
  assumes inv: "pair_inv mem n st"
  shows "live_devices (snd (user_tbl_slave_mac_delete_by_adr xfer ty adr st)) =
    spec_op (Unpair ty adr) (live_devices st)"
proof -
  let ?P = "\<lambda>d. \<not> mac_matches ty adr d" let ?ds = "live_devices st"
  have len: "length ?ds = unat (cur_num st)" "\<And>k. k < unat (cur_num st) \<Longrightarrow> ?ds ! k = bond_device st ! k"
    using inv by (auto simp: pair_inv_def mirrors_def live_devices_def)
  show ?thesis
  proof (cases "mac_find ty adr 0 st")
    case None
    then have "\<forall>d \<in> set ?ds. ?P d" using mac_find_None [of ty adr 0 st] len by (auto simp: in_set_conv_nth)
    then have tw: "takeWhile ?P ?ds = ?ds" "dropWhile ?P ?ds = []" by (auto simp: takeWhile_eq_all_conv)
    show ?thesis unfolding spec_op.simps tw using None by (simp add: user_tbl_slave_mac_delete_by_adr_def)
  next
    case (Some i)
    note f = mac_find_Some [OF Some]
    then have "takeWhile ?P ?ds = take i ?ds" using len by (intro takeWhile_eq_take_P_nth) auto
    moreover from this have "dropWhile ?P ?ds = drop i ?ds"
      by (metis append_eq_conv_conj append_take_drop_id takeWhile_dropWhile_id)
    ultimately show ?thesis
      using Some delete_by_index_inv(2) [OF inv, of i] f
      by (simp add: user_tbl_slave_mac_delete_by_adr_def drop_Suc tl_drop)
  qed
qed

lemma run_op_inv:
  assumes inv: "pair_inv mem n st" and room: "n < 512" and op: "op_ok op"
  shows "\<exists>n' \<le> Suc n. pair_inv mem n' (run_op xfer op st) \<and>
    live_devices (run_op xfer op st) = spec_op op (live_devices st)"
proof (cases op)
  case (Pair ty adr)
  with add_inv [OF inv room, of adr ty] op show ?thesis by auto
next
  case (Unpair ty adr)
  with delete_by_adr_inv [OF inv] delete_by_adr_devices [OF inv] show ?thesis
    by (auto intro!: exI [of _ n] simp del: spec_op.simps)
next
  case Unpair_all
  with delete_all_inv [OF inv] show ?thesis
    by (auto intro!: exI [of _ n] simp: user_tbl_salve_mac_unpair_proc_def)
qed

lemma run_ops_inv:
  "pair_inv mem n st \<Longrightarrow> n + length ops \<le> 512 \<Longrightarrow> \<forall>op \<in> set ops. op_ok op \<Longrightarrow>
   \<exists>n'. pair_inv mem n' (fold (run_op xfer) ops st) \<and>
     live_devices (fold (run_op xfer) ops st) = fold spec_op ops (live_devices st)"
proof (induction ops arbitrary: n st)
  case (Cons op ops)
  obtain n' where n': "n' \<le> Suc n" "pair_inv mem n' (run_op xfer op st)"
    "live_devices (run_op xfer op st) = spec_op op (live_devices st)"
    using run_op_inv [of n st op] Cons.prems by auto
  with Cons.IH [OF n'(2)] Cons.prems show ?case by auto
qed auto

lemma power_cycle:
  assumes inv: "pair_inv mem n st"
  shows "\<exists>st' n'. user_master_host_pairing_flash_init xfer fetch mem (power_on_tbl (pflash st)) = Inr st' \<and>
    n' \<le> 256 \<and> pair_inv mem n' st' \<and> live_devices st' = live_devices st"
proof -
  let ?m = "mem (pflash st)"
  have ok: "log_ok ?m n" and few: "length (valid_slots ?m n) \<le> USER_PAIR_SLAVE_MAX_NUM"
    and ds: "map mac_bytes (live_devices st) = map (slot_bytes ?m) (valid_slots ?m n)"
    using inv by (auto simp: pair_inv_def mirrors_def)
  obtain st' n' where st': "user_master_host_pairing_flash_init xfer fetch mem (power_on_tbl (pflash st)) = Inr st'"
    "n' \<le> 256" "pair_inv mem n' st'" "map mac_bytes (live_devices st') = map mac_bytes (live_devices st)"
    using flash_init_mirrors [OF ok few] unfolding ds by blast
  from st'(4) have "live_devices st' = live_devices st"
    by (rule map_injective) (simp add: inj_on_def mac_bytes_inject)
  with st'(1-3) show ?thesis by blast
qed

lemma histories_survive:
  assumes ok: "log_ok (mem f) n" and few: "length (valid_slots (mem f) n) \<le> USER_PAIR_SLAVE_MAX_NUM"
    and ops: "length ops \<le> 256" "\<forall>op \<in> set ops. op_ok op"
  shows "\<exists>st st'. user_master_host_pairing_flash_init xfer fetch mem (power_on_tbl f) = Inr st \<and>
    live_devices (fold (run_op xfer) ops st) = fold spec_op ops (live_devices st) \<and>
    user_master_host_pairing_flash_init xfer fetch mem
      (power_on_tbl (pflash (fold (run_op xfer) ops st))) = Inr st' \<and>
    live_devices st' = live_devices (fold (run_op xfer) ops st)"
proof -
  obtain st n1 where st: "user_master_host_pairing_flash_init xfer fetch mem (power_on_tbl f) = Inr st"
    "n1 \<le> 256" "pair_inv mem n1 st"
    using flash_init_mirrors [OF ok few] by blast
  obtain n2 where "pair_inv mem n2 (fold (run_op xfer) ops st)"
    "live_devices (fold (run_op xfer) ops st) = fold spec_op ops (live_devices st)"
    using run_ops_inv [OF st(3), of ops] st(2) ops by auto
  with power_cycle [OF this(1)] st(1) show ?thesis by blast
qed

text \<open>A full sector: the record lands in the next sector and the scan does not see it.\<close>

lemma full_sector_loses_device:
  assumes inv: "pair_inv mem 512 st" and adr: "length adr = 6"
  shows "\<exists>st' st2. user_tbl_slave_mac_add xfer ty adr st = (1, st') \<and>
    map (\<lambda>i. mem (pflash st') (0x79000 + i)) [0..<8] =
      map (\<lambda>i. mem (pflash st) (0x79000 + i) AND ([ADR_BOND_MARK, ty] @ adr) ! i) [0..<8] \<and>
    user_master_host_pairing_flash_init xfer fetch mem (power_on_tbl (pflash st')) = Inr st2 \<and>
    live_devices st2 = (if length (live_devices st) \<ge> USER_PAIR_SLAVE_MAX_NUM then tl (live_devices st)
                        else live_devices st)"
proof -
  let ?full = "unat (cur_num st) \<ge> USER_PAIR_SLAVE_MAX_NUM"
  obtain s1 where s1: "s1 = (if ?full then user_tbl_slave_mac_delete_by_index xfer 0 st else st)" by simp
  have c: "length (live_devices st) = unat (cur_num st)"
    using inv by (auto simp: pair_inv_def mirrors_def live_devices_def)
  have "0 < unat (cur_num st)" if ?full using that by (simp add: USER_PAIR_SLAVE_MAX_NUM_def)
  with delete_by_index_inv [OF inv, of 0] inv c
  have i1: "pair_inv mem 512 s1"
    and l1: "live_devices s1 = (if length (live_devices st) \<ge> USER_PAIR_SLAVE_MAX_NUM then tl (live_devices st)
                        else live_devices st)"
    by (auto simp: s1 drop_Suc)
  have same: "mem (pflash s1) (0x79000 + i) = mem (pflash st) (0x79000 + i)" for i
  proof (cases ?full)
    case True
    with \<open>?full \<Longrightarrow> 0 < unat (cur_num st)\<close> delete_by_index_inv(4) [OF inv, of 0]
    obtain k where "k < 512" "mem (pflash s1) = (mem (pflash st))(slot_adr k := 0)" by (auto simp: s1)
    then show ?thesis by (simp add: slot_adr_def)
  qed (simp add: s1)
  let ?dev = "\<lparr>bond_mark = ADR_BOND_MARK, adr_type = ty, address = adr\<rparr>"
  obtain st' where st': "user_tbl_slave_mac_add xfer ty adr st = (1, st')" by (simp add: user_tbl_slave_mac_add_def Let_def)
  have t: "take 6 adr = adr" and cfg: "cfg_idx s1 + 8 = 8 * int 512" and bs: "length (mac_bytes ?dev) = 8"
    using adr i1 by (simp_all add: pair_inv_def mac_bytes_def)
  have "st' = snd (user_tbl_slave_mac_add xfer ty adr st)" using st' by simp
  then have "pflash st' = flash_write_page xfer (FLASH_ADR_PARING + word_of_int (cfg_idx s1 + 8)) (mac_bytes ?dev) (pflash s1)"
    by (simp add: user_tbl_slave_mac_add_def Let_def t flip: s1)
  then have m': "mem (pflash st') = programmed (slot_adr 512) (mac_bytes ?dev) (mem (pflash s1))"
    unfolding cfg using mem_record [of 512, OF _ bs] by simp
  have low: "mem (pflash st') a = mem (pflash s1) a" if "a < slot_adr 512" for a
    using that by (simp add: m' programmed_def)
  have vs: "valid_slots (mem (pflash st')) 512 = valid_slots (mem (pflash s1)) 512"
    by (rule valid_slots_cong) (simp add: low slot_adr_def)
  have sb: "slot_bytes (mem (pflash st')) v = slot_bytes (mem (pflash s1)) v" if "v < 512" for v
    using that low by (simp add: slot_bytes_def slot_adr_def)
  have ok: "log_ok (mem (pflash st')) 512" using i1 low by (auto simp: pair_inv_def log_ok_def slot_adr_def)
  have few: "length (valid_slots (mem (pflash st')) 512) \<le> USER_PAIR_SLAVE_MAX_NUM"
    and ds: "map mac_bytes (live_devices s1) = map (slot_bytes (mem (pflash s1))) (valid_slots (mem (pflash s1)) 512)"
    using i1 unfolding vs by (auto simp: pair_inv_def mirrors_def)
  have "map (slot_bytes (mem (pflash st'))) (valid_slots (mem (pflash st')) 512) = map mac_bytes (live_devices s1)"
    unfolding ds vs using valid_slots_less sb by (intro map_cong refl) blast
  with flash_init_mirrors [OF ok few] obtain st2 where
    st2: "user_master_host_pairing_flash_init xfer fetch mem (power_on_tbl (pflash st')) = Inr st2"
    "map mac_bytes (live_devices st2) = map mac_bytes (live_devices s1)" by auto
  from st2(2) have "live_devices st2 = live_devices s1"
    by (rule map_injective) (simp add: inj_on_def mac_bytes_inject)
  moreover have "map (\<lambda>i. mem (pflash st') (0x79000 + i)) [0..<8] =
      map (\<lambda>i. mem (pflash st) (0x79000 + i) AND ([ADR_BOND_MARK, ty] @ adr) ! i) [0..<8]"
    using bs by (auto simp: m' programmed_def slot_adr_def same mac_bytes_def)
  ultimately show ?thesis using st' st2(1) l1 by auto
qed

end

section \<open>Properties\<close>

lemma blank_log: "log_ok (chip_mem blank_chip) 0" "valid_slots (chip_mem blank_chip) 0 = []"
  by (simp_all add: log_ok_def blank_chip_def valid_slots_def)

text \<open>
  C12. Bonds survive a power cycle: on any NOR chip whose pairing sector holds a well-formed log with
  no more bonds than the table, start-up succeeds; any history of up to 256 pairings and unpairings
  then has its plain meaning on the list of bonded devices (a full table drops its oldest device),
  and the start-up after it finds exactly that list again.
\<close>

theorem pairing_survives_power_cycle:
  assumes "nor_chip xfer fetch mem wel"
    and "log_ok (mem f) n" and "length (valid_slots (mem f) n) \<le> USER_PAIR_SLAVE_MAX_NUM"
    and "length ops \<le> 256" and "\<forall>op \<in> set ops. op_ok op"
  shows "\<exists>st st'. user_master_host_pairing_flash_init xfer fetch mem (power_on_tbl f) = Inr st \<and>
    live_devices (fold (run_op xfer) ops st) = fold spec_op ops (live_devices st) \<and>
    user_master_host_pairing_flash_init xfer fetch mem
      (power_on_tbl (pflash (fold (run_op xfer) ops st))) = Inr st' \<and>
    live_devices st' = live_devices (fold (run_op xfer) ops st)"
  by (rule nor_chip.histories_survive [OF assms])

theorem pairing_survives_power_cycle_witness:
  "\<exists>st st'. user_master_host_pairing_flash_init chip_xfer chip_fetch chip_mem (power_on_tbl blank_chip) = Inr st \<and>
    live_devices (fold (run_op chip_xfer) [Pair 0 [1, 2, 3, 4, 5, 6], Unpair 0 [1, 2, 3, 4, 5, 6], Pair 1 [6, 5, 4, 3, 2, 1]] st) =
      fold spec_op [Pair 0 [1, 2, 3, 4, 5, 6], Unpair 0 [1, 2, 3, 4, 5, 6], Pair 1 [6, 5, 4, 3, 2, 1]] (live_devices st) \<and>
    user_master_host_pairing_flash_init chip_xfer chip_fetch chip_mem (power_on_tbl (pflash
      (fold (run_op chip_xfer) [Pair 0 [1, 2, 3, 4, 5, 6], Unpair 0 [1, 2, 3, 4, 5, 6], Pair 1 [6, 5, 4, 3, 2, 1]] st))) = Inr st' \<and>
    live_devices st' =
      live_devices (fold (run_op chip_xfer) [Pair 0 [1, 2, 3, 4, 5, 6], Unpair 0 [1, 2, 3, 4, 5, 6], Pair 1 [6, 5, 4, 3, 2, 1]] st)"
  by (rule pairing_survives_power_cycle [OF sim_chip_laws blank_log(1)]) (simp_all add: blank_log)

text \<open>
  C9. The sector is not checked while the dongle runs: with all 512 records used, a new bond is
  programmed over the first eight bytes of the next sector (0x79000), \<open>user_tbl_slave_mac_add\<close>
  still returns 1, and after the next start-up the device is not in the table, while in a full table
  the oldest bond is gone too.
\<close>

theorem pairing_leaves_full_sector:
  assumes "nor_chip xfer fetch mem wel" and "pair_inv mem 512 st" and "length adr = 6"
  shows "\<exists>st' st2. user_tbl_slave_mac_add xfer ty adr st = (1, st') \<and>
    map (\<lambda>i. mem (pflash st') (0x79000 + i)) [0..<8] =
      map (\<lambda>i. mem (pflash st) (0x79000 + i) AND ([ADR_BOND_MARK, ty] @ adr) ! i) [0..<8] \<and>
    user_master_host_pairing_flash_init xfer fetch mem (power_on_tbl (pflash st')) = Inr st2 \<and>
    live_devices st2 = (if length (live_devices st) \<ge> USER_PAIR_SLAVE_MAX_NUM then tl (live_devices st)
                        else live_devices st)"
  by (rule nor_chip.full_sector_loses_device [OF assms])

text \<open>A table whose sector is full of deleted records.\<close>

definition worn_tbl :: "sim_chip slave_tbl" where
  "worn_tbl = (power_on_tbl (blank_chip\<lparr>chip_mem :=
     (\<lambda>a. if 491520 \<le> a \<and> a < 495616 then 0 else 0xff)\<rparr>))\<lparr>cfg_idx := 4088\<rparr>"

lemma worn_inv: "pair_inv chip_mem 512 worn_tbl"
proof -
  have "chip_mem (pflash worn_tbl) (slot_adr k) = 0" if "k < 512" for k
    using that by (simp add: worn_tbl_def power_on_tbl_def slot_adr_def)
  then have "valid_slots (chip_mem (pflash worn_tbl)) 512 = []" "log_ok (chip_mem (pflash worn_tbl)) 512"
    by (auto simp: valid_slots_def filter_empty_conv ADR_BOND_MARK_def log_ok_def)
  then show ?thesis by (simp add: pair_inv_def mirrors_def live_devices_def) (simp add: worn_tbl_def power_on_tbl_def)
qed

theorem pairing_leaves_full_sector_witness:
  "\<exists>st' st2. user_tbl_slave_mac_add chip_xfer 0 [1, 2, 3, 4, 5, 6] worn_tbl = (1, st') \<and>
    map (\<lambda>i. chip_mem (pflash st') (0x79000 + i)) [0..<8] =
      map (\<lambda>i. chip_mem (pflash worn_tbl) (0x79000 + i) AND ([ADR_BOND_MARK, 0] @ [1, 2, 3, 4, 5, 6]) ! i) [0..<8] \<and>
    user_master_host_pairing_flash_init chip_xfer chip_fetch chip_mem (power_on_tbl (pflash st')) = Inr st2 \<and>
    live_devices st2 = (if length (live_devices worn_tbl) \<ge> USER_PAIR_SLAVE_MAX_NUM then tl (live_devices worn_tbl)
                        else live_devices worn_tbl)"
  by (rule pairing_leaves_full_sector [OF sim_chip_laws worn_inv]) simp

text \<open>
  Unpairing in the main loop: an unpair request on a connected link whose disconnection is accepted
  empties the table and clears the request; while the link is still going down a further request
  leaves the table alone, however the clock stands.
\<close>

theorem unpair_request_once:
  assumes "nor_chip xfer fetch mem wel" and "pair_inv mem n (slave_tbl s)" and "dongle_unpair_enable s"
  shows "(\<not> master_disconnect_flag s \<longrightarrow>
      live_devices (slave_tbl (host_pair_unpair_proc xfer now True 0 conn s)) = [] \<and>
      pair_inv mem n (slave_tbl (host_pair_unpair_proc xfer now True 0 conn s)) \<and>
      \<not> dongle_unpair_enable (host_pair_unpair_proc xfer now True 0 conn s) \<and>
      master_disconnect_flag (host_pair_unpair_proc xfer now True 0 conn s) = conn) \<and>
    (master_disconnect_flag s \<longrightarrow>
      slave_tbl (host_pair_unpair_proc xfer now conn1 disc conn s) = slave_tbl s \<and>
      dongle_unpair_enable (host_pair_unpair_proc xfer now conn1 disc conn s))"
  using assms(3) nor_chip.delete_all_inv [OF assms(1,2)]
  by (simp add: host_pair_unpair_proc_def Let_def user_tbl_salve_mac_unpair_proc_def)

theorem unpair_request_once_witness:
  "live_devices (slave_tbl (host_pair_unpair_proc chip_xfer 0 True 0 True
      \<lparr>manual_pair = 0, pair_tick = 0, dongle_unpair_enable = True, master_disconnect_flag = False, slave_tbl = worn_tbl\<rparr>)) = []"
  using unpair_request_once [OF sim_chip_laws, where n = 512 and s = "\<lparr>manual_pair = 0, pair_tick = 0,
      dongle_unpair_enable = True, master_disconnect_flag = False, slave_tbl = worn_tbl\<rparr>"] worn_inv
  by simp

end
