(* ===== verification/Ota_Boot.thy ===== *)
theory Ota_Boot
  imports Flash
begin

text \<open>
  The boot loader that installs a firmware image received over the air,
  \<open>ble_lt_sdk/vendor/826x_ota_boot/main.c\<close> in its 8266 configuration: the image at 0x20000 is
  copied to address 0 page by page with read-back (the first 4 kB last, so that an interrupted copy
  leaves the old entry code), the OTA flag is cleared, the staging area is erased. Chip set-up, LEDs
  and the final reboot register write are left out. A page that does not verify restarts its sector,
  without limit: the copy loop is a partial function and \<^const>\<open>None\<close> is a boot that never ends.
\<close>

definition NEW_FW_SIZE :: int where "NEW_FW_SIZE = 128"
definition NEW_FW_ADR :: u32 where "NEW_FW_ADR = 0x20000"
definition OTA_FLG_ADR :: u32 where "OTA_FLG_ADR = 0x73000"

section \<open>The boot loader\<close>

text \<open>One round of the copy loop: the flash after it and the next index.\<close>

definition copy_page ::
  "(u8 list \<Rightarrow> 'f \<Rightarrow> 'f) \<Rightarrow> (u8 list \<Rightarrow> nat \<Rightarrow> 'f \<Rightarrow> u8 list) \<Rightarrow> nat \<Rightarrow> 'f \<Rightarrow> nat \<times> 'f" where
  "copy_page xfer fetch i f =
     (let f1 = (if i mod 4096 = 0 then flash_erase_sector xfer (of_nat i) f else f);
          buff = flash_read_page fetch (NEW_FW_ADR + of_nat i) 256 f1;
          f2 = flash_write_page xfer (of_nat i) buff f1;
          check_buff = flash_read_page fetch (of_nat i) 256 f2
      in (if buff \<noteq> check_buff then i div 4096 mod 4096 * 4096 else i + 256, f2))"

partial_function (option) copy_loop ::
  "(u8 list \<Rightarrow> 'f \<Rightarrow> 'f) \<Rightarrow> (u8 list \<Rightarrow> nat \<Rightarrow> 'f \<Rightarrow> u8 list) \<Rightarrow> int \<Rightarrow> nat \<Rightarrow> 'f \<Rightarrow> 'f option" where
  "copy_loop xfer fetch n i f =
     (if int i < n then
        copy_loop xfer fetch n (fst (copy_page xfer fetch i f)) (snd (copy_page xfer fetch i f))
      else Some f)"

text \<open>The staging area is erased from its last used sector downwards.\<close>

function erase_staging :: "(u8 list \<Rightarrow> 'f \<Rightarrow> 'f) \<Rightarrow> int \<Rightarrow> 'f \<Rightarrow> 'f" where
  "erase_staging xfer i f =
     (if i \<ge> 0 then erase_staging xfer (i - 4096) (flash_erase_sector xfer (NEW_FW_ADR + word_of_int i) f)
      else f)"
  by pat_completeness auto
termination by (relation "measure (\<lambda>(_, i, _). nat (i + 4096))") auto

declare erase_staging.simps [simp del]

text \<open>The image length, at offset 0x18 of the staged image, is read into a signed \<open>int\<close>.\<close>

definition n_firmware :: "(u8 list \<Rightarrow> nat \<Rightarrow> 'f \<Rightarrow> u8 list) \<Rightarrow> 'f \<Rightarrow> int" where
  "n_firmware fetch f =
     (let buff = flash_read_page fetch NEW_FW_ADR 256 f
      in sint (u32_le (buff ! 0x18) (buff ! 0x19) (buff ! 0x1a) (buff ! 0x1b)))"

text \<open>\<open>Inl ()\<close> is the \<open>while(1)\<close> for an image that is too big.\<close>

definition ota_boot ::
  "(u8 list \<Rightarrow> 'f \<Rightarrow> 'f) \<Rightarrow> (u8 list \<Rightarrow> nat \<Rightarrow> 'f \<Rightarrow> u8 list) \<Rightarrow> 'f \<Rightarrow> unit + 'f option" where
  "ota_boot xfer fetch f =
     (let n = n_firmware fetch f in
      if n > NEW_FW_SIZE * 1024 then Inl ()
      else Inr (case copy_loop xfer fetch n 4096 f of
                  None \<Rightarrow> None
                | Some f1 \<Rightarrow>
                    (case copy_loop xfer fetch 4096 0 f1 of
                       None \<Rightarrow> None
                     | Some f2 \<Rightarrow>
                         Some (erase_staging xfer ((n - 1) AND 0x1f000)
                                (flash_write_page xfer OTA_FLG_ADR [0] f2)))))"

section \<open>The copy loop on a NOR chip\<close>

text \<open>Behind the index, the sector that is being written is still erased.\<close>

definition rest_erased :: "nat \<Rightarrow> (nat \<Rightarrow> u8) \<Rightarrow> bool" where
  "rest_erased i m \<longleftrightarrow> (\<forall>a. i mod 4096 \<noteq> 0 \<and> i \<le> a \<and> a div 4096 = i div 4096 \<longrightarrow> m a = 0xff)"

lemma page_index:
  assumes "i mod 256 = (0 :: nat)"
  obtains q r where "i = 4096 * q + 256 * r" "r < 16"
proof -
  obtain k where k: "i = 256 * k" using assms by (auto elim: dvdE simp flip: dvd_eq_mod_eq_0)
  have "i = 4096 * (k div 16) + 256 * (k mod 16)" unfolding k using div_mult_mod_eq [of k 16] by linarith
  then show thesis by (rule that) simp
qed

lemma and_1f000:
  fixes x :: int
  assumes "0 \<le> x" "x < 0x20000"
  shows "x AND 0x1f000 = 4096 * (x div 4096)"
proof -
  have "take_bit 17 x = x" using assms by (simp add: take_bit_int_eq_self)
  then have hi: "k < 17" if "bit x k" for k by (metis bit_take_bit_iff that)
  have c: "(0x1f000 :: int) = push_bit 12 (mask 5)" by (simp add: mask_eq_exp_minus_1 push_bit_eq_mult)
  have "x AND 0x1f000 = push_bit 12 (drop_bit 12 x)"
    unfolding c by (rule bit_eqI) (use hi in \<open>fastforce simp: bit_simps\<close>)
  then show ?thesis by (simp add: push_bit_eq_mult drop_bit_eq_div)
qed

context nor_chip
begin

lemma copy_page_correct:
  assumes i: "i mod 256 = 0" "i < 0x20000" and re: "rest_erased i (mem f)"
  shows "\<exists>f'. copy_page xfer fetch i f = (i + 256, f') \<and>
    (\<forall>a. i \<le> a \<and> a < i + 256 \<longrightarrow> mem f' a = mem f (0x20000 + a)) \<and>
    (\<forall>a. a < i \<or> a div 4096 \<noteq> i div 4096 \<longrightarrow> mem f' a = mem f a) \<and> rest_erased (i + 256) (mem f')"
proof -
  obtain q r where qr: "i = 4096 * q + 256 * r" "r < 16" using page_index [OF i(1)] by blast
  have iw: "unat (of_nat i :: u32) = i" using i(2) by (intro unat_of_nat_small) simp
  have nw: "unat (NEW_FW_ADR + of_nat i) = 0x20000 + i"
    using i(2) iw by (simp add: NEW_FW_ADR_def unat_word_ariths)
  have sec: "a div 4096 = q \<longleftrightarrow> 4096 * q \<le> a \<and> a < 4096 * q + 4096" for a by auto
  have idiv: "i div 4096 = q" "i mod 4096 = 256 * r" using qr by simp_all
  obtain f1 where f1: "f1 = (if i mod 4096 = 0 then flash_erase_sector xfer (of_nat i) f else f)" by simp
  have m1: "mem f1 a = (if i mod 4096 = 0 \<and> a div 4096 = q then 0xff else mem f a)" for a
    using i(2) iw idiv(1) by (simp add: f1 mem_erase_sector erased_def)
  have e1: "mem f1 a = 0xff" if "i \<le> a" "a div 4096 = q" for a
    using that re idiv(1) unfolding m1 by (auto simp: rest_erased_def)
  obtain buff where buff: "buff = flash_read_page fetch (NEW_FW_ADR + of_nat i) 256 f1" by simp
  have q32: "q < 32" using i(2) qr(1) by simp
  have bv: "buff = map (\<lambda>j. mem f (0x20000 + i + j)) [0..<256]"
  proof -
    have "mem f1 (0x20000 + i + j) = mem f (0x20000 + i + j)" for j
      unfolding m1 sec using q32 by simp
    then show ?thesis using i(2) nw by (simp add: buff read_page)
  qed
  have lb: "length buff = 256" by (simp add: bv)
  obtain f2 where f2: "f2 = flash_write_page xfer (of_nat i) buff f1" by simp
  have pg: "unat (of_nat i :: u32) mod 256 + length buff \<le> 256" using i(1) iw lb by simp
  have m2: "mem f2 = programmed i buff (mem f1)"
    using i(2) iw pg by (simp add: f2 mem_write_page)
  have in_page: "a div 4096 = q" if "i \<le> a" "a < i + 256" for a
    using that qr unfolding sec by simp
  have "flash_read_page fetch (of_nat i) (length buff) f2 = buff"
    unfolding f2 using i(2) iw pg lb e1 in_page by (intro write_then_read) auto
  then have run: "copy_page xfer fetch i f = (i + 256, f2)"
    using lb by (simp add: copy_page_def Let_def flip: f1 buff f2)
  have copied: "mem f2 a = mem f (0x20000 + a)" if a: "i \<le> a" "a < i + 256" for a
  proof -
    have "mem f2 a = buff ! (a - i)" using a lb e1 [OF a(1) in_page [OF a]] by (simp add: m2 programmed_def)
    then show ?thesis using a by (simp add: bv)
  qed
  have same: "mem f2 a = mem f a" if "a < i \<or> a div 4096 \<noteq> i div 4096" for a
  proof -
    have "\<not> (i \<le> a \<and> a < i + 256)" using that in_page [of a] idiv(1) by auto
    moreover have "mem f1 a = mem f a" using that idiv qr unfolding m1 sec by auto
    ultimately show ?thesis using lb unfolding m2 programmed_def by (simp only: if_False)
  qed
  have "rest_erased (i + 256) (mem f2)"
    unfolding rest_erased_def
  proof (intro allI impI)
    fix a assume a: "(i + 256) mod 4096 \<noteq> 0 \<and> i + 256 \<le> a \<and> a div 4096 = (i + 256) div 4096"
    have "r \<noteq> 15" using a qr by (auto simp: algebra_simps)
    then have "(i + 256) div 4096 = q" using qr by simp
    with a e1 [of a] lb show "mem f2 a = 0xff" by (simp add: m2 programmed_def)
  qed
  with run copied same show ?thesis by blast
qed

lemma copy_loop_correct:
  "i mod 256 = 0 \<Longrightarrow> n \<le> 0x20000 \<Longrightarrow> rest_erased i (mem f) \<Longrightarrow>
   \<exists>f'. copy_loop xfer fetch n i f = Some f' \<and>
     (\<forall>a. i \<le> a \<and> int a < n \<longrightarrow> mem f' a = mem f (0x20000 + a)) \<and>
     (\<forall>a. a < i \<or> (n - 1) div 4096 < int (a div 4096) \<longrightarrow> mem f' a = mem f a)"
proof (induction "nat (n - int i)" arbitrary: i f rule: less_induct)
  case less
  show ?case
  proof (cases "int i < n")
    case False
    then show ?thesis by (auto simp: copy_loop.simps [of _ _ n i])
  next
    case True
    then have i: "i < 0x20000" using less.prems(2) by simp
    obtain f1 where f1: "copy_page xfer fetch i f = (i + 256, f1)"
      "\<And>a. i \<le> a \<and> a < i + 256 \<Longrightarrow> mem f1 a = mem f (0x20000 + a)"
      "\<And>a. a < i \<or> a div 4096 \<noteq> i div 4096 \<Longrightarrow> mem f1 a = mem f a" "rest_erased (i + 256) (mem f1)"
      using copy_page_correct [OF less.prems(1) i less.prems(3)] by blast
    have "(i + 256) mod 256 = 0" "nat (n - int (i + 256)) < nat (n - int i)"
      using less.prems(1) True by simp_all
    then obtain f2 where f2: "copy_loop xfer fetch n (i + 256) f1 = Some f2"
      "\<And>a. i + 256 \<le> a \<and> int a < n \<Longrightarrow> mem f2 a = mem f1 (0x20000 + a)"
      "\<And>a. a < i + 256 \<or> (n - 1) div 4096 < int (a div 4096) \<Longrightarrow> mem f2 a = mem f1 a"
      using less.hyps [OF _ _ less.prems(2) f1(4)] by meson
    have "copy_loop xfer fetch n i f = Some f2"
      using True f1(1) f2(1) by (subst copy_loop.simps) simp
    moreover have "mem f2 a = mem f (0x20000 + a)" if a: "i \<le> a" "int a < n" for a
    proof (cases "a < i + 256")
      case True
      with a f1(2) f2(3) show ?thesis by simp
    next
      case False
      have "i div 4096 < 32" using i by simp
      moreover have "32 \<le> (0x20000 + a) div 4096" by simp
      ultimately have "(0x20000 + a) div 4096 \<noteq> i div 4096" by linarith
      with False a f1(3) f2(2) show ?thesis by simp
    qed
    moreover have "mem f2 a = mem f a" if a: "a < i \<or> (n - 1) div 4096 < int (a div 4096)" for a
    proof -
      have "int (i div 4096) \<le> (n - 1) div 4096" using True by (simp add: zdiv_int zdiv_mono1)
      with a have "a < i \<or> a div 4096 \<noteq> i div 4096" by auto
      with a f1(3) f2(3) show ?thesis by auto
    qed
    ultimately show ?thesis by blast
  qed
qed

lemma erase_staging_correct:
  "mem (erase_staging xfer (4096 * int k - 4096) f) =
     (\<lambda>a. if 0x20000 \<le> a \<and> a < 0x20000 + 4096 * k then 0xff else mem f a)" if "k \<le> 32"
  using that
proof (induction k arbitrary: f)
  case 0
  have "\<not> (0x20000 \<le> a \<and> a < 0x20000 + 4096 * 0)" for a :: nat by simp
  then show ?case by (simp only: if_False) (simp add: erase_staging.simps [of _ "- 4096"])
next
  case (Suc k)
  have w: "word_of_int (4096 * int k) = (of_nat (4096 * k) :: u32)" by simp
  have u: "unat (of_nat (4096 * k) :: u32) = 4096 * k"
    using Suc.prems by (intro unat_of_nat_small) simp
  have a: "unat (NEW_FW_ADR + word_of_int (4096 * int k)) = 0x20000 + 4096 * k"
    unfolding w NEW_FW_ADR_def unat_word_ariths u using Suc.prems by simp
  let ?f = "flash_erase_sector xfer (NEW_FW_ADR + word_of_int (4096 * int k)) f"
  have m: "mem ?f = (\<lambda>b. if 0x20000 + 4096 * k \<le> b \<and> b < 0x20000 + 4096 * k + 4096 then 0xff else mem f b)"
  proof -
    have "b div 4096 = (0x20000 + 4096 * k) div 4096 \<longleftrightarrow> 0x20000 + 4096 * k \<le> b \<and> b < 0x20000 + 4096 * k + 4096" for b
      by auto
    then show ?thesis using a Suc.prems by (simp add: mem_erase_sector erased_def)
  qed
  have "erase_staging xfer (4096 * int (Suc k) - 4096) f = erase_staging xfer (4096 * int k - 4096) ?f"
    by (subst erase_staging.simps) simp
  with Suc m show ?case by (auto simp: fun_eq_iff)
qed

text \<open>The whole boot, for an image length that is not negative.\<close>

lemma boot_installs:
  assumes n: "n_firmware fetch f = n" "0 < n" "n \<le> 0x20000"
  shows "\<exists>f'. ota_boot xfer fetch f = Inr (Some f') \<and>
    (\<forall>a. int a < max n 4096 \<longrightarrow> mem f' a = mem f (0x20000 + a)) \<and> mem f' 0x73000 = 0 \<and>
    (\<forall>a. 0x20000 \<le> a \<and> a \<noteq> 0x73000 \<longrightarrow>
       mem f' a = (if (int a - 0x20000) div 4096 \<le> (n - 1) div 4096 then 0xff else mem f a))"
proof -
  obtain f1 where f1: "copy_loop xfer fetch n 4096 f = Some f1"
    "\<And>a. 4096 \<le> a \<and> int a < n \<Longrightarrow> mem f1 a = mem f (0x20000 + a)"
    "\<And>a. a < 4096 \<or> (n - 1) div 4096 < int (a div 4096) \<Longrightarrow> mem f1 a = mem f a"
    using copy_loop_correct [of 4096 n f] n by (auto simp: rest_erased_def)
  obtain f2 where f2: "copy_loop xfer fetch 4096 0 f1 = Some f2"
    "\<And>a. int a < 4096 \<Longrightarrow> mem f2 a = mem f1 (0x20000 + a)"
    "\<And>a. 0 < int (a div 4096) \<Longrightarrow> mem f2 a = mem f1 a"
    using copy_loop_correct [of 0 4096 f1] by (auto simp: rest_erased_def)
  let ?f3 = "flash_write_page xfer OTA_FLG_ADR [0] f2"
  have m3: "mem ?f3 = programmed 0x73000 [0] (mem f2)" by (simp add: mem_write_page OTA_FLG_ADR_def)
  obtain k where k: "(n - 1) div 4096 = int k - 1" "0 < k" "k \<le> 32"
  proof -
    have "0 \<le> (n - 1) div 4096" "(n - 1) div 4096 < 32" using n(2,3) by simp_all
    then show thesis by (intro that [of "nat ((n - 1) div 4096 + 1)"]) simp_all
  qed
  have mask: "(n - 1) AND 0x1f000 = 4096 * int k - 4096"
    using and_1f000 [of "n - 1"] n(2,3) k(1) by simp
  let ?f4 = "erase_staging xfer (4096 * int k - 4096) ?f3"
  have run: "ota_boot xfer fetch f = Inr (Some ?f4)"
    using n f1(1) f2(1) by (simp add: ota_boot_def Let_def NEW_FW_SIZE_def mask)
  note m4 = erase_staging_correct [OF k(3), of ?f3]
  have src: "mem f2 (0x20000 + a) = mem f (0x20000 + a)" for a
  proof -
    have "(n - 1) div 4096 < int ((0x20000 + a) div 4096)" using k by simp
    then show ?thesis using f1(3) f2(3) by simp
  qed
  have "mem ?f4 a = mem f (0x20000 + a)" if "int a < max n 4096" for a
  proof -
    have "a < 0x20000" using that n(3) by simp
    then have "mem ?f4 a = mem f2 a" by (simp add: m4 m3 programmed_def)
    also have "mem f2 a = mem f (0x20000 + a)"
    proof (cases "a < 4096")
      case True
      have "(n - 1) div 4096 < int ((0x20000 + a) div 4096)" using k by simp
      with True f2(2) f1(3) show ?thesis by simp
    next
      case False
      with that f1(2) f2(3) show ?thesis by simp
    qed
    finally show ?thesis .
  qed
  moreover have "mem ?f4 0x73000 = 0" using k(3) by (simp add: m4 m3 programmed_def)
  moreover have "mem ?f4 a = (if (int a - 0x20000) div 4096 \<le> (n - 1) div 4096 then 0xff else mem f a)"
    if a: "0x20000 \<le> a" "a \<noteq> 0x73000" for a
  proof -
    have "(int a - 0x20000) div 4096 \<le> int k - 1 \<longleftrightarrow> a < 0x20000 + 4096 * k" using a(1) by linarith
    moreover have "mem f2 a = mem f a" using src [of "a - 0x20000"] a(1) by simp
    ultimately show ?thesis using a unfolding k(1) by (simp add: m4 m3 programmed_def)
  qed
  ultimately show ?thesis using run by blast
qed

text \<open>An erased staging area reads as length -1, which is not bigger than the limit.\<close>

lemma boot_blank:
  assumes blank: "\<forall>a. 0x20000 \<le> a \<and> a < 0x21000 \<longrightarrow> mem f a = 0xff"
  shows "\<exists>f'. ota_boot xfer fetch f = Inr (Some f') \<and> (\<forall>a < 4096. mem f' a = 0xff)"
proof -
  have rd: "flash_read_page fetch NEW_FW_ADR 256 f = map (\<lambda>i. mem f (0x20000 + i)) [0..<256]"
    by (simp add: read_page NEW_FW_ADR_def)
  have n: "n_firmware fetch f = - 1"
    unfolding n_firmware_def Let_def rd using blank by (simp add: u32_le_def)
  have l1: "copy_loop xfer fetch (- 1) 4096 f = Some f" by (subst copy_loop.simps) simp
  obtain f2 where f2: "copy_loop xfer fetch 4096 0 f = Some f2"
    "\<And>a. int a < 4096 \<Longrightarrow> mem f2 a = mem f (0x20000 + a)"
    using copy_loop_correct [of 0 4096 f] by (auto simp: rest_erased_def)
  let ?f3 = "flash_write_page xfer OTA_FLG_ADR [0] f2"
  have m3: "mem ?f3 = programmed 0x73000 [0] (mem f2)" by (simp add: mem_write_page OTA_FLG_ADR_def)
  have m4: "mem (erase_staging xfer 0x1f000 ?f3) =
      (\<lambda>a. if 0x20000 \<le> a \<and> a < 0x20000 + 4096 * 32 then 0xff else mem ?f3 a)"
    using erase_staging_correct [of 32 ?f3] by simp
  have "ota_boot xfer fetch f = Inr (Some (erase_staging xfer 0x1f000 ?f3))"
    using n l1 f2(1) by (simp add: ota_boot_def Let_def NEW_FW_SIZE_def)
  moreover have "\<forall>a < 4096. mem (erase_staging xfer 0x1f000 ?f3) a = 0xff"
    using blank f2(2) by (simp add: m4 m3 programmed_def)
  ultimately show ?thesis by blast
qed

end

section \<open>Properties\<close>

text \<open>
  C11. The boot loader installs the staged image: on any NOR chip and for every image length from 1 to
  128 kB the copy loop ends, the image (and in any case its first 4 kB) stands at address 0, the OTA
  flag reads 0, and behind 0x20000 exactly the used sectors of the staging area are erased.
\<close>

theorem ota_boot_installs_image:
  assumes "nor_chip xfer fetch mem wel"
    and "n_firmware fetch f = n" and "0 < n" and "n \<le> 0x20000"
  shows "\<exists>f'. ota_boot xfer fetch f = Inr (Some f') \<and>
    (\<forall>a. int a < max n 4096 \<longrightarrow> mem f' a = mem f (0x20000 + a)) \<and> mem f' 0x73000 = 0 \<and>
    (\<forall>a. 0x20000 \<le> a \<and> a \<noteq> 0x73000 \<longrightarrow>
       mem f' a = (if (int a - 0x20000) div 4096 \<le> (n - 1) div 4096 then 0xff else mem f a))"
  by (rule nor_chip.boot_installs [OF assms])

definition staged_chip :: sim_chip where
  "staged_chip = blank_chip\<lparr>chip_mem := (\<lambda>a. if a < 4096 then 1 else if a = 0x20018 then 5
     else if a = 0x20019 then 0x14 else if a < 0x30000 then 0 else 0xff)\<rparr>"

theorem ota_boot_installs_image_witness:
  "\<exists>f'. ota_boot chip_xfer chip_fetch staged_chip = Inr (Some f') \<and>
    chip_mem f' 0x18 = 5 \<and> chip_mem f' 0x73000 = 0 \<and> chip_mem f' 0x21fff = 0xff \<and> chip_mem f' 0x22000 = 0"
proof -
  have "flash_read_page chip_fetch NEW_FW_ADR 256 staged_chip = map (\<lambda>i. chip_mem staged_chip (0x20000 + i)) [0..<256]"
    by (simp add: sim.read_page NEW_FW_ADR_def)
  then have "n_firmware chip_fetch staged_chip = 0x1405"
    by (simp add: n_firmware_def Let_def staged_chip_def u32_le_def)
  from ota_boot_installs_image [OF sim_chip_laws this] obtain f' where
    f': "ota_boot chip_xfer chip_fetch staged_chip = Inr (Some f')"
    "\<forall>a. int a < 0x1405 \<longrightarrow> chip_mem f' a = chip_mem staged_chip (0x20000 + a)"
    "chip_mem f' 0x73000 = 0"
    "\<forall>a. 0x20000 \<le> a \<and> a \<noteq> 0x73000 \<longrightarrow> chip_mem f' a =
       (if (int a - 0x20000) div 4096 \<le> (0x1405 - 1) div 4096 then 0xff else chip_mem staged_chip a)"
    by (auto simp: max_def)
  from f'(2) [THEN spec, of "0x18"] f'(4) [THEN spec, of "0x21fff"] f'(4) [THEN spec, of "0x22000"] f'(1,3) show ?thesis
    by (intro exI [of _ f']) (simp add: staged_chip_def)
qed

text \<open>
  The length is not checked from below: when the staging area is erased the length reads -1, passes
  the size check, and the boot loader overwrites the first 4 kB of the running firmware with 0xff.
\<close>

theorem ota_boot_blank_staging_erases_firmware:
  assumes "nor_chip xfer fetch mem wel"
    and "\<forall>a. 0x20000 \<le> a \<and> a < 0x21000 \<longrightarrow> mem f a = 0xff"
  shows "\<exists>f'. ota_boot xfer fetch f = Inr (Some f') \<and>
    map (mem f') [0..<4096] = replicate 4096 0xff"
proof -
  obtain f' where f': "ota_boot xfer fetch f = Inr (Some f')" "\<forall>a < 4096. mem f' a = 0xff"
    using nor_chip.boot_blank [OF assms] by blast
  from f'(2) have "map (mem f') [0..<4096] = replicate 4096 0xff"
    by (intro nth_equalityI) simp_all
  with f'(1) show ?thesis by blast
qed

definition running_chip :: sim_chip where
  "running_chip = blank_chip\<lparr>chip_mem := (\<lambda>a. if a < 0x10000 then 1 else 0xff)\<rparr>"

theorem ota_boot_blank_staging_erases_firmware_witness:
  "\<exists>f'. ota_boot chip_xfer chip_fetch running_chip = Inr (Some f') \<and>
    map (chip_mem f') [0..<4096] = replicate 4096 0xff"
  by (rule ota_boot_blank_staging_erases_firmware [OF sim_chip_laws]) (simp add: running_chip_def)

end
