(* ===== verification/Mic_Filters.thy ===== *)
theory Mic_Filters
  imports Prelude
begin

text \<open>
  The sample processing of \<open>ble_lt_sdk/vendor/common/tl_audio.c\<close> and \<open>tl_audio.h\<close> in front of the
  ADPCM encoder: the two biquad equalisers, their set-up from flash, the high-pass filter, the 2:1
  decimation and the noise suppression. Samples (\<open>s16\<close>) and filter state are integers; sums that the
  code forms in a 32-bit \<open>int\<close> are wrapped by \<open>s32\<close>.
\<close>

definition s32 :: "int \<Rightarrow> int" where "s32 x = signed_take_bit 31 x"

definition clamp16 :: "int \<Rightarrow> int" where
  "clamp16 s = (if s > 32767 then 32767 else if s < - 32768 then - 32768 else s)"

definition is_s16 :: "int \<Rightarrow> bool" where
  "is_s16 x \<longleftrightarrow> - 32768 \<le> x \<and> x \<le> 32767"

section \<open>The biquad equalisers\<close>

text \<open>
  One sample of \<open>voice_iir\<close> (\<open>bits = 14\<close>) or \<open>voice_iir_OOB\<close> (\<open>bits = 12\<close>). The array \<open>coef\<close> holds
  the five coefficients and, from index 5, the last two inputs and the last two outputs.
\<close>

definition iir_sample :: "nat \<Rightarrow> nat \<Rightarrow> int \<Rightarrow> int list \<Rightarrow> int \<times> int list" where
  "iir_sample bits shift x coef =
     (let s = x * coef ! 0 + coef ! 5 * coef ! 1 + coef ! 6 * coef ! 2 + coef ! 7 * coef ! 3 + coef ! 8 * coef ! 4;
          s = s32 (s + 2 ^ (bits - 1)) div 2 ^ bits;
          coef' = coef[6 := coef ! 5, 5 := x, 8 := coef ! 7, 7 := s]
      in (clamp16 s div 2 ^ shift, coef'))"

fun iir_from :: "nat \<Rightarrow> nat \<Rightarrow> int list \<Rightarrow> int list \<Rightarrow> int list \<times> int list" where
  "iir_from bits shift [] coef = ([], coef)"
| "iir_from bits shift (x # xs) coef =
     (let (y, coef') = iir_sample bits shift x coef; (ys, coef'') = iir_from bits shift xs coef'
      in (y # ys, coef''))"

text \<open>
  The callers filter in place (\<open>pd = ps\<close>): the first \<open>nsample\<close> samples of the buffer are replaced.
  \<^const>\<open>None\<close>: outside the buffer.
\<close>

definition voice_iir_OOB :: "int list \<Rightarrow> int list \<Rightarrow> nat \<Rightarrow> u8 \<Rightarrow> (int list \<times> int list) option" where
  "voice_iir_OOB ps coef nsample shift =
     (if nsample \<le> length ps then
        let (ys, coef') = iir_from 12 (unat shift) (take nsample ps) coef
        in Some (ys @ drop nsample ps, coef')
      else None)"

definition voice_iir :: "int list \<Rightarrow> int list \<Rightarrow> nat \<Rightarrow> u8 \<Rightarrow> (int list \<times> int list) option" where
  "voice_iir ps coef nsample shift =
     (if nsample \<le> length ps then
        let (ys, coef') = iir_from 14 (unat shift) (take nsample ps) coef
        in Some (ys @ drop nsample ps, coef')
      else None)"

section \<open>Filter set-up\<close>

record iir_config =
  filter_1 :: "int list"
  filter_2 :: "int list"
  filter_3 :: "int list"
  LPF_FILTER_1 :: "int list"
  LPF_FILTER_2 :: "int list"
  filter1_shift :: u8
  filter2_shift :: u8
  filter3_shift :: u8
  lpf_filter1_shift :: u8
  lpf_filter2_shift :: u8
  filter_step_enable :: u8
  reg_volume :: "u8 option"

definition default_filters :: iir_config where
  "default_filters = \<lparr>
     filter_1 = [995*4, 1990*4, 995*4, 849*4, 734*4, 0, 0, 0, 0, 0],
     filter_2 = [3691*4, - 5564*4, 2915*4, 5564*4, - 2510*4, 0, 0, 0, 0, 0],
     filter_3 = [2534*4, - 1482*4, 955*4, 3956*4, - 1866*4, 0, 0, 0, 0, 0],
     LPF_FILTER_1 = [739, 87, 739, 2419, - 1401, 0, 0, 0, 0, 0],
     LPF_FILTER_2 = [4301, 5262, 4299, 889, - 3601, 0, 0, 0, 0, 0],
     filter1_shift = 0, filter2_shift = 0, filter3_shift = 0,
     lpf_filter1_shift = 0, lpf_filter2_shift = 0, filter_step_enable = 0, reg_volume = None\<rparr>"

definition CBUFFER_SIZE :: nat where "CBUFFER_SIZE = 20"
definition MANUAL_VOLUMN_SETTINGS :: u8 where "MANUAL_VOLUMN_SETTINGS = 0x20"

text \<open>
  \<open>Audio_VolumeSet\<close> with its first argument 1 writes the microphone volume register. \<open>rom\<close> is the
  configuration page at 0x71000.
\<close>

definition Audio_VolumeSet :: "u8 \<Rightarrow> iir_config \<Rightarrow> iir_config" where
  "Audio_VolumeSet v c = c\<lparr>reg_volume := Some v\<rparr>"

text \<open>The 20 bytes of coefficient block \<open>k\<close>, and the block copied over the first five integers.\<close>

definition cfg_block :: "(nat \<Rightarrow> u8) \<Rightarrow> nat \<Rightarrow> u8 list" where
  "cfg_block rom k = map (\<lambda>i. rom (CBUFFER_SIZE * k + i)) [0..<CBUFFER_SIZE]"

definition load_block :: "u8 list \<Rightarrow> int list \<Rightarrow> int list" where
  "load_block bs filt =
     map (\<lambda>j. sint (u32_le (bs ! (4*j)) (bs ! (4*j+1)) (bs ! (4*j+2)) (bs ! (4*j+3)))) [0..<5] @ drop 5 filt"

definition cfg_shift :: "(nat \<Rightarrow> u8) \<Rightarrow> nat \<Rightarrow> u8" where
  "cfg_shift rom k = (if rom (CBUFFER_SIZE * 5 + k) = 0xff then 0 else rom (CBUFFER_SIZE * 5 + k))"

definition filter_setting :: "(nat \<Rightarrow> u8) \<Rightarrow> iir_config \<Rightarrow> iir_config" where
  "filter_setting rom c =
     (let filter_cmp = replicate 20 0xff;
          c = (if cfg_block rom 0 \<noteq> filter_cmp
               then c\<lparr>filter_1 := load_block (cfg_block rom 0) (filter_1 c),
                      filter_step_enable := filter_step_enable c OR 2\<rparr> else c);
          c = (if cfg_block rom 1 \<noteq> filter_cmp
               then c\<lparr>filter_2 := load_block (cfg_block rom 1) (filter_2 c),
                      filter_step_enable := filter_step_enable c OR 4\<rparr> else c);
          c = (if cfg_block rom 2 \<noteq> filter_cmp
               then c\<lparr>filter_3 := load_block (cfg_block rom 2) (filter_3 c),
                      filter_step_enable := filter_step_enable c OR 8\<rparr> else c);
          c = (if cfg_block rom 3 \<noteq> filter_cmp
               then c\<lparr>LPF_FILTER_1 := load_block (cfg_block rom 3) (LPF_FILTER_1 c),
                      filter_step_enable := filter_step_enable c OR 16\<rparr> else c);
          c = (if cfg_block rom 4 \<noteq> filter_cmp
               then c\<lparr>LPF_FILTER_2 := load_block (cfg_block rom 4) (LPF_FILTER_2 c),
                      filter_step_enable := filter_step_enable c OR 32\<rparr> else c);
          c = c\<lparr>filter1_shift := cfg_shift rom 0, filter2_shift := cfg_shift rom 1,
                filter3_shift := cfg_shift rom 2, lpf_filter1_shift := cfg_shift rom 3,
                lpf_filter2_shift := cfg_shift rom 4\<rparr>;
          v = rom 0xA0
      in if v \<noteq> 0xff then
           if v AND 0x80 \<noteq> 0 then
             if MANUAL_VOLUMN_SETTINGS < v AND 0x7f then c
             else Audio_VolumeSet (MANUAL_VOLUMN_SETTINGS - (v AND 0x7f)) c
           else
             if unat MANUAL_VOLUMN_SETTINGS + unat v > 0x3f then c
             else Audio_VolumeSet (MANUAL_VOLUMN_SETTINGS + v) c
         else Audio_VolumeSet MANUAL_VOLUMN_SETTINGS c)"

section \<open>The high-pass filter\<close>

definition AUDIO_HPF_SHIFT :: nat where "AUDIO_HPF_SHIFT = 9"

record hpf =
  ps_last :: int
  pd_last :: int

definition hpf_sample :: "int \<Rightarrow> hpf \<Rightarrow> hpf" where
  "hpf_sample x h =
     (let y_ajst = (if pd_last h < 0 then 2 ^ AUDIO_HPF_SHIFT - 1 else 0);
          y = ((x - ps_last h + pd_last h) * 2 ^ AUDIO_HPF_SHIFT - pd_last h + y_ajst) div 2 ^ AUDIO_HPF_SHIFT
      in \<lparr>ps_last = x, pd_last = clamp16 y\<rparr>)"

fun hpf_from :: "int list \<Rightarrow> hpf \<Rightarrow> int list \<times> hpf" where
  "hpf_from [] h = ([], h)"
| "hpf_from (x # xs) h =
     (let h' = hpf_sample x h; (ys, h'') = hpf_from xs h' in (pd_last h' # ys, h''))"

text \<open>The index is a \<open>u16\<close> compared with a \<open>u32\<close>: beyond 65535 samples the loop does not end.\<close>

definition audio_high_pass_filter :: "int list \<Rightarrow> nat \<Rightarrow> hpf \<Rightarrow> (int list \<times> hpf) option" where
  "audio_high_pass_filter ps len h =
     (if len \<le> length ps \<and> len \<le> 65535 then
        let (ys, h') = hpf_from (take len ps) h in Some (ys @ drop len ps, h')
      else None)"

section \<open>Decimation\<close>

function half_from :: "nat \<Rightarrow> nat \<Rightarrow> int list \<Rightarrow> int list option" where
  "half_from i n ps =
     (if i < n then
        (if 2 * i < length ps then half_from (i + 1) n (ps[i := ps ! (2 * i)]) else None)
      else Some ps)"
  by pat_completeness auto
termination by (relation "measure (\<lambda>(i, n, _). n - i)") auto

declare half_from.simps [simp del]

definition audio_getHalfsample_func :: "int list \<Rightarrow> nat \<Rightarrow> int list option" where
  "audio_getHalfsample_func ps len = half_from 0 (len div 2) ps"

section \<open>Noise suppression\<close>

record noise_st =
  md_long :: int
  md_short :: int
  md_im :: int
  md_noise :: bool
  md_gain :: int

definition md_th :: int where "md_th = 384"

text \<open>The three steps on the static variables: averages, decision, gain.\<close>

definition noise_average :: "int \<Rightarrow> noise_st \<Rightarrow> noise_st" where
  "noise_average md n =
     n\<lparr>md_long := (md_long n * 1023 + \<bar>md\<bar>) div 1024,
       md_short := (md_short n * 127 + \<bar>md\<bar>) div 128,
       md_im := (md_im n * 15 + \<bar>md\<bar>) div 16\<rparr>"

definition noise_decide :: "noise_st \<Rightarrow> noise_st" where
  "noise_decide n =
     (if (md_noise n \<and> md_short n > md_th) \<or> md_im n > md_th * 2
      then n\<lparr>md_noise := False, md_long := md_short n * 4\<rparr>
      else if \<not> md_noise n \<and> md_long n < md_th then n\<lparr>md_noise := True\<rparr> else n)"

definition noise_gain :: "noise_st \<Rightarrow> noise_st" where
  "noise_gain n =
     (if md_noise n then (if md_gain n \<noteq> 0 then n\<lparr>md_gain := md_gain n - 1\<rparr> else n)
      else (if md_gain n < 256 then n\<lparr>md_gain := md_gain n + 1\<rparr> else n))"

definition noise_update :: "int \<Rightarrow> noise_st \<Rightarrow> noise_st" where
  "noise_update md n = noise_gain (noise_decide (noise_average md n))"

definition noise_supression :: "int \<Rightarrow> noise_st \<Rightarrow> int \<times> noise_st" where
  "noise_supression md n = (let n' = noise_update md n in ((md * md_gain n' + 128) div 256, n'))"

section \<open>Facts about the filters\<close>

lemma clamp16_range [simp]: "- 32768 \<le> clamp16 s" "clamp16 s \<le> 32767"
  by (simp_all add: clamp16_def)

lemma clamp16_id [simp]: "is_s16 s \<Longrightarrow> clamp16 s = s"
  by (simp add: clamp16_def is_s16_def)

lemma div_pow2_range: "- 32768 \<le> s \<Longrightarrow> s \<le> 32767 \<Longrightarrow> is_s16 (s div 2 ^ k)"
proof (induction k)
  case (Suc k)
  have "s div 2 ^ Suc k = s div 2 ^ k div 2" unfolding power_Suc2 by (rule zdiv_zmult2_eq) simp
  moreover have "- 32768 \<le> s div 2 ^ k" "s div 2 ^ k \<le> 32767" using Suc by (auto simp: is_s16_def)
  ultimately show ?case unfolding is_s16_def by linarith
qed (simp add: is_s16_def)

lemma iir_sample_range: "is_s16 (fst (iir_sample bits shift x coef))"
  by (simp add: iir_sample_def Let_def div_pow2_range)

lemma iir_from_range:
  "\<forall>y \<in> set (fst (iir_from bits shift xs coef)). is_s16 y"
  by (induction xs arbitrary: coef) (auto simp: split_beta iir_sample_range)

lemma iir_from_keeps:
  "9 \<le> length coef \<Longrightarrow> length (fst (iir_from bits shift xs coef)) = length xs \<and>
   take 5 (snd (iir_from bits shift xs coef)) = take 5 coef"
proof (induction bits shift xs coef rule: iir_from.induct)
  case (2 bits shift x xs coef)
  then show ?case
    by (auto simp: iir_sample_def Let_def split_beta)
qed simp

text \<open>With a constant input the high-pass filter moves its output at least one step towards 0.\<close>

lemma hpf_constant:
  assumes "ps_last h = c" "is_s16 (pd_last h)"
  shows "ps_last (hpf_sample c h) = c" "is_s16 (pd_last (hpf_sample c h))"
    "\<bar>pd_last (hpf_sample c h)\<bar> \<le> max 0 (\<bar>pd_last h\<bar> - 1)"
proof -
  let ?y = "pd_last h"
  let ?z = "(?y * 512 - ?y + (if ?y < 0 then 511 else 0)) div 512"
  have z: "(if 0 < ?y then 0 \<le> ?z \<and> ?z \<le> ?y - 1 else if ?y < 0 then ?y + 1 \<le> ?z \<and> ?z \<le> 0 else ?z = 0)"
    by auto
  then have "is_s16 ?z" using assms(2) by (auto simp: is_s16_def split: if_splits)
  then have "clamp16 ?z = ?z" by (rule clamp16_id)
  moreover have "pd_last (hpf_sample c h) = clamp16 ?z"
    using assms(1) by (simp add: hpf_sample_def Let_def AUDIO_HPF_SHIFT_def)
  ultimately have e: "pd_last (hpf_sample c h) = ?z" by (simp only:)
  show "ps_last (hpf_sample c h) = c" by (simp add: hpf_sample_def Let_def)
  show "is_s16 (pd_last (hpf_sample c h))" unfolding e using \<open>is_s16 ?z\<close> .
  show "\<bar>pd_last (hpf_sample c h)\<bar> \<le> max 0 (\<bar>pd_last h\<bar> - 1)"
    unfolding e using z by (auto split: if_splits)
qed

lemma hpf_from_constant:
  "ps_last h = c \<Longrightarrow> is_s16 (pd_last h) \<Longrightarrow> k < n \<Longrightarrow>
   \<bar>fst (hpf_from (replicate n c) h) ! k\<bar> \<le> max 0 (\<bar>pd_last h\<bar> - int k - 1)"
proof (induction n arbitrary: h k)
  case (Suc n)
  note s = hpf_constant [OF Suc.prems(1,2)]
  show ?case
  proof (cases k)
    case 0
    with s(3) show ?thesis by (simp add: Let_def split_beta)
  next
    case (Suc j)
    with Suc.IH [OF s(1,2), of j] Suc.prems(3) s(3) show ?thesis
      by (simp add: Let_def split_beta)
  qed
qed simp

lemma hpf_from_length: "length (fst (hpf_from xs h)) = length xs"
  by (induction xs h rule: hpf_from.induct) (simp_all add: Let_def split_beta)

lemma half_from_spec:
  "i \<le> n \<Longrightarrow> 2 * n \<le> length ps + 1 \<Longrightarrow>
   \<exists>qs. half_from i n ps = Some qs \<and> length qs = length ps \<and>
     (\<forall>k. i \<le> k \<and> k < n \<longrightarrow> qs ! k = ps ! (2 * k)) \<and> (\<forall>k. k < i \<or> n \<le> k \<longrightarrow> qs ! k = ps ! k)"
proof (induction "n - i" arbitrary: i ps)
  case 0
  then show ?case by (simp add: half_from.simps [of i])
next
  case (Suc d)
  let ?ps = "ps[i := ps ! (2 * i)]"
  have i: "i < n" "2 * i < length ps" using Suc.hyps(2) Suc.prems by linarith+
  have d: "d = n - (i + 1)" "i + 1 \<le> n" "2 * n \<le> length ?ps + 1" using Suc.hyps(2) Suc.prems by simp_all
  obtain qs where qs: "half_from (i + 1) n ?ps = Some qs" "length qs = length ?ps"
    "\<forall>k. i + 1 \<le> k \<and> k < n \<longrightarrow> qs ! k = ?ps ! (2 * k)" "\<forall>k. k < i + 1 \<or> n \<le> k \<longrightarrow> qs ! k = ?ps ! k"
    using Suc.hyps(1) [OF d] by blast
  have "half_from i n ps = Some qs" using i qs(1) by (simp add: half_from.simps [of i])
  moreover have "qs ! k = ps ! (2 * k)" if "i \<le> k" "k < n" for k
    using that qs(3,4) i by (cases "k = i") auto
  moreover have "qs ! k = ps ! k" if "k < i \<or> n \<le> k" for k using that qs(4) i by auto
  ultimately show ?case using qs(2) by auto
qed

text \<open>The decimation keeps every second sample, although it works in place.\<close>

lemma half_sample_correct:
  assumes "len \<le> length ps"
  shows "\<exists>qs. audio_getHalfsample_func ps len = Some qs \<and> length qs = length ps \<and>
    take (len div 2) qs = map (\<lambda>k. ps ! (2 * k)) [0..<len div 2]"
proof -
  have "2 * (len div 2) \<le> length ps + 1" using assms by simp
  then obtain qs where "half_from 0 (len div 2) ps = Some qs" "length qs = length ps"
    "\<forall>k. 0 \<le> k \<and> k < len div 2 \<longrightarrow> qs ! k = ps ! (2 * k)"
    using half_from_spec [of 0 "len div 2" ps] assms by auto
  then show ?thesis
    using assms unfolding audio_getHalfsample_func_def
    by (intro exI [of _ qs] conjI nth_equalityI) auto
qed

text \<open>The volume register only ever receives a 6-bit value; an erased page keeps the default filters.\<close>

lemma filter_setting_volume:
  assumes "reg_volume c = None"
  shows "case reg_volume (filter_setting rom c) of None \<Rightarrow> True | Some v \<Rightarrow> unat v \<le> 0x3f"
proof -
  have le: "unat (0x20 - w :: u8) \<le> 0x3f" if "\<not> 0x20 < w" for w :: u8
  proof -
    have "unat (0x20 - w) = unat (0x20 :: u8) - unat w" using that by (intro unat_sub) simp
    then show ?thesis by simp
  qed
  have ge: "unat (0x20 + w :: u8) \<le> 0x3f" if "\<not> 0x3f < 32 + unat w" for w :: u8
    using that by (simp add: unat_word_ariths)
  show ?thesis
    using assms le ge
    by (auto simp: filter_setting_def Let_def Audio_VolumeSet_def MANUAL_VOLUMN_SETTINGS_def)
qed

lemma filter_setting_erased:
  assumes "\<And>a. rom a = 0xff"
  shows "filter_setting rom c =
    c\<lparr>filter1_shift := 0, filter2_shift := 0, filter3_shift := 0, lpf_filter1_shift := 0,
      lpf_filter2_shift := 0, reg_volume := Some 0x20\<rparr>"
proof -
  have "cfg_block rom k = replicate 20 0xff" for k
    by (rule nth_equalityI) (simp_all add: cfg_block_def CBUFFER_SIZE_def assms)
  then show ?thesis
    by (simp add: filter_setting_def Let_def Audio_VolumeSet_def MANUAL_VOLUMN_SETTINGS_def cfg_shift_def assms)
qed

section \<open>Properties\<close>

text \<open>
  C19. The high-pass filter removes a constant offset: whatever its state, on a constant input the
  magnitude of the output falls by at least one per sample, without ever clipping, and reaches
  exactly 0 after at most 32768 samples.
\<close>

theorem high_pass_removes_offset:
  assumes "is_s16 (pd_last h)" and "ps_last h = c" and "k < len" and "len \<le> 65535"
  shows "\<exists>ys h'. audio_high_pass_filter (replicate len c) len h = Some (ys, h') \<and> length ys = len \<and>
    \<bar>ys ! k\<bar> \<le> max 0 (\<bar>pd_last h\<bar> - int k - 1) \<and> (32767 \<le> k \<longrightarrow> ys ! k = 0)"
proof -
  let ?r = "hpf_from (replicate len c) h"
  have b: "\<bar>fst ?r ! k\<bar> \<le> max 0 (\<bar>pd_last h\<bar> - int k - 1)"
    using assms by (intro hpf_from_constant)
  moreover have "\<bar>pd_last h\<bar> \<le> 32768" using assms(1) by (auto simp: is_s16_def)
  ultimately have "32767 \<le> k \<longrightarrow> fst ?r ! k = 0" by auto
  moreover obtain ys h' where "?r = (ys, h')" by (cases ?r)
  moreover from this have "length ys = len" using hpf_from_length [of "replicate len c" h] by simp
  ultimately show ?thesis using b assms(4) by (simp add: audio_high_pass_filter_def)
qed

theorem high_pass_removes_offset_witness:
  "\<exists>ys h'. audio_high_pass_filter (replicate 4 100) 4 \<lparr>ps_last = 100, pd_last = - 3\<rparr> = Some (ys, h') \<and>
    length ys = 4 \<and> ys ! 3 = 0"
proof -
  let ?h = "\<lparr>ps_last = 100, pd_last = - 3\<rparr>"
  have "is_s16 (pd_last ?h)" "ps_last ?h = 100" "(3 :: nat) < 4" "(4 :: nat) \<le> 65535"
    by (simp_all add: is_s16_def)
  from high_pass_removes_offset [OF this] obtain ys h' where
    "audio_high_pass_filter (replicate 4 100) 4 ?h = Some (ys, h')" "length ys = 4"
    "\<bar>ys ! 3\<bar> \<le> max 0 (\<bar>pd_last ?h\<bar> - int 3 - 1)"
    by (elim exE conjE) (rule that)
  moreover from this(3) have "ys ! 3 = 0" by simp
  ultimately show ?thesis by (intro exI conjI)
qed

text \<open>
  C20. The noise suppression is an attenuation: its averages keep their bounds, so that no product
  leaves 32 bits, its gain stays between 0 and 256, and a sample is never made larger nor does it
  change its sign.
\<close>

definition noise_ok :: "noise_st \<Rightarrow> bool" where
  "noise_ok n \<longleftrightarrow> 0 \<le> md_long n \<and> md_long n \<le> 131072 \<and> 0 \<le> md_short n \<and> md_short n \<le> 32768 \<and>
     0 \<le> md_im n \<and> md_im n \<le> 32768 \<and> 0 \<le> md_gain n \<and> md_gain n \<le> 256"

lemma attenuate:
  fixes md g :: int
  assumes "0 \<le> g" "g \<le> 256"
  shows "\<bar>(md * g + 128) div 256\<bar> \<le> \<bar>md\<bar>" "0 \<le> md \<Longrightarrow> 0 \<le> (md * g + 128) div 256"
    "md \<le> 0 \<Longrightarrow> (md * g + 128) div 256 \<le> 0"
proof -
  have p: "0 \<le> md * g \<and> md * g \<le> md * 256" if "0 \<le> md"
    using that assms by (simp add: mult_left_mono)
  have n: "md * 256 \<le> md * g \<and> md * g \<le> 0" if "md \<le> 0"
    using that assms by (simp add: mult_left_mono_neg mult_nonpos_nonneg)
  show "0 \<le> md \<Longrightarrow> 0 \<le> (md * g + 128) div 256" using p by (simp add: pos_imp_zdiv_nonneg_iff)
  show "(md * g + 128) div 256 \<le> 0" if "md \<le> 0"
    using n [OF that] by linarith
  show "\<bar>(md * g + 128) div 256\<bar> \<le> \<bar>md\<bar>"
  proof (cases "0 \<le> md")
    case True
    with p have "(md * g + 128) div 256 \<le> md" "0 \<le> (md * g + 128) div 256" by linarith+
    with True show ?thesis by linarith
  next
    case False
    with n have "md \<le> (md * g + 128) div 256" "(md * g + 128) div 256 \<le> 0" by linarith+
    with False show ?thesis by linarith
  qed
qed

lemma average_range:
  fixes a m :: int
  assumes "0 \<le> a" "a \<le> b" "\<bar>m\<bar> \<le> b" "0 < k"
  shows "0 \<le> (a * (k - 1) + \<bar>m\<bar>) div k" "(a * (k - 1) + \<bar>m\<bar>) div k \<le> b"
proof -
  have "0 \<le> a * (k - 1)" using assms by simp
  then show "0 \<le> (a * (k - 1) + \<bar>m\<bar>) div k" using assms(4) by (simp add: pos_imp_zdiv_nonneg_iff)
  have "a * (k - 1) \<le> b * (k - 1)" using assms by (intro mult_right_mono) simp_all
  then have "a * (k - 1) + \<bar>m\<bar> \<le> b * (k - 1) + b" using assms(3) by linarith
  also have "\<dots> = b * k" by (simp add: algebra_simps)
  finally have "(a * (k - 1) + \<bar>m\<bar>) div k \<le> (b * k) div k" using assms(4) by (rule zdiv_mono1)
  then show "(a * (k - 1) + \<bar>m\<bar>) div k \<le> b" using assms(4) by simp
qed

lemma noise_average_ok:
  assumes "noise_ok n" "is_s16 md"
  shows "noise_ok (noise_average md n)"
proof -
  have "\<bar>md\<bar> \<le> 32768" using assms(2) by (auto simp: is_s16_def)
  then show ?thesis
    using assms(1) average_range [of "md_long n" 131072 md 1024] average_range [of "md_short n" 32768 md 128]
      average_range [of "md_im n" 32768 md 16]
    by (simp add: noise_ok_def noise_average_def)
qed

lemma noise_decide_ok: "noise_ok n \<Longrightarrow> noise_ok (noise_decide n)"
  by (simp add: noise_ok_def noise_decide_def)

lemma noise_gain_ok: "noise_ok n \<Longrightarrow> noise_ok (noise_gain n)"
  by (simp add: noise_ok_def noise_gain_def)

lemma noise_step_ok: "noise_ok n \<Longrightarrow> is_s16 md \<Longrightarrow> noise_ok (noise_update md n)"
  by (simp add: noise_update_def noise_average_ok noise_decide_ok noise_gain_ok)

theorem noise_supression_attenuates:
  assumes "noise_ok n" and "is_s16 md"
  shows "noise_ok (snd (noise_supression md n)) \<and> \<bar>fst (noise_supression md n)\<bar> \<le> \<bar>md\<bar> \<and>
    0 \<le> md * fst (noise_supression md n)"
proof -
  let ?g = "md_gain (snd (noise_supression md n))"
  have f: "fst (noise_supression md n) = (md * ?g + 128) div 256"
    by (simp add: noise_supression_def Let_def)
  have ok: "noise_ok (snd (noise_supression md n))"
    using noise_step_ok [OF assms] by (simp add: noise_supression_def Let_def)
  then have "0 \<le> ?g" "?g \<le> 256" by (simp_all add: noise_ok_def)
  note a = attenuate [OF this, of md]
  have "0 \<le> md * ((md * ?g + 128) div 256)"
  proof (cases "0 \<le> md")
    case True
    with a(2) show ?thesis by (intro mult_nonneg_nonneg)
  next
    case False
    with a(3) show ?thesis by (intro mult_nonpos_nonpos) simp_all
  qed
  with ok a(1) show ?thesis unfolding f by (intro conjI)
qed

theorem noise_supression_attenuates_witness:
  "\<bar>fst (noise_supression (- 500) \<lparr>md_long = 0, md_short = 0, md_im = 0, md_noise = False, md_gain = 200\<rparr>)\<bar> \<le> \<bar>- 500\<bar>"
  by (rule noise_supression_attenuates [THEN conjunct2, THEN conjunct1]) (simp_all add: noise_ok_def is_s16_def)

end
