(* ===== verification/Ring4.thy ===== *)
theory Ring4
  imports Queues
begin

unbundle bit_operations_syntax

text \<open>
  Rings of four slots, the size all rings of the SDK have: the window of the slots that the read pointer
  starts, and the ring with two free-running byte pointers whose writer drops the oldest element of a
  full ring. The key matrices, the waiting reports and the encoded microphone packets are such rings.
\<close>

section \<open>Windows\<close>

text \<open>The slots of the ring in the order they are read, by the read pointer.\<close>

definition ring_from :: "'a list \<Rightarrow> int \<Rightarrow> nat \<Rightarrow> 'a list" where
  "ring_from buf r n = map (\<lambda>k. buf ! nat ((r + int k) mod 4)) [0..<n]"

lemma ring_from_update:
  assumes "length buf = 4" "n < 4" "0 \<le> r"
  shows "ring_from (buf[nat ((r + int n) mod 4) := m]) r n = ring_from buf r n"
proof -
  have "nat ((r + int n) mod 4) \<noteq> nat ((r + int k) mod 4)" if "k < n" for k
  proof -
    have "(r + a) mod 4 \<noteq> (r + b) mod 4" if "0 \<le> b" "b < a" "a < 4" for a b :: int
      using that by presburger
    from this [of "int k" "int n"] have "(r + int n) mod 4 \<noteq> (r + int k) mod 4"
      using that assms(2) by simp
    then show ?thesis by (simp add: eq_nat_nat_iff)
  qed
  then show ?thesis by (simp add: ring_from_def)
qed

lemma ring_from_last:
  "length buf = 4 \<Longrightarrow> ring_from (buf[nat ((r + int n) mod 4) := m]) r (Suc n) =
     ring_from (buf[nat ((r + int n) mod 4) := m]) r n @ [m]"
  by (simp add: ring_from_def)

lemma ring_from_tl: "ring_from buf r (Suc n) = buf ! nat (r mod 4) # ring_from buf (r + 1) n"
  unfolding ring_from_def upt_conv_Cons [OF zero_less_Suc] list.map
  by (simp add: map_Suc_upt [symmetric] comp_def algebra_simps del: upt_Suc)

text \<open>A write into a full ring, seen from the slot behind the oldest.\<close>

lemma ring_from_shift:
  assumes "length buf = 4" "0 \<le> r"
  shows "ring_from (buf[nat ((r + int 4) mod 4) := m]) (r + 1) 4 = tl (ring_from buf r 4) @ [m]"
proof -
  have e: "(r + int 4) mod 4 = (r + 1 + int 3) mod 4" by simp
  have "(3 :: nat) < 4" "0 \<le> r + 1" using assms(2) by simp_all
  then have "ring_from (buf[nat ((r + int 4) mod 4) := m]) (r + 1) (Suc 3) = ring_from buf (r + 1) 3 @ [m]"
    unfolding e by (simp only: ring_from_last [OF assms(1)] ring_from_update [OF assms(1)])
  moreover have "ring_from buf r (Suc 3) = buf ! nat (r mod 4) # ring_from buf (r + 1) 3"
    by (rule ring_from_tl)
  ultimately show ?thesis by (simp add: numeral_eq_Suc)
qed

lemma ring_from_mod8: "ring_from buf (r mod 8) n = ring_from buf r n"
proof -
  have dvd: "(4 :: int) dvd 8" by simp
  have "(r mod 8 + int k) mod 4 = (r + int k) mod 4" for k
    by (metis mod_add_left_eq mod_mod_cancel [OF dvd])
  then show ?thesis by (simp add: ring_from_def)
qed

section \<open>Byte pointers\<close>

lemma u8_and_3: "unat (w AND 3 :: u8) = unat w mod 4"
  using unat_and_mask_mod [of w 2] by (simp add: mask_eq_exp_minus_1)

lemma u8_and_7: "unat (w AND 7 :: u8) = unat w mod 8"
  using unat_and_mask_mod [of w 3] by (simp add: mask_eq_exp_minus_1)

lemma slot_index: "unat ((r + of_nat k) AND 3 :: u8) = (unat r + k) mod 4"
  using unat_u8_add_mod [of 2 r k] by (simp add: u8_and_3)

definition ring4_inv :: "'a list \<Rightarrow> u8 \<Rightarrow> u8 \<Rightarrow> bool" where
  "ring4_inv buf w r \<longleftrightarrow> length buf = 4 \<and> unat (w - r) \<le> 4"

definition ring4_contents :: "'a list \<Rightarrow> u8 \<Rightarrow> u8 \<Rightarrow> 'a list" where
  "ring4_contents buf w r = map (\<lambda>k. buf ! unat ((r + of_nat k) AND 3)) [0..<unat (w - r)]"

lemma ring4_contents_from: "ring4_contents buf w r = ring_from buf (int (unat r)) (unat (w - r))"
proof -
  have "nat ((int (unat r) + int k) mod 4) = unat ((r + of_nat k) AND 3)" for k
    by (simp add: slot_index nat_mod_distrib nat_add_distrib)
  then show ?thesis by (simp add: ring4_contents_def ring_from_def)
qed

lemma unat_succ_mod4: "(int (unat (r + 1 :: u8)) + int j) mod 4 = (int (unat r) + 1 + int j) mod 4"
proof -
  have dvd: "(4 :: int) dvd 256" by simp
  have "int (unat (r + 1)) = (int (unat r) + 1) mod 256"
    by (simp add: unat_word_ariths zmod_int add.commute)
  then show ?thesis by (metis mod_add_left_eq mod_mod_cancel [OF dvd])
qed

lemma ring_from_succ: "ring_from b (int (unat (r + 1 :: u8))) k = ring_from b (int (unat r) + 1) k"
  by (simp only: ring_from_def unat_succ_mod4)

lemma ring4_push:
  assumes "ring4_inv buf w r"
  defines "r' \<equiv> if (w + 1 - r) AND 7 > 4 then r + 1 else r"
  shows "ring4_inv (buf[unat (w AND 3) := a]) (w + 1) r' \<and>
    ring4_contents (buf[unat (w AND 3) := a]) (w + 1) r' =
      (if length (ring4_contents buf w r) < 4 then ring4_contents buf w r @ [a] else tl (ring4_contents buf w r) @ [a])"
proof -
  obtain n where v: "n = unat (w - r)" by simp
  have i: "length buf = 4" "n \<le> 4" using assms by (simp_all add: ring4_inv_def v)
  have wr: "w = r + of_nat n" by (simp add: v)
  have un: "unat (w + 1 - r) = Suc n"
    using unat_plus_one [of "w - r"] i(2) v by (simp add: algebra_simps)
  have idx: "unat (w AND 3) = nat ((int (unat r) + int n) mod 4)"
    by (simp add: wr slot_index nat_mod_distrib nat_add_distrib)
  let ?buf = "buf[nat ((int (unat r) + int n) mod 4) := a]"
  have over: "(w + 1 - r) AND 7 > 4 \<longleftrightarrow> n = 4"
  proof -
    have "unat ((w + 1 - r) AND 7) = Suc n mod 8" by (simp add: u8_and_7 un)
    also have "\<dots> = Suc n" using i(2) by simp
    finally have "unat ((w + 1 - r) AND 7) = Suc n" .
    then show ?thesis using i(2) by (simp add: word_less_nat_alt) linarith
  qed
  have c: "ring4_contents buf w r = ring_from buf (int (unat r)) n" by (simp add: ring4_contents_from v)
  have l: "length (ring4_contents buf w r) = n" by (simp add: c ring_from_def)
  show ?thesis
  proof (cases "n = 4")
    case False
    have "ring4_contents ?buf (w + 1) r = ring_from ?buf (int (unat r)) (Suc n)" by (simp add: ring4_contents_from un)
    also have "\<dots> = ring_from buf (int (unat r)) n @ [a]"
      using False i by (simp only: ring_from_last ring_from_update order_le_neq_trans of_nat_0_le_iff)
    finally show ?thesis using False i l over by (simp add: r'_def idx c ring4_inv_def un)
  next
    case True
    have n4: "unat (w - r) = 4" using True v by simp
    have "ring4_contents ?buf (w + 1) (r + 1) = ring_from ?buf (int (unat r) + 1) 4"
      unfolding ring4_contents_from ring_from_succ using n4 by simp
    also have "\<dots> = tl (ring_from buf (int (unat r)) 4) @ [a]"
      using ring_from_shift [of buf "int (unat r)" a] i True by simp
    finally show ?thesis using True i l over n4 by (simp add: r'_def idx c ring4_inv_def)
  qed
qed

lemma ring4_pop:
  assumes "ring4_inv buf w r" "w \<noteq> r"
  shows "ring4_inv buf w (r + 1) \<and> ring4_contents buf w r = buf ! unat (r AND 3) # ring4_contents buf w (r + 1)"
proof -
  have nz: "w - r \<noteq> 0" using assms(2) by simp
  have e: "w - (r + 1) = w - r - 1" by (simp add: algebra_simps)
  have "unat (w - (r + 1)) = unat (w - r) - 1" unfolding e by (rule unat_minus_one [OF nz])
  moreover have "unat (w - r) \<noteq> 0" using nz by (simp only: unat_eq_zero) simp
  ultimately have n: "unat (w - r) = Suc (unat (w - (r + 1)))" by simp
  have "nat (int (unat r) mod 4) = unat (r AND 3)" by (simp add: u8_and_3 nat_mod_distrib)
  then show ?thesis using assms(1) n
    by (simp only: ring4_inv_def ring4_contents_from n ring_from_tl ring_from_succ) simp
qed

end
