(* ===== verification/Usb_Keycode.thy ===== *)
theory Usb_Keycode
  imports Prelude
begin

text \<open>
  The key codes of \<open>application/usbstd/usbkeycode.h\<close>: the usage ids of the HID keyboard page, the
  codes above it that the key matrix uses for modifiers, system keys and media keys, and the
  bytes the reports carry for the system keys. An enumerator without a value of its own is one
  more than the one before it, as in C.
\<close>

named_theorems vk_codes \<open>the key codes\<close>

definition VK_NONE :: u8 where [vk_codes]: "VK_NONE = 0x0"
definition VK_MSK_CTRL :: u8 where [vk_codes]: "VK_MSK_CTRL = 0x1"
definition VK_MSK_SHIFT :: u8 where [vk_codes]: "VK_MSK_SHIFT = 0x2"
definition VK_MSK_ALT :: u8 where [vk_codes]: "VK_MSK_ALT = 0x4"
definition VK_MSK_WIN :: u8 where [vk_codes]: "VK_MSK_WIN = 0x8"
definition VK_MSK_LCTRL :: u8 where [vk_codes]: "VK_MSK_LCTRL = 0x1"
definition VK_MSK_LSHIFT :: u8 where [vk_codes]: "VK_MSK_LSHIFT = 0x2"
definition VK_MSK_LALT :: u8 where [vk_codes]: "VK_MSK_LALT = 0x4"
definition VK_MSK_LWIN :: u8 where [vk_codes]: "VK_MSK_LWIN = 0x8"
definition VK_MSK_RCTRL :: u8 where [vk_codes]: "VK_MSK_RCTRL = 0x10"
definition VK_MSK_RSHIFT :: u8 where [vk_codes]: "VK_MSK_RSHIFT = 0x20"
definition VK_MSK_RALT :: u8 where [vk_codes]: "VK_MSK_RALT = 0x40"
definition VK_MSK_RWIN :: u8 where [vk_codes]: "VK_MSK_RWIN = 0x80"
definition VK_A :: u8 where [vk_codes]: "VK_A = 0x4"
definition VK_B :: u8 where [vk_codes]: "VK_B = 0x5"
definition VK_C :: u8 where [vk_codes]: "VK_C = 0x6"
definition VK_D :: u8 where [vk_codes]: "VK_D = 0x7"
definition VK_E :: u8 where [vk_codes]: "VK_E = 0x8"
definition VK_F :: u8 where [vk_codes]: "VK_F = 0x9"
definition VK_G :: u8 where [vk_codes]: "VK_G = 0xa"
definition VK_H :: u8 where [vk_codes]: "VK_H = 0xb"
definition VK_I :: u8 where [vk_codes]: "VK_I = 0xc"
definition VK_J :: u8 where [vk_codes]: "VK_J = 0xd"
definition VK_K :: u8 where [vk_codes]: "VK_K = 0xe"
definition VK_L :: u8 where [vk_codes]: "VK_L = 0xf"
definition VK_M :: u8 where [vk_codes]: "VK_M = 0x10"
definition VK_N :: u8 where [vk_codes]: "VK_N = 0x11"
definition VK_O :: u8 where [vk_codes]: "VK_O = 0x12"
definition VK_P :: u8 where [vk_codes]: "VK_P = 0x13"
definition VK_Q :: u8 where [vk_codes]: "VK_Q = 0x14"
definition VK_R :: u8 where [vk_codes]: "VK_R = 0x15"
definition VK_S :: u8 where [vk_codes]: "VK_S = 0x16"
definition VK_T :: u8 where [vk_codes]: "VK_T = 0x17"
definition VK_U :: u8 where [vk_codes]: "VK_U = 0x18"
definition VK_V :: u8 where [vk_codes]: "VK_V = 0x19"
definition VK_W :: u8 where [vk_codes]: "VK_W = 0x1a"
definition VK_X :: u8 where [vk_codes]: "VK_X = 0x1b"
definition VK_Y :: u8 where [vk_codes]: "VK_Y = 0x1c"
definition VK_Z :: u8 where [vk_codes]: "VK_Z = 0x1d"
definition VK_1 :: u8 where [vk_codes]: "VK_1 = 0x1e"
definition VK_2 :: u8 where [vk_codes]: "VK_2 = 0x1f"
definition VK_3 :: u8 where [vk_codes]: "VK_3 = 0x20"
definition VK_4 :: u8 where [vk_codes]: "VK_4 = 0x21"
definition VK_5 :: u8 where [vk_codes]: "VK_5 = 0x22"
definition VK_6 :: u8 where [vk_codes]: "VK_6 = 0x23"
definition VK_7 :: u8 where [vk_codes]: "VK_7 = 0x24"
definition VK_8 :: u8 where [vk_codes]: "VK_8 = 0x25"
definition VK_9 :: u8 where [vk_codes]: "VK_9 = 0x26"
definition VK_0 :: u8 where [vk_codes]: "VK_0 = 0x27"
definition VK_ENTER :: u8 where [vk_codes]: "VK_ENTER = 0x28"
definition VK_ESC :: u8 where [vk_codes]: "VK_ESC = 0x29"
definition VK_BACKSPACE :: u8 where [vk_codes]: "VK_BACKSPACE = 0x2a"
definition VK_TAB :: u8 where [vk_codes]: "VK_TAB = 0x2b"
definition VK_SPACE :: u8 where [vk_codes]: "VK_SPACE = 0x2c"
definition VK_MINUS :: u8 where [vk_codes]: "VK_MINUS = 0x2d"
definition VK_EQUAL :: u8 where [vk_codes]: "VK_EQUAL = 0x2e"
definition VK_LBRACE :: u8 where [vk_codes]: "VK_LBRACE = 0x2f"
definition VK_RBRACE :: u8 where [vk_codes]: "VK_RBRACE = 0x30"
definition VK_BACKSLASH :: u8 where [vk_codes]: "VK_BACKSLASH = 0x31"
definition VK_NUMBER :: u8 where [vk_codes]: "VK_NUMBER = 0x32"
definition VK_SEMICOLON :: u8 where [vk_codes]: "VK_SEMICOLON = 0x33"
definition VK_QUOTE :: u8 where [vk_codes]: "VK_QUOTE = 0x34"
definition VK_TILDE :: u8 where [vk_codes]: "VK_TILDE = 0x35"
definition VK_COMMA :: u8 where [vk_codes]: "VK_COMMA = 0x36"
definition VK_PERIOD :: u8 where [vk_codes]: "VK_PERIOD = 0x37"
definition VK_SLASH :: u8 where [vk_codes]: "VK_SLASH = 0x38"
definition VK_CAPITAL :: u8 where [vk_codes]: "VK_CAPITAL = 0x39"
definition VK_F1 :: u8 where [vk_codes]: "VK_F1 = 0x3a"
definition VK_F2 :: u8 where [vk_codes]: "VK_F2 = 0x3b"
definition VK_F3 :: u8 where [vk_codes]: "VK_F3 = 0x3c"
definition VK_F4 :: u8 where [vk_codes]: "VK_F4 = 0x3d"
definition VK_F5 :: u8 where [vk_codes]: "VK_F5 = 0x3e"
definition VK_F6 :: u8 where [vk_codes]: "VK_F6 = 0x3f"
definition VK_F7 :: u8 where [vk_codes]: "VK_F7 = 0x40"
definition VK_F8 :: u8 where [vk_codes]: "VK_F8 = 0x41"
definition VK_F9 :: u8 where [vk_codes]: "VK_F9 = 0x42"
definition VK_F10 :: u8 where [vk_codes]: "VK_F10 = 0x43"
definition VK_F11 :: u8 where [vk_codes]: "VK_F11 = 0x44"
definition VK_F12 :: u8 where [vk_codes]: "VK_F12 = 0x45"
definition VK_PRINTSCREEN :: u8 where [vk_codes]: "VK_PRINTSCREEN = 0x46"
definition VK_SCR_LOCK :: u8 where [vk_codes]: "VK_SCR_LOCK = 0x47"
definition VK_PAUSE :: u8 where [vk_codes]: "VK_PAUSE = 0x48"
definition VK_INSERT :: u8 where [vk_codes]: "VK_INSERT = 0x49"
definition VK_HOME :: u8 where [vk_codes]: "VK_HOME = 0x4a"
definition VK_PAGE_UP :: u8 where [vk_codes]: "VK_PAGE_UP = 0x4b"
definition VK_DELETE :: u8 where [vk_codes]: "VK_DELETE = 0x4c"
definition VK_END :: u8 where [vk_codes]: "VK_END = 0x4d"
definition VK_PAGE_DOWN :: u8 where [vk_codes]: "VK_PAGE_DOWN = 0x4e"
definition VK_RIGHT :: u8 where [vk_codes]: "VK_RIGHT = 0x4f"
definition VK_LEFT :: u8 where [vk_codes]: "VK_LEFT = 0x50"
definition VK_DOWN :: u8 where [vk_codes]: "VK_DOWN = 0x51"
definition VK_UP :: u8 where [vk_codes]: "VK_UP = 0x52"
definition VK_NUM_LOCK :: u8 where [vk_codes]: "VK_NUM_LOCK = 0x53"
definition VKPAD_SLASH :: u8 where [vk_codes]: "VKPAD_SLASH = 0x54"
definition VKPAD_ASTERIX :: u8 where [vk_codes]: "VKPAD_ASTERIX = 0x55"
definition VKPAD_MINUS :: u8 where [vk_codes]: "VKPAD_MINUS = 0x56"
definition VKPAD_PLUS :: u8 where [vk_codes]: "VKPAD_PLUS = 0x57"
definition VKPAD_ENTER :: u8 where [vk_codes]: "VKPAD_ENTER = 0x58"
definition VKPAD_1 :: u8 where [vk_codes]: "VKPAD_1 = 0x59"
definition VKPAD_2 :: u8 where [vk_codes]: "VKPAD_2 = 0x5a"
definition VKPAD_3 :: u8 where [vk_codes]: "VKPAD_3 = 0x5b"
definition VKPAD_4 :: u8 where [vk_codes]: "VKPAD_4 = 0x5c"
definition VKPAD_5 :: u8 where [vk_codes]: "VKPAD_5 = 0x5d"
definition VKPAD_6 :: u8 where [vk_codes]: "VKPAD_6 = 0x5e"
definition VKPAD_7 :: u8 where [vk_codes]: "VKPAD_7 = 0x5f"
definition VKPAD_8 :: u8 where [vk_codes]: "VKPAD_8 = 0x60"
definition VKPAD_9 :: u8 where [vk_codes]: "VKPAD_9 = 0x61"
definition VKPAD_0 :: u8 where [vk_codes]: "VKPAD_0 = 0x62"
definition VKPAD_PERIOD :: u8 where [vk_codes]: "VKPAD_PERIOD = 0x63"
definition VK_K45 :: u8 where [vk_codes]: "VK_K45 = 0x64"
definition VK_APP :: u8 where [vk_codes]: "VK_APP = 0x65"
definition VK_C9R1 :: u8 where [vk_codes]: "VK_C9R1 = 0xf0"
definition VK_C9R6 :: u8 where [vk_codes]: "VK_C9R6 = 0xf1"
definition VK_RMB :: u8 where [vk_codes]: "VK_RMB = 0xf2"
definition VK_EURO :: u8 where [vk_codes]: "VK_EURO = 0xf3"
definition VK_MMODE :: u8 where [vk_codes]: "VK_MMODE = 0xf4"
definition VK_K107 :: u8 where [vk_codes]: "VK_K107 = 0x85"
definition VK_K56 :: u8 where [vk_codes]: "VK_K56 = 0x87"
definition VK_ROMA :: u8 where [vk_codes]: "VK_ROMA = 0x88"
definition VK_K14 :: u8 where [vk_codes]: "VK_K14 = 0x89"
definition VK_CHG :: u8 where [vk_codes]: "VK_CHG = 0x8a"
definition VK_NCHG :: u8 where [vk_codes]: "VK_NCHG = 0x8b"
definition VK_KCR :: u8 where [vk_codes]: "VK_KCR = 0x90"
definition VK_KCL :: u8 where [vk_codes]: "VK_KCL = 0x91"
definition VK_CTRL :: u8 where [vk_codes]: "VK_CTRL = 0xe0"
definition VK_SHIFT :: u8 where [vk_codes]: "VK_SHIFT = 0xe1"
definition VK_ALT :: u8 where [vk_codes]: "VK_ALT = 0xe2"
definition VK_WIN :: u8 where [vk_codes]: "VK_WIN = 0xe3"
definition VK_RCTRL :: u8 where [vk_codes]: "VK_RCTRL = 0xe4"
definition VK_RSHIFT :: u8 where [vk_codes]: "VK_RSHIFT = 0xe5"
definition VK_RALT :: u8 where [vk_codes]: "VK_RALT = 0xe6"
definition VK_RWIN :: u8 where [vk_codes]: "VK_RWIN = 0xe7"
definition VK_EXT_START :: u8 where [vk_codes]: "VK_EXT_START = 0xa0"
definition VK_SYS_START :: u8 where [vk_codes]: "VK_SYS_START = 0xa0"
definition VK_SLEEP :: u8 where [vk_codes]: "VK_SLEEP = 0xa0"
definition VK_POWER :: u8 where [vk_codes]: "VK_POWER = 0xa1"
definition VK_WAKEUP :: u8 where [vk_codes]: "VK_WAKEUP = 0xa2"
definition VK_SYS_END :: u8 where [vk_codes]: "VK_SYS_END = 0xa3"
definition VK_SYS_CNT :: u8 where [vk_codes]: "VK_SYS_CNT = 0x3"
definition VK_MEDIA_START :: u8 where [vk_codes]: "VK_MEDIA_START = 0xa3"
definition VK_W_SRCH :: u8 where [vk_codes]: "VK_W_SRCH = 0xa3"
definition VK_WEB :: u8 where [vk_codes]: "VK_WEB = 0xa4"
definition VK_W_BACK :: u8 where [vk_codes]: "VK_W_BACK = 0xa5"
definition VK_W_FORWRD :: u8 where [vk_codes]: "VK_W_FORWRD = 0xa6"
definition VK_W_STOP :: u8 where [vk_codes]: "VK_W_STOP = 0xa7"
definition VK_W_REFRESH :: u8 where [vk_codes]: "VK_W_REFRESH = 0xa8"
definition VK_W_FAV :: u8 where [vk_codes]: "VK_W_FAV = 0xa9"
definition VK_MEDIA :: u8 where [vk_codes]: "VK_MEDIA = 0xaa"
definition VK_MAIL :: u8 where [vk_codes]: "VK_MAIL = 0xab"
definition VK_CAL :: u8 where [vk_codes]: "VK_CAL = 0xac"
definition VK_MY_COMP :: u8 where [vk_codes]: "VK_MY_COMP = 0xad"
definition VK_NEXT_TRK :: u8 where [vk_codes]: "VK_NEXT_TRK = 0xae"
definition VK_PREV_TRK :: u8 where [vk_codes]: "VK_PREV_TRK = 0xaf"
definition VK_STOP :: u8 where [vk_codes]: "VK_STOP = 0xb0"
definition VK_PLAY_PAUSE :: u8 where [vk_codes]: "VK_PLAY_PAUSE = 0xb1"
definition VK_W_MUTE :: u8 where [vk_codes]: "VK_W_MUTE = 0xb2"
definition VK_VOL_UP :: u8 where [vk_codes]: "VK_VOL_UP = 0xb3"
definition VK_VOL_DN :: u8 where [vk_codes]: "VK_VOL_DN = 0xb4"
definition VK_MEDIA_END :: u8 where [vk_codes]: "VK_MEDIA_END = 0xb5"
definition VK_EXT_END :: u8 where [vk_codes]: "VK_EXT_END = 0xb5"
definition VK_MEDIA_CNT :: u8 where [vk_codes]: "VK_MEDIA_CNT = 0x12"
definition VK_ZOOM_IN :: u8 where [vk_codes]: "VK_ZOOM_IN = 0xb6"
definition VK_ZOOM_OUT :: u8 where [vk_codes]: "VK_ZOOM_OUT = 0xb7"
definition VK_CH_UP :: u8 where [vk_codes]: "VK_CH_UP = 0xf0"
definition VK_CH_DN :: u8 where [vk_codes]: "VK_CH_DN = 0xf1"
definition VK_FAST_FORWARD :: u8 where [vk_codes]: "VK_FAST_FORWARD = 0xf2"
definition VK_FAST_BACKWARD :: u8 where [vk_codes]: "VK_FAST_BACKWARD = 0xf3"
definition VK_W_SHOPPING :: u8 where [vk_codes]: "VK_W_SHOPPING = 0xf4"
definition VK_W_APP_STORE :: u8 where [vk_codes]: "VK_W_APP_STORE = 0xf5"
definition VK_MY_FAVORIT :: u8 where [vk_codes]: "VK_MY_FAVORIT = 0xf6"
definition VK_MENU :: u8 where [vk_codes]: "VK_MENU = 0xf7"
definition VK_EXIT :: u8 where [vk_codes]: "VK_EXIT = 0xf8"
definition VK_CONFIRM :: u8 where [vk_codes]: "VK_CONFIRM = 0xf9"
definition VK_RETURN :: u8 where [vk_codes]: "VK_RETURN = 0xfa"
definition VK_VOICE_SEARCH :: u8 where [vk_codes]: "VK_VOICE_SEARCH = 0xfb"
definition VK_PROGRAM :: u8 where [vk_codes]: "VK_PROGRAM = 0xfc"
definition VK_LOW_BATT :: u8 where [vk_codes]: "VK_LOW_BATT = 0xfd"
definition VK_TV_PLUS :: u8 where [vk_codes]: "VK_TV_PLUS = 0xfe"
definition VK_TV_MINUS :: u8 where [vk_codes]: "VK_TV_MINUS = 0xff"
definition VK_IN_OUTPUT :: u8 where [vk_codes]: "VK_IN_OUTPUT = 0xef"
definition VK_TV_POWER :: u8 where [vk_codes]: "VK_TV_POWER = 0xee"
definition VK_STB_POWER :: u8 where [vk_codes]: "VK_STB_POWER = 0xed"
definition VK_FN :: u8 where [vk_codes]: "VK_FN = 0xff"
definition VK_POWER_V :: u8 where [vk_codes]: "VK_POWER_V = 0x1"
definition VK_SLEEP_V :: u8 where [vk_codes]: "VK_SLEEP_V = 0x2"
definition VK_WAKEUP_V :: u8 where [vk_codes]: "VK_WAKEUP_V = 0x4"

end
