(* ===== verification/Keyboard.thy ===== *)
theory Keyboard
  imports Ring4 Usb_Keycode
begin

text \<open>
  The key-matrix driver \<open>application/keyboard/keyboard.c\<close> with its default configuration: 8 drive
  lines by 18 scan lines, \<open>KB_LINE_HIGH_VALID\<close>, modifier keys, an FN layer, and neither key repeat
  nor the long-press optimisation. The scan drives one line at a time and reads all GPIO inputs
  into a small cache; what the pins read while a set of drive lines is high is the parameter
  \<open>sense\<close> of the model, and the pin numbers of the scan lines are the parameter \<open>scan_pins\<close>.

  The sections follow the code: key maps, ghost removal, debounce, translation of a matrix into
  a key report, the scan itself, and the ring of scanned matrices. An array index out of range
  is \<^const>\<open>None\<close>.
\<close>

section \<open>Data\<close>

definition KB_RETURN_KEY_MAX :: nat where
  "KB_RETURN_KEY_MAX = 6"

definition KB_NUMLOCK_STATUS_INVALID :: u32 where
  "KB_NUMLOCK_STATUS_INVALID = push_bit 7 1"

definition KB_NUMLOCK_STATUS_POWERON :: u32 where
  "KB_NUMLOCK_STATUS_POWERON = push_bit 15 1"

record kb_data =
  cnt :: u8
  ctrl_key :: u8
  keycode :: "u8 list"

definition kb_is_key_valid :: "kb_data \<Rightarrow> bool" where
  "kb_is_key_valid p \<longleftrightarrow> cnt p \<noteq> 0 \<or> ctrl_key p \<noteq> 0"

definition kb_set_key_invalid :: "kb_data \<Rightarrow> kb_data" where
  "kb_set_key_invalid p = p\<lparr>cnt := 0, ctrl_key := 0\<rparr>"

definition kb_map_normal :: "u8 list list" where
  "kb_map_normal =
    [[VK_PAUSE, VK_POWER, VK_EURO, VK_SLEEP, VK_RCTRL, VK_WAKEUP, VK_CTRL, VK_F5],
     [VK_Q, VK_TAB, VK_A, VK_ESC, VK_Z, VK_NCHG, VK_TILDE, VK_1],
     [VK_W, VK_CAPITAL, VK_S, VK_K45, VK_X, VK_CHG, VK_F1, VK_2],
     [VK_E, VK_F3, VK_D, VK_F4, VK_C, VK_ROMA, VK_F2, VK_3],
     [VK_R, VK_T, VK_F, VK_G, VK_V, VK_B, VK_5, VK_4],
     [VK_U, VK_Y, VK_J, VK_H, VK_M, VK_N, VK_6, VK_7],
     [VK_I, VK_RBRACE, VK_K, VK_F6, VK_COMMA, VK_K56, VK_EQUAL, VK_8],
     [VK_O, VK_F7, VK_L, VK_RMB, VK_PERIOD, VK_APP, VK_F8, VK_9],
     [VK_P, VK_LBRACE, VK_SEMICOLON, VK_QUOTE, VK_BACKSLASH, VK_SLASH, VK_MINUS, VK_0],
     [VK_SCR_LOCK, VK_C9R1, VK_FN, VK_ALT, VK_MMODE, VK_RALT, VK_C9R6, VK_PRINTSCREEN],
     [VK_K14, VK_BACKSPACE, VK_BACKSLASH, VK_F11, VK_ENTER, VK_F12, VK_F9, VK_F10],
     [VK_HOME, VK_LEFT, VK_END, VK_SPACE, VK_NUM_LOCK, VK_DOWN, VK_DELETE, VK_POWER],
     [VK_UP, VK_NONE, VK_DOWN, VK_INSERT, VKPAD_SLASH, VK_RIGHT, VK_INSERT, VK_SLEEP],
     [VK_PAGE_UP, VK_RIGHT, VK_PAGE_DOWN, VKPAD_PERIOD, VKPAD_ASTERIX, VKPAD_MINUS, VK_PAGE_UP, VK_PAGE_DOWN],
     [VKPAD_PLUS, VK_K107, VKPAD_ENTER, VK_UP, VK_PLAY_PAUSE, VK_LEFT, VK_HOME, VK_END],
     [VK_WAKEUP, VK_SHIFT, VK_RSHIFT, VK_VOL_DN, VK_VOL_UP, VK_NEXT_TRK, VK_PREV_TRK, VK_MEDIA],
     [VK_MAIL, VK_WIN, VK_W_FORWRD, VK_W_STOP, VK_W_BACK, VK_W_REFRESH, VK_W_MUTE, VK_W_SRCH],
     [VK_KCL, VK_W_FAV, VK_RWIN, VK_MY_COMP, VK_STOP, VK_CAL, VK_WEB, VK_KCR]]"

definition kb_map_num :: "u8 list list" where
  "kb_map_num =
    [[VK_PAUSE, VK_POWER, VK_EURO, VK_SLEEP, VK_RCTRL, VK_WAKEUP, VK_CTRL, VK_F5],
     [VK_Q, VK_TAB, VK_A, VK_ESC, VK_Z, VK_NCHG, VK_TILDE, VK_1],
     [VK_W, VK_CAPITAL, VK_S, VK_K45, VK_X, VK_CHG, VK_F1, VK_2],
     [VK_E, VK_F3, VK_D, VK_F4, VK_C, VK_ROMA, VK_F2, VK_3],
     [VK_R, VK_T, VK_F, VK_G, VK_V, VK_B, VK_5, VK_4],
     [VK_U, VK_Y, VK_J, VK_H, VK_M, VK_N, VK_6, VK_7],
     [VK_I, VK_RBRACE, VK_K, VK_F6, VK_COMMA, VK_K56, VK_EQUAL, VK_8],
     [VK_O, VK_F7, VK_L, VK_RMB, VK_PERIOD, VK_APP, VK_F8, VK_9],
     [VK_P, VK_LBRACE, VK_SEMICOLON, VK_QUOTE, VK_BACKSLASH, VK_SLASH, VK_MINUS, VK_0],
     [VK_SCR_LOCK, VK_C9R1, VK_FN, VK_ALT, VK_MMODE, VK_RALT, VK_C9R6, VK_PRINTSCREEN],
     [VK_K14, VK_BACKSPACE, VK_BACKSLASH, VK_F11, VK_ENTER, VK_F12, VK_F9, VK_F10],
     [VKPAD_7, VKPAD_4, VKPAD_1, VK_SPACE, VK_NUM_LOCK, VK_DOWN, VK_DELETE, VK_POWER],
     [VKPAD_8, VKPAD_5, VKPAD_2, VKPAD_0, VKPAD_SLASH, VK_RIGHT, VK_INSERT, VK_SLEEP],
     [VKPAD_9, VKPAD_6, VKPAD_3, VKPAD_PERIOD, VKPAD_ASTERIX, VKPAD_MINUS, VK_PAGE_UP, VK_PAGE_DOWN],
     [VKPAD_PLUS, VK_K107, VKPAD_ENTER, VK_UP, VK_PLAY_PAUSE, VK_LEFT, VK_HOME, VK_END],
     [VK_WAKEUP, VK_SHIFT, VK_RSHIFT, VK_VOL_DN, VK_VOL_UP, VK_NEXT_TRK, VK_PREV_TRK, VK_MEDIA],
     [VK_MAIL, VK_WIN, VK_W_FORWRD, VK_W_STOP, VK_W_BACK, VK_W_REFRESH, VK_W_MUTE, VK_W_SRCH],
     [VK_KCL, VK_W_FAV, VK_RWIN, VK_MY_COMP, VK_STOP, VK_CAL, VK_WEB, VK_KCR]]"

definition kb_map_fn :: "u8 list list" where
  "kb_map_fn =
    [[VK_PAUSE, VK_POWER, VK_EURO, VK_SLEEP, VK_RCTRL, VK_WAKEUP, VK_CTRL, VK_F5],
     [VK_Q, VK_TAB, VK_A, VK_ESC, VK_Z, VK_NCHG, VK_TILDE, VK_1],
     [VK_W, VK_CAPITAL, VK_S, VK_K45, VK_X, VK_CHG, VK_F1, VK_2],
     [VK_E, VK_F3, VK_D, VK_F4, VK_C, VK_ROMA, VK_F2, VK_3],
     [VK_R, VK_T, VK_F, VK_G, VK_V, VK_B, VK_5, VK_4],
     [VK_U, VK_Y, VK_J, VK_H, VK_M, VK_N, VK_6, VK_7],
     [VK_I, VK_RBRACE, VK_K, VK_F6, VK_COMMA, VK_K56, VK_EQUAL, VK_8],
     [VK_O, VK_F7, VK_L, VK_RMB, VK_PERIOD, VK_APP, VK_F8, VK_9],
     [VK_P, VK_LBRACE, VK_SEMICOLON, VK_QUOTE, VK_BACKSLASH, VK_SLASH, VK_MINUS, VK_0],
     [VK_SCR_LOCK, VK_C9R1, VK_FN, VK_ALT, VK_MMODE, VK_RALT, VK_C9R6, VK_PRINTSCREEN],
     [VK_K14, VK_BACKSPACE, VK_BACKSLASH, VK_F11, VK_ENTER, VK_F12, VK_F9, VK_F10],
     [VKPAD_7, VKPAD_4, VKPAD_1, VK_SPACE, VK_NUM_LOCK, VK_DOWN, VK_DELETE, VK_POWER],
     [VKPAD_8, VKPAD_5, VKPAD_2, VKPAD_0, VKPAD_SLASH, VK_RIGHT, VK_INSERT, VK_SLEEP],
     [VKPAD_9, VKPAD_6, VKPAD_3, VKPAD_PERIOD, VKPAD_ASTERIX, VKPAD_MINUS, VK_PAGE_UP, VK_PAGE_DOWN],
     [VKPAD_PLUS, VK_K107, VKPAD_ENTER, VK_UP, VK_PLAY_PAUSE, VK_LEFT, VK_HOME, VK_END],
     [VK_WAKEUP, VK_SHIFT, VK_RSHIFT, VK_VOL_DN, VK_VOL_UP, VK_NEXT_TRK, VK_PREV_TRK, VK_MEDIA],
     [VK_MAIL, VK_WIN, VK_W_FORWRD, VK_W_STOP, VK_W_BACK, VK_W_REFRESH, VK_W_MUTE, VK_W_SRCH],
     [VK_KCL, VK_W_FAV, VK_RWIN, VK_MY_COMP, VK_STOP, VK_CAL, VK_WEB, VK_KCR]]"

definition kb_p_map :: "u8 list list list" where
  "kb_p_map = [kb_map_normal, kb_map_num, kb_map_fn, kb_map_fn]"

section \<open>Ghost removal\<close>

definition BIT_IS_POW2 :: "u32 \<Rightarrow> bool" where
  "BIT_IS_POW2 x \<longleftrightarrow> x AND (x - 1) = 0"

text \<open>The scan lines that columns \<open>a\<close> and \<open>b\<close> share, when they can hide a ghost key.\<close>

definition ghost_mix :: "u32 \<Rightarrow> u32 \<Rightarrow> u32" where
  "ghost_mix a b = (let mix = a AND b in
     if mix \<noteq> 0 \<and> (\<not> BIT_IS_POW2 mix \<or> a XOR b \<noteq> 0) then mix else 0)"

fun ghost_row :: "u32 \<Rightarrow> u32 list \<Rightarrow> u32 \<Rightarrow> u32" where
  "ghost_row a [] mix_final = mix_final"
| "ghost_row a (b # bs) mix_final = ghost_row a bs (mix_final OR ghost_mix a b)"

fun rmv_ghost_from :: "u32 \<Rightarrow> u32 list \<Rightarrow> u32 list" where
  "rmv_ghost_from mix_final [] = []"
| "rmv_ghost_from mix_final (a # bs) =
     (let mix' = ghost_row a bs mix_final in (a AND NOT mix') # rmv_ghost_from mix' bs)"

definition kb_rmv_ghost_key :: "u32 list \<Rightarrow> u32 list" where
  "kb_rmv_ghost_key pressed_matrix = rmv_ghost_from 0 pressed_matrix"

section \<open>Debounce\<close>

record kb_state =
  mtrx_pre :: "u32 list"
  mtrx_last :: "u32 list"
  matrix_buff :: "u32 list list"
  matrix_wptr :: int
  matrix_rptr :: int
  release_cnt :: u8
  ret_last :: u32
  scan_pin_need :: u32
  kb_is_fn_pressed :: u8
  kb_k_mp :: "u8 list list"
  kb_event :: kb_data

definition debounce_col :: "bool \<Rightarrow> u32 \<Rightarrow> u32 \<Rightarrow> u32 \<Rightarrow> u32" where
  "debounce_col filt_en tmp pre lst =
     (if filt_en then (NOT lst AND (pre AND tmp)) OR (lst AND (pre OR tmp)) else tmp)"

fun debounce_loop :: "bool \<Rightarrow> u32 list \<Rightarrow> u32 list \<Rightarrow> u32 list \<Rightarrow> u32 list \<times> bool" where
  "debounce_loop filt_en (t # ts) (p # ps) (l # ls) =
     (let c = debounce_col filt_en t p l; (cs, kc) = debounce_loop filt_en ts ps ls
      in (c # cs, c \<noteq> l \<or> kc))"
| "debounce_loop filt_en _ _ _ = ([], False)"

definition key_debounce_filter :: "u32 list \<Rightarrow> bool \<Rightarrow> kb_state \<Rightarrow> u32 list \<times> bool \<times> kb_state" where
  "key_debounce_filter mtrx_cur filt_en st =
     (let (cs, kc) = debounce_loop filt_en mtrx_cur (mtrx_pre st) (mtrx_last st)
      in (cs, kc, st\<lparr>mtrx_pre := mtrx_cur, mtrx_last := cs\<rparr>))"

section \<open>From a matrix to a key report\<close>

definition put_key :: "u8 \<Rightarrow> kb_data \<Rightarrow> kb_data option" where
  "put_key kc d =
     (if unat (cnt d) < length (keycode d)
      then Some (d\<lparr>keycode := (keycode d)[unat (cnt d) := kc], cnt := cnt d + 1\<rparr>) else None)"

definition emit_key :: "u8 \<Rightarrow> kb_data \<Rightarrow> kb_data option" where
  "emit_key kc d =
     (if VK_CTRL \<le> kc \<and> kc \<le> VK_RWIN
      then Some (d\<lparr>ctrl_key := ctrl_key d OR push_bit (unat (kc - VK_CTRL)) 1\<rparr>)
      else if VK_ZOOM_IN = kc \<or> VK_ZOOM_OUT = kc
      then put_key (if VK_ZOOM_IN = kc then VK_EQUAL else VK_MINUS)
             (d\<lparr>ctrl_key := ctrl_key d OR VK_MSK_LCTRL\<rparr>)
      else if kc \<noteq> VK_FN then put_key kc d else Some d)"

function remap_row_from ::
  "u8 list list \<Rightarrow> nat \<Rightarrow> nat \<Rightarrow> u32 \<Rightarrow> nat \<Rightarrow> kb_data \<Rightarrow> kb_data option" where
  "remap_row_from mp drv_ind i m key_max d =
     (if i < 18
      then case (if m AND 1 \<noteq> 0 then emit_key (mp ! i ! drv_ind) d else Some d) of
             None \<Rightarrow> None
           | Some d' \<Rightarrow>
               if m AND 1 \<noteq> 0 \<and> key_max \<le> unat (cnt d') then Some d'
               else if drop_bit 1 m = 0 then Some d'
               else remap_row_from mp drv_ind (Suc i) (drop_bit 1 m) key_max d'
      else Some d)"
  by pat_completeness auto
termination by (relation "measure (\<lambda>(_, _, i, _). 18 - i)") auto

declare remap_row_from.simps [simp del]

definition kb_remap_key_row ::
  "u8 list list \<Rightarrow> nat \<Rightarrow> u32 \<Rightarrow> nat \<Rightarrow> kb_data \<Rightarrow> kb_data option" where
  "kb_remap_key_row mp drv_ind m key_max d = remap_row_from mp drv_ind 0 m key_max d"

fun remap_cols :: "u8 list list \<Rightarrow> nat \<Rightarrow> u32 list \<Rightarrow> nat \<Rightarrow> kb_data \<Rightarrow> kb_data option" where
  "remap_cols mp i [] key_max d = Some d"
| "remap_cols mp i (m # ms) key_max d =
     (if m = 0 then remap_cols mp (Suc i) ms key_max d
      else case kb_remap_key_row mp i m key_max d of
             None \<Rightarrow> None
           | Some d' \<Rightarrow> if key_max \<le> unat (cnt d') then Some d'
                        else remap_cols mp (Suc i) ms key_max d')"

definition key_map_of :: "u32 \<Rightarrow> u8 \<Rightarrow> u8 list list" where
  "key_map_of numlock_status fn = kb_p_map ! unat ((numlock_status AND 1) OR push_bit 1 (ucast fn))"

definition kb_remap_key_code :: "u32 list \<Rightarrow> nat \<Rightarrow> u32 \<Rightarrow> kb_state \<Rightarrow> kb_state option" where
  "kb_remap_key_code pressed_matrix key_max numlock_status st =
     (let mp = key_map_of numlock_status (kb_is_fn_pressed st) in
      map_option (\<lambda>d. st\<lparr>kb_k_mp := mp, kb_event := d\<rparr>)
        (remap_cols mp 0 pressed_matrix key_max (kb_event st)))"

section \<open>The scan\<close>

text \<open>
  A pin is a port number in the high byte and a bit mask in the low byte. \<open>sense ds\<close> is the four
  input bytes the ports show while exactly the drive lines \<open>ds\<close> are high.
\<close>

type_synonym sense = "nat list \<Rightarrow> u8 list"

definition gpio_read_cache :: "u16 \<Rightarrow> u8 list \<Rightarrow> u16" where
  "gpio_read_cache pin p = ucast (p ! unat (drop_bit 8 pin)) AND (pin AND 0xff)"

definition gpio_read_all :: "sense \<Rightarrow> nat list \<Rightarrow> u8 list \<Rightarrow> u8 list" where
  "gpio_read_all sense ds gpio = take 4 (sense ds) @ drop 4 gpio"

fun scan_row_from ::
  "u16 list \<Rightarrow> nat \<Rightarrow> nat \<Rightarrow> u8 list \<Rightarrow> u32 \<times> kb_state \<Rightarrow> u32 \<times> kb_state" where
  "scan_row_from [] j drv_ind gpio (matrix, st) = (matrix, st)"
| "scan_row_from (pin # pins) j drv_ind gpio (matrix, st) =
     scan_row_from pins (Suc j) drv_ind gpio
       (if bit (scan_pin_need st) j \<and> gpio_read_cache pin gpio \<noteq> 0
        then (matrix OR push_bit j 1,
              if kb_k_mp st ! j ! drv_ind = VK_FN then st\<lparr>kb_is_fn_pressed := 1\<rparr> else st)
        else (matrix, st))"

definition kb_scan_row ::
  "sense \<Rightarrow> u16 list \<Rightarrow> nat \<Rightarrow> u8 list \<times> kb_state \<Rightarrow> u32 \<times> u8 list \<times> kb_state" where
  "kb_scan_row sense scan_pins drv_ind = (\<lambda>(gpio, st).
     let (matrix, st') = scan_row_from scan_pins 0 drv_ind gpio (0, st)
     in (matrix, gpio_read_all sense [drv_ind] gpio, st'))"

fun key_pressed_from :: "u16 list \<Rightarrow> nat \<Rightarrow> u8 list \<Rightarrow> u32 \<times> kb_state \<Rightarrow> u32 \<times> kb_state" where
  "key_pressed_from [] i gpio (ret, st) = (ret, st)"
| "key_pressed_from (pin # pins) i gpio (ret, st) =
     key_pressed_from pins (Suc i) gpio
       (if gpio_read_cache pin gpio \<noteq> 0
        then let ret' = ret OR push_bit i 1 in (ret', st\<lparr>release_cnt := 6, ret_last := ret'\<rparr>)
        else (ret, st))"

definition kb_key_pressed ::
  "sense \<Rightarrow> u16 list \<Rightarrow> u8 list \<times> kb_state \<Rightarrow> u32 \<times> u8 list \<times> kb_state" where
  "kb_key_pressed sense scan_pins = (\<lambda>(gpio, st).
     let gpio' = gpio_read_all sense [0..<8] gpio;
         (ret, st1) = key_pressed_from scan_pins 0 gpio' (0, st)
     in if release_cnt st1 \<noteq> 0
        then (ret_last st1, gpio', st1\<lparr>release_cnt := release_cnt st1 - 1\<rparr>)
        else (ret, gpio', st1))"

section \<open>The ring of scanned matrices\<close>

definition matrix_push :: "u32 list \<Rightarrow> kb_state \<Rightarrow> kb_state" where
  "matrix_push pressed st =
     (let w = (matrix_wptr st + 1) AND 7;
          st1 = st\<lparr>matrix_buff := (matrix_buff st)[nat (matrix_wptr st AND 3) := pressed],
                   matrix_wptr := w\<rparr>
      in if (w - matrix_rptr st) AND 7 > 4 then st1\<lparr>matrix_rptr := (w - 4) AND 7\<rparr> else st1)"

fun scan_rows ::
  "sense \<Rightarrow> u16 list \<Rightarrow> nat list \<Rightarrow> u8 list \<times> kb_state \<Rightarrow> u32 list \<times> u8 list \<times> kb_state" where
  "scan_rows sense scan_pins [] (gpio, st) = ([], gpio, st)"
| "scan_rows sense scan_pins (i # is) (gpio, st) =
     (let (r, gpio1, st1) = kb_scan_row sense scan_pins i (gpio, st);
          (rs, gpio2, st2) = scan_rows sense scan_pins is (gpio1, st1)
      in (r # rs, gpio2, st2))"

text \<open>
  One round: line 0, then lines 0 to 7 and 0 again; a call returns what the line driven by the
  call before it showed, so the results of the first two calls are dropped.
\<close>

definition kb_scan_matrix ::
  "sense \<Rightarrow> u16 list \<Rightarrow> u8 list \<times> kb_state \<Rightarrow> u32 list \<times> u8 list \<times> kb_state" where
  "kb_scan_matrix sense scan_pins = (\<lambda>(gpio, st).
     let (rs, gpio', st') = scan_rows sense scan_pins (0 # [0..<8] @ [0])
           (gpio, st\<lparr>kb_event := (kb_event st)\<lparr>cnt := 0, ctrl_key := 0\<rparr>,
                     kb_is_fn_pressed := 0, kb_k_mp := kb_p_map ! 0\<rparr>)
     in (drop 2 rs, gpio', st'))"

definition kb_report_round :: "u32 list \<Rightarrow> bool \<Rightarrow> u32 \<Rightarrow> bool \<Rightarrow> kb_state \<Rightarrow> (u32 \<times> kb_state) option" where
  "kb_report_round pressed key_changed numlock_status read_key st =
     (let st1 = (if key_changed then matrix_push pressed st else st) in
      if numlock_status AND KB_NUMLOCK_STATUS_INVALID \<noteq> 0 then Some (1, st1)
      else if matrix_wptr st1 = matrix_rptr st1 \<or> \<not> read_key then Some (0, st1)
      else map_option (Pair 1)
             (kb_remap_key_code (matrix_buff st1 ! nat (matrix_rptr st1 AND 3)) KB_RETURN_KEY_MAX
                numlock_status (st1\<lparr>matrix_rptr := (matrix_rptr st1 + 1) AND 7\<rparr>)))"

definition kb_scan_key_value ::
  "sense \<Rightarrow> u16 list \<Rightarrow> u32 \<Rightarrow> bool \<Rightarrow> u8 list \<times> kb_state \<Rightarrow> (u32 \<times> kb_state) option" where
  "kb_scan_key_value sense scan_pins numlock_status read_key = (\<lambda>(gpio, st).
     let (pressed, gpio', st1) = kb_scan_matrix sense scan_pins (gpio, st);
         (cur, key_changed, st2) =
           key_debounce_filter pressed (numlock_status AND KB_NUMLOCK_STATUS_POWERON = 0) st1
     in kb_report_round cur key_changed numlock_status read_key st2)"

definition kb_scan_key ::
  "sense \<Rightarrow> u16 list \<Rightarrow> u32 \<Rightarrow> bool \<Rightarrow> u8 list \<Rightarrow> kb_state \<Rightarrow> (u32 \<times> kb_state) option" where
  "kb_scan_key sense scan_pins numlock_status read_key gpio st =
     (let (need, gpio', st1) = kb_key_pressed sense scan_pins (gpio, st);
          st2 = st1\<lparr>scan_pin_need := need\<rparr>
      in if need \<noteq> 0 then kb_scan_key_value sense scan_pins numlock_status read_key (gpio', st2)
         else Some (0, st2))"

section \<open>Properties of the ghost removal\<close>

lemma bit_minus_one_above:
  fixes x :: "'a::len word"
  assumes "bit x s" "s < t"
  shows "bit (x - 1) t \<longleftrightarrow> bit x t"
proof -
  have "bit (take_bit t x) s" using assms by (simp add: bit_take_bit_iff)
  then have "take_bit t x \<noteq> 0" by auto
  then have "unat (take_bit t x) \<noteq> 0" by (metis unat_eq_zero)
  then have r: "unat x mod 2 ^ t \<noteq> 0" unfolding unsigned_take_bit_eq take_bit_nat_def .
  have "x \<noteq> 0" using assms by auto
  then have u: "unat (x - 1) = unat x - 1" by (rule unat_minus_one)
  have "(unat x - 1) div 2 ^ t = unat x div 2 ^ t"
  proof -
    obtain q r' where q: "unat x = q * 2 ^ t + r'" "r' < 2 ^ t"
      by (metis div_mod_decomp mod_less_divisor zero_less_numeral zero_less_power)
    with r have "0 < r'" by auto
    then have "unat x - 1 = q * 2 ^ t + (r' - 1)" "r' - 1 < 2 ^ t" using q by auto
    then show ?thesis using q by simp
  qed
  then have "bit (unat (x - 1)) t \<longleftrightarrow> bit (unat x) t" by (simp only: bit_iff_odd u)
  then show ?thesis by (simp add: bit_unsigned_iff)
qed

lemma two_bits_not_pow2:
  assumes "bit x s" "bit x t" "s \<noteq> t"
  shows "\<not> BIT_IS_POW2 x"
proof -
  have *: "\<not> BIT_IS_POW2 x" if "bit x a" "bit x b" "a < b" for a b
  proof -
    have b: "bit (x AND (x - 1)) b" using that bit_minus_one_above [of x a b] by (simp add: bit_and_iff)
    show ?thesis
    proof
      assume "BIT_IS_POW2 x"
      then have "x AND (x - 1) = 0" by (simp add: BIT_IS_POW2_def)
      with b show False by (simp only: bit_0_eq bot_fun_def bot_bool_def)
    qed
  qed
  show ?thesis using * [of s t] * [of t s] assms by (cases "s < t") simp_all
qed

lemma ghost_row_bit:
  "bit (ghost_row a bs m) n \<longleftrightarrow> bit m n \<or> (\<exists>b \<in> set bs. bit (ghost_mix a b) n)"
  by (induction bs arbitrary: m) (auto simp: bit_or_iff)

lemma rmv_ghost_length [simp]: "length (rmv_ghost_from m xs) = length xs"
  by (induction m xs rule: rmv_ghost_from.induct) (simp_all add: Let_def)

lemma rmv_ghost_bit:
  "i < length xs \<Longrightarrow> bit (rmv_ghost_from m xs ! i) n \<longleftrightarrow>
     bit (xs ! i) n \<and> \<not> bit m n \<and>
     \<not> (\<exists>a b. a \<le> i \<and> a < b \<and> b < length xs \<and> bit (ghost_mix (xs ! a) (xs ! b)) n)"
proof (induction m xs arbitrary: i rule: rmv_ghost_from.induct)
  case (1 m)
  then show ?case by simp
next
  case (2 m x xs)
  let ?m = "ghost_row x xs m"
  have m: "bit ?m n \<longleftrightarrow> bit m n \<or> (\<exists>b < length xs. bit (ghost_mix x (xs ! b)) n)"
    by (simp add: ghost_row_bit) (metis in_set_conv_nth)
  show ?case
  proof (cases i)
    case 0
    then show ?thesis
      by (auto simp: Let_def bit_and_iff bit_not_iff m dest: bit_imp_le_length)
  next
    case (Suc k)
    have IH: "bit (rmv_ghost_from ?m xs ! k) n \<longleftrightarrow>
      bit (xs ! k) n \<and> \<not> bit ?m n \<and>
      \<not> (\<exists>a b. a \<le> k \<and> a < b \<and> b < length xs \<and> bit (ghost_mix (xs ! a) (xs ! b)) n)"
      using "2.IH" [OF refl, of k] "2.prems" Suc by simp
    have split: "(\<exists>a b. a \<le> Suc k \<and> a < b \<and> b < Suc (length xs) \<and>
        bit (ghost_mix ((x # xs) ! a) ((x # xs) ! b)) n) \<longleftrightarrow>
      (\<exists>b < length xs. bit (ghost_mix x (xs ! b)) n) \<or>
      (\<exists>a b. a \<le> k \<and> a < b \<and> b < length xs \<and> bit (ghost_mix (xs ! a) (xs ! b)) n)"
      (is "?L \<longleftrightarrow> ?A \<or> ?B")
    proof
      assume ?L
      then obtain a b where ab: "a \<le> Suc k" "a < b" "b < Suc (length xs)"
        "bit (ghost_mix ((x # xs) ! a) ((x # xs) ! b)) n" by blast
      then obtain b' where b': "b = Suc b'" by (cases b) auto
      show "?A \<or> ?B"
      proof (cases a)
        case 0
        then show ?thesis using ab b' by auto
      next
        case (Suc a')
        then have "a' \<le> k \<and> a' < b' \<and> b' < length xs \<and> bit (ghost_mix (xs ! a') (xs ! b')) n"
          using ab b' by simp
        then show ?thesis by blast
      qed
    next
      assume "?A \<or> ?B"
      then show ?L
      proof
        assume ?A
        then obtain b where "b < length xs" "bit (ghost_mix x (xs ! b)) n" by blast
        then show ?L by (intro exI [of _ 0] exI [of _ "Suc b"]) simp
      next
        assume ?B
        then obtain a b where "a \<le> k" "a < b" "b < length xs" "bit (ghost_mix (xs ! a) (xs ! b)) n"
          by blast
        then show ?L by (intro exI [of _ "Suc a"] exI [of _ "Suc b"]) simp
      qed
    qed
    have "bit (rmv_ghost_from m (x # xs) ! i) n \<longleftrightarrow> bit (rmv_ghost_from ?m xs ! k) n"
      using Suc by (simp add: Let_def)
    then show ?thesis unfolding IH m Suc nth_Cons_Suc [of x xs k] list.size add.right_neutral add_Suc_right split
      by blast
  qed
qed

lemma kb_rmv_ghost_key_bit:
  "i < length xs \<Longrightarrow> bit (kb_rmv_ghost_key xs ! i) n \<longleftrightarrow> bit (xs ! i) n \<and>
     \<not> (\<exists>a b. a \<le> i \<and> a < b \<and> b < length xs \<and> bit (ghost_mix (xs ! a) (xs ! b)) n)"
  by (simp add: kb_rmv_ghost_key_def rmv_ghost_bit)

text \<open>
  C24. Ghost removal: afterwards no two columns share two pressed scan lines, so no rectangle of
  the matrix, whose fourth corner could be a phantom key, is left; and no key is added.
\<close>
theorem ghost_removal_leaves_no_rectangle:
  assumes "i < j" "j < length xs" "s \<noteq> t"
  shows "\<not> (bit (kb_rmv_ghost_key xs ! i) s \<and> bit (kb_rmv_ghost_key xs ! i) t \<and>
            bit (kb_rmv_ghost_key xs ! j) s \<and> bit (kb_rmv_ghost_key xs ! j) t) \<and>
         kb_rmv_ghost_key xs ! j AND NOT (xs ! j) = 0"
proof
  show "\<not> (bit (kb_rmv_ghost_key xs ! i) s \<and> bit (kb_rmv_ghost_key xs ! i) t \<and>
            bit (kb_rmv_ghost_key xs ! j) s \<and> bit (kb_rmv_ghost_key xs ! j) t)"
  proof
    assume all: "bit (kb_rmv_ghost_key xs ! i) s \<and> bit (kb_rmv_ghost_key xs ! i) t \<and>
            bit (kb_rmv_ghost_key xs ! j) s \<and> bit (kb_rmv_ghost_key xs ! j) t"
    let ?mix = "xs ! i AND xs ! j"
    have st: "bit ?mix s" "bit ?mix t"
      using all assms by (auto simp: kb_rmv_ghost_key_bit bit_and_iff)
    then have "\<not> BIT_IS_POW2 ?mix" using assms(3) by (rule two_bits_not_pow2)
    moreover have "?mix \<noteq> 0" using st by auto
    ultimately have "ghost_mix (xs ! i) (xs ! j) = ?mix" by (simp add: ghost_mix_def)
    then have "bit (ghost_mix (xs ! i) (xs ! j)) s" using st by simp
    then have "\<not> bit (kb_rmv_ghost_key xs ! i) s"
      using assms by (auto simp: kb_rmv_ghost_key_bit)
    with all show False by simp
  qed
  show "kb_rmv_ghost_key xs ! j AND NOT (xs ! j) = 0"
    by (rule bit_word_eqI) (use assms in \<open>auto simp: bit_and_iff bit_not_iff kb_rmv_ghost_key_bit\<close>)
qed

lemma ghost_removal_leaves_no_rectangle_witness:
  "\<not> (bit (kb_rmv_ghost_key [3, 3, 4, 0, 0, 0, 0, 0] ! 0) 0 \<and> bit (kb_rmv_ghost_key [3, 3, 4, 0, 0, 0, 0, 0] ! 0) 1 \<and>
      bit (kb_rmv_ghost_key [3, 3, 4, 0, 0, 0, 0, 0] ! 1) 0 \<and> bit (kb_rmv_ghost_key [3, 3, 4, 0, 0, 0, 0, 0] ! 1) 1) \<and>
   kb_rmv_ghost_key [3, 3, 4, 0, 0, 0, 0, 0] ! 1 AND NOT ([3, 3, 4, 0, 0, 0, 0, 0] ! 1) = 0"
  by (rule ghost_removal_leaves_no_rectangle) simp_all

section \<open>Properties of the debounce\<close>

lemma debounce_col_bit:
  "n < 32 \<Longrightarrow> bit (debounce_col True t p l) n \<longleftrightarrow> (if bit t n = bit p n then bit t n else bit l n)"
  by (auto simp: debounce_col_def bit_simps)

lemma debounce_loop_cols:
  "length ps = length ts \<Longrightarrow> length ls = length ts \<Longrightarrow>
   length (fst (debounce_loop f ts ps ls)) = length ts \<and>
   (\<forall>i < length ts. fst (debounce_loop f ts ps ls) ! i = debounce_col f (ts ! i) (ps ! i) (ls ! i)) \<and>
   snd (debounce_loop f ts ps ls) = (fst (debounce_loop f ts ps ls) \<noteq> ls)"
proof (induction f ts ps ls rule: debounce_loop.induct)
  case (1 f t ts p ps l ls)
  then show ?case by (auto simp: split_beta Let_def nth_Cons' less_Suc_eq_0_disj)
qed auto

definition debounce_run :: "u32 list list \<Rightarrow> kb_state \<Rightarrow> kb_state" where
  "debounce_run ms st = fold (\<lambda>m s. snd (snd (key_debounce_filter m True s))) ms st"

text \<open>What a debounced line is: the last value that two samples in a row agreed on.\<close>

fun last_stable :: "bool \<Rightarrow> bool \<Rightarrow> bool list \<Rightarrow> bool" where
  "last_stable prev rep [] = rep"
| "last_stable prev rep (b # bs) = last_stable b (if b = prev then b else rep) bs"

text \<open>
  C23. Debounce: over any sequence of raw matrices, what the filter reports for a key is the last
  value that two consecutive samples agreed on; a bouncing contact never changes the report.
\<close>
theorem debounce_reports_last_stable:
  assumes "\<forall>m \<in> set ms. length m = 8" "length (mtrx_pre st) = 8" "length (mtrx_last st) = 8"
    and "i < 8" "n < 32"
  shows "bit (mtrx_last (debounce_run ms st) ! i) n =
         last_stable (bit (mtrx_pre st ! i) n) (bit (mtrx_last st ! i) n) (map (\<lambda>m. bit (m ! i) n) ms)"
  using assms(1,2,3)
proof (induction ms arbitrary: st)
  case Nil
  then show ?case by (simp add: debounce_run_def)
next
  case (Cons m ms)
  let ?st = "snd (snd (key_debounce_filter m True st))"
  have l: "length m = 8" using Cons.prems by simp
  have e: "mtrx_pre ?st = m" "mtrx_last ?st = fst (debounce_loop True m (mtrx_pre st) (mtrx_last st))"
    by (simp_all add: key_debounce_filter_def split_beta Let_def)
  have c: "length (mtrx_last ?st) = 8"
    "mtrx_last ?st ! i = debounce_col True (m ! i) (mtrx_pre st ! i) (mtrx_last st ! i)"
    using debounce_loop_cols [of "mtrx_pre st" m "mtrx_last st" True] Cons.prems l assms(4)
    by (auto simp: e)
  have "debounce_run (m # ms) st = debounce_run ms ?st" by (simp add: debounce_run_def)
  with Cons.IH [of ?st] Cons.prems l c e show ?case
    by (simp add: debounce_col_bit assms(5))
qed

section \<open>Properties of the translation\<close>

text \<open>What one matrix position contributes to the report: modifier bits, and at most one key.\<close>

definition code_mods :: "u8 \<Rightarrow> u8" where
  "code_mods c = (if VK_CTRL \<le> c \<and> c \<le> VK_RWIN then push_bit (unat (c - VK_CTRL)) 1
     else if c = VK_ZOOM_IN \<or> c = VK_ZOOM_OUT then VK_MSK_LCTRL else 0)"

definition code_keys :: "u8 \<Rightarrow> u8 list" where
  "code_keys c = (if VK_CTRL \<le> c \<and> c \<le> VK_RWIN then []
     else if c = VK_ZOOM_IN then [VK_EQUAL] else if c = VK_ZOOM_OUT then [VK_MINUS]
     else if c = VK_FN then [] else [c])"

text \<open>The codes of the pressed positions, column by column, low scan line first.\<close>

definition row_codes :: "u8 list list \<Rightarrow> nat \<Rightarrow> u32 \<Rightarrow> u8 list" where
  "row_codes mp i m = map (\<lambda>s. mp ! s ! i) (filter (bit m) [0..<18])"

fun pressed_codes :: "u8 list list \<Rightarrow> nat \<Rightarrow> u32 list \<Rightarrow> u8 list" where
  "pressed_codes mp i [] = []"
| "pressed_codes mp i (m # ms) = row_codes mp i m @ pressed_codes mp (Suc i) ms"

fun emit_until :: "nat \<Rightarrow> u8 list \<Rightarrow> kb_data \<Rightarrow> kb_data option" where
  "emit_until key_max [] d = Some d"
| "emit_until key_max (c # cs) d =
     (case emit_key c d of None \<Rightarrow> None
      | Some d' \<Rightarrow> if key_max \<le> unat (cnt d') then Some d' else emit_until key_max cs d')"

lemma remap_row_from_emit:
  "i \<le> 18 \<Longrightarrow> remap_row_from mp drv i m km d =
     emit_until km (map (\<lambda>s. mp ! s ! drv) (filter (\<lambda>s. bit m (s - i)) [i..<18])) d"
proof (induction mp drv i m km d rule: remap_row_from.induct)
  case (1 mp drv i m km d)
  show ?case
  proof (cases "i < 18")
    case False
    with "1.prems" have "i = 18" by simp
    then show ?thesis by (simp add: remap_row_from.simps)
  next
    case True
    have up: "[i..<18] = i # [Suc i..<18]" using True by (rule upt_conv_Cons)
    have sh: "filter (\<lambda>s. bit (drop_bit 1 m) (s - Suc i)) [Suc i..<18] = filter (\<lambda>s. bit m (s - i)) [Suc i..<18]"
      by (rule filter_cong) (auto simp: bit_drop_bit_eq Suc_diff_Suc Suc_le_eq)
    have b0: "m AND 1 \<noteq> 0 \<longleftrightarrow> bit m 0" by (simp add: bit_0 and_one_eq odd_iff_mod_2_eq_one)
    have z: "drop_bit 1 m = 0 \<Longrightarrow> filter (\<lambda>s. bit m (s - i)) [Suc i..<18] = []"
      by (simp flip: sh)
    have IH: "remap_row_from mp drv (Suc i) (drop_bit 1 m) km d' =
        emit_until km (map (\<lambda>s. mp ! s ! drv) (filter (\<lambda>s. bit m (s - i)) [Suc i..<18])) d'"
      if "(if m AND 1 \<noteq> 0 then emit_key (mp ! i ! drv) d else Some d) = Some d'"
        "\<not> (m AND 1 \<noteq> 0 \<and> km \<le> unat (cnt d'))" "drop_bit 1 m \<noteq> 0" for d'
      using "1.IH" [OF True that] True by (simp only: sh)
    show ?thesis
    proof (cases "bit m 0")
      case nb: False
      then have nb': "m AND 1 = 0" using b0 by blast
      show ?thesis
      proof (cases "drop_bit 1 m = 0")
        case True
        then show ?thesis using \<open>i < 18\<close> nb nb' z
          by (subst remap_row_from.simps) (simp add: up)
      next
        case False
        then show ?thesis using \<open>i < 18\<close> nb nb' IH [of d]
          by (subst remap_row_from.simps) (simp add: up)
      qed
    next
      case yb: True
      then have yb': "m AND 1 \<noteq> 0" using b0 by blast
      show ?thesis
      proof (cases "emit_key (mp ! i ! drv) d")
        case None
        then show ?thesis using True yb yb' by (subst remap_row_from.simps) (simp add: up)
      next
        case (Some d')
        show ?thesis
        proof (cases "drop_bit 1 m = 0")
          case dz: True
          then show ?thesis using True yb yb' Some z [OF dz]
            by (subst remap_row_from.simps) (simp add: up)
        next
          case dz: False
          then show ?thesis using True yb yb' Some IH [of d']
            by (subst remap_row_from.simps) (simp add: up)
        qed
      qed
    qed
  qed
qed

lemma emit_until_append:
  "unat (cnt d) < km \<Longrightarrow> emit_until km (xs @ ys) d =
     (case emit_until km xs d of None \<Rightarrow> None
      | Some d' \<Rightarrow> if km \<le> unat (cnt d') then Some d' else emit_until km ys d')"
  by (induction xs arbitrary: d) (auto split: option.split)

lemma remap_cols_emit:
  "unat (cnt d) < km \<Longrightarrow> remap_cols mp i ms km d = emit_until km (pressed_codes mp i ms) d"
proof (induction ms arbitrary: i d)
  case Nil
  then show ?case by simp
next
  case (Cons m ms)
  have row: "kb_remap_key_row mp i m km d = emit_until km (row_codes mp i m) d"
    using remap_row_from_emit [of 0 mp i m km d] by (simp add: kb_remap_key_row_def row_codes_def)
  have z: "m = 0 \<Longrightarrow> row_codes mp i m = []" by (simp add: row_codes_def)
  show ?case
    using Cons.prems Cons.IH z by (auto simp: row emit_until_append split: option.split)
qed

lemma put_key_ok:
  assumes "unat (cnt d) < length (keycode d)" "length (keycode d) = 6"
  shows "\<exists>d'. put_key k d = Some d' \<and> unat (cnt d') = Suc (unat (cnt d)) \<and> length (keycode d') = 6 \<and>
     ctrl_key d' = ctrl_key d \<and>
     take (unat (cnt d')) (keycode d') = take (unat (cnt d)) (keycode d) @ [k]"
proof -
  have "unat (cnt d + 1) = Suc (unat (cnt d))"
    using unat_plus_one [of "cnt d"] assms by simp
  with assms show ?thesis by (simp add: put_key_def take_Suc_conv_app_nth)
qed

lemma emit_key_ok:
  assumes "unat (cnt d) < 6" "length (keycode d) = 6"
  shows "\<exists>d'. emit_key c d = Some d' \<and> length (keycode d') = 6 \<and>
     ctrl_key d' = ctrl_key d OR code_mods c \<and>
     unat (cnt d') = unat (cnt d) + length (code_keys c) \<and>
     take (unat (cnt d')) (keycode d') = take (unat (cnt d)) (keycode d) @ code_keys c"
proof -
  consider (mod) "VK_CTRL \<le> c \<and> c \<le> VK_RWIN"
    | (zin) "\<not> (VK_CTRL \<le> c \<and> c \<le> VK_RWIN)" "c = VK_ZOOM_IN"
    | (zout) "\<not> (VK_CTRL \<le> c \<and> c \<le> VK_RWIN)" "c \<noteq> VK_ZOOM_IN" "c = VK_ZOOM_OUT"
    | (fn) "\<not> (VK_CTRL \<le> c \<and> c \<le> VK_RWIN)" "c \<noteq> VK_ZOOM_IN" "c \<noteq> VK_ZOOM_OUT" "c = VK_FN"
    | (key) "\<not> (VK_CTRL \<le> c \<and> c \<le> VK_RWIN)" "c \<noteq> VK_ZOOM_IN" "c \<noteq> VK_ZOOM_OUT" "c \<noteq> VK_FN"
    by blast
  then show ?thesis
  proof cases
    case mod
    then show ?thesis using assms by (simp add: emit_key_def code_mods_def code_keys_def)
  next
    case zin
    have "emit_key c d = put_key VK_EQUAL (d\<lparr>ctrl_key := ctrl_key d OR VK_MSK_LCTRL\<rparr>)"
      unfolding emit_key_def using zin by (simp only: simp_thms if_True if_False)
    then show ?thesis using put_key_ok [of "d\<lparr>ctrl_key := ctrl_key d OR VK_MSK_LCTRL\<rparr>" VK_EQUAL] assms zin
      by (auto simp: code_mods_def code_keys_def)
  next
    case zout
    have "emit_key c d = put_key VK_MINUS (d\<lparr>ctrl_key := ctrl_key d OR VK_MSK_LCTRL\<rparr>)"
      unfolding emit_key_def using zout by (auto simp: vk_codes)
    then show ?thesis using put_key_ok [of "d\<lparr>ctrl_key := ctrl_key d OR VK_MSK_LCTRL\<rparr>" VK_MINUS] assms zout
      by (auto simp: code_mods_def code_keys_def)
  next
    case fn
    then show ?thesis using assms by (auto simp: emit_key_def code_mods_def code_keys_def)
  next
    case key
    have "emit_key c d = put_key c d" using key by (auto simp: emit_key_def)
    then show ?thesis using put_key_ok [of d c] assms key by (auto simp: code_mods_def code_keys_def)
  qed
qed

lemma length_code_keys: "length (code_keys c) \<le> 1"
  by (simp add: code_keys_def)

lemma emit_until_ok:
  "unat (cnt d) < km \<Longrightarrow> km \<le> 6 \<Longrightarrow> length (keycode d) = 6 \<Longrightarrow>
   \<exists>d'. emit_until km cs d = Some d' \<and> length (keycode d') = 6 \<and>
     unat (cnt d') = min km (unat (cnt d) + length (concat (map code_keys cs))) \<and>
     take (unat (cnt d')) (keycode d') =
       take km (take (unat (cnt d)) (keycode d) @ concat (map code_keys cs)) \<and>
     (unat (cnt d) + length (concat (map code_keys cs)) < km \<longrightarrow>
       ctrl_key d' = fold (\<lambda>c m. m OR code_mods c) cs (ctrl_key d))"
proof (induction cs arbitrary: d)
  case Nil
  then show ?case by simp
next
  case (Cons c cs)
  obtain d1 where d1: "emit_key c d = Some d1" "length (keycode d1) = 6"
    "ctrl_key d1 = ctrl_key d OR code_mods c"
    "unat (cnt d1) = unat (cnt d) + length (code_keys c)"
    "take (unat (cnt d1)) (keycode d1) = take (unat (cnt d)) (keycode d) @ code_keys c"
    using emit_key_ok [of d c] Cons.prems by auto
  show ?case
  proof (cases "km \<le> unat (cnt d1)")
    case True
    then have e: "unat (cnt d1) = km" using d1(4) Cons.prems(1) length_code_keys [of c] by linarith
    have "take km (take (unat (cnt d)) (keycode d) @ code_keys c @ concat (map code_keys cs)) =
        take (unat (cnt d)) (keycode d) @ code_keys c"
      using d1(4) e Cons.prems by simp
    with True d1 e show ?thesis by simp
  next
    case False
    with Cons.IH [of d1] Cons.prems d1 show ?thesis by auto
  qed
qed

lemma kb_remap_total:
  assumes "length (keycode (kb_event st)) = 6" "cnt (kb_event st) = 0"
  shows "\<exists>st'. kb_remap_key_code ms KB_RETURN_KEY_MAX numlock st = Some st'"
  using emit_until_ok [of "kb_event st" 6] remap_cols_emit [of "kb_event st" 6] assms
  by (fastforce simp: kb_remap_key_code_def KB_RETURN_KEY_MAX_def Let_def)

text \<open>
  C22. A matrix becomes a report of at most six keys without ever leaving the report array: the
  keys are the first six of the pressed positions' codes in column order, and, when there are
  fewer than six, the modifier byte is the union of the modifiers of all pressed positions.
\<close>
theorem remap_reports_first_six_keys:
  assumes "length (keycode (kb_event st)) = 6" "cnt (kb_event st) = 0"
    and "codes = pressed_codes (key_map_of numlock (kb_is_fn_pressed st)) 0 ms"
    and "keys = concat (map code_keys codes)"
  shows "\<exists>st'. kb_remap_key_code ms KB_RETURN_KEY_MAX numlock st = Some st' \<and>
     unat (cnt (kb_event st')) = min 6 (length keys) \<and>
     take (unat (cnt (kb_event st'))) (keycode (kb_event st')) = take 6 keys \<and>
     (length keys < 6 \<longrightarrow>
       ctrl_key (kb_event st') = fold (\<lambda>c m. m OR code_mods c) codes (ctrl_key (kb_event st)))"
proof -
  have "unat (cnt (kb_event st)) < 6" using assms(2) by simp
  then obtain d' where d': "emit_until 6 codes (kb_event st) = Some d'"
    "unat (cnt d') = min 6 (length keys)" "take (unat (cnt d')) (keycode d') = take 6 keys"
    "length keys < 6 \<longrightarrow> ctrl_key d' = fold (\<lambda>c m. m OR code_mods c) codes (ctrl_key (kb_event st))"
    using emit_until_ok [of "kb_event st" 6 codes] assms by auto
  have "remap_cols (key_map_of numlock (kb_is_fn_pressed st)) 0 ms 6 (kb_event st) = Some d'"
    using remap_cols_emit [of "kb_event st" 6] d'(1) assms by simp
  with d' show ?thesis by (simp add: kb_remap_key_code_def KB_RETURN_KEY_MAX_def Let_def)
qed

text \<open>The statics at power-on.\<close>

definition kb_init :: kb_state where
  "kb_init = \<lparr>mtrx_pre = replicate 8 0, mtrx_last = replicate 8 0, matrix_buff = replicate 4 (replicate 8 0),
     matrix_wptr = 0, matrix_rptr = 0, release_cnt = 0, ret_last = 0, scan_pin_need = 0,
     kb_is_fn_pressed = 0, kb_k_mp = [], kb_event = \<lparr>cnt = 0, ctrl_key = 0, keycode = replicate 6 0\<rparr>\<rparr>"

lemma debounce_reports_last_stable_witness:
  "bit (mtrx_last (debounce_run [[1,0,0,0,0,0,0,0], [1,0,0,0,0,0,0,0]] kb_init) ! 0) 0 =
   last_stable False False [True, True]"
  using debounce_reports_last_stable [of "[[1,0,0,0,0,0,0,0], [1,0,0,0,0,0,0,0]]" kb_init 0 0]
  by (simp add: kb_init_def)

lemma remap_reports_first_six_keys_witness:
  "\<exists>st'. kb_remap_key_code [2, 0, 0, 0, 0, 0, 1, 0] KB_RETURN_KEY_MAX 0 kb_init = Some st' \<and>
     unat (cnt (kb_event st')) = min 6 (length [VK_Q]) \<and>
     take (unat (cnt (kb_event st'))) (keycode (kb_event st')) = take 6 [VK_Q] \<and>
     (\<not> length [VK_Q] < 6 \<or>
       ctrl_key (kb_event st') = fold (\<lambda>c m. m OR code_mods c) [VK_Q, VK_CTRL] 0)"
proof -
  have c: "[VK_Q, VK_CTRL] =
    pressed_codes (key_map_of 0 (kb_is_fn_pressed kb_init)) 0 [2, 0, 0, 0, 0, 0, 1, 0]"
    by code_simp
  have k: "[VK_Q] = concat (map code_keys [VK_Q, VK_CTRL])" by code_simp
  show ?thesis
    using remap_reports_first_six_keys [OF _ _ c k] by (simp add: kb_init_def)
qed

section \<open>Properties of the scan\<close>

text \<open>
  What the code relies on in the hardware: the scan lines are pins of the four scanned ports,
  and with drive line \<open>i\<close> alone high, scan line \<open>j\<close> reads high exactly when the key at
  \<open>(j, i)\<close> is pressed.
\<close>

definition matrix_sensed :: "sense \<Rightarrow> u16 list \<Rightarrow> u32 list \<Rightarrow> bool" where
  "matrix_sensed sense scan_pins keys \<longleftrightarrow>
     length scan_pins = 18 \<and> length keys = 8 \<and> list_all (\<lambda>pin. drop_bit 8 pin < 4) scan_pins \<and>
     list_all (\<lambda>i. length (sense [i]) = 4 \<and>
       list_all (\<lambda>j. (gpio_read_cache (scan_pins ! j) (sense [i]) \<noteq> 0) = bit (keys ! i) j) [0..<18]) [0..<8]"

lemma scan_row_from_bits:
  "j + length pins \<le> 32 \<Longrightarrow>
   bit (fst (scan_row_from pins j d gpio (m, st))) n \<longleftrightarrow> bit m n \<or>
     (j \<le> n \<and> n < j + length pins \<and> bit (scan_pin_need st) n \<and> gpio_read_cache (pins ! (n - j)) gpio \<noteq> 0)"
proof (induction pins arbitrary: j m st)
  case Nil
  then show ?case by auto
next
  case (Cons pin pins)
  have n: "n < 32" if "n < j + length (pin # pins)" using that Cons.prems by simp
  have idx: "(j \<le> n \<and> n < j + length (pin # pins) \<and> P ((pin # pins) ! (n - j))) \<longleftrightarrow>
      (n = j \<and> P pin) \<or> (Suc j \<le> n \<and> n < Suc j + length pins \<and> P (pins ! (n - Suc j)))" for P
    by (cases "n = j") (auto simp: nth_Cons' Suc_diff_Suc)
  let ?hit = "bit (scan_pin_need st) j \<and> gpio_read_cache pin gpio \<noteq> 0"
  have IH: "bit (fst (scan_row_from pins (Suc j) d gpio (m', st'))) n \<longleftrightarrow> bit m' n \<or>
     (Suc j \<le> n \<and> n < Suc j + length pins \<and> bit (scan_pin_need st') n \<and> gpio_read_cache (pins ! (n - Suc j)) gpio \<noteq> 0)"
    for m' st' using Cons.IH [of "Suc j" m' st'] Cons.prems by simp
  have m: "bit (m OR push_bit j 1) n \<longleftrightarrow> bit m n \<or> n = j"
    using Cons.prems by (auto simp: bit_or_iff bit_push_bit_iff bit_1_iff simp flip: push_bit_of_1)
  note idx = idx [of "\<lambda>p. bit (scan_pin_need st) n \<and> gpio_read_cache p gpio \<noteq> 0"]
  show ?case
  proof (cases ?hit)
    case False
    then show ?thesis unfolding idx by (simp add: IH) blast
  next
    case True
    obtain st' where "scan_row_from (pin # pins) j d gpio (m, st) =
        scan_row_from pins (Suc j) d gpio (m OR push_bit j 1, st')" "scan_pin_need st' = scan_pin_need st"
      using True by fastforce
    then have "bit (fst (scan_row_from (pin # pins) j d gpio (m, st))) n \<longleftrightarrow> (bit m n \<or> n = j) \<or>
     (Suc j \<le> n \<and> n < Suc j + length pins \<and> bit (scan_pin_need st) n \<and> gpio_read_cache (pins ! (n - Suc j)) gpio \<noteq> 0)"
      by (simp only: IH m)
    with True show ?thesis unfolding idx by blast
  qed
qed

lemma scan_row_from_state:
  "\<exists>f. snd (scan_row_from pins j d gpio (m, st)) = st\<lparr>kb_is_fn_pressed := f\<rparr> \<and>
     (f = (if \<exists>k < length pins. bit (scan_pin_need st) (j + k) \<and> gpio_read_cache (pins ! k) gpio \<noteq> 0 \<and>
               kb_k_mp st ! (j + k) ! d = VK_FN then 1 else kb_is_fn_pressed st))"
proof (induction pins arbitrary: j m st)
  case Nil
  then show ?case by (intro exI [of _ "kb_is_fn_pressed st"]) simp
next
  case (Cons pin pins)
  have ex: "(\<exists>k < length (pin # pins). P k) \<longleftrightarrow> P 0 \<or> (\<exists>k < length pins. P (Suc k))" for P
    by (auto simp: less_Suc_eq_0_disj)
  show ?case
    using Cons.IH [of "Suc j" m st] Cons.IH [of "Suc j" "m OR push_bit j 1" st]
      Cons.IH [of "Suc j" "m OR push_bit j 1" "st\<lparr>kb_is_fn_pressed := 1\<rparr>"]
    unfolding ex by (auto simp: Let_def)
qed

text \<open>A call of \<open>kb_scan_row\<close> when the cache holds what drive line \<open>p\<close> shows.\<close>

lemma kb_scan_row_sensed:
  assumes s: "matrix_sensed sense scan_pins keys" and p: "p < 8" and d: "d < 8"
    and g: "take 4 gpio = sense [p]"
  shows "\<exists>gpio'. kb_scan_row sense scan_pins d (gpio, st) =
     (keys ! p AND scan_pin_need st AND mask 18, gpio',
      st\<lparr>kb_is_fn_pressed :=
           if \<exists>j < 18. bit (scan_pin_need st) j \<and> bit (keys ! p) j \<and> kb_k_mp st ! j ! d = VK_FN
           then 1 else kb_is_fn_pressed st\<rparr>) \<and> take 4 gpio' = sense [d]"
proof -
  have l: "length scan_pins = 18" using s by (simp add: matrix_sensed_def)
  have sp: "length (sense [p]) = 4" "length (sense [d]) = 4" using s p d
    by (auto simp: matrix_sensed_def list_all_iff)
  have key: "gpio_read_cache (scan_pins ! j) gpio \<noteq> 0 \<longleftrightarrow> bit (keys ! p) j" if "j < 18" for j
  proof -
    have "drop_bit 8 (scan_pins ! j) < 4" using s that l by (auto simp: matrix_sensed_def list_all_iff)
    then have "unat (drop_bit 8 (scan_pins ! j)) < 4" by (simp add: word_less_nat_alt)
    then have "gpio_read_cache (scan_pins ! j) gpio = gpio_read_cache (scan_pins ! j) (sense [p])"
      by (simp add: gpio_read_cache_def flip: g)
    then show ?thesis using s p that by (auto simp: matrix_sensed_def list_all_iff)
  qed
  obtain m st' where r: "scan_row_from scan_pins 0 d gpio (0, st) = (m, st')" by fastforce
  have "m = keys ! p AND scan_pin_need st AND mask 18"
  proof (rule bit_word_eqI)
    fix n
    show "bit m n \<longleftrightarrow> bit (keys ! p AND scan_pin_need st AND mask 18) n"
      using scan_row_from_bits [of 0 scan_pins d gpio 0 st n] key [of n]
      by (auto simp: r l bit_and_iff bit_mask_iff)
  qed
  moreover have "st' = st\<lparr>kb_is_fn_pressed :=
           if \<exists>j < 18. bit (scan_pin_need st) j \<and> bit (keys ! p) j \<and> kb_k_mp st ! j ! d = VK_FN
           then 1 else kb_is_fn_pressed st\<rparr>"
  proof -
    have "(\<exists>k < length scan_pins. bit (scan_pin_need st) (0 + k) \<and> gpio_read_cache (scan_pins ! k) gpio \<noteq> 0 \<and>
               kb_k_mp st ! (0 + k) ! d = VK_FN) \<longleftrightarrow>
          (\<exists>j < 18. bit (scan_pin_need st) j \<and> bit (keys ! p) j \<and> kb_k_mp st ! j ! d = VK_FN)"
      using key by (auto simp: l)
    with scan_row_from_state [of scan_pins 0 d gpio 0 st] show ?thesis by (simp add: r)
  qed
  ultimately show ?thesis using r sp(2)
    by (simp add: kb_scan_row_def gpio_read_all_def)
qed

text \<open>A run of rows: each result belongs to the line of the call before.\<close>

fun fn_hits :: "u32 list \<Rightarrow> u32 \<Rightarrow> u8 list list \<Rightarrow> nat \<Rightarrow> nat list \<Rightarrow> bool" where
  "fn_hits keys need mp p [] = False"
| "fn_hits keys need mp p (d # ds) =
     ((\<exists>j < 18. bit need j \<and> bit (keys ! p) j \<and> mp ! j ! d = VK_FN) \<or> fn_hits keys need mp d ds)"

lemma scan_rows_sensed:
  assumes "matrix_sensed sense scan_pins keys"
  shows "p < 8 \<Longrightarrow> list_all (\<lambda>d. d < 8) ds \<Longrightarrow> take 4 gpio = sense [p] \<Longrightarrow>
   \<exists>gpio'. scan_rows sense scan_pins ds (gpio, st) =
     (map (\<lambda>q. keys ! q AND scan_pin_need st AND mask 18) (butlast (p # ds)), gpio',
      st\<lparr>kb_is_fn_pressed := if fn_hits keys (scan_pin_need st) (kb_k_mp st) p ds then 1 else kb_is_fn_pressed st\<rparr>)"
proof (induction ds arbitrary: p gpio st)
  case Nil
  then show ?case by simp
next
  case (Cons d ds)
  then have d: "d < 8" by simp
  obtain gpio1 where r: "kb_scan_row sense scan_pins d (gpio, st) =
     (keys ! p AND scan_pin_need st AND mask 18, gpio1,
      st\<lparr>kb_is_fn_pressed :=
           if \<exists>j < 18. bit (scan_pin_need st) j \<and> bit (keys ! p) j \<and> kb_k_mp st ! j ! d = VK_FN
           then 1 else kb_is_fn_pressed st\<rparr>)" and g1: "take 4 gpio1 = sense [d]"
    using kb_scan_row_sensed [OF assms Cons.prems(1) d Cons.prems(3)] by blast
  let ?st1 = "st\<lparr>kb_is_fn_pressed :=
           if \<exists>j < 18. bit (scan_pin_need st) j \<and> bit (keys ! p) j \<and> kb_k_mp st ! j ! d = VK_FN
           then 1 else kb_is_fn_pressed st\<rparr>"
  from Cons.IH [OF d _ g1, of ?st1] Cons.prems(2) obtain gpio2 where
    "scan_rows sense scan_pins ds (gpio1, ?st1) =
     (map (\<lambda>q. keys ! q AND scan_pin_need st AND mask 18) (butlast (d # ds)), gpio2,
      ?st1\<lparr>kb_is_fn_pressed := if fn_hits keys (scan_pin_need st) (kb_k_mp st) d ds then 1
             else kb_is_fn_pressed ?st1\<rparr>)" by auto
  then show ?case by (auto simp: r)
qed

text \<open>
  C21. The pipelined scan: although every call of \<open>kb_scan_row\<close> returns what the line driven
  by the call before it showed, a round puts the keys of drive line \<open>i\<close> into entry \<open>i\<close> of
  the matrix, for all eight lines and whatever the cache held before.
\<close>
theorem scan_reads_pressed_matrix:
  assumes "matrix_sensed sense scan_pins keys"
  shows "fst (kb_scan_matrix sense scan_pins (gpio, st)) =
         map (\<lambda>q. q AND scan_pin_need st AND mask 18) keys"
proof -
  have sl: "length (sense [0]) = 4" and lk: "length keys = 8" using assms by (auto simp: matrix_sensed_def list_all_iff)
  obtain x where x: "x = st\<lparr>kb_event := (kb_event st)\<lparr>cnt := 0, ctrl_key := 0\<rparr>,
                     kb_is_fn_pressed := 0, kb_k_mp := kb_p_map ! 0\<rparr>" by simp
  then have need: "scan_pin_need x = scan_pin_need st" by simp
  obtain m y where r0: "scan_row_from scan_pins 0 0 gpio (0, x) = (m, y)" by fastforce
  obtain f where y: "y = x\<lparr>kb_is_fn_pressed := f\<rparr>"
    using scan_row_from_state [of scan_pins 0 0 gpio 0 x] r0 by auto
  have k0: "kb_scan_row sense scan_pins 0 (gpio, x) = (m, gpio_read_all sense [0] gpio, y)"
    by (simp add: kb_scan_row_def r0)
  have g: "take 4 (gpio_read_all sense [0] gpio) = sense [0]" by (simp add: gpio_read_all_def sl)
  obtain gpio' z where rows: "scan_rows sense scan_pins ([0..<8] @ [0]) (gpio_read_all sense [0] gpio, y) =
     (map (\<lambda>q. keys ! q AND scan_pin_need y AND mask 18) (butlast (0 # [0..<8] @ [0])), gpio', z)"
    using scan_rows_sensed [OF assms _ _ g, of "[0..<8] @ [0]" y] by (auto simp: list_all_iff)
  have "fst (kb_scan_matrix sense scan_pins (gpio, st)) =
      drop 2 (m # map (\<lambda>q. keys ! q AND scan_pin_need y AND mask 18) (butlast (0 # [0..<8] @ [0])))"
    by (simp only: kb_scan_matrix_def prod.case x [symmetric] scan_rows.simps k0 rows Let_def fst_conv)
  also have "\<dots> = map (\<lambda>q. keys ! q AND scan_pin_need st AND mask 18) [0..<8]"
    by (simp add: y need butlast_append)
  also have "\<dots> = map (\<lambda>q. q AND scan_pin_need st AND mask 18) (map ((!) keys) [0..<8])" by simp
  also have "map ((!) keys) [0..<8] = keys" using lk by (simp add: map_nth flip: lk)
  finally show ?thesis .
qed

lemma kb_map_normal_fn:
  "j < 18 \<Longrightarrow> d < 8 \<Longrightarrow> kb_map_normal ! j ! d = VK_FN \<longleftrightarrow> j = 9 \<and> d = 2"
proof -
  have "list_all (\<lambda>j. list_all (\<lambda>d. (kb_map_normal ! j ! d = VK_FN) = (j = 9 \<and> d = 2)) [0..<8]) [0..<18]"
    by code_simp
  then show "j < 18 \<Longrightarrow> d < 8 \<Longrightarrow> kb_map_normal ! j ! d = VK_FN \<longleftrightarrow> j = 9 \<and> d = 2"
    by (simp add: list_all_iff)
qed

lemma fn_hits_normal:
  "list_all (\<lambda>d. d < 8) ds \<Longrightarrow> fn_hits keys need kb_map_normal p ds \<longleftrightarrow>
   (\<exists>k < length ds. ds ! k = 2 \<and> bit need 9 \<and> bit (keys ! ((p # ds) ! k)) 9)"
proof (induction ds arbitrary: p)
  case Nil
  then show ?case by simp
next
  case (Cons d ds)
  have "(\<exists>j < 18. bit need j \<and> bit (keys ! p) j \<and> kb_map_normal ! j ! d = VK_FN) \<longleftrightarrow>
        d = 2 \<and> bit need 9 \<and> bit (keys ! p) 9"
    using Cons.prems by (auto simp: kb_map_normal_fn intro!: exI [of _ 9])
  with Cons show ?case by (auto simp: less_Suc_eq_0_disj)
qed

text \<open>
  The FN flag of a round is set exactly when the key at scan line 9, drive line 1 (\<open>VK_C9R1\<close>) is
  pressed. The FN key itself is at scan line 9, drive line 2: the test uses the column of the
  line driven now with the levels of the line driven before.
\<close>
theorem fn_flag_follows_the_wrong_key:
  assumes "matrix_sensed sense scan_pins keys"
  shows "kb_is_fn_pressed (snd (snd (kb_scan_matrix sense scan_pins (gpio, st)))) =
           (if bit (scan_pin_need st) 9 \<and> bit (keys ! 1) 9 then 1 else 0) \<and>
         kb_map_normal ! 9 ! 2 = VK_FN \<and> kb_map_normal ! 9 ! 1 = VK_C9R1"
proof -
  have sl: "length (sense [0]) = 4" and lp: "length scan_pins = 18"
    using assms by (auto simp: matrix_sensed_def list_all_iff)
  obtain x where x: "x = st\<lparr>kb_event := (kb_event st)\<lparr>cnt := 0, ctrl_key := 0\<rparr>,
                     kb_is_fn_pressed := 0, kb_k_mp := kb_p_map ! 0\<rparr>" by simp
  then have need: "scan_pin_need x = scan_pin_need st" and fn: "kb_is_fn_pressed x = 0"
    and mp: "kb_k_mp x = kb_map_normal" by (simp_all add: kb_p_map_def)
  obtain m y where r0: "scan_row_from scan_pins 0 0 gpio (0, x) = (m, y)" by fastforce
  have "y = x"
    using scan_row_from_state [of scan_pins 0 0 gpio 0 x] r0 kb_map_normal_fn [of _ 0]
    by (auto simp: mp lp fn)
  then have k0: "kb_scan_row sense scan_pins 0 (gpio, x) = (m, gpio_read_all sense [0] gpio, x)"
    by (simp add: kb_scan_row_def r0)
  have g: "take 4 (gpio_read_all sense [0] gpio) = sense [0]" by (simp add: gpio_read_all_def sl)
  have ds: "[0..<8] @ [0] = [0, 1, 2, 3, 4, 5, 6, 7, 0 :: nat]" by (simp add: upt_conv_Cons)
  have hits: "fn_hits keys (scan_pin_need x) (kb_k_mp x) 0 ([0..<8] @ [0]) \<longleftrightarrow>
      bit (scan_pin_need st) 9 \<and> bit (keys ! 1) 9"
  proof -
    obtain L where L: "L = [0, 1, 2, 3, 4, 5, 6, 7, 0 :: nat]" by simp
    have "list_all (\<lambda>k. ([0, 1, 2, 3, 4, 5, 6, 7, 0 :: nat] ! k = 2) = (k = 2)) [0..<9]" by code_simp
    then have k: "\<And>k. k < 9 \<Longrightarrow> L ! k = 2 \<longleftrightarrow> k = 2" by (simp add: list_all_iff L)
    have len: "length L = 9" and two: "(0 # L) ! 2 = 1" and lt: "list_all (\<lambda>d. d < 8) L"
      by (simp_all add: L)
    show ?thesis unfolding mp ds L [symmetric] fn_hits_normal [OF lt] len need
      using k two by (auto intro!: exI [of _ 2])
  qed
  obtain rs gpio' where rows: "scan_rows sense scan_pins ([0..<8] @ [0]) (gpio_read_all sense [0] gpio, x) =
     (rs, gpio', x\<lparr>kb_is_fn_pressed := if bit (scan_pin_need st) 9 \<and> bit (keys ! 1) 9 then 1 else 0\<rparr>)"
    using scan_rows_sensed [OF assms _ _ g, of "[0..<8] @ [0]" x] unfolding hits fn
    by (auto simp: list_all_iff)
  have "snd (snd (kb_scan_matrix sense scan_pins (gpio, st))) =
      x\<lparr>kb_is_fn_pressed := if bit (scan_pin_need st) 9 \<and> bit (keys ! 1) 9 then 1 else 0\<rparr>"
    by (simp only: kb_scan_matrix_def prod.case x [symmetric] scan_rows.simps k0 rows Let_def snd_conv)
  moreover have "kb_map_normal ! 9 ! 2 = VK_FN \<and> kb_map_normal ! 9 ! 1 = VK_C9R1" by code_simp
  ultimately show ?thesis by simp
qed

section \<open>Properties of the ring\<close>

definition ring_inv :: "kb_state \<Rightarrow> bool" where
  "ring_inv st \<longleftrightarrow> 0 \<le> matrix_wptr st \<and> matrix_wptr st < 8 \<and> 0 \<le> matrix_rptr st \<and> matrix_rptr st < 8 \<and>
     (matrix_wptr st - matrix_rptr st) AND 7 \<le> 4 \<and> length (matrix_buff st) = 4"

definition ring_contents :: "kb_state \<Rightarrow> u32 list list" where
  "ring_contents st =
     map (\<lambda>k. matrix_buff st ! nat ((matrix_rptr st + int k) AND 3))
       [0..<nat ((matrix_wptr st - matrix_rptr st) AND 7)]"


lemma int_and_low: "(x :: int) AND 7 = x mod 8" "x AND 3 = x mod 4"
  using take_bit_eq_mask [of 3 x] take_bit_eq_mask [of 2 x]
  by (simp_all add: take_bit_eq_mod mask_eq_exp_minus_1)

lemma mod8_pred: "d mod 8 \<noteq> 0 \<Longrightarrow> (d - 1) mod 8 = d mod 8 - (1 :: int)"
proof -
  assume "d mod 8 \<noteq> 0"
  then have r: "0 \<le> d mod 8 - 1" "d mod 8 - 1 < 8"
    using pos_mod_sign [of 8 d] pos_mod_bound [of 8 d] by linarith+
  have "d - 1 = (d mod 8 - 1) + 8 * (d div 8)" using mult_div_mod_eq [of 8 d] by linarith
  then have "(d - 1) mod 8 = (d mod 8 - 1) mod 8" by (simp only: mod_mult_self2)
  with r show ?thesis by (simp only: mod_pos_pos_trivial)
qed

lemma mod8_succ: "d mod 8 < 7 \<Longrightarrow> (d + 1) mod 8 = d mod 8 + (1 :: int)"
proof -
  assume "d mod 8 < 7"
  then have r: "0 \<le> d mod 8 + 1" "d mod 8 + 1 < 8"
    using pos_mod_sign [of 8 d] by linarith+
  have "d + 1 = (d mod 8 + 1) + 8 * (d div 8)" using mult_div_mod_eq [of 8 d] by linarith
  then have "(d + 1) mod 8 = (d mod 8 + 1) mod 8" by (simp only: mod_mult_self2)
  with r show ?thesis by (simp only: mod_pos_pos_trivial)
qed

lemma ring_contents_alt:
  "ring_contents st = ring_from (matrix_buff st) (matrix_rptr st) (nat ((matrix_wptr st - matrix_rptr st) mod 8))"
  by (simp add: ring_contents_def ring_from_def int_and_low)

lemma matrix_push_ring:
  assumes "ring_inv st"
  shows "ring_inv (matrix_push m st) \<and>
    ring_contents (matrix_push m st) =
      (if length (ring_contents st) < 4 then ring_contents st @ [m] else tl (ring_contents st) @ [m])"
proof -
  obtain w r buf n where v: "w = matrix_wptr st" "r = matrix_rptr st" "buf = matrix_buff st"
    "n = nat ((w - r) mod 8)" by simp
  have i: "0 \<le> w" "w < 8" "0 \<le> r" "r < 8" "(w - r) mod 8 \<le> 4" "length buf = 4"
    using assms by (simp_all add: ring_inv_def int_and_low v)
  have n3: "int n = (w - r) mod 8" by (simp add: v(4))
  have dvd: "(4 :: int) dvd 8" by simp
  have "(r + (w - r) mod 8) mod 4 = (r + (w - r)) mod 4"
    by (metis mod_add_right_eq mod_mod_cancel [OF dvd])
  then have n: "n \<le> 4" "w mod 4 = (r + int n) mod 4" "int n = (w - r) mod 8"
    using i(5) n3 by simp_all
  let ?buf = "buf[nat ((r + int n) mod 4) := m]"
  have c: "ring_contents st = ring_from buf r n" by (simp add: ring_contents_alt v)
  have l: "length (ring_contents st) = n" by (simp add: c ring_from_def)
  show ?thesis
  proof (cases "n < 4")
    case True
    then have "(w - r) mod 8 < 4" using n(3) by simp
    then have "(w - r + 1) mod 8 = (w - r) mod 8 + 1" by (intro mod8_succ) linarith
    moreover have "((w + 1) mod 8 - r) mod 8 = (w + 1 - r) mod 8" by (rule mod_diff_left_eq)
    ultimately have "((w + 1) mod 8 - r) mod 8 = (w - r) mod 8 + 1" by (simp only: diff_add_eq)
    then have g: "((w + 1) mod 8 - r) mod 8 = int (Suc n)" by (simp add: n(3))
    then have p: "matrix_push m st = st\<lparr>matrix_buff := ?buf, matrix_wptr := (w + 1) mod 8\<rparr>"
      using True by (simp add: matrix_push_def Let_def int_and_low n(2) flip: v)
    have "ring_contents (matrix_push m st) = ring_from ?buf r (Suc n)"
      by (simp add: p ring_contents_alt g nat_add_distrib flip: v)
    also have "\<dots> = ring_from buf r n @ [m]"
      using True i by (simp only: ring_from_last ring_from_update)
    finally show ?thesis using True i g l by (simp add: c p ring_inv_def int_and_low flip: v)
  next
    case False
    then have n4: "n = 4" using n by simp
    then have d: "(w - r) mod 8 = 4" using n(3) by simp
    have s: "(w - r + 1) mod 8 = 5" using mod8_succ [of "w - r"] d by linarith
    have g1: "((w + 1) mod 8 - r) mod 8 = (w - r + 1) mod 8"
      using mod_diff_left_eq [of "w + 1" 8 r] by (simp only: diff_add_eq)
    have g2: "((w + 1) mod 8 - 4) mod 8 = (w + 1 - 4) mod 8" by (rule mod_diff_left_eq)
    have g3: "(w + 1 - 4) mod 8 = (r + 1) mod 8"
    proof -
      have "(w - r) mod 8 = 4 mod 8" using d by simp
      then have "8 dvd w - r - 4" by (simp only: mod_eq_dvd_iff)
      then show ?thesis unfolding mod_eq_dvd_iff by (simp add: algebra_simps)
    qed
    have "((w + 1) mod 8 - (r + 1) mod 8) mod 8 = (w - r) mod 8"
      unfolding mod_diff_eq by simp
    note g = trans [OF g1 s] trans [OF g2 g3] trans [OF this d]
    have p: "matrix_push m st = st\<lparr>matrix_buff := ?buf, matrix_wptr := (w + 1) mod 8, matrix_rptr := (r + 1) mod 8\<rparr>"
      using g by (simp add: matrix_push_def Let_def int_and_low n(2) flip: v)
    have s: "ring_from ?buf (r + 1) 4 = tl (ring_from buf r 4) @ [m]"
      unfolding n4 by (rule ring_from_shift) (use i in simp_all)
    have "ring_contents (matrix_push m st) = ring_from ?buf (r + 1) 4"
      by (simp add: p ring_contents_alt g ring_from_mod8)
    then have "ring_contents (matrix_push m st) = tl (ring_contents st) @ [m]" by (simp only: c n4 s [unfolded n4])
    moreover have "ring_inv (matrix_push m st)"
      by (simp add: p ring_inv_def int_and_low g(3) i(6))
    moreover have "\<not> length (ring_contents st) < 4" by (simp add: l n4)
    ultimately show ?thesis by simp
  qed
qed

interpretation kbq: overwriting_ring ring_inv ring_contents 4 matrix_push
proof unfold_locales
  show "ring_inv st \<Longrightarrow> length (ring_contents st) \<le> 4" for st
    by (auto simp: ring_contents_def ring_inv_def)
qed (simp_all add: matrix_push_ring)

text \<open>
  The ring of scanned matrices: from power-on, after any number of changed matrices and no
  read, it holds exactly the last four of them, oldest first.
\<close>
theorem matrix_ring_keeps_newest:
  "ring_contents (fold matrix_push ms kb_init) = drop (length ms - 4) ms"
proof -
  have i: "ring_inv kb_init" and c: "ring_contents kb_init = []"
    by (simp_all add: ring_inv_def kb_init_def ring_contents_def)
  show ?thesis using kbq.fold_add_suffix [OF i, of ms] by (simp add: c)
qed

text \<open>
  C25. One round of the reader: it stores a changed matrix first and then translates the oldest
  matrix of the ring, which leaves the ring; the invariant of the ring is kept.
\<close>
theorem report_round_reads_oldest:
  assumes "ring_inv st" "q = (if changed then ring_contents (matrix_push m st) else ring_contents st)"
    and "q \<noteq> []" "numlock AND KB_NUMLOCK_STATUS_INVALID = 0"
    and "length (keycode (kb_event st)) = 6" "cnt (kb_event st) = 0"
  shows "\<exists>st1 st'. kb_report_round m changed numlock True st = Some (1, st') \<and>
    ring_inv st' \<and> ring_contents st' = tl q \<and>
    kb_remap_key_code (hd q) KB_RETURN_KEY_MAX numlock st1 = Some st' \<and> kb_event st1 = kb_event st"
proof -
  obtain st0 where st0: "st0 = (if changed then matrix_push m st else st)" by simp
  have ev: "kb_event st0 = kb_event st" by (simp add: st0 matrix_push_def Let_def)
  have inv: "ring_inv st0" using assms(1) matrix_push_ring by (simp add: st0)
  have q: "q = ring_contents st0" using assms(2) by (simp add: st0)
  obtain w r where v: "w = matrix_wptr st0" "r = matrix_rptr st0" by simp
  obtain st1 where st1: "st1 = st0\<lparr>matrix_rptr := (r + 1) mod 8\<rparr>" by simp
  have i: "0 \<le> w" "w < 8" "0 \<le> r" "r < 8" "(w - r) mod 8 \<le> 4" "length (matrix_buff st0) = 4"
    using inv by (simp_all add: ring_inv_def int_and_low v)
  have ne: "w \<noteq> r" using assms(3) by (auto simp: q ring_contents_def v)
  obtain n where n: "nat ((w - r) mod 8) = Suc n" "nat ((w - (r + 1) mod 8) mod 8) = n"
    "(w - (r + 1) mod 8) mod 8 \<le> 4"
  proof -
    have "d mod 8 \<noteq> 0" if "d \<noteq> 0" "- 8 < d" "d < 8" for d :: int
      using that by presburger
    from this [of "w - r"] have "(w - r) mod 8 \<noteq> 0" using i(1-4) ne by simp
    then have "(w - r - 1) mod 8 = (w - r) mod 8 - 1" by (rule mod8_pred)
    moreover have "0 < (w - r) mod 8"
      using \<open>(w - r) mod 8 \<noteq> 0\<close> pos_mod_sign [of 8 "w - r"] by linarith
    moreover have "(w - (r + 1) mod 8) mod 8 = (w - r - 1) mod 8"
      unfolding mod_diff_right_eq diff_diff_eq ..
    ultimately have "0 < (w - r) mod 8" "(w - (r + 1) mod 8) mod 8 = (w - r) mod 8 - 1"
      by linarith+
    then show ?thesis using i(5) by (intro that [of "nat ((w - r) mod 8 - 1)"]) auto
  qed
  have c: "q = matrix_buff st0 ! nat (r mod 4) # ring_from (matrix_buff st0) (r + 1) n"
    by (simp add: q ring_contents_alt n ring_from_tl flip: v)
  have ev1: "kb_event st1 = kb_event st" by (simp add: st1 ev)
  then obtain st' where rm:
    "kb_remap_key_code (matrix_buff st0 ! nat (r mod 4)) KB_RETURN_KEY_MAX numlock st1 = Some st'"
    using kb_remap_total [of st1] assms(5,6) by auto
  have round: "kb_report_round m changed numlock True st = Some (1, st')"
    using assms(4) ne rm
    by (simp add: kb_report_round_def Let_def st0 [symmetric] v [symmetric] st1 int_and_low)
  have same: "matrix_wptr st' = w" "matrix_rptr st' = (r + 1) mod 8" "matrix_buff st' = matrix_buff st0"
    using rm by (auto simp: kb_remap_key_code_def Let_def st1 v)
  have "ring_contents st' = tl q"
    by (simp add: ring_contents_alt same n ring_from_mod8 c)
  moreover have "ring_inv st'" using i n(3) by (simp add: ring_inv_def same int_and_low)
  ultimately show ?thesis using rm round ev1 c by auto
qed

lemma report_round_reads_oldest_witness:
  "\<exists>st1 st'. kb_report_round [2, 0, 0, 0, 0, 0, 0, 0] True 0 True kb_init = Some (1, st') \<and>
    ring_inv st' \<and> ring_contents st' = tl [[2, 0, 0, 0, 0, 0, 0, 0]] \<and>
    kb_remap_key_code (hd [[2, 0, 0, 0, 0, 0, 0, 0]]) KB_RETURN_KEY_MAX 0 st1 = Some st' \<and>
    kb_event st1 = kb_event kb_init"
proof (rule report_round_reads_oldest)
  show "ring_inv kb_init" by (simp add: ring_inv_def kb_init_def)
  show "[[2, 0, 0, 0, 0, 0, 0, 0]] =
    (if True then ring_contents (matrix_push [2, 0, 0, 0, 0, 0, 0, 0] kb_init) else ring_contents kb_init)"
    by code_simp
qed (simp_all add: kb_init_def)

section \<open>A wired example\<close>

text \<open>
  A board on which scan line \<open>j\<close> is bit \<open>j mod 8\<close> of port \<open>j div 8\<close> and the keys at
  (1, 0) and (9, 2) are pressed; the second is the FN key.
\<close>

definition wired_pins :: "u16 list" where
  "wired_pins = map (\<lambda>j. push_bit 8 (of_nat (j div 8)) OR push_bit (j mod 8) 1) [0..<18]"

definition wired_keys :: "u32 list" where
  "wired_keys = [2, 0, 0x200, 0, 0, 0, 0, 0]"

definition wired_sense :: sense where
  "wired_sense ds = le32 (fold (\<lambda>d m. m OR wired_keys ! d) ds 0)"

lemma wired_sensed: "matrix_sensed wired_sense wired_pins wired_keys"
  by code_simp

lemma scan_reads_pressed_matrix_witness:
  "fst (kb_scan_matrix wired_sense wired_pins ([], kb_init\<lparr>scan_pin_need := 0x202\<rparr>)) =
   map (\<lambda>q. q AND scan_pin_need (kb_init\<lparr>scan_pin_need := 0x202\<rparr>) AND mask 18) wired_keys"
  by (rule scan_reads_pressed_matrix [OF wired_sensed])

lemma fn_flag_follows_the_wrong_key_witness:
  "kb_is_fn_pressed (snd (snd (kb_scan_matrix wired_sense wired_pins ([], kb_init\<lparr>scan_pin_need := 0x202\<rparr>)))) = 0"
  using fn_flag_follows_the_wrong_key [OF wired_sensed, of "[]" "kb_init\<lparr>scan_pin_need := 0x202\<rparr>"]
  by (simp add: wired_keys_def)

text \<open>
  After the last key is released the driver keeps reporting the last set of scan lines for five
  more calls, so that the debounce sees the release; the sixth reports nothing.
\<close>

fun idle_calls :: "nat \<Rightarrow> u16 list \<Rightarrow> u8 list \<times> kb_state \<Rightarrow> u32 list" where
  "idle_calls 0 pins (gpio, st) = []"
| "idle_calls (Suc n) pins (gpio, st) =
     (let (r, gpio', st') = kb_key_pressed (\<lambda>ds. [0, 0, 0, 0]) pins (gpio, st)
      in r # idle_calls n pins (gpio', st'))"

lemma key_pressed_from_idle:
  "list_all (\<lambda>pin. drop_bit 8 pin < 4) pins \<Longrightarrow>
   key_pressed_from pins i ([0, 0, 0, 0] @ g) (ret, st) = (ret, st)"
proof (induction pins arbitrary: i)
  case Nil
  then show ?case by simp
next
  case (Cons pin pins)
  then have "unat (drop_bit 8 pin) < 4" by (simp add: word_less_nat_alt)
  then have "([0, 0, 0, 0] @ g) ! unat (drop_bit 8 pin) = (0 :: u8)"
    by (simp add: nth_append nth_Cons' del: append_Cons)
  then show ?case using Cons by (simp add: gpio_read_cache_def)
qed

theorem release_is_reported_late:
  assumes "release_cnt st = 5" "list_all (\<lambda>pin. drop_bit 8 pin < 4) pins"
  shows "idle_calls 6 pins (gpio, st) = replicate 5 (ret_last st) @ [0]"
proof -
  have step: "kb_key_pressed (\<lambda>ds. [0, 0, 0, 0]) pins (g, s) =
    (if release_cnt s \<noteq> 0
     then (ret_last s, [0, 0, 0, 0] @ drop 4 g, s\<lparr>release_cnt := release_cnt s - 1\<rparr>)
     else (0, [0, 0, 0, 0] @ drop 4 g, s))" for g s
    using key_pressed_from_idle [OF assms(2), of 0 "drop 4 g" 0 s]
    by (simp add: kb_key_pressed_def gpio_read_all_def)
  have six: "6 = Suc (Suc (Suc (Suc (Suc (Suc 0)))))" and five: "5 = Suc (Suc (Suc (Suc (Suc 0))))"
    by simp_all
  show ?thesis
    unfolding six five idle_calls.simps step Let_def replicate.simps using assms(1) by simp
qed

end
