(* ===== verification/Usb_Std.thy ===== *)
theory Usb_Std
  imports Prelude
begin

text \<open>
  The numbers the USB sources share: the standard, HID and audio class constants of
  \<open>application/usbstd\<close>, the endpoint and interface numbers of the 8258 master dongle
  (\<open>USB_PRINTER_ENABLE\<close>, \<open>USB_MIC_ENABLE\<close>, \<open>USB_KEYBOARD_ENABLE\<close> and \<open>USB_MOUSE_ENABLE\<close>
  on; speaker, CDC and somatic sensor off), the report and FIFO sizes of \<open>application/app\<close>, and
  the flags of the endpoint registers.
\<close>

named_theorems usb_consts \<open>the USB constants\<close>

definition NO_DESCRIPTOR :: u8 where [usb_consts]: "NO_DESCRIPTOR = 0"
definition LANGUAGE_ID_ENG :: u16 where [usb_consts]: "LANGUAGE_ID_ENG = 0x409"
definition USB_CONFIG_ATTR_REMOTEWAKEUP :: u8 where [usb_consts]: "USB_CONFIG_ATTR_REMOTEWAKEUP = 0x20"
definition USB_CONFIG_ATTR_RESERVED :: u8 where [usb_consts]: "USB_CONFIG_ATTR_RESERVED = 0x80"
definition DTYPE_Device :: u8 where [usb_consts]: "DTYPE_Device = 1"
definition DTYPE_Configuration :: u8 where [usb_consts]: "DTYPE_Configuration = 2"
definition DTYPE_String :: u8 where [usb_consts]: "DTYPE_String = 3"
definition DTYPE_Interface :: u8 where [usb_consts]: "DTYPE_Interface = 4"
definition DTYPE_Endpoint :: u8 where [usb_consts]: "DTYPE_Endpoint = 5"
definition DTYPE_CSInterface :: u8 where [usb_consts]: "DTYPE_CSInterface = 0x24"
definition DTYPE_CSEndpoint :: u8 where [usb_consts]: "DTYPE_CSEndpoint = 0x25"
definition USB_CSCP_NoDeviceClass :: u8 where [usb_consts]: "USB_CSCP_NoDeviceClass = 0"
definition USB_CSCP_NoDeviceSubclass :: u8 where [usb_consts]: "USB_CSCP_NoDeviceSubclass = 0"
definition USB_CSCP_NoDeviceProtocol :: u8 where [usb_consts]: "USB_CSCP_NoDeviceProtocol = 0"
definition REQDIR_HOSTTODEVICE :: u8 where [usb_consts]: "REQDIR_HOSTTODEVICE = 0"
definition REQDIR_DEVICETOHOST :: u8 where [usb_consts]: "REQDIR_DEVICETOHOST = 0x80"
definition REQTYPE_STANDARD :: u8 where [usb_consts]: "REQTYPE_STANDARD = 0"
definition REQTYPE_CLASS :: u8 where [usb_consts]: "REQTYPE_CLASS = 0x20"
definition REQREC_DEVICE :: u8 where [usb_consts]: "REQREC_DEVICE = 0"
definition REQREC_INTERFACE :: u8 where [usb_consts]: "REQREC_INTERFACE = 1"
definition REQREC_ENDPOINT :: u8 where [usb_consts]: "REQREC_ENDPOINT = 2"
definition REQ_GetDescriptor :: u8 where [usb_consts]: "REQ_GetDescriptor = 6"
definition REQ_GetInterface :: u8 where [usb_consts]: "REQ_GetInterface = 0xa"
definition REQ_SetInterface :: u8 where [usb_consts]: "REQ_SetInterface = 0xb"
definition EP_SYNC_TYPE_SYNC :: u8 where [usb_consts]: "EP_SYNC_TYPE_SYNC = 3"
definition EP_USAGE_TYPE_DATA :: u8 where [usb_consts]: "EP_USAGE_TYPE_DATA = 0"
definition ENDPOINT_DIR_MASK :: u8 where [usb_consts]: "ENDPOINT_DIR_MASK = 0x80"
definition ENDPOINT_DIR_IN :: u8 where [usb_consts]: "ENDPOINT_DIR_IN = 0x80"
definition EP_TYPE_ISOCHRONOUS :: u8 where [usb_consts]: "EP_TYPE_ISOCHRONOUS = 1"
definition EP_TYPE_BULK :: u8 where [usb_consts]: "EP_TYPE_BULK = 2"
definition EP_TYPE_INTERRUPT :: u8 where [usb_consts]: "EP_TYPE_INTERRUPT = 3"
definition HID_RPT_TYPE_MAIN :: u8 where [usb_consts]: "HID_RPT_TYPE_MAIN = 0"
definition HID_RPT_TYPE_GLOBAL :: u8 where [usb_consts]: "HID_RPT_TYPE_GLOBAL = 4"
definition HID_RPT_TYPE_LOCAL :: u8 where [usb_consts]: "HID_RPT_TYPE_LOCAL = 8"
definition HID_IOF_CONSTANT :: u8 where [usb_consts]: "HID_IOF_CONSTANT = 1"
definition HID_IOF_DATA :: u8 where [usb_consts]: "HID_IOF_DATA = 0"
definition HID_IOF_VARIABLE :: u8 where [usb_consts]: "HID_IOF_VARIABLE = 2"
definition HID_IOF_ARRAY :: u8 where [usb_consts]: "HID_IOF_ARRAY = 0"
definition HID_IOF_ABSOLUTE :: u8 where [usb_consts]: "HID_IOF_ABSOLUTE = 0"
definition HID_IOF_NON_VOLATILE :: u8 where [usb_consts]: "HID_IOF_NON_VOLATILE = 0"
definition HID_CSCP_BootSubclass :: u8 where [usb_consts]: "HID_CSCP_BootSubclass = 1"
definition HID_CSCP_KeyboardBootProtocol :: u8 where [usb_consts]: "HID_CSCP_KeyboardBootProtocol = 1"
definition HID_CSCP_MouseBootProtocol :: u8 where [usb_consts]: "HID_CSCP_MouseBootProtocol = 2"
definition HID_CSCP_HIDClass :: u8 where [usb_consts]: "HID_CSCP_HIDClass = 3"
definition HID_REQ_GetReport :: u8 where [usb_consts]: "HID_REQ_GetReport = 1"
definition HID_REQ_GetIdle :: u8 where [usb_consts]: "HID_REQ_GetIdle = 2"
definition HID_REQ_GetProtocol :: u8 where [usb_consts]: "HID_REQ_GetProtocol = 3"
definition HID_REQ_SetReport :: u8 where [usb_consts]: "HID_REQ_SetReport = 9"
definition HID_REQ_SetIdle :: u8 where [usb_consts]: "HID_REQ_SetIdle = 0xa"
definition HID_REQ_SetProtocol :: u8 where [usb_consts]: "HID_REQ_SetProtocol = 0xb"
definition HID_DTYPE_HID :: u8 where [usb_consts]: "HID_DTYPE_HID = 0x21"
definition HID_DTYPE_Report :: u8 where [usb_consts]: "HID_DTYPE_Report = 0x22"
definition HID_REPORT_ITEM_In :: u8 where [usb_consts]: "HID_REPORT_ITEM_In = 0"
definition HID_REPORT_ITEM_Out :: u8 where [usb_consts]: "HID_REPORT_ITEM_Out = 1"
definition HID_REPORT_ITEM_Feature :: u8 where [usb_consts]: "HID_REPORT_ITEM_Feature = 2"
definition HID_REPORT_CUSTOM :: u8 where [usb_consts]: "HID_REPORT_CUSTOM = 3"
definition AUDIO_FEATURE_MUTE :: u8 where [usb_consts]: "AUDIO_FEATURE_MUTE = 1"
definition AUDIO_FEATURE_VOLUME :: u8 where [usb_consts]: "AUDIO_FEATURE_VOLUME = 2"
definition AUDIO_TERMINAL_STREAMING :: u16 where [usb_consts]: "AUDIO_TERMINAL_STREAMING = 0x101"
definition AUDIO_TERMINAL_IN_MIC :: u16 where [usb_consts]: "AUDIO_TERMINAL_IN_MIC = 0x201"
definition AUDIO_EP_SAMPLE_FREQ_CONTROL :: u8 where [usb_consts]: "AUDIO_EP_SAMPLE_FREQ_CONTROL = 1"
definition AUDIO_CSCP_StreamingProtocol :: u8 where [usb_consts]: "AUDIO_CSCP_StreamingProtocol = 0"
definition AUDIO_CSCP_ControlProtocol :: u8 where [usb_consts]: "AUDIO_CSCP_ControlProtocol = 0"
definition AUDIO_CSCP_AudioClass :: u8 where [usb_consts]: "AUDIO_CSCP_AudioClass = 1"
definition AUDIO_CSCP_ControlSubclass :: u8 where [usb_consts]: "AUDIO_CSCP_ControlSubclass = 1"
definition AUDIO_CSCP_AudioStreamingSubclass :: u8 where [usb_consts]: "AUDIO_CSCP_AudioStreamingSubclass = 2"
definition AUDIO_DSUBTYPE_CSInterface_Header :: u8 where [usb_consts]: "AUDIO_DSUBTYPE_CSInterface_Header = 1"
definition AUDIO_DSUBTYPE_CSInterface_InputTerminal :: u8 where [usb_consts]: "AUDIO_DSUBTYPE_CSInterface_InputTerminal = 2"
definition AUDIO_DSUBTYPE_CSInterface_OutputTerminal :: u8 where [usb_consts]: "AUDIO_DSUBTYPE_CSInterface_OutputTerminal = 3"
definition AUDIO_DSUBTYPE_CSInterface_Feature :: u8 where [usb_consts]: "AUDIO_DSUBTYPE_CSInterface_Feature = 6"
definition AUDIO_DSUBTYPE_CSInterface_General :: u8 where [usb_consts]: "AUDIO_DSUBTYPE_CSInterface_General = 1"
definition AUDIO_DSUBTYPE_CSInterface_FormatType :: u8 where [usb_consts]: "AUDIO_DSUBTYPE_CSInterface_FormatType = 2"
definition AUDIO_REQ_GetCurrent :: u8 where [usb_consts]: "AUDIO_REQ_GetCurrent = 0x81"
definition AUDIO_REQ_GetMinimum :: u8 where [usb_consts]: "AUDIO_REQ_GetMinimum = 0x82"
definition AUDIO_REQ_GetMaximum :: u8 where [usb_consts]: "AUDIO_REQ_GetMaximum = 0x83"
definition AUDIO_REQ_GetResolution :: u8 where [usb_consts]: "AUDIO_REQ_GetResolution = 0x84"
definition AUDIO_EPCONTROL_SamplingFreq :: u8 where [usb_consts]: "AUDIO_EPCONTROL_SamplingFreq = 1"
definition PRNT_CSCP_PrinterClass :: u8 where [usb_consts]: "PRNT_CSCP_PrinterClass = 7"
definition PRNT_CSCP_PrinterSubclass :: u8 where [usb_consts]: "PRNT_CSCP_PrinterSubclass = 1"
definition PRNT_CSCP_BidirectionalProtocol :: u8 where [usb_consts]: "PRNT_CSCP_BidirectionalProtocol = 2"
definition USB_INTF_PRINTER :: u8 where [usb_consts]: "USB_INTF_PRINTER = 0"
definition USB_INTF_AUDIO_CONTROL :: u8 where [usb_consts]: "USB_INTF_AUDIO_CONTROL = 1"
definition USB_INTF_MIC :: u8 where [usb_consts]: "USB_INTF_MIC = 2"
definition USB_INTF_KEYBOARD :: u8 where [usb_consts]: "USB_INTF_KEYBOARD = 3"
definition USB_INTF_MOUSE :: u8 where [usb_consts]: "USB_INTF_MOUSE = 4"
definition USB_INTF_MAX :: u8 where [usb_consts]: "USB_INTF_MAX = 5"
definition USB_SPEAKER_FEATURE_UNIT_ID :: u8 where [usb_consts]: "USB_SPEAKER_FEATURE_UNIT_ID = 2"
definition USB_MIC_INPUT_TERMINAL_ID :: u8 where [usb_consts]: "USB_MIC_INPUT_TERMINAL_ID = 4"
definition USB_MIC_FEATURE_UNIT_ID :: u8 where [usb_consts]: "USB_MIC_FEATURE_UNIT_ID = 5"
definition USB_MIC_OUTPUT_TERMINAL_ID :: u8 where [usb_consts]: "USB_MIC_OUTPUT_TERMINAL_ID = 6"
definition USB_MIC_FEATURE_UNIT_SOURCE_ID :: u8 where [usb_consts]: "USB_MIC_FEATURE_UNIT_SOURCE_ID = 4"
definition USB_MIC_OUTPUT_TERMINAL_SOURCE_ID :: u8 where [usb_consts]: "USB_MIC_OUTPUT_TERMINAL_SOURCE_ID = 5"
definition USB_AUDIO_FORMAT_PCM :: u8 where [usb_consts]: "USB_AUDIO_FORMAT_PCM = 1"
definition USB_HID_COUNTRY_US :: u8 where [usb_consts]: "USB_HID_COUNTRY_US = 0x21"
definition USB_STRING_LANGUAGE :: u8 where [usb_consts]: "USB_STRING_LANGUAGE = 0"
definition USB_STRING_VENDOR :: u8 where [usb_consts]: "USB_STRING_VENDOR = 1"
definition USB_STRING_PRODUCT :: u8 where [usb_consts]: "USB_STRING_PRODUCT = 2"
definition USB_STRING_SERIAL :: u8 where [usb_consts]: "USB_STRING_SERIAL = 3"
definition USB_EDP_PRINTER_IN :: u8 where [usb_consts]: "USB_EDP_PRINTER_IN = 8"
definition USB_EDP_MOUSE :: u8 where [usb_consts]: "USB_EDP_MOUSE = 2"
definition USB_EDP_KEYBOARD_IN :: u8 where [usb_consts]: "USB_EDP_KEYBOARD_IN = 1"
definition USB_EDP_PRINTER_OUT :: u8 where [usb_consts]: "USB_EDP_PRINTER_OUT = 5"
definition USB_EDP_MIC :: u8 where [usb_consts]: "USB_EDP_MIC = 7"
definition USB_EDP_AUDIO_IN :: u8 where [usb_consts]: "USB_EDP_AUDIO_IN = 4"
definition USB_HID_AUDIO :: u8 where [usb_consts]: "USB_HID_AUDIO = 2"
definition USB_HID_MOUSE :: u8 where [usb_consts]: "USB_HID_MOUSE = 1"
definition USB_HID_KB_MEDIA :: u8 where [usb_consts]: "USB_HID_KB_MEDIA = 3"
definition USB_HID_KB_SYS :: u8 where [usb_consts]: "USB_HID_KB_SYS = 4"
definition USB_IRQ_SETUP_REQ :: u8 where [usb_consts]: "USB_IRQ_SETUP_REQ = 0"
definition USB_IRQ_DATA_REQ :: u8 where [usb_consts]: "USB_IRQ_DATA_REQ = 1"
definition DAT_TYPE_KB :: u8 where [usb_consts]: "DAT_TYPE_KB = 1"
definition DAT_TYPE_MOUSE :: u8 where [usb_consts]: "DAT_TYPE_MOUSE = 2"
definition USB_FIFO_NUM :: nat where [usb_consts]: "USB_FIFO_NUM = 4"
definition USB_FIFO_SIZE :: nat where [usb_consts]: "USB_FIFO_SIZE = 8"
definition KEYBOARD_REPORT_KEY_MAX :: nat where [usb_consts]: "KEYBOARD_REPORT_KEY_MAX = 6"
definition MEDIA_REPORT_DATA_LEN :: nat where [usb_consts]: "MEDIA_REPORT_DATA_LEN = 4"
definition AUDIO_FEATURE_ID_SPEAKER :: u8 where [usb_consts]: "AUDIO_FEATURE_ID_SPEAKER = 2"
definition AUDIO_FEATURE_ID_MIC :: u8 where [usb_consts]: "AUDIO_FEATURE_ID_MIC = 5"
definition MIC_VOL_MIN :: u16 where [usb_consts]: "MIC_VOL_MIN = 0"
definition MIC_VOL_MAX :: u16 where [usb_consts]: "MIC_VOL_MAX = 0x1e00"
definition MIC_VOL_RES :: u16 where [usb_consts]: "MIC_VOL_RES = 0x180"
definition MIC_VOL_DEF :: u16 where [usb_consts]: "MIC_VOL_DEF = 0x1800"
definition SPEAKER_VOL_MIN :: u16 where [usb_consts]: "SPEAKER_VOL_MIN = 0xa000"
definition SPEAKER_VOL_MAX :: u16 where [usb_consts]: "SPEAKER_VOL_MAX = 0x300"
definition SPEAKER_VOL_RES :: u16 where [usb_consts]: "SPEAKER_VOL_RES = 0x180"
definition SPEAKER_VOL_STEP :: u16 where [usb_consts]: "SPEAKER_VOL_STEP = 0x190"
definition FLD_EP_DAT_ACK :: u8 where [usb_consts]: "FLD_EP_DAT_ACK = 1"
definition FLD_EP_DAT_STALL :: u8 where [usb_consts]: "FLD_EP_DAT_STALL = 2"
definition FLD_EP_STA_ACK :: u8 where [usb_consts]: "FLD_EP_STA_ACK = 4"
definition FLD_EP_STA_STALL :: u8 where [usb_consts]: "FLD_EP_STA_STALL = 8"
definition FLD_CTRL_EP_IRQ_SETUP :: u8 where [usb_consts]: "FLD_CTRL_EP_IRQ_SETUP = 0x10"
definition FLD_CTRL_EP_IRQ_DATA :: u8 where [usb_consts]: "FLD_CTRL_EP_IRQ_DATA = 0x20"
definition FLD_CTRL_EP_IRQ_STA :: u8 where [usb_consts]: "FLD_CTRL_EP_IRQ_STA = 0x40"
definition FLD_CTRL_EP_AUTO_DESC :: u8 where [usb_consts]: "FLD_CTRL_EP_AUTO_DESC = 0x20"
definition FLD_CTRL_EP_AUTO_STD :: u8 where [usb_consts]: "FLD_CTRL_EP_AUTO_STD = 0x80"
definition FLD_USB_EP_BUSY :: u8 where [usb_consts]: "FLD_USB_EP_BUSY = 1"
definition FLD_USB_EP_DAT0 :: u8 where [usb_consts]: "FLD_USB_EP_DAT0 = 4"
definition FLD_USB_EP_DAT1 :: u8 where [usb_consts]: "FLD_USB_EP_DAT1 = 8"
definition FLD_USB_EP_MONO :: u8 where [usb_consts]: "FLD_USB_EP_MONO = 0x40"
definition FLD_USB_EP_EOF_ISO :: u8 where [usb_consts]: "FLD_USB_EP_EOF_ISO = 0x80"

text \<open>The microphone of the dongle: 16 kHz, 16 bits, one channel.\<close>

definition MIC_SAMPLE_RATE :: nat where "MIC_SAMPLE_RATE = 16000"
definition MIC_RESOLUTION_BIT :: nat where "MIC_RESOLUTION_BIT = 16"
definition MIC_CHANNLE_COUNT :: nat where "MIC_CHANNLE_COUNT = 1"

definition USB_MIC_CHANNELS_LEN :: nat where
  "USB_MIC_CHANNELS_LEN = MIC_CHANNLE_COUNT * (MIC_SAMPLE_RATE * MIC_RESOLUTION_BIT div 1000 div 8)"

definition USB_CONFIG_POWER_MA :: "u8 \<Rightarrow> u8" where
  "USB_CONFIG_POWER_MA mA = drop_bit 1 mA"

end
