(* ===== verification/Usb_Desc.thy ===== *)
theory Usb_Desc
  imports Usb_Std
begin

text \<open>
  The descriptors of \<open>application/usbstd/usbdesc.c\<close> for the 8258 master dongle, as the bytes the
  device sends. The structs of \<open>stdDescriptors.h\<close>, \<open>HIDClassCommon.h\<close> and
  \<open>AudioClassCommon.h\<close> are packed (\<open>-fpack-struct\<close>, \<open>-fshort-wchar\<close>), so each is a function from
  its fields to its bytes, and \<open>sizeof\<close> is the length of such a list. The theorem at the end reads
  the configuration descriptor back the way a host does.
\<close>

type_synonym bytes = "u8 list"

section \<open>The packed structs\<close>

definition USB_Descriptor_Hdr_t :: "u8 \<Rightarrow> u8 \<Rightarrow> bytes" where
  "USB_Descriptor_Hdr_t Size Type = [Size, Type]"

definition USB_Descriptor_Device_t ::
  "bytes \<Rightarrow> u16 \<Rightarrow> u8 \<Rightarrow> u8 \<Rightarrow> u8 \<Rightarrow> u8 \<Rightarrow> u16 \<Rightarrow> u16 \<Rightarrow> u16 \<Rightarrow> u8 \<Rightarrow> u8 \<Rightarrow> u8 \<Rightarrow> u8 \<Rightarrow> bytes" where
  "USB_Descriptor_Device_t Header USBSpecification Class SubClass Protocol Endpoint0Size VendorID
     ProductID ReleaseNumber ManufacturerStrIndex ProductStrIndex SerialNumStrIndex
     NumberOfConfigurations =
   Header @ le16 USBSpecification @ [Class, SubClass, Protocol, Endpoint0Size] @ le16 VendorID @
     le16 ProductID @ le16 ReleaseNumber @
     [ManufacturerStrIndex, ProductStrIndex, SerialNumStrIndex, NumberOfConfigurations]"

definition USB_Descriptor_Configuration_Hdr_t ::
  "bytes \<Rightarrow> u16 \<Rightarrow> u8 \<Rightarrow> u8 \<Rightarrow> u8 \<Rightarrow> u8 \<Rightarrow> u8 \<Rightarrow> bytes" where
  "USB_Descriptor_Configuration_Hdr_t Header TotalConfigurationSize TotalInterfaces
     ConfigurationNumber ConfigurationStrIndex ConfigAttributes MaxPowerConsumption =
   Header @ le16 TotalConfigurationSize @ [TotalInterfaces, ConfigurationNumber,
     ConfigurationStrIndex, ConfigAttributes, MaxPowerConsumption]"

definition USB_Descriptor_Interface_t ::
  "bytes \<Rightarrow> u8 \<Rightarrow> u8 \<Rightarrow> u8 \<Rightarrow> u8 \<Rightarrow> u8 \<Rightarrow> u8 \<Rightarrow> u8 \<Rightarrow> bytes" where
  "USB_Descriptor_Interface_t Header InterfaceNumber AlternateSetting TotalEndpoints Class SubClass
     Protocol InterfaceStrIndex =
   Header @ [InterfaceNumber, AlternateSetting, TotalEndpoints, Class, SubClass, Protocol,
     InterfaceStrIndex]"

definition USB_Descriptor_Endpoint_t :: "bytes \<Rightarrow> u8 \<Rightarrow> u8 \<Rightarrow> u16 \<Rightarrow> u8 \<Rightarrow> bytes" where
  "USB_Descriptor_Endpoint_t Header EndpointAddress Attributes EndpointSize PollingIntervalMS =
   Header @ [EndpointAddress, Attributes] @ le16 EndpointSize @ [PollingIntervalMS]"

definition USB_Descriptor_String_t :: "bytes \<Rightarrow> u16 list \<Rightarrow> bytes" where
  "USB_Descriptor_String_t Header UnicodeString = Header @ concat (map le16 UnicodeString)"

definition USB_HID_Descriptor_HID_t :: "bytes \<Rightarrow> u16 \<Rightarrow> u8 \<Rightarrow> u8 \<Rightarrow> u8 \<Rightarrow> bytes \<Rightarrow> bytes" where
  "USB_HID_Descriptor_HID_t Header HIDSpec CountryCode TotalReportDescriptors HIDReportType
     HIDReportLength =
   Header @ le16 HIDSpec @ [CountryCode, TotalReportDescriptors, HIDReportType] @ HIDReportLength"

definition USB_Audio_Descriptor_Interface_AC_t ::
  "bytes \<Rightarrow> u8 \<Rightarrow> bytes \<Rightarrow> bytes \<Rightarrow> u8 \<Rightarrow> u8 \<Rightarrow> bytes" where
  "USB_Audio_Descriptor_Interface_AC_t Header Subtype ACSpecification TotalLength InCollection
     InterfaceNumber =
   Header @ [Subtype] @ ACSpecification @ TotalLength @ [InCollection, InterfaceNumber]"

definition USB_Audio_Descriptor_InputTerminal_t ::
  "bytes \<Rightarrow> u8 \<Rightarrow> u8 \<Rightarrow> u16 \<Rightarrow> u8 \<Rightarrow> u8 \<Rightarrow> u16 \<Rightarrow> u8 \<Rightarrow> u8 \<Rightarrow> bytes" where
  "USB_Audio_Descriptor_InputTerminal_t Header Subtype TerminalID TerminalType
     AssociatedOutputTerminal TotalChannels ChannelConfig ChannelStrIndex TerminalStrIndex =
   Header @ [Subtype, TerminalID] @ le16 TerminalType @ [AssociatedOutputTerminal, TotalChannels] @
     le16 ChannelConfig @ [ChannelStrIndex, TerminalStrIndex]"

definition USB_Audio_Descriptor_OutputTerminal_t ::
  "bytes \<Rightarrow> u8 \<Rightarrow> u8 \<Rightarrow> u16 \<Rightarrow> u8 \<Rightarrow> u8 \<Rightarrow> u8 \<Rightarrow> bytes" where
  "USB_Audio_Descriptor_OutputTerminal_t Header Subtype TerminalID TerminalType
     AssociatedInputTerminal SourceID TerminalStrIndex =
   Header @ [Subtype, TerminalID] @ le16 TerminalType @
     [AssociatedInputTerminal, SourceID, TerminalStrIndex]"

definition USB_Audio_Descriptor_FeatureUnit_Mic_t ::
  "bytes \<Rightarrow> u8 \<Rightarrow> u8 \<Rightarrow> u8 \<Rightarrow> u8 \<Rightarrow> bytes \<Rightarrow> u8 \<Rightarrow> bytes" where
  "USB_Audio_Descriptor_FeatureUnit_Mic_t Header Subtype UnitID SourceID ControlSize ChannelControls
     FeatureUnitStrIndex =
   Header @ [Subtype, UnitID, SourceID, ControlSize] @ ChannelControls @ [FeatureUnitStrIndex]"

definition USB_Audio_Descriptor_Interface_AS_t :: "bytes \<Rightarrow> u8 \<Rightarrow> u8 \<Rightarrow> u8 \<Rightarrow> bytes \<Rightarrow> bytes" where
  "USB_Audio_Descriptor_Interface_AS_t Header Subtype TerminalLink FrameDelay AudioFormat =
   Header @ [Subtype, TerminalLink, FrameDelay] @ AudioFormat"

definition USB_Audio_Descriptor_Format_t ::
  "bytes \<Rightarrow> u8 \<Rightarrow> u8 \<Rightarrow> u8 \<Rightarrow> u8 \<Rightarrow> u8 \<Rightarrow> u8 \<Rightarrow> bytes" where
  "USB_Audio_Descriptor_Format_t Header Subtype FormatType Channels SubFrameSize BitResolution
     TotalDiscreteSampleRates =
   Header @ [Subtype, FormatType, Channels, SubFrameSize, BitResolution, TotalDiscreteSampleRates]"

definition USB_Audio_SampleFreq_t :: "u8 \<Rightarrow> u8 \<Rightarrow> u8 \<Rightarrow> bytes" where
  "USB_Audio_SampleFreq_t Byte1 Byte2 Byte3 = [Byte1, Byte2, Byte3]"

definition USB_Audio_Descriptor_StreamEndpoint_Std_t :: "bytes \<Rightarrow> u8 \<Rightarrow> u8 \<Rightarrow> bytes" where
  "USB_Audio_Descriptor_StreamEndpoint_Std_t Endpoint Refresh SyncEndpointNumber =
   Endpoint @ [Refresh, SyncEndpointNumber]"

definition USB_Audio_Descriptor_StreamEndpoint_Spc_t ::
  "bytes \<Rightarrow> u8 \<Rightarrow> u8 \<Rightarrow> u8 \<Rightarrow> bytes \<Rightarrow> bytes" where
  "USB_Audio_Descriptor_StreamEndpoint_Spc_t Header Subtype Attributes LockDelayUnits LockDelay =
   Header @ [Subtype, Attributes, LockDelayUnits] @ LockDelay"

text \<open>The \<open>sizeof\<close> of a struct: the length of its bytes, whatever its fields.\<close>

abbreviation hdr0 :: bytes where "hdr0 \<equiv> USB_Descriptor_Hdr_t 0 0"

abbreviation sizeof :: "bytes \<Rightarrow> u8" where "sizeof bs \<equiv> of_nat (length bs)"

abbreviation sz_Device :: u8 where "sz_Device \<equiv> sizeof (USB_Descriptor_Device_t hdr0 0 0 0 0 0 0 0 0 0 0 0 0)"
abbreviation sz_Configuration_Hdr :: u8 where "sz_Configuration_Hdr \<equiv> sizeof (USB_Descriptor_Configuration_Hdr_t hdr0 0 0 0 0 0 0)"
abbreviation sz_Interface :: u8 where "sz_Interface \<equiv> sizeof (USB_Descriptor_Interface_t hdr0 0 0 0 0 0 0 0)"
abbreviation sz_Endpoint :: u8 where "sz_Endpoint \<equiv> sizeof (USB_Descriptor_Endpoint_t hdr0 0 0 0 0)"
abbreviation sz_HID :: u8 where "sz_HID \<equiv> sizeof (USB_HID_Descriptor_HID_t hdr0 0 0 0 0 [0, 0])"
abbreviation sz_AC :: u8 where "sz_AC \<equiv> sizeof (USB_Audio_Descriptor_Interface_AC_t hdr0 0 [0, 0] [0, 0] 0 0)"
abbreviation sz_InputTerminal :: u8 where "sz_InputTerminal \<equiv> sizeof (USB_Audio_Descriptor_InputTerminal_t hdr0 0 0 0 0 0 0 0 0)"
abbreviation sz_OutputTerminal :: u8 where "sz_OutputTerminal \<equiv> sizeof (USB_Audio_Descriptor_OutputTerminal_t hdr0 0 0 0 0 0 0)"
abbreviation sz_FeatureUnit_Mic :: u8 where "sz_FeatureUnit_Mic \<equiv> sizeof (USB_Audio_Descriptor_FeatureUnit_Mic_t hdr0 0 0 0 0 [0, 0] 0)"
abbreviation sz_AS :: u8 where "sz_AS \<equiv> sizeof (USB_Audio_Descriptor_Interface_AS_t hdr0 0 0 0 [0, 0])"
abbreviation sz_Format :: u8 where "sz_Format \<equiv> sizeof (USB_Audio_Descriptor_Format_t hdr0 0 0 0 0 0 0)"
abbreviation sz_SampleFreq :: u8 where "sz_SampleFreq \<equiv> sizeof (USB_Audio_SampleFreq_t 0 0 0)"
abbreviation sz_StreamEndpoint_Std :: u8 where "sz_StreamEndpoint_Std \<equiv> sizeof (USB_Audio_Descriptor_StreamEndpoint_Std_t (USB_Descriptor_Endpoint_t hdr0 0 0 0 0) 0 0)"
abbreviation sz_StreamEndpoint_Spc :: u8 where "sz_StreamEndpoint_Spc \<equiv> sizeof (USB_Audio_Descriptor_StreamEndpoint_Spc_t hdr0 0 0 0 [0, 0])"

section \<open>HID report descriptors\<close>

text \<open>
  The item macros of \<open>HIDReportData.h\<close>: a prefix of tag, type and data size, then the data. The
  number of data bits is 0, 8 or 16 in this program.
\<close>

definition HID_RPT_DATA_BITS :: "nat \<Rightarrow> u8" where
  "HID_RPT_DATA_BITS n = (if n = 0 then 0 else if n = 8 then 1 else if n = 16 then 2 else 3)"

definition HID_RPT_DATA_ENCODE :: "nat \<Rightarrow> u16 \<Rightarrow> bytes" where
  "HID_RPT_DATA_ENCODE n d = (if n = 0 then [] else if n = 8 then [ucast d] else le16 d)"

definition HID_RPT_DATA_ENTRY :: "u8 \<Rightarrow> u8 \<Rightarrow> nat \<Rightarrow> u16 \<Rightarrow> bytes" where
  "HID_RPT_DATA_ENTRY Type Tag n d = (Type OR Tag OR HID_RPT_DATA_BITS n) # HID_RPT_DATA_ENCODE n d"

definition HID_RPT_INPUT :: "nat \<Rightarrow> u16 \<Rightarrow> bytes" where "HID_RPT_INPUT = HID_RPT_DATA_ENTRY HID_RPT_TYPE_MAIN 0x80"
definition HID_RPT_OUTPUT :: "nat \<Rightarrow> u16 \<Rightarrow> bytes" where "HID_RPT_OUTPUT = HID_RPT_DATA_ENTRY HID_RPT_TYPE_MAIN 0x90"
definition HID_RPT_COLLECTION :: "nat \<Rightarrow> u16 \<Rightarrow> bytes" where "HID_RPT_COLLECTION = HID_RPT_DATA_ENTRY HID_RPT_TYPE_MAIN 0xA0"
definition HID_RPT_END_COLLECTION :: "nat \<Rightarrow> u16 \<Rightarrow> bytes" where "HID_RPT_END_COLLECTION = HID_RPT_DATA_ENTRY HID_RPT_TYPE_MAIN 0xC0"
definition HID_RPT_USAGE_PAGE :: "nat \<Rightarrow> u16 \<Rightarrow> bytes" where "HID_RPT_USAGE_PAGE = HID_RPT_DATA_ENTRY HID_RPT_TYPE_GLOBAL 0x00"
definition HID_RPT_LOGICAL_MINIMUM :: "nat \<Rightarrow> u16 \<Rightarrow> bytes" where "HID_RPT_LOGICAL_MINIMUM = HID_RPT_DATA_ENTRY HID_RPT_TYPE_GLOBAL 0x10"
definition HID_RPT_LOGICAL_MAXIMUM :: "nat \<Rightarrow> u16 \<Rightarrow> bytes" where "HID_RPT_LOGICAL_MAXIMUM = HID_RPT_DATA_ENTRY HID_RPT_TYPE_GLOBAL 0x20"
definition HID_RPT_REPORT_SIZE :: "nat \<Rightarrow> u16 \<Rightarrow> bytes" where "HID_RPT_REPORT_SIZE = HID_RPT_DATA_ENTRY HID_RPT_TYPE_GLOBAL 0x70"
definition HID_RPT_REPORT_COUNT :: "nat \<Rightarrow> u16 \<Rightarrow> bytes" where "HID_RPT_REPORT_COUNT = HID_RPT_DATA_ENTRY HID_RPT_TYPE_GLOBAL 0x90"
definition HID_RPT_USAGE :: "nat \<Rightarrow> u16 \<Rightarrow> bytes" where "HID_RPT_USAGE = HID_RPT_DATA_ENTRY HID_RPT_TYPE_LOCAL 0x00"
definition HID_RPT_USAGE_MINIMUM :: "nat \<Rightarrow> u16 \<Rightarrow> bytes" where "HID_RPT_USAGE_MINIMUM = HID_RPT_DATA_ENTRY HID_RPT_TYPE_LOCAL 0x10"
definition HID_RPT_USAGE_MAXIMUM :: "nat \<Rightarrow> u16 \<Rightarrow> bytes" where "HID_RPT_USAGE_MAXIMUM = HID_RPT_DATA_ENTRY HID_RPT_TYPE_LOCAL 0x20"

definition HID_DESCRIPTOR_KEYBOARD :: bytes where
  "HID_DESCRIPTOR_KEYBOARD =
     HID_RPT_USAGE_PAGE 8 0x01 @
     HID_RPT_USAGE 8 0x06 @
     HID_RPT_COLLECTION 8 0x01 @
       HID_RPT_USAGE_PAGE 8 0x07 @
       HID_RPT_USAGE_MINIMUM 8 0xE0 @
       HID_RPT_USAGE_MAXIMUM 8 0xE7 @
       HID_RPT_LOGICAL_MINIMUM 8 0x00 @
       HID_RPT_LOGICAL_MAXIMUM 8 0x01 @
       HID_RPT_REPORT_COUNT 8 0x08 @
       HID_RPT_REPORT_SIZE 8 0x01 @
       HID_RPT_INPUT 8 (ucast (HID_IOF_DATA OR HID_IOF_VARIABLE OR HID_IOF_ABSOLUTE)) @
       HID_RPT_INPUT 8 (ucast (HID_IOF_CONSTANT OR HID_IOF_VARIABLE)) @
       HID_RPT_REPORT_COUNT 8 0x05 @
       HID_RPT_USAGE_PAGE 8 0x08 @
       HID_RPT_USAGE_MINIMUM 8 0x01 @
       HID_RPT_USAGE_MAXIMUM 8 0x05 @
       HID_RPT_OUTPUT 8 (ucast (HID_IOF_DATA OR HID_IOF_VARIABLE OR HID_IOF_ABSOLUTE OR HID_IOF_NON_VOLATILE)) @
       HID_RPT_REPORT_COUNT 8 0x01 @
       HID_RPT_REPORT_SIZE 8 0x03 @
       HID_RPT_OUTPUT 8 (ucast HID_IOF_CONSTANT) @
       HID_RPT_REPORT_COUNT 8 0x06 @
       HID_RPT_REPORT_SIZE 8 0x08 @
       HID_RPT_LOGICAL_MINIMUM 8 0x00 @
       [0x26, 0xa4, 0x00] @
       HID_RPT_USAGE_PAGE 8 0x07 @
       HID_RPT_USAGE_MINIMUM 8 0x00 @
       [0x2a, 0xa4, 0x00] @
       HID_RPT_INPUT 8 (ucast (HID_IOF_DATA OR HID_IOF_ARRAY OR HID_IOF_ABSOLUTE)) @
     HID_RPT_END_COLLECTION 0 0"

definition keyboard_report_desc :: bytes where
  "keyboard_report_desc = HID_DESCRIPTOR_KEYBOARD"

text \<open>
  The mouse interface: report 1 is the mouse, 3 the media keys, 4 the system keys, 5 the
  feature report the host tools use. (Built without \<open>ONEKEY_WEB\<close> and \<open>CHIP_EOP_ERROR\<close>.)
\<close>

definition mouse_report_desc :: bytes where
  "mouse_report_desc =
     [0x05, 0x01, 0x09, 0x02, 0xa1, 0x01, 0x85, USB_HID_MOUSE, 0x09, 0x01, 0xa1, 0x00,
      0x05, 0x09, 0x19, 0x01, 0x29, 0x05, 0x15, 0x00, 0x25, 0x01, 0x95, 0x05, 0x75, 0x01,
      0x81, 0x02, 0x95, 0x01, 0x75, 0x03, 0x81, 0x01,
      0x05, 0x01, 0x09, 0x30, 0x09, 0x31, 0x15, 0x81, 0x25, 0x7f, 0x75, 0x08, 0x95, 0x02,
      0x81, 0x06, 0x09, 0x38, 0x15, 0x81, 0x25, 0x7f, 0x75, 0x08, 0x95, 0x01, 0x81, 0x06,
      0xc0, 0xc0,
      0x05, 0x0c, 0x09, 0x01, 0xA1, 0x01, 0x85, USB_HID_KB_MEDIA, 0x75, 0x10, 0x95, 0x02,
      0x15, 0x01, 0x26, 0x9c, 0x02, 0x19, 0x01, 0x2a, 0x8c, 0x02, 0x81, 0x00, 0xc0,
      0x05, 0x01, 0x09, 0x80, 0xa1, 0x01, 0x85, USB_HID_KB_SYS, 0x75, 0x02, 0x95, 0x01,
      0x15, 0x01, 0x25, 0x03, 0x09, 0x82, 0x09, 0x81, 0x09, 0x83, 0x81, 0x60,
      0x75, 0x06, 0x81, 0x03, 0xc0] @
     HID_RPT_USAGE_PAGE 8 0x01 @
     [0x09, 0x00, 0xa1, 0x01, 0x85, 0x05, 0x06, 0x00, 0xff, 0x09, 0x01, 0x15, 0x81, 0x25, 0x7f,
      0x75, 0x08, 0x95, 0x07, 0xb1, 0x02] @
     HID_RPT_END_COLLECTION 0 0"

definition usbaud_report_desc :: bytes where
  "usbaud_report_desc =
     [0x05, 0x0c, 0x09, 0x01, 0xa1, 0x01,
      0x85, 0x01, 0x15, 0x00, 0x25, 0x01, 0x09, 0xcd, 0x09, 0xb5, 0x09, 0xb6,
      0x09, 0xb7, 0x75, 0x01, 0x95, 0x04, 0x81, 0x02, 0x15, 0x00, 0x25, 0x01,
      0x09, 0xb0, 0x09, 0xb1, 0x09, 0xb3, 0x09, 0xb4, 0x75, 0x01, 0x95, 0x04,
      0x81, 0x22, 0x15, 0x00, 0x25, 0x01, 0x09, 0xe9, 0x09, 0xea, 0x09, 0xe2,
      0x75, 0x01, 0x95, 0x03, 0x81, 0x22, 0x75, 0x05, 0x95, 0x01, 0x81, 0x01,
      0xc0, 0x06, 0xa0, 0xff, 0x09, 0x01, 0xa1, 0x01, 0x85, 0x02, 0x09, 0x01,
      0x15, 0x00, 0x26, 0xff, 0x00, 0x75, 0x08, 0x95, 0x02, 0x91, 0x00, 0x09,
      0x02, 0x75, 0x08, 0x95, 0x02, 0x81, 0x00, 0xc0]"

definition usbkb_get_report_desc_size :: u16 where
  "usbkb_get_report_desc_size = of_nat (length keyboard_report_desc)"

definition usbmouse_get_report_desc_size :: u16 where
  "usbmouse_get_report_desc_size = of_nat (length mouse_report_desc)"

section \<open>Device and string descriptors\<close>

definition ID_VENDOR :: u16 where "ID_VENDOR = 0x248a"
definition ID_PRODUCT_BASE :: u16 where "ID_PRODUCT_BASE = 0x8800"

text \<open>The product id says which functions are built in: printer, microphone, mouse, keyboard.\<close>

definition ID_PRODUCT :: u16 where
  "ID_PRODUCT = ID_PRODUCT_BASE OR push_bit 0 1 OR push_bit 2 1 OR push_bit 3 1 OR push_bit 4 1"

definition wide :: "string \<Rightarrow> u16 list" where
  "wide s = map of_char s @ [0]"

definition STRING_VENDOR :: "u16 list" where "STRING_VENDOR = wide ''Telink''"
definition STRING_PRODUCT :: "u16 list" where "STRING_PRODUCT = wide ''2.4G Wireless Audio''"
definition STRING_SERIAL :: "u16 list" where "STRING_SERIAL = wide ''TLSR8258''"

definition sizeof_wide :: "u16 list \<Rightarrow> nat" where
  "sizeof_wide s = 2 * length s"

definition language_desc :: bytes where
  "language_desc = USB_Descriptor_String_t (USB_Descriptor_Hdr_t (sizeof hdr0 + 2) DTYPE_String) [LANGUAGE_ID_ENG]"

definition vendor_desc :: bytes where
  "vendor_desc = USB_Descriptor_String_t
     (USB_Descriptor_Hdr_t (sizeof hdr0 + of_nat (sizeof_wide STRING_VENDOR) - 2) DTYPE_String) STRING_VENDOR"

definition product_desc :: bytes where
  "product_desc = USB_Descriptor_String_t
     (USB_Descriptor_Hdr_t (sizeof hdr0 + of_nat (sizeof_wide STRING_PRODUCT) - 2) DTYPE_String) STRING_PRODUCT"

definition serial_desc :: bytes where
  "serial_desc = USB_Descriptor_String_t
     (USB_Descriptor_Hdr_t (sizeof hdr0 + of_nat (sizeof_wide STRING_SERIAL) - 2) DTYPE_String) STRING_SERIAL"

definition device_desc :: bytes where
  "device_desc = USB_Descriptor_Device_t (USB_Descriptor_Hdr_t sz_Device DTYPE_Device)
     0x0110
     USB_CSCP_NoDeviceClass
     USB_CSCP_NoDeviceSubclass
     USB_CSCP_NoDeviceProtocol
     8
     ID_VENDOR
     ID_PRODUCT
     0x0100
     USB_STRING_VENDOR
     USB_STRING_PRODUCT
     3
     1"

section \<open>The configuration descriptor\<close>

definition printer_part :: bytes where
  "printer_part =
     \<comment> \<open>printer_interface\<close>
     USB_Descriptor_Interface_t (USB_Descriptor_Hdr_t sz_Interface DTYPE_Interface)
       USB_INTF_PRINTER 0 2 PRNT_CSCP_PrinterClass PRNT_CSCP_PrinterSubclass
       PRNT_CSCP_BidirectionalProtocol NO_DESCRIPTOR @
     \<comment> \<open>printer_in_endpoint\<close>
     USB_Descriptor_Endpoint_t (USB_Descriptor_Hdr_t sz_Endpoint DTYPE_Endpoint)
       (ENDPOINT_DIR_IN OR USB_EDP_PRINTER_IN) EP_TYPE_BULK 0x0040 0 @
     \<comment> \<open>printer_out_endpoint\<close>
     USB_Descriptor_Endpoint_t (USB_Descriptor_Hdr_t sz_Endpoint DTYPE_Endpoint)
       USB_EDP_PRINTER_OUT EP_TYPE_BULK 0x0040 0"

definition audio_control_part :: bytes where
  "audio_control_part =
     \<comment> \<open>audio_control_interface\<close>
     USB_Descriptor_Interface_t (USB_Descriptor_Hdr_t sz_Interface DTYPE_Interface)
       USB_INTF_AUDIO_CONTROL 0 0 AUDIO_CSCP_AudioClass AUDIO_CSCP_ControlSubclass
       AUDIO_CSCP_ControlProtocol NO_DESCRIPTOR @
     \<comment> \<open>audio_control_interface_ac\<close>
     USB_Audio_Descriptor_Interface_AC_t (USB_Descriptor_Hdr_t sz_AC DTYPE_CSInterface)
       AUDIO_DSUBTYPE_CSInterface_Header [0x00, 0x01]
       [sz_AC + sz_InputTerminal + sz_OutputTerminal + sz_FeatureUnit_Mic, 0] 1 USB_INTF_MIC"

definition mic_units_part :: bytes where
  "mic_units_part =
     \<comment> \<open>mic_input_terminal\<close>
     USB_Audio_Descriptor_InputTerminal_t (USB_Descriptor_Hdr_t sz_InputTerminal DTYPE_CSInterface)
       AUDIO_DSUBTYPE_CSInterface_InputTerminal USB_MIC_INPUT_TERMINAL_ID AUDIO_TERMINAL_IN_MIC 0
       1 0x0001 0 NO_DESCRIPTOR @
     \<comment> \<open>mic_feature_unit\<close>
     USB_Audio_Descriptor_FeatureUnit_Mic_t (USB_Descriptor_Hdr_t sz_FeatureUnit_Mic DTYPE_CSInterface)
       AUDIO_DSUBTYPE_CSInterface_Feature USB_MIC_FEATURE_UNIT_ID USB_MIC_FEATURE_UNIT_SOURCE_ID 1
       [0x03, 0x00] NO_DESCRIPTOR @
     \<comment> \<open>mic_output_terminal\<close>
     USB_Audio_Descriptor_OutputTerminal_t (USB_Descriptor_Hdr_t sz_OutputTerminal DTYPE_CSInterface)
       AUDIO_DSUBTYPE_CSInterface_OutputTerminal USB_MIC_OUTPUT_TERMINAL_ID AUDIO_TERMINAL_STREAMING
       0 USB_MIC_OUTPUT_TERMINAL_SOURCE_ID NO_DESCRIPTOR"

definition mic_stream_part :: bytes where
  "mic_stream_part =
     \<comment> \<open>mic_setting0\<close>
     USB_Descriptor_Interface_t (USB_Descriptor_Hdr_t sz_Interface DTYPE_Interface)
       USB_INTF_MIC 0 0 AUDIO_CSCP_AudioClass AUDIO_CSCP_AudioStreamingSubclass
       AUDIO_CSCP_StreamingProtocol NO_DESCRIPTOR @
     \<comment> \<open>mic_setting1\<close>
     USB_Descriptor_Interface_t (USB_Descriptor_Hdr_t sz_Interface DTYPE_Interface)
       USB_INTF_MIC 1 1 AUDIO_CSCP_AudioClass AUDIO_CSCP_AudioStreamingSubclass
       AUDIO_CSCP_StreamingProtocol NO_DESCRIPTOR @
     \<comment> \<open>mic_audio_stream\<close>
     USB_Audio_Descriptor_Interface_AS_t (USB_Descriptor_Hdr_t sz_AS DTYPE_CSInterface)
       AUDIO_DSUBTYPE_CSInterface_General 6 1 [USB_AUDIO_FORMAT_PCM AND 0xff, 0] @
     \<comment> \<open>mic_audio_format\<close>
     USB_Audio_Descriptor_Format_t (USB_Descriptor_Hdr_t (sz_Format + sz_SampleFreq) DTYPE_CSInterface)
       AUDIO_DSUBTYPE_CSInterface_FormatType USB_AUDIO_FORMAT_PCM (of_nat MIC_CHANNLE_COUNT) 2
       (of_nat MIC_RESOLUTION_BIT) 1 @
     \<comment> \<open>mic_sample_rate\<close>
     USB_Audio_SampleFreq_t (of_nat MIC_SAMPLE_RATE) (of_nat (MIC_SAMPLE_RATE div 256)) 0x00 @
     \<comment> \<open>mic_stream_endpoint\<close>
     USB_Audio_Descriptor_StreamEndpoint_Std_t
       (USB_Descriptor_Endpoint_t (USB_Descriptor_Hdr_t sz_StreamEndpoint_Std DTYPE_Endpoint)
          (ENDPOINT_DIR_MASK OR USB_EDP_MIC)
          (EP_TYPE_ISOCHRONOUS OR push_bit 2 EP_SYNC_TYPE_SYNC OR push_bit 4 EP_USAGE_TYPE_DATA)
          (of_nat USB_MIC_CHANNELS_LEN) 1) 0 0 @
     \<comment> \<open>mic_stream_endpoint_spc\<close>
     USB_Audio_Descriptor_StreamEndpoint_Spc_t (USB_Descriptor_Hdr_t sz_StreamEndpoint_Spc DTYPE_CSEndpoint)
       AUDIO_DSUBTYPE_CSInterface_General AUDIO_EP_SAMPLE_FREQ_CONTROL 0 [0, 0]"

definition USB_KEYBOARD_POLL_INTERVAL :: u8 where "USB_KEYBOARD_POLL_INTERVAL = 10"
definition USB_MOUSE_POLL_INTERVAL :: u8 where "USB_MOUSE_POLL_INTERVAL = 4"

definition keyboard_interface :: bytes where
  "keyboard_interface =
     USB_Descriptor_Interface_t (USB_Descriptor_Hdr_t sz_Interface DTYPE_Interface)
       USB_INTF_KEYBOARD 0 1 HID_CSCP_HIDClass HID_CSCP_BootSubclass HID_CSCP_KeyboardBootProtocol
       NO_DESCRIPTOR"

definition keyboard_descriptor :: bytes where
  "keyboard_descriptor =
     \<comment> \<open>keyboard_hid\<close>
     USB_HID_Descriptor_HID_t (USB_Descriptor_Hdr_t sz_HID HID_DTYPE_HID) 0x0111
       USB_HID_COUNTRY_US 1 HID_DTYPE_Report [of_nat (length keyboard_report_desc), 0x00] @
     \<comment> \<open>keyboard_in_endpoint\<close>
     USB_Descriptor_Endpoint_t (USB_Descriptor_Hdr_t sz_Endpoint DTYPE_Endpoint)
       (ENDPOINT_DIR_IN OR USB_EDP_KEYBOARD_IN) EP_TYPE_INTERRUPT 0x0008 USB_KEYBOARD_POLL_INTERVAL"

definition mouse_interface :: bytes where
  "mouse_interface =
     USB_Descriptor_Interface_t (USB_Descriptor_Hdr_t sz_Interface DTYPE_Interface)
       USB_INTF_MOUSE 0 1 HID_CSCP_HIDClass HID_CSCP_BootSubclass HID_CSCP_MouseBootProtocol
       NO_DESCRIPTOR"

definition mouse_descriptor :: bytes where
  "mouse_descriptor =
     \<comment> \<open>mouse_hid\<close>
     USB_HID_Descriptor_HID_t (USB_Descriptor_Hdr_t sz_HID HID_DTYPE_HID) 0x0111
       USB_HID_COUNTRY_US 1 HID_DTYPE_Report [of_nat (length mouse_report_desc), 0x00] @
     \<comment> \<open>mouse_in_endpoint\<close>
     USB_Descriptor_Endpoint_t (USB_Descriptor_Hdr_t sz_Endpoint DTYPE_Endpoint)
       (ENDPOINT_DIR_IN OR USB_EDP_MOUSE) EP_TYPE_INTERRUPT 0x0008 USB_MOUSE_POLL_INTERVAL"

text \<open>The struct \<open>USB_Descriptor_Configuration_t\<close>: the header, then the parts in order.\<close>

definition config_parts :: bytes where
  "config_parts = printer_part @ audio_control_part @ mic_units_part @ mic_stream_part @
     keyboard_interface @ keyboard_descriptor @ mouse_interface @ mouse_descriptor"

definition configuration_desc :: bytes where
  "configuration_desc =
     USB_Descriptor_Configuration_Hdr_t (USB_Descriptor_Hdr_t sz_Configuration_Hdr DTYPE_Configuration)
       (ucast sz_Configuration_Hdr + of_nat (length config_parts))
       USB_INTF_MAX
       1
       NO_DESCRIPTOR
       (USB_CONFIG_ATTR_RESERVED OR USB_CONFIG_ATTR_REMOTEWAKEUP)
       (USB_CONFIG_POWER_MA 50) @ config_parts"

text \<open>What the getters return: the bytes from the descriptor's address on.\<close>

definition usbdesc_get_language :: bytes where "usbdesc_get_language = language_desc"
definition usbdesc_get_vendor :: bytes where "usbdesc_get_vendor = vendor_desc"
definition usbdesc_get_product :: bytes where "usbdesc_get_product = product_desc"
definition usbdesc_get_serial :: bytes where "usbdesc_get_serial = serial_desc"
definition usbdesc_get_device :: bytes where "usbdesc_get_device = device_desc"
definition usbdesc_get_configuration :: bytes where "usbdesc_get_configuration = configuration_desc"
definition usbdesc_get_mouse :: bytes where "usbdesc_get_mouse = mouse_descriptor"

text \<open>\<open>configuration_desc\<close> continues with the mouse interface behind the keyboard descriptor.\<close>

definition usbdesc_get_keyboard :: bytes where
  "usbdesc_get_keyboard = keyboard_descriptor @ mouse_interface @ mouse_descriptor"

section \<open>Reading a configuration descriptor\<close>

text \<open>
  A host walks the bytes by the length in the first byte of each descriptor. A descriptor that
  is shorter than its header or longer than what is left is an error.
\<close>

function desc_walk :: "bytes \<Rightarrow> bytes list option" where
  "desc_walk bs =
     (case bs of [] \<Rightarrow> Some []
      | l # rest \<Rightarrow>
          if 2 \<le> unat l \<and> unat l \<le> length bs
          then map_option ((#) (take (unat l) bs)) (desc_walk (drop (unat l) bs)) else None)"
  by pat_completeness auto
termination by (relation "measure length") auto

declare desc_walk.simps [simp del]

definition desc_type :: "bytes \<Rightarrow> u8" where "desc_type d = d ! 1"

text \<open>An interface descriptor together with the descriptors that follow it, up to the next one.\<close>

fun interfaces :: "bytes list \<Rightarrow> (bytes \<times> bytes list) list" where
  "interfaces [] = []"
| "interfaces (d # ds) =
     (if desc_type d = DTYPE_Interface
      then (d, takeWhile (\<lambda>x. desc_type x \<noteq> DTYPE_Interface) ds) # interfaces ds else interfaces ds)"

definition endpoints :: "bytes list \<Rightarrow> bytes list" where
  "endpoints ds = filter (\<lambda>d. desc_type d = DTYPE_Endpoint) ds"

text \<open>
  What the USB specification asks: a configuration header whose total length is right, interfaces
  numbered from 0 without a gap, as many endpoints as each interface announces, no endpoint
  address used twice, and a class header whose total length covers its units.
\<close>

definition config_ok :: "bytes \<Rightarrow> bool" where
  "config_ok bs = (case desc_walk bs of
      None \<Rightarrow> False
    | Some ds \<Rightarrow>
        ds \<noteq> [] \<and> desc_type (hd ds) = DTYPE_Configuration \<and>
        unat (u16_le (bs ! 2) (bs ! 3)) = length bs \<and>
        remdups_adj (map (\<lambda>(i, _). unat (i ! 2)) (interfaces ds)) = [0..<unat (bs ! 4)] \<and>
        list_all (\<lambda>(i, rest). unat (i ! 4) = length (endpoints rest)) (interfaces ds) \<and>
        distinct (map (\<lambda>e. e ! 2) (endpoints ds)))"

definition cs_units :: "bytes \<Rightarrow> bytes list" where
  "cs_units bs = (case desc_walk bs of None \<Rightarrow> []
    | Some ds \<Rightarrow> concat (map (\<lambda>(i, rest). if i ! 2 = USB_INTF_AUDIO_CONTROL
        then filter (\<lambda>d. desc_type d = DTYPE_CSInterface) rest else []) (interfaces ds)))"

lemma desc_walk_concat:
  "list_all (\<lambda>d. 2 \<le> unat (hd d) \<and> length d = unat (hd d)) ds \<Longrightarrow> desc_walk (concat ds) = Some ds"
proof (induction ds)
  case Nil
  then show ?case by (simp add: desc_walk.simps)
next
  case (Cons d ds)
  then obtain l r where d: "d = l # r" by (cases d) auto
  then have u: "unat l = Suc (length r)" "0 < length r" using Cons.prems by auto
  with Cons show ?case by (subst desc_walk.simps) (simp add: d Suc_le_eq)
qed

text \<open>The bytes the dongle sends, descriptor by descriptor.\<close>

definition config_header_ds :: "bytes list" where
  "config_header_ds =
    [[9, 2, 182, 0, 5, 1, 0, 160, 25]]"

definition printer_ds :: "bytes list" where
  "printer_ds =
    [[9, 4, 0, 0, 2, 7, 1, 2, 0],
     [7, 5, 136, 2, 64, 0, 0],
     [7, 5, 5, 2, 64, 0, 0]]"

definition audio_control_ds :: "bytes list" where
  "audio_control_ds =
    [[9, 4, 1, 0, 0, 1, 1, 0, 0],
     [9, 36, 1, 0, 1, 39, 0, 1, 2]]"

definition mic_units_ds :: "bytes list" where
  "mic_units_ds =
    [[12, 36, 2, 4, 1, 2, 0, 1, 1, 0, 0, 0],
     [9, 36, 6, 5, 4, 1, 3, 0, 0],
     [9, 36, 3, 6, 1, 1, 0, 5, 0]]"

definition mic_stream_ds :: "bytes list" where
  "mic_stream_ds =
    [[9, 4, 2, 0, 0, 1, 2, 0, 0],
     [9, 4, 2, 1, 1, 1, 2, 0, 0],
     [7, 36, 1, 6, 1, 1, 0],
     [11, 36, 2, 1, 1, 2, 16, 1, 128, 62, 0],
     [9, 5, 135, 13, 32, 0, 1, 0, 0],
     [7, 37, 1, 1, 0, 0, 0]]"

definition keyboard_interface_ds :: "bytes list" where
  "keyboard_interface_ds =
    [[9, 4, 3, 0, 1, 3, 1, 1, 0]]"

definition keyboard_descriptor_ds :: "bytes list" where
  "keyboard_descriptor_ds =
    [[9, 33, 17, 1, 33, 1, 34, 59, 0],
     [7, 5, 129, 3, 8, 0, 10]]"

definition mouse_interface_ds :: "bytes list" where
  "mouse_interface_ds =
    [[9, 4, 4, 0, 1, 3, 1, 2, 0]]"

definition mouse_descriptor_ds :: "bytes list" where
  "mouse_descriptor_ds =
    [[9, 33, 17, 1, 33, 1, 34, 142, 0],
     [7, 5, 130, 3, 8, 0, 4]]"

definition dongle_descriptors :: "bytes list" where
  "dongle_descriptors =
     config_header_ds @ printer_ds @ audio_control_ds @ mic_units_ds @ mic_stream_ds @ keyboard_interface_ds @ keyboard_descriptor_ds @ mouse_interface_ds @ mouse_descriptor_ds"

lemmas usb_structs = USB_Descriptor_Hdr_t_def USB_Descriptor_Device_t_def
  USB_Descriptor_Configuration_Hdr_t_def USB_Descriptor_Interface_t_def USB_Descriptor_Endpoint_t_def
  USB_Descriptor_String_t_def USB_HID_Descriptor_HID_t_def USB_Audio_Descriptor_Interface_AC_t_def
  USB_Audio_Descriptor_InputTerminal_t_def USB_Audio_Descriptor_OutputTerminal_t_def
  USB_Audio_Descriptor_FeatureUnit_Mic_t_def USB_Audio_Descriptor_Interface_AS_t_def
  USB_Audio_Descriptor_Format_t_def USB_Audio_SampleFreq_t_def
  USB_Audio_Descriptor_StreamEndpoint_Std_t_def USB_Audio_Descriptor_StreamEndpoint_Spc_t_def
  MIC_SAMPLE_RATE_def MIC_RESOLUTION_BIT_def MIC_CHANNLE_COUNT_def USB_MIC_CHANNELS_LEN_def
  USB_KEYBOARD_POLL_INTERVAL_def USB_MOUSE_POLL_INTERVAL_def USB_CONFIG_POWER_MA_def le16_def

lemma keyboard_report_desc_length: "length keyboard_report_desc = 59"
  by code_simp

lemma mouse_report_desc_length: "length mouse_report_desc = 142"
  by code_simp

lemma printer_part_bytes: "printer_part = concat printer_ds"
  by (simp add: printer_part_def printer_ds_def usb_structs usb_consts)

lemma audio_control_part_bytes: "audio_control_part = concat audio_control_ds"
  by (simp add: audio_control_part_def audio_control_ds_def usb_structs usb_consts)

lemma mic_units_part_bytes: "mic_units_part = concat mic_units_ds"
  by (simp add: mic_units_part_def mic_units_ds_def usb_structs usb_consts)

lemma mic_stream_part_bytes: "mic_stream_part = concat mic_stream_ds"
  by (simp add: mic_stream_part_def mic_stream_ds_def usb_structs usb_consts)

lemma keyboard_interface_bytes: "keyboard_interface = concat keyboard_interface_ds"
  by (simp add: keyboard_interface_def keyboard_interface_ds_def usb_structs usb_consts)

lemma keyboard_descriptor_bytes: "keyboard_descriptor = concat keyboard_descriptor_ds"
  by (simp add: keyboard_descriptor_def keyboard_descriptor_ds_def usb_structs usb_consts keyboard_report_desc_length)

lemma mouse_interface_bytes: "mouse_interface = concat mouse_interface_ds"
  by (simp add: mouse_interface_def mouse_interface_ds_def usb_structs usb_consts)

lemma mouse_descriptor_bytes: "mouse_descriptor = concat mouse_descriptor_ds"
  by (simp add: mouse_descriptor_def mouse_descriptor_ds_def usb_structs usb_consts mouse_report_desc_length)

lemma config_parts_bytes:
  "config_parts = concat (tl dongle_descriptors)"
  by (simp add: config_parts_def dongle_descriptors_def config_header_ds_def printer_part_bytes
      audio_control_part_bytes mic_units_part_bytes mic_stream_part_bytes keyboard_interface_bytes
      keyboard_descriptor_bytes mouse_interface_bytes mouse_descriptor_bytes)

lemma config_parts_length: "length config_parts = 173"
  unfolding config_parts_bytes by code_simp

lemma configuration_desc_bytes: "configuration_desc = concat dongle_descriptors"
proof -
  have "configuration_desc = hd config_header_ds @ config_parts"
    by (simp add: configuration_desc_def config_header_ds_def config_parts_length usb_structs usb_consts)
  then show ?thesis
    by (simp add: config_parts_bytes dongle_descriptors_def config_header_ds_def)
qed

lemma configuration_desc_walk: "desc_walk configuration_desc = Some dongle_descriptors"
  unfolding configuration_desc_bytes by (rule desc_walk_concat) code_simp

text \<open>
  C28. The configuration descriptor reads back: its bytes split into descriptors, the total length
  and interface count of the header are right, every interface has the endpoints it announces,
  no endpoint is used twice, and the audio header's total length is that of its units.
\<close>
theorem configuration_desc_well_formed:
  "config_ok configuration_desc \<and>
   (case cs_units configuration_desc of [] \<Rightarrow> False
    | h # us \<Rightarrow> unat (u16_le (h ! 5) (h ! 6)) = sum_list (map length (h # us))) \<and>
   length configuration_desc < 256"
proof (intro conjI)
  show "config_ok configuration_desc"
    unfolding config_ok_def configuration_desc_walk option.case
  proof (intro conjI)
    show "dongle_descriptors \<noteq> []" by code_simp
    show "desc_type (hd dongle_descriptors) = DTYPE_Configuration" by code_simp
    show "unat (u16_le (configuration_desc ! 2) (configuration_desc ! 3)) = length configuration_desc"
      unfolding configuration_desc_bytes by code_simp
    have n: "unat (configuration_desc ! 4) = 5" unfolding configuration_desc_bytes by code_simp
    show "remdups_adj (map (\<lambda>(i, _). unat (i ! 2)) (interfaces dongle_descriptors)) =
        [0..<unat (configuration_desc ! 4)]"
      unfolding n by code_simp
    show "list_all (\<lambda>(i, rest). unat (i ! 4) = length (endpoints rest)) (interfaces dongle_descriptors)"
      by code_simp
    show "distinct (map (\<lambda>e. e ! 2) (endpoints dongle_descriptors))" by code_simp
  qed
  show "case cs_units configuration_desc of [] \<Rightarrow> False
    | h # us \<Rightarrow> unat (u16_le (h ! 5) (h ! 6)) = sum_list (map length (h # us))"
    unfolding cs_units_def configuration_desc_walk option.case by code_simp
  show "length configuration_desc < 256" unfolding configuration_desc_bytes by code_simp
qed

text \<open>The string descriptors announce the number of bytes the control endpoint sends for them.\<close>

theorem string_descriptors_announce_length:
  "unat (hd vendor_desc) = sizeof_wide STRING_VENDOR \<and>
   unat (hd product_desc) = sizeof_wide STRING_PRODUCT \<and>
   unat (hd serial_desc) = sizeof_wide STRING_SERIAL \<and> unat (hd language_desc) = length language_desc"
  by code_simp

end
