(* ===== verification/Usb_Hid.thy ===== *)
theory Usb_Hid
  imports Keyboard Usb_Desc "HOL-Library.Monad_Syntax"
begin

text \<open>
  Keyboard and mouse reports of the dongle: \<open>application/app/usbkb.c\<close> and \<open>usbmouse.c\<close>. A report
  goes to its interrupt endpoint when the endpoint is free and to a ring of four slots of eight
  bytes when it is busy; \<open>usb_hid_report_fifo_proc\<close> empties the ring. The endpoint hardware is
  part of the state: \<open>ep_busy\<close> is its busy flag, which writing the acknowledge bit sets and the
  host's poll clears, and \<open>sent\<close> records every report handed to it. Reading or writing outside an
  array is \<^const>\<open>None\<close>; the current tick is an argument where the code reads the timer.
\<close>

section \<open>State\<close>

record mouse_data =
  btn :: u8
  mouse_x :: u8
  mouse_y :: u8
  wheel :: u8

definition mouse_bytes :: "mouse_data \<Rightarrow> bytes" where
  "mouse_bytes m = [btn m, mouse_x m, mouse_y m, wheel m]"

definition mouse_of_bytes :: "bytes \<Rightarrow> mouse_data" where
  "mouse_of_bytes bs = \<lparr>btn = bs ! 0, mouse_x = bs ! 1, mouse_y = bs ! 2, wheel = bs ! 3\<rparr>"

definition kb_of_bytes :: "bytes \<Rightarrow> kb_data" where
  "kb_of_bytes bs = \<lparr>cnt = bs ! 0, ctrl_key = bs ! 1, keycode = take 6 (drop 2 bs)\<rparr>"

definition MOUSE_REPORT_DATA_LEN :: nat where "MOUSE_REPORT_DATA_LEN = 4"
definition USBKB_BUFF_DATA_NUM :: u8 where "USBKB_BUFF_DATA_NUM = 8"
definition USBMOUSE_BUFF_DATA_NUM :: u8 where "USBMOUSE_BUFF_DATA_NUM = 8"
definition USB_KEYBOARD_RELEASE_TIMEOUT :: u32 where "USB_KEYBOARD_RELEASE_TIMEOUT = 450000"
definition USB_MOUSE_RELEASE_TIMEOUT :: u32 where "USB_MOUSE_RELEASE_TIMEOUT = 200000"

definition KB_NORMAL_RELEASE_MASK :: u32 where "KB_NORMAL_RELEASE_MASK = 1"
definition KB_SYS_RELEASE_MASK :: u32 where "KB_SYS_RELEASE_MASK = 2"
definition KB_MEDIA_RELEASE_MASK :: u32 where "KB_MEDIA_RELEASE_MASK = 4"

record hid_st =
  ep_busy :: "u8 \<Rightarrow> bool"
  sent :: "(u8 \<times> u8 \<times> bytes) list"
  edp_toggle :: "u8 list"
  usb_fifo :: "bytes list"
  usb_ff_rptr :: u8
  usb_ff_wptr :: u8
  kb_dat_buff :: "kb_data list"
  usbkb_wptr :: u8
  usbkb_rptr :: u8
  usbkb_not_released :: u32
  usbkb_data_report_time :: u32
  last_data :: kb_data
  mouse_dat_buff :: "mouse_data list"
  usbmouse_wptr :: u8
  usbmouse_rptr :: u8
  usbmouse_not_released :: u32
  usbmouse_data_report_time :: u32
  usb_mouse_report_proto :: u8

definition BOUND_INC_POW2 :: "u8 \<Rightarrow> u8 \<Rightarrow> u8" where
  "BOUND_INC_POW2 a base = (a + 1) AND (base - 1)"

section \<open>The report ring\<close>

definition fifo_push :: "bytes \<Rightarrow> hid_st \<Rightarrow> hid_st" where
  "fifo_push slot st =
     (let w = usb_ff_wptr st;
          st1 = st\<lparr>usb_fifo := (usb_fifo st)[unat (w AND 3) := slot], usb_ff_wptr := w + 1\<rparr>
      in if (w + 1 - usb_ff_rptr st) AND 7 > 4
         then st1\<lparr>usb_ff_rptr := usb_ff_rptr st + 1\<rparr> else st1)"

text \<open>Handing bytes to a free endpoint: data, acknowledge with the data toggle, flip the toggle.\<close>

definition ep_ctrl :: "u8 \<Rightarrow> hid_st \<Rightarrow> u8" where
  "ep_ctrl ep st = FLD_EP_DAT_ACK OR
     (if edp_toggle st ! unat ep \<noteq> 0 then FLD_USB_EP_DAT1 else FLD_USB_EP_DAT0)"

definition ep_send :: "u8 \<Rightarrow> bytes \<Rightarrow> hid_st \<Rightarrow> hid_st" where
  "ep_send ep bs st =
     st\<lparr>sent := sent st @ [(ep, ep_ctrl ep st, bs)],
        ep_busy := (ep_busy st)(ep := True),
        edp_toggle := (edp_toggle st)[unat ep := edp_toggle st ! unat ep XOR 1]\<rparr>"

definition usbkb_hid_report_normal :: "u8 \<Rightarrow> bytes \<Rightarrow> hid_st \<Rightarrow> bool \<times> hid_st" where
  "usbkb_hid_report_normal ctrl keys st =
     (if ep_busy st USB_EDP_KEYBOARD_IN
      then (False, fifo_push ([DAT_TYPE_KB, ctrl] @ take 6 keys) st)
      else (True, ep_send USB_EDP_KEYBOARD_IN ([ctrl, 0] @ take KEYBOARD_REPORT_KEY_MAX keys) st))"

text \<open>
  \<open>data\<close> is the memory from the pointer on. A queued report keeps byte 3 of its slot; more than
  four data bytes would leave the slot.
\<close>

definition usbmouse_hid_report :: "u8 \<Rightarrow> bytes \<Rightarrow> nat \<Rightarrow> hid_st \<Rightarrow> (bool \<times> hid_st) option" where
  "usbmouse_hid_report report_id data n st =
     (if ep_busy st USB_EDP_MOUSE
      then let old = usb_fifo st ! unat (usb_ff_wptr st AND 3) in
           if n \<le> 4 \<and> n \<le> length data
           then Some (False, fifo_push ([DAT_TYPE_MOUSE, report_id, of_nat n, old ! 3] @
                       take n data @ drop (4 + n) old) st)
           else None
      else if usb_mouse_report_proto st = 0
      then if 3 \<le> length data then Some (True, ep_send USB_EDP_MOUSE (take 3 data) st) else None
      else if n \<le> length data
      then Some (True, ep_send USB_EDP_MOUSE (report_id # take n data) st) else None)"

definition usb_hid_report_fifo_proc :: "hid_st \<Rightarrow> (bool \<times> hid_st) option" where
  "usb_hid_report_fifo_proc st =
     (if usb_ff_rptr st = usb_ff_wptr st then Some (False, st)
      else let p = usb_fifo st ! unat (usb_ff_rptr st AND 3) in
        if p ! 0 = DAT_TYPE_KB
        then if ep_busy st USB_EDP_KEYBOARD_IN then Some (False, st)
             else let (r, st1) = usbkb_hid_report_normal (p ! 1) (drop 2 p) st
                  in Some (True, st1\<lparr>usb_ff_rptr := usb_ff_rptr st1 + 1\<rparr>)
        else if p ! 0 = DAT_TYPE_MOUSE
        then if ep_busy st USB_EDP_MOUSE then Some (False, st)
             else do {
               (r, st1) \<leftarrow> usbmouse_hid_report (p ! 1) (drop 4 p) (unat (p ! 2)) st;
               Some (True, st1\<lparr>usb_ff_rptr := usb_ff_rptr st1 + 1\<rparr>)
             }
        else Some (False, st))"

section \<open>Mouse\<close>

fun mouse_add_from :: "nat \<Rightarrow> nat \<Rightarrow> bytes \<Rightarrow> hid_st \<Rightarrow> hid_st option" where
  "mouse_add_from 0 i pdata st = Some st"
| "mouse_add_from (Suc k) i pdata st =
     (if 4 * i + 4 \<le> length pdata
      then let st1 = st\<lparr>mouse_dat_buff :=
                 (mouse_dat_buff st)[unat (usbmouse_wptr st) := mouse_of_bytes (take 4 (drop (4 * i) pdata))],
               usbmouse_wptr := BOUND_INC_POW2 (usbmouse_wptr st) USBMOUSE_BUFF_DATA_NUM\<rparr>
           in if usbmouse_wptr st1 = usbmouse_rptr st1 then Some st1
              else mouse_add_from k (Suc i) pdata st1
      else None)"

definition usbmouse_add_frame :: "u8 \<Rightarrow> bytes \<Rightarrow> hid_st \<Rightarrow> hid_st option" where
  "usbmouse_add_frame pno pdata st = mouse_add_from (unat pno) 0 pdata st"

definition usbmouse_release_check :: "u32 \<Rightarrow> hid_st \<Rightarrow> hid_st option" where
  "usbmouse_release_check now st =
     (if usbmouse_not_released st \<noteq> 0 \<and>
         clock_time_exceed now (usbmouse_data_report_time st) USB_MOUSE_RELEASE_TIMEOUT
      then do {
        (ok, st1) \<leftarrow> usbmouse_hid_report USB_HID_MOUSE [0, 0, 0, 0] MOUSE_REPORT_DATA_LEN st;
        Some (if ok then st1\<lparr>usbmouse_not_released := 0\<rparr> else st1)
      }
      else Some st)"

definition usbmouse_report_frame :: "u32 \<Rightarrow> hid_st \<Rightarrow> hid_st option" where
  "usbmouse_report_frame now st =
     (if usbmouse_wptr st \<noteq> usbmouse_rptr st
      then let data = mouse_bytes (mouse_dat_buff st ! unat (usbmouse_rptr st)) in do {
        (ret, st1) \<leftarrow> usbmouse_hid_report USB_HID_MOUSE data MOUSE_REPORT_DATA_LEN st;
        let st2 = (if ret then st1\<lparr>usbmouse_rptr := BOUND_INC_POW2 (usbmouse_rptr st1) USBMOUSE_BUFF_DATA_NUM\<rparr>
                   else st1);
        Some (if data = [0, 0, 0, 0] \<and> ret then st2\<lparr>usbmouse_not_released := 0\<rparr>
              else st2\<lparr>usbmouse_not_released := 1, usbmouse_data_report_time := now\<rparr>)
      }
      else Some st)"

section \<open>Keyboard\<close>

definition vk_sys_map :: bytes where
  "vk_sys_map = [VK_POWER_V, VK_SLEEP_V, VK_WAKEUP_V]"

definition vk_media_map :: "bytes list" where
  "vk_media_map =
    [[0x21, 0x02],
     [0x23, 0x02],
     [0x24, 0x02],
     [0x25, 0x02],
     [0x26, 0x02],
     [0x27, 0x02],
     [0x2a, 0x02],
     [0x83, 0x01],
     [0x8a, 0x01],
     [0x92, 0x01],
     [0x94, 0x01],
     [0xb5, 0x00],
     [0xb6, 0x00],
     [0xb7, 0x00],
     [0xcd, 0x00],
     [0xe2, 0x00],
     [0xe9, 0x00],
     [0xea, 0x00]]"

text \<open>The loop of \<open>usbkb_add_frame\<close>, with the test that ends it as the source has it.\<close>

fun kb_add_from :: "nat \<Rightarrow> nat \<Rightarrow> bytes \<Rightarrow> hid_st \<Rightarrow> hid_st option" where
  "kb_add_from 0 i pdata st = Some st"
| "kb_add_from (Suc k) i pdata st =
     (if 8 * i + 8 \<le> length pdata
      then let st1 = st\<lparr>kb_dat_buff :=
                 (kb_dat_buff st)[unat (usbkb_wptr st) := kb_of_bytes (take 8 (drop (8 * i) pdata))],
               usbkb_wptr := BOUND_INC_POW2 (usbkb_wptr st) USBKB_BUFF_DATA_NUM\<rparr>
           in if usbkb_wptr st1 = usbkb_wptr st1 then Some st1
              else kb_add_from k (Suc i) pdata st1
      else None)"

definition usbkb_add_frame :: "u8 \<Rightarrow> bytes \<Rightarrow> hid_st \<Rightarrow> hid_st option" where
  "usbkb_add_frame pno pdata st = kb_add_from (unat pno) 0 pdata st"

definition usbkb_release_normal_key :: "hid_st \<Rightarrow> hid_st" where
  "usbkb_release_normal_key st =
     (if usbkb_not_released st AND KB_NORMAL_RELEASE_MASK \<noteq> 0
      then let (ok, st1) = usbkb_hid_report_normal 0 (replicate KEYBOARD_REPORT_KEY_MAX 0) st
           in if ok then st1\<lparr>usbkb_not_released := usbkb_not_released st1 AND NOT KB_NORMAL_RELEASE_MASK\<rparr>
              else st1
      else st)"

definition usbkb_release_sys_key :: "hid_st \<Rightarrow> hid_st option" where
  "usbkb_release_sys_key st =
     (if usbkb_not_released st AND KB_SYS_RELEASE_MASK \<noteq> 0
      then do {
        (ok, st1) \<leftarrow> usbmouse_hid_report USB_HID_KB_SYS [0, 0, 0, 0] 1 st;
        Some (if ok then st1\<lparr>usbkb_not_released := usbkb_not_released st1 AND NOT KB_SYS_RELEASE_MASK\<rparr>
              else st1)
      }
      else Some st)"

definition usbkb_release_media_key :: "hid_st \<Rightarrow> hid_st option" where
  "usbkb_release_media_key st =
     (if usbkb_not_released st AND KB_MEDIA_RELEASE_MASK \<noteq> 0
      then do {
        (ok, st1) \<leftarrow> usbmouse_hid_report USB_HID_KB_MEDIA (replicate MOUSE_REPORT_DATA_LEN 0) MEDIA_REPORT_DATA_LEN st;
        Some (if ok then st1\<lparr>usbkb_not_released := usbkb_not_released st1 AND NOT KB_MEDIA_RELEASE_MASK\<rparr>
              else st1)
      }
      else Some st)"

definition usbkb_release_keys :: "hid_st \<Rightarrow> hid_st option" where
  "usbkb_release_keys st = do {
     st1 \<leftarrow> usbkb_release_sys_key st;
     usbkb_release_media_key (usbkb_release_normal_key st1)
   }"

definition usbkb_release_check :: "u32 \<Rightarrow> hid_st \<Rightarrow> hid_st option" where
  "usbkb_release_check now st =
     (if usbkb_not_released st \<noteq> 0 \<and>
         clock_time_exceed now (usbkb_data_report_time st) USB_KEYBOARD_RELEASE_TIMEOUT
      then usbkb_release_keys st else Some st)"

text \<open>Ordinary keys keep their order; of the extended keys the last one is returned.\<close>

fun separate_from :: "bytes \<Rightarrow> bytes \<times> u8 \<Rightarrow> bytes \<times> u8" where
  "separate_from [] (normal, ext) = (normal, ext)"
| "separate_from (k # ks) (normal, ext) =
     separate_from ks
       (if VK_EXT_START \<le> k \<and> k < VK_EXT_END then (normal, k) else (normal @ [k], ext))"

definition usbkb_separate_key_types :: "bytes \<Rightarrow> u8 \<Rightarrow> u8 \<Rightarrow> bytes \<times> u8" where
  "usbkb_separate_key_types keys n ext = separate_from (take (unat n) keys) ([], ext)"

definition usbkb_report_normal_key :: "u8 \<Rightarrow> bytes \<Rightarrow> nat \<Rightarrow> hid_st \<Rightarrow> hid_st" where
  "usbkb_report_normal_key ctrl keys n st =
     (if n > 0 \<or> ctrl \<noteq> 0
      then let (ok, st1) = usbkb_hid_report_normal ctrl keys st
           in if ok then st1\<lparr>usbkb_not_released := usbkb_not_released st1 OR KB_NORMAL_RELEASE_MASK\<rparr>
              else st1
      else usbkb_release_normal_key st)"

text \<open>The code passes the address of one entry of \<open>vk_sys_map\<close>: the memory from there on.\<close>

definition usbkb_report_sys_key :: "u8 \<Rightarrow> hid_st \<Rightarrow> hid_st option" where
  "usbkb_report_sys_key ext st =
     (if VK_SYS_START \<le> ext \<and> ext < VK_SYS_END
      then do {
        (ok, st1) \<leftarrow> usbmouse_hid_report USB_HID_KB_SYS (drop (unat (ext - VK_SYS_START)) vk_sys_map) 1 st;
        Some (if ok then st1\<lparr>usbkb_not_released := usbkb_not_released st1 OR KB_SYS_RELEASE_MASK\<rparr> else st1)
      }
      else usbkb_release_sys_key st)"

definition usbkb_report_media_key :: "u8 \<Rightarrow> hid_st \<Rightarrow> hid_st option" where
  "usbkb_report_media_key ext st =
     (if VK_MEDIA_START \<le> ext \<and> ext < VK_MEDIA_END
      then do {
        (ok, st1) \<leftarrow> usbmouse_hid_report USB_HID_KB_MEDIA
           (vk_media_map ! unat (ext - VK_MEDIA_START) @ [0, 0]) MEDIA_REPORT_DATA_LEN st;
        Some (if ok then st1\<lparr>usbkb_not_released := usbkb_not_released st1 OR KB_MEDIA_RELEASE_MASK\<rparr> else st1)
      }
      else usbkb_release_media_key st)"

definition usbkb_report_consumer_key :: "u32 \<Rightarrow> u16 \<Rightarrow> hid_st \<Rightarrow> hid_st option" where
  "usbkb_report_consumer_key now consumer_key st = do {
     st1 \<leftarrow> (if consumer_key \<noteq> 0
       then do {
         (ok, st1) \<leftarrow> usbmouse_hid_report USB_HID_KB_MEDIA (le16 consumer_key @ [0, 0]) MEDIA_REPORT_DATA_LEN st;
         Some (if ok then st1\<lparr>usbkb_not_released := usbkb_not_released st1 OR KB_MEDIA_RELEASE_MASK\<rparr> else st1)
       }
       else usbkb_release_media_key st);
     Some (st1\<lparr>usbkb_data_report_time := now\<rparr>)
   }"

definition kb_is_data_same :: "kb_data \<Rightarrow> kb_data \<Rightarrow> bool" where
  "kb_is_data_same a b \<longleftrightarrow> cnt a = cnt b \<and> ctrl_key a = ctrl_key b \<and>
     take (unat (cnt a)) (keycode a) = take (unat (cnt a)) (keycode b)"

definition usbkb_check_repeat_and_save :: "kb_data \<Rightarrow> hid_st \<Rightarrow> bool \<times> hid_st" where
  "usbkb_check_repeat_and_save data st =
     (let same = kb_is_data_same (last_data st) data
      in (same, if same then st else st\<lparr>last_data := data\<rparr>))"

definition usbkb_hid_report :: "u32 \<Rightarrow> kb_data \<Rightarrow> hid_st \<Rightarrow> hid_st option" where
  "usbkb_hid_report now data st =
     (if unat (cnt data) > KB_RETURN_KEY_MAX then Some st
      else
        let (same, st1) = (if cnt data > 0 \<or> ctrl_key data \<noteq> 0
                           then usbkb_check_repeat_and_save data st else (False, st)) in
        if same \<and> usbkb_not_released st1 \<noteq> 0 then Some (st1\<lparr>usbkb_data_report_time := now\<rparr>)
        else
          let (normal, ext) = usbkb_separate_key_types (keycode data) (cnt data) VK_EXT_END;
              keys = take KEYBOARD_REPORT_KEY_MAX (normal @ replicate KEYBOARD_REPORT_KEY_MAX 0)
          in do {
            st2 \<leftarrow> usbkb_report_sys_key ext (usbkb_report_normal_key (ctrl_key data) keys (length normal) st1);
            st3 \<leftarrow> usbkb_report_media_key ext st2;
            Some (st3\<lparr>usbkb_data_report_time := now\<rparr>)
          })"

definition usbkb_report_frame :: "u32 \<Rightarrow> hid_st \<Rightarrow> hid_st option" where
  "usbkb_report_frame now st =
     (if usbkb_wptr st \<noteq> usbkb_rptr st
      then do {
        st1 \<leftarrow> usbkb_hid_report now (kb_dat_buff st ! unat (usbkb_rptr st)) st;
        Some (st1\<lparr>usbkb_rptr := BOUND_INC_POW2 (usbkb_rptr st1) USBKB_BUFF_DATA_NUM\<rparr>)
      }
      else Some st)"

section \<open>What a report descriptor says\<close>

text \<open>
  The host's reading of a report descriptor: the items, then the bits each report of a kind
  (input \<open>0x80\<close>, output \<open>0x90\<close>, feature \<open>0xb0\<close>) has. The report id, size and count are
  global items and stay until they are set again; report id 0 stands for a device without ids.
\<close>

definition item_size :: "u8 \<Rightarrow> nat" where
  "item_size b = (if b AND 3 = 3 then 4 else unat (b AND 3))"

function hid_items :: "bytes \<Rightarrow> (u8 \<times> bytes) list option" where
  "hid_items bs =
     (case bs of [] \<Rightarrow> Some []
      | b # rest \<Rightarrow>
          if item_size b \<le> length rest
          then map_option ((#) (b AND 0xfc, take (item_size b) rest)) (hid_items (drop (item_size b) rest))
          else None)"
  by pat_completeness auto
termination by (relation "measure length") auto

declare hid_items.simps [simp del]

fun hid_bits :: "u8 \<Rightarrow> u8 \<Rightarrow> u8 \<times> nat \<times> nat \<Rightarrow> (u8 \<times> bytes) list \<Rightarrow> nat" where
  "hid_bits kind rid g [] = 0"
| "hid_bits kind rid (i, sz, n) ((tag, d) # is) =
     (if tag = 0x84 then hid_bits kind rid (hd d, sz, n) is
      else if tag = 0x74 then hid_bits kind rid (i, unat (hd d), n) is
      else if tag = 0x94 then hid_bits kind rid (i, sz, unat (hd d)) is
      else (if tag = kind \<and> i = rid then sz * n else 0) + hid_bits kind rid (i, sz, n) is)"

definition report_bits :: "u8 \<Rightarrow> u8 \<Rightarrow> bytes \<Rightarrow> nat" where
  "report_bits kind rid desc = (case hid_items desc of None \<Rightarrow> 0 | Some is \<Rightarrow> hid_bits kind rid (0, 0, 0) is)"

text \<open>Parsing by known pieces, so that the descriptors are read item by item.\<close>

lemma hid_items_Nil: "hid_items [] = Some []"
  by (simp add: hid_items.simps)

lemma hid_items_step:
  "hid_items (b # rest) =
     (if item_size b \<le> length rest
      then map_option ((#) (b AND 0xfc, take (item_size b) rest)) (hid_items (drop (item_size b) rest))
      else None)"
  by (subst hid_items.simps) simp

lemma report_bits_run:
  "hid_items desc = Some is \<Longrightarrow> report_bits kind rid desc = hid_bits kind rid (0, 0, 0) is"
  by (simp add: report_bits_def)

lemmas hid_macros = HID_DESCRIPTOR_KEYBOARD_def HID_RPT_USAGE_PAGE_def HID_RPT_USAGE_def HID_RPT_COLLECTION_def
  HID_RPT_USAGE_MINIMUM_def HID_RPT_USAGE_MAXIMUM_def HID_RPT_LOGICAL_MINIMUM_def HID_RPT_LOGICAL_MAXIMUM_def
  HID_RPT_REPORT_COUNT_def HID_RPT_REPORT_SIZE_def HID_RPT_INPUT_def HID_RPT_OUTPUT_def
  HID_RPT_END_COLLECTION_def HID_RPT_DATA_ENTRY_def HID_RPT_DATA_ENCODE_def HID_RPT_DATA_BITS_def

lemma keyboard_report_bits: "report_bits 0x80 0 keyboard_report_desc = 64"
  unfolding keyboard_report_desc_def
  by (simp add: report_bits_def hid_macros usb_consts hid_items_step hid_items_Nil item_size_def)

lemma mouse_report_bits:
  "report_bits 0x80 USB_HID_MOUSE mouse_report_desc = 32"
  "report_bits 0x80 USB_HID_KB_MEDIA mouse_report_desc = 32"
  "report_bits 0x80 USB_HID_KB_SYS mouse_report_desc = 8"
  unfolding mouse_report_desc_def
  by (simp_all add: report_bits_def hid_macros usb_consts hid_items_step hid_items_Nil item_size_def)

section \<open>The report ring keeps the newest four\<close>

definition fifo_inv :: "hid_st \<Rightarrow> bool" where
  "fifo_inv st \<longleftrightarrow> length (usb_fifo st) = 4 \<and> unat (usb_ff_wptr st - usb_ff_rptr st) \<le> 4"

definition fifo_contents :: "hid_st \<Rightarrow> bytes list" where
  "fifo_contents st =
     map (\<lambda>k. usb_fifo st ! unat ((usb_ff_rptr st + of_nat k) AND 3)) [0..<unat (usb_ff_wptr st - usb_ff_rptr st)]"

lemma fifo_ring4:
  "fifo_inv st = ring4_inv (usb_fifo st) (usb_ff_wptr st) (usb_ff_rptr st)"
  "fifo_contents st = ring4_contents (usb_fifo st) (usb_ff_wptr st) (usb_ff_rptr st)"
  by (simp_all add: fifo_inv_def ring4_inv_def fifo_contents_def ring4_contents_def)

lemma fifo_push_ring:
  assumes "fifo_inv st"
  shows "fifo_inv (fifo_push a st) \<and>
    fifo_contents (fifo_push a st) =
      (if length (fifo_contents st) < 4 then fifo_contents st @ [a] else tl (fifo_contents st) @ [a])"
  using ring4_push [OF assms [unfolded fifo_ring4], of a]
  by (cases "(usb_ff_wptr st + 1 - usb_ff_rptr st) AND 7 > 4") (simp_all add: fifo_ring4 fifo_push_def Let_def)

interpretation hidq: overwriting_ring fifo_inv fifo_contents 4 fifo_push
proof unfold_locales
  show "fifo_inv st \<Longrightarrow> length (fifo_contents st) \<le> 4" for st
    by (auto simp: fifo_contents_def fifo_inv_def)
qed (simp_all add: fifo_push_ring)

section \<open>Sending reports\<close>

definition poll :: "hid_st \<Rightarrow> hid_st" where
  "poll st = st\<lparr>ep_busy := \<lambda>_. False\<rparr>"

text \<open>Reports while the keyboard endpoint stays busy: each is queued in its slot.\<close>

definition queue_all :: "(u8 \<times> bytes) list \<Rightarrow> hid_st \<Rightarrow> hid_st" where
  "queue_all rs st = fold (\<lambda>(c, ks) s. snd (usbkb_hid_report_normal c ks s)) rs st"

lemma ep_busy_fifo_push [simp]: "ep_busy (fifo_push a st) = ep_busy st"
  by (simp add: fifo_push_def Let_def)

lemma queue_all_busy:
  "ep_busy st USB_EDP_KEYBOARD_IN \<Longrightarrow>
   queue_all rs st = fold fifo_push (map (\<lambda>(c, ks). [DAT_TYPE_KB, c] @ take 6 ks) rs) st"
proof (induction rs arbitrary: st)
  case Nil
  then show ?case by (simp add: queue_all_def)
next
  case (Cons r rs)
  obtain c ks where r: "r = (c, ks)" by fastforce
  have "queue_all (r # rs) st = queue_all rs (fifo_push ([DAT_TYPE_KB, c] @ take 6 ks) st)"
    using Cons.prems by (simp add: queue_all_def r usbkb_hid_report_normal_def)
  with Cons show ?case by (simp add: r)
qed

text \<open>
  C29. Queued reports: while the keyboard endpoint is busy, every report goes to the ring, which
  never holds more than four and afterwards holds the last four of the old contents and the new
  reports, oldest first, each with its modifiers and keys.
\<close>
theorem busy_endpoint_queues_newest_reports:
  assumes "fifo_inv st" "ep_busy st USB_EDP_KEYBOARD_IN"
  shows "fifo_contents (queue_all rs st) =
    drop (length (fifo_contents st) + length rs - 4)
      (fifo_contents st @ map (\<lambda>(c, ks). [DAT_TYPE_KB, c] @ take 6 ks) rs) \<and>
    sent (queue_all rs st) = sent st"
proof -
  have "sent (fold fifo_push as st) = sent st" for as
    by (induction as rule: rev_induct) (simp_all add: fifo_push_def Let_def)
  then show ?thesis
    using hidq.fold_add_suffix [OF assms(1), of "map (\<lambda>(c, ks). [DAT_TYPE_KB, c] @ take 6 ks) rs"]
    by (simp add: queue_all_busy [OF assms(2)])
qed

text \<open>
  C27. Report layout: what the drivers put into a free endpoint has exactly the length the report
  descriptors announce, the report id in front for the mouse interface; the report leaves with
  the endpoint's data toggle, which is flipped.
\<close>
theorem reports_match_descriptors:
  assumes "\<not> ep_busy st USB_EDP_KEYBOARD_IN" "length keys = 6"
    and "\<not> ep_busy st USB_EDP_MOUSE" "usb_mouse_report_proto st \<noteq> 0" "length data = 4"
    and "(rid, n) \<in> {(USB_HID_MOUSE, MOUSE_REPORT_DATA_LEN), (USB_HID_KB_MEDIA, MEDIA_REPORT_DATA_LEN), (USB_HID_KB_SYS, 1)}"
  shows "\<exists>st1 st2.
    usbkb_hid_report_normal ctrl keys st = (True, st1) \<and>
    sent st1 = sent st @ [(USB_EDP_KEYBOARD_IN, ep_ctrl USB_EDP_KEYBOARD_IN st, [ctrl, 0] @ keys)] \<and>
    8 * length ([ctrl, 0] @ keys) = report_bits 0x80 0 keyboard_report_desc \<and>
    usbmouse_hid_report rid data n st = Some (True, st2) \<and>
    sent st2 = sent st @ [(USB_EDP_MOUSE, ep_ctrl USB_EDP_MOUSE st, rid # take n data)] \<and>
    8 * length (take n data) = report_bits 0x80 rid mouse_report_desc"
proof -
  have k: "8 * length ([ctrl, 0] @ keys) = report_bits 0x80 0 keyboard_report_desc"
    using assms(2) by (simp add: keyboard_report_bits)
  have m: "n \<le> 4" "8 * length (take n data) = report_bits 0x80 rid mouse_report_desc"
    using assms(5,6) mouse_report_bits by (auto simp: MOUSE_REPORT_DATA_LEN_def MEDIA_REPORT_DATA_LEN_def)
  show ?thesis
    using assms k m
    by (simp add: usbkb_hid_report_normal_def usbmouse_hid_report_def ep_send_def Let_def
        KEYBOARD_REPORT_KEY_MAX_def)
qed

section \<open>Separating and releasing keys\<close>

lemma separate_from_correct:
  "separate_from ks (normal, ext) =
     (normal @ filter (\<lambda>k. \<not> (VK_EXT_START \<le> k \<and> k < VK_EXT_END)) ks,
      last (ext # filter (\<lambda>k. VK_EXT_START \<le> k \<and> k < VK_EXT_END) ks))"
  by (induction ks arbitrary: normal ext) auto

lemma separate_key_types:
  "usbkb_separate_key_types ks n ext =
     (filter (\<lambda>k. \<not> (VK_EXT_START \<le> k \<and> k < VK_EXT_END)) (take (unat n) ks),
      last (ext # filter (\<lambda>k. VK_EXT_START \<le> k \<and> k < VK_EXT_END) (take (unat n) ks)))"
  by (simp add: usbkb_separate_key_types_def separate_from_correct)

lemma ep_send_fields [simp]:
  "usbkb_not_released (ep_send ep bs st) = usbkb_not_released st"
  "usbkb_data_report_time (ep_send ep bs st) = usbkb_data_report_time st"
  "ep_busy (ep_send ep bs st) = (ep_busy st)(ep := True)"
  "usb_mouse_report_proto (ep_send ep bs st) = usb_mouse_report_proto st"
  "last_data (ep_send ep bs st) = last_data st"
  by (simp_all add: ep_send_def)

lemma fifo_push_fields [simp]:
  "usbkb_not_released (fifo_push a st) = usbkb_not_released st"
  "usbkb_data_report_time (fifo_push a st) = usbkb_data_report_time st"
  "usb_mouse_report_proto (fifo_push a st) = usb_mouse_report_proto st"
  "last_data (fifo_push a st) = last_data st"
  by (simp_all add: fifo_push_def Let_def)

text \<open>Reports to the mouse endpoint of at most four bytes out of enough memory always return.\<close>

lemma mouse_report_returns:
  assumes "n \<le> 4" "n \<le> length data" "usb_mouse_report_proto st \<noteq> 0 \<or> 3 \<le> length data"
  obtains st' where "usbmouse_hid_report rid data n st = Some (\<not> ep_busy st USB_EDP_MOUSE, st')"
    "usbkb_not_released st' = usbkb_not_released st"
    "usbkb_data_report_time st' = usbkb_data_report_time st"
    "usb_mouse_report_proto st' = usb_mouse_report_proto st"
    "ep_busy st' = (if ep_busy st USB_EDP_MOUSE then ep_busy st else (ep_busy st)(USB_EDP_MOUSE := True))"
proof -
  have "\<exists>st'. usbmouse_hid_report rid data n st = Some (\<not> ep_busy st USB_EDP_MOUSE, st') \<and>
    usbkb_not_released st' = usbkb_not_released st \<and>
    usbkb_data_report_time st' = usbkb_data_report_time st \<and>
    usb_mouse_report_proto st' = usb_mouse_report_proto st \<and>
    ep_busy st' = (if ep_busy st USB_EDP_MOUSE then ep_busy st else (ep_busy st)(USB_EDP_MOUSE := True))"
    using assms by (auto simp: usbmouse_hid_report_def Let_def)
  then show ?thesis using that by blast
qed

lemma endpoints_differ [simp]: "USB_EDP_KEYBOARD_IN \<noteq> USB_EDP_MOUSE" "USB_EDP_MOUSE \<noteq> USB_EDP_KEYBOARD_IN"
  by (simp_all add: usb_consts)

definition flags_ok :: "hid_st \<Rightarrow> bool" where
  "flags_ok st \<longleftrightarrow> usbkb_not_released st AND NOT 7 = 0"

lemma and_not_disjoint:
  fixes f m :: "'a::len word"
  assumes "f AND m = 0"
  shows "f AND NOT m = f"
proof (rule bit_word_eqI)
  fix n assume "n < LENGTH('a)"
  have "\<not> bit (f AND m) n" using assms by simp
  then show "bit (f AND NOT m) n = bit f n" using \<open>n < LENGTH('a)\<close> by (auto simp: bit_and_iff bit_not_iff)
qed

lemma flags_split:
  fixes f :: u32
  assumes "f AND NOT 7 = 0"
  shows "f AND 1 = 0 \<Longrightarrow> f AND 2 = 0 \<Longrightarrow> f AND 4 = 0 \<Longrightarrow> f = 0"
proof -
  assume z: "f AND 1 = 0" "f AND 2 = 0" "f AND 4 = 0"
  have "f AND 7 = (f AND 1) OR (f AND 2) OR (f AND 4)"
    by (simp flip: bit.conj_disj_distrib)
  then have "f AND 7 = 0" using z by simp
  then have "f AND NOT 7 = f" by (rule and_not_disjoint)
  with assms show "f = 0" by simp
qed

lemma and_not_clear: "(f AND NOT m) AND NOT 7 = 0" if "f AND NOT 7 = 0" for f m :: u32
  using that by (metis and.assoc and.commute and_zero_eq)

lemma release_sys:
  assumes "\<not> ep_busy st USB_EDP_MOUSE"
  obtains st' where "usbkb_release_sys_key st = Some st'"
    "usbkb_not_released st' = usbkb_not_released st AND NOT KB_SYS_RELEASE_MASK"
    "ep_busy st' = (if usbkb_not_released st AND KB_SYS_RELEASE_MASK \<noteq> 0
                    then (ep_busy st)(USB_EDP_MOUSE := True) else ep_busy st)"
    "usbkb_data_report_time st' = usbkb_data_report_time st"
proof (cases "usbkb_not_released st AND KB_SYS_RELEASE_MASK \<noteq> 0")
  case True
  obtain st' where "usbmouse_hid_report USB_HID_KB_SYS [0, 0, 0, 0] 1 st = Some (\<not> ep_busy st USB_EDP_MOUSE, st')"
    "usbkb_not_released st' = usbkb_not_released st"
    "usbkb_data_report_time st' = usbkb_data_report_time st"
    "ep_busy st' = (if ep_busy st USB_EDP_MOUSE then ep_busy st else (ep_busy st)(USB_EDP_MOUSE := True))"
    by (rule mouse_report_returns [of 1 "[0, 0, 0, 0]" st USB_HID_KB_SYS]) simp_all
  with True assms show ?thesis
    by (intro that [of "st'\<lparr>usbkb_not_released := usbkb_not_released st' AND NOT KB_SYS_RELEASE_MASK\<rparr>"])
       (simp_all add: usbkb_release_sys_key_def)
next
  case False
  then have "usbkb_not_released st AND NOT KB_SYS_RELEASE_MASK = usbkb_not_released st"
    by (simp add: and_not_disjoint)
  with False show ?thesis by (intro that [of st]) (simp_all add: usbkb_release_sys_key_def)
qed

lemma release_normal:
  assumes "\<not> ep_busy st USB_EDP_KEYBOARD_IN"
  shows "usbkb_not_released (usbkb_release_normal_key st) = usbkb_not_released st AND NOT KB_NORMAL_RELEASE_MASK"
    "ep_busy (usbkb_release_normal_key st) USB_EDP_MOUSE = ep_busy st USB_EDP_MOUSE"
    "usbkb_data_report_time (usbkb_release_normal_key st) = usbkb_data_report_time st"
proof -
  have "usbkb_not_released st AND NOT KB_NORMAL_RELEASE_MASK = usbkb_not_released st"
    if "usbkb_not_released st AND KB_NORMAL_RELEASE_MASK = 0" using that by (rule and_not_disjoint)
  with assms show "usbkb_not_released (usbkb_release_normal_key st) = usbkb_not_released st AND NOT KB_NORMAL_RELEASE_MASK"
    "ep_busy (usbkb_release_normal_key st) USB_EDP_MOUSE = ep_busy st USB_EDP_MOUSE"
    "usbkb_data_report_time (usbkb_release_normal_key st) = usbkb_data_report_time st"
    by (auto simp: usbkb_release_normal_key_def usbkb_hid_report_normal_def Let_def)
qed

lemma release_media:
  obtains st' where "usbkb_release_media_key st = Some st'"
    "usbkb_not_released st' = (if ep_busy st USB_EDP_MOUSE then usbkb_not_released st
       else usbkb_not_released st AND NOT KB_MEDIA_RELEASE_MASK)"
    "usbkb_data_report_time st' = usbkb_data_report_time st"
proof (cases "usbkb_not_released st AND KB_MEDIA_RELEASE_MASK \<noteq> 0")
  case True
  obtain st' where "usbmouse_hid_report USB_HID_KB_MEDIA (replicate MOUSE_REPORT_DATA_LEN 0) MEDIA_REPORT_DATA_LEN st =
      Some (\<not> ep_busy st USB_EDP_MOUSE, st')"
    "usbkb_not_released st' = usbkb_not_released st"
    "usbkb_data_report_time st' = usbkb_data_report_time st"
    by (rule mouse_report_returns [of MEDIA_REPORT_DATA_LEN "replicate MOUSE_REPORT_DATA_LEN 0" st USB_HID_KB_MEDIA])
       (simp_all add: MEDIA_REPORT_DATA_LEN_def MOUSE_REPORT_DATA_LEN_def)
  with True show ?thesis
    by (intro that [of "if \<not> ep_busy st USB_EDP_MOUSE
        then st'\<lparr>usbkb_not_released := usbkb_not_released st' AND NOT KB_MEDIA_RELEASE_MASK\<rparr> else st'"])
       (simp_all add: usbkb_release_media_key_def)
next
  case False
  then have "usbkb_not_released st AND NOT KB_MEDIA_RELEASE_MASK = usbkb_not_released st"
    by (simp add: and_not_disjoint)
  with False show ?thesis by (intro that [of st]) (simp_all add: usbkb_release_media_key_def)
qed

lemma release_keys:
  assumes "\<not> ep_busy st USB_EDP_MOUSE" "\<not> ep_busy st USB_EDP_KEYBOARD_IN"
  obtains st' where "usbkb_release_keys st = Some st'"
    "usbkb_data_report_time st' = usbkb_data_report_time st"
    "usbkb_not_released st' =
      (if usbkb_not_released st AND 2 \<noteq> 0 then usbkb_not_released st AND NOT 3
       else usbkb_not_released st AND NOT 7)"
proof -
  obtain s1 where s1: "usbkb_release_sys_key st = Some s1"
    "usbkb_not_released s1 = usbkb_not_released st AND NOT KB_SYS_RELEASE_MASK"
    "ep_busy s1 = (if usbkb_not_released st AND KB_SYS_RELEASE_MASK \<noteq> 0
                    then (ep_busy st)(USB_EDP_MOUSE := True) else ep_busy st)"
    "usbkb_data_report_time s1 = usbkb_data_report_time st"
    using release_sys [OF assms(1)] by metis
  have k1: "\<not> ep_busy s1 USB_EDP_KEYBOARD_IN" using assms(2) s1(3) by simp
  obtain s2 where s2: "usbkb_release_media_key (usbkb_release_normal_key s1) = Some s2"
    "usbkb_not_released s2 = (if ep_busy (usbkb_release_normal_key s1) USB_EDP_MOUSE
       then usbkb_not_released (usbkb_release_normal_key s1)
       else usbkb_not_released (usbkb_release_normal_key s1) AND NOT KB_MEDIA_RELEASE_MASK)"
    "usbkb_data_report_time s2 = usbkb_data_report_time (usbkb_release_normal_key s1)"
    using release_media [of "usbkb_release_normal_key s1"] by metis
  have m: "(f AND NOT 2) AND NOT 1 = f AND NOT 3" "((f AND NOT 2) AND NOT 1) AND NOT 4 = f AND NOT 7"
    for f :: u32
    by (simp_all add: and.assoc flip: bit.de_Morgan_disj)
  have r: "usbkb_release_keys st = Some s2" by (simp add: usbkb_release_keys_def s1(1) s2(1))
  have t: "usbkb_data_report_time s2 = usbkb_data_report_time st"
    by (simp add: s2(3) release_normal(3) [OF k1] s1(4))
  have f: "usbkb_not_released s2 =
      (if usbkb_not_released st AND 2 \<noteq> 0 then usbkb_not_released st AND NOT 3
       else usbkb_not_released st AND NOT 7)"
    using s1(3) assms(1) m [of "usbkb_not_released st"]
    by (simp add: s2(2) release_normal [OF k1] s1(2) KB_SYS_RELEASE_MASK_def KB_NORMAL_RELEASE_MASK_def
        KB_MEDIA_RELEASE_MASK_def)
  show ?thesis by (rule that [OF r t f])
qed

definition release_round :: "u32 \<Rightarrow> hid_st \<Rightarrow> hid_st option" where
  "release_round now st = map_option poll (usbkb_release_check now st)"


text \<open>The statics at power-on; \<open>usb_mouse_report_proto\<close> starts at 0 and a bus reset sets it to 1.\<close>

definition hid_init :: hid_st where
  "hid_init = \<lparr>ep_busy = \<lambda>_. False, sent = [], edp_toggle = replicate 8 0,
     usb_fifo = replicate 4 (replicate 8 0), usb_ff_rptr = 0, usb_ff_wptr = 0,
     kb_dat_buff = replicate 8 (kb_of_bytes (replicate 8 0)), usbkb_wptr = 0, usbkb_rptr = 0,
     usbkb_not_released = 0, usbkb_data_report_time = 0, last_data = kb_of_bytes (replicate 8 0),
     mouse_dat_buff = replicate 8 (mouse_of_bytes (replicate 4 0)), usbmouse_wptr = 0,
     usbmouse_rptr = 0, usbmouse_not_released = 0, usbmouse_data_report_time = 0,
     usb_mouse_report_proto = 0\<rparr>"

lemma fifo_inv_init: "fifo_inv hid_init" "fifo_contents hid_init = []"
  by (simp_all add: fifo_inv_def fifo_contents_def hid_init_def)

definition kb_busy_init :: hid_st where
  "kb_busy_init = hid_init\<lparr>ep_busy := \<lambda>e. e = USB_EDP_KEYBOARD_IN\<rparr>"

lemma busy_endpoint_queues_newest_reports_witness:
  "fifo_contents (queue_all [(2, replicate 6 4), (0, replicate 6 0)] kb_busy_init) =
   [[DAT_TYPE_KB, 2, 4, 4, 4, 4, 4, 4], [DAT_TYPE_KB, 0, 0, 0, 0, 0, 0, 0]]"
proof -
  have "fifo_inv kb_busy_init" "ep_busy kb_busy_init USB_EDP_KEYBOARD_IN" "fifo_contents kb_busy_init = []"
    by (simp_all add: kb_busy_init_def fifo_inv_def fifo_contents_def hid_init_def)
  from busy_endpoint_queues_newest_reports [OF this(1,2), of "[(2, replicate 6 4), (0, replicate 6 0)]"] this(3)
  show ?thesis by (simp add: numeral_eq_Suc)
qed

definition report_proto_init :: hid_st where
  "report_proto_init = hid_init\<lparr>usb_mouse_report_proto := 1\<rparr>"

lemma reports_match_descriptors_witness:
  "\<exists>st1 st2.
    usbkb_hid_report_normal 2 [4, 0, 0, 0, 0, 0] report_proto_init = (True, st1) \<and>
    sent st1 = sent report_proto_init @
      [(USB_EDP_KEYBOARD_IN, ep_ctrl USB_EDP_KEYBOARD_IN report_proto_init, [2, 0] @ [4, 0, 0, 0, 0, 0])] \<and>
    8 * length ([2, 0] @ [4, 0, 0, 0, 0, 0 :: u8]) = report_bits 0x80 0 keyboard_report_desc \<and>
    usbmouse_hid_report USB_HID_MOUSE [1, 2, 3, 4] MOUSE_REPORT_DATA_LEN report_proto_init = Some (True, st2) \<and>
    sent st2 = sent report_proto_init @
      [(USB_EDP_MOUSE, ep_ctrl USB_EDP_MOUSE report_proto_init, USB_HID_MOUSE # take MOUSE_REPORT_DATA_LEN [1, 2, 3, 4])] \<and>
    8 * length (take MOUSE_REPORT_DATA_LEN [1, 2, 3, 4 :: u8]) = report_bits 0x80 USB_HID_MOUSE mouse_report_desc"
  by (rule reports_match_descriptors) (simp_all add: report_proto_init_def hid_init_def)

definition pressed_init :: hid_st where
  "pressed_init = hid_init\<lparr>usbkb_not_released := 7\<rparr>"


section \<open>Memory safety and what goes wrong\<close>

lemma report_normal_proto:
  "usb_mouse_report_proto (usbkb_report_normal_key c ks n st) = usb_mouse_report_proto st"
  by (simp add: usbkb_report_normal_key_def usbkb_release_normal_key_def usbkb_hid_report_normal_def Let_def)

lemma sys_key_returns:
  assumes "usb_mouse_report_proto st \<noteq> 0"
  shows "\<exists>st'. usbkb_report_sys_key ext st = Some st' \<and> usb_mouse_report_proto st' = usb_mouse_report_proto st"
proof -
  have rel: "\<exists>st'. usbkb_release_sys_key st = Some st' \<and> usb_mouse_report_proto st' = usb_mouse_report_proto st"
    by (rule mouse_report_returns [of 1 "[0, 0, 0, 0]" st USB_HID_KB_SYS])
       (auto simp: usbkb_release_sys_key_def)
  have idx: "unat (ext - VK_SYS_START) < 3" if "VK_SYS_START \<le> ext" "ext < VK_SYS_END"
  proof -
    have "unat (ext - VK_SYS_START) = unat ext - unat VK_SYS_START" using that(1) by (rule unat_sub)
    with that show ?thesis by (simp add: vk_codes word_less_nat_alt)
  qed
  show ?thesis
  proof (cases "VK_SYS_START \<le> ext \<and> ext < VK_SYS_END")
    case False
    then show ?thesis using rel by (auto simp: usbkb_report_sys_key_def)
  next
    case True
    then have "1 \<le> length (drop (unat (ext - VK_SYS_START)) vk_sys_map)"
      using idx by (simp add: vk_sys_map_def)
    from mouse_report_returns [OF _ this, of st USB_HID_KB_SYS] assms
    obtain st' where "usbmouse_hid_report USB_HID_KB_SYS (drop (unat (ext - VK_SYS_START)) vk_sys_map) 1 st =
        Some (\<not> ep_busy st USB_EDP_MOUSE, st')" "usb_mouse_report_proto st' = usb_mouse_report_proto st"
      by (metis one_le_numeral)
    with True show ?thesis by (simp add: usbkb_report_sys_key_def)
  qed
qed

lemma media_key_returns:
  "\<exists>st'. usbkb_report_media_key ext st = Some st' \<and> usb_mouse_report_proto st' = usb_mouse_report_proto st"
proof -
  have rel: "\<exists>st'. usbkb_release_media_key st = Some st' \<and> usb_mouse_report_proto st' = usb_mouse_report_proto st"
    by (rule mouse_report_returns [of MEDIA_REPORT_DATA_LEN "replicate MOUSE_REPORT_DATA_LEN 0" st USB_HID_KB_MEDIA])
       (auto simp: usbkb_release_media_key_def MEDIA_REPORT_DATA_LEN_def MOUSE_REPORT_DATA_LEN_def)
  show ?thesis
  proof (cases "VK_MEDIA_START \<le> ext \<and> ext < VK_MEDIA_END")
    case False
    then show ?thesis using rel by (auto simp: usbkb_report_media_key_def)
  next
    case True
    have "unat (ext - VK_MEDIA_START) = unat ext - unat VK_MEDIA_START" using True by (intro unat_sub) simp
    then have "unat (ext - VK_MEDIA_START) < length vk_media_map"
      using True by (simp add: vk_codes word_less_nat_alt word_le_nat_alt vk_media_map_def) arith
    moreover have "\<forall>e \<in> set vk_media_map. length e = 2" by (simp add: vk_media_map_def)
    ultimately have len: "length (vk_media_map ! unat (ext - VK_MEDIA_START) @ [0, 0]) = 4" by simp
    have a: "MEDIA_REPORT_DATA_LEN \<le> 4"
      "MEDIA_REPORT_DATA_LEN \<le> length (vk_media_map ! unat (ext - VK_MEDIA_START) @ [0, 0])"
      "usb_mouse_report_proto st \<noteq> 0 \<or> 3 \<le> length (vk_media_map ! unat (ext - VK_MEDIA_START) @ [0, 0])"
      unfolding len by (simp_all add: MEDIA_REPORT_DATA_LEN_def)
    obtain st' where "usbmouse_hid_report USB_HID_KB_MEDIA
        (vk_media_map ! unat (ext - VK_MEDIA_START) @ [0, 0]) MEDIA_REPORT_DATA_LEN st =
        Some (\<not> ep_busy st USB_EDP_MOUSE, st')" "usb_mouse_report_proto st' = usb_mouse_report_proto st"
      by (rule mouse_report_returns [OF a])
    with True show ?thesis by (simp add: usbkb_report_media_key_def)
  qed
qed

text \<open>
  In report protocol every key event is handled inside the arrays, whatever its bytes: a report with
  too many keys is dropped, any extended code indexes its table.
\<close>

lemma key_event_returns:
  assumes "usb_mouse_report_proto st \<noteq> 0"
  shows "\<exists>st'. usbkb_hid_report now d st = Some st' \<and> usb_mouse_report_proto st' = usb_mouse_report_proto st"
proof -
  obtain same st1 where s: "(if cnt d > 0 \<or> ctrl_key d \<noteq> 0 then usbkb_check_repeat_and_save d st else (False, st)) =
    (same, st1)" by fastforce
  then have p1: "usb_mouse_report_proto st1 = usb_mouse_report_proto st"
    by (auto simp: usbkb_check_repeat_and_save_def Let_def split: if_splits)
  obtain normal ext where k: "usbkb_separate_key_types (keycode d) (cnt d) VK_EXT_END = (normal, ext)" by fastforce
  obtain st2 where st2: "usbkb_report_sys_key ext (usbkb_report_normal_key (ctrl_key d)
       (take KEYBOARD_REPORT_KEY_MAX (normal @ replicate KEYBOARD_REPORT_KEY_MAX 0)) (length normal) st1) = Some st2"
    "usb_mouse_report_proto st2 = usb_mouse_report_proto st"
    using sys_key_returns assms p1 by (metis report_normal_proto)
  obtain st3 where "usbkb_report_media_key ext st2 = Some st3"
    "usb_mouse_report_proto st3 = usb_mouse_report_proto st"
    using media_key_returns [of ext st2] st2(2) by auto
  with s p1 k st2 show ?thesis
    by (simp add: usbkb_hid_report_def Let_def)
qed

lemma consumer_key_returns:
  "\<exists>st'. usbkb_report_consumer_key now key st = Some st' \<and> usb_mouse_report_proto st' = usb_mouse_report_proto st"
proof -
  have rel: "\<exists>st'. usbkb_release_media_key st = Some st' \<and> usb_mouse_report_proto st' = usb_mouse_report_proto st"
    by (rule mouse_report_returns [of MEDIA_REPORT_DATA_LEN "replicate MOUSE_REPORT_DATA_LEN 0" st USB_HID_KB_MEDIA])
       (auto simp: usbkb_release_media_key_def MEDIA_REPORT_DATA_LEN_def MOUSE_REPORT_DATA_LEN_def)
  have "\<exists>st'. usbmouse_hid_report USB_HID_KB_MEDIA (le16 key @ [0, 0]) MEDIA_REPORT_DATA_LEN st =
      Some (\<not> ep_busy st USB_EDP_MOUSE, st') \<and> usb_mouse_report_proto st' = usb_mouse_report_proto st"
    by (rule mouse_report_returns [of MEDIA_REPORT_DATA_LEN "le16 key @ [0, 0]" st USB_HID_KB_MEDIA])
       (auto simp: MEDIA_REPORT_DATA_LEN_def)
  thus ?thesis using rel by (auto simp: usbkb_report_consumer_key_def)
qed

text \<open>
  A stale report overtakes a newer one: a key press that met a busy endpoint waits in the
  ring; when the endpoint is free the release is sent at once, and the ring is emptied after it.
  The host sees the release before the press and the key stays down.
\<close>
theorem queued_press_follows_release:
  assumes "fifo_inv st" "fifo_contents st = []" "ep_busy st USB_EDP_KEYBOARD_IN" "length keys = 6"
  shows "\<exists>c1 c2 st'.
    usb_hid_report_fifo_proc (poll (snd (usbkb_hid_report_normal 0 (replicate 6 0)
      (poll (snd (usbkb_hid_report_normal ctrl keys st)))))) = Some (True, st') \<and>
    sent st' = sent st @ [(USB_EDP_KEYBOARD_IN, c1, replicate 8 0), (USB_EDP_KEYBOARD_IN, c2, [ctrl, 0] @ keys)]"
proof -
  let ?slot = "[DAT_TYPE_KB, ctrl] @ keys"
  obtain w where w: "w = usb_ff_wptr st" by simp
  have e: "usb_ff_rptr st = w"
    using assms(2) by (simp add: fifo_contents_def w unat_diff_eq_0)
  have l: "length (usb_fifo st) = 4" using assms(1) by (simp add: fifo_inv_def)
  have i: "unat (w AND 3) < 4" by (simp add: u8_and_3)
  have s1: "usbkb_hid_report_normal ctrl keys st =
      (False, st\<lparr>usb_fifo := (usb_fifo st)[unat (w AND 3) := ?slot], usb_ff_wptr := w + 1\<rparr>)"
    using assms(3,4) by (simp add: usbkb_hid_report_normal_def fifo_push_def Let_def e flip: w)
  obtain s2 where s2: "s2 = poll (snd (usbkb_hid_report_normal 0 (replicate 6 0)
      (poll (snd (usbkb_hid_report_normal ctrl keys st)))))" by simp
  have z: "[0, 0] @ take KEYBOARD_REPORT_KEY_MAX (replicate 6 0) = replicate 8 (0 :: u8)"
    by (simp add: KEYBOARD_REPORT_KEY_MAX_def numeral_eq_Suc)
  have f: "\<exists>c. sent s2 = sent st @ [(USB_EDP_KEYBOARD_IN, c, replicate 8 0)]"
    "usb_fifo s2 = (usb_fifo st)[unat (w AND 3) := ?slot]" "usb_ff_wptr s2 = w + 1" "usb_ff_rptr s2 = w"
    "\<not> ep_busy s2 USB_EDP_KEYBOARD_IN"
    unfolding s2 s1 snd_conv
    by (simp_all add: poll_def usbkb_hid_report_normal_def ep_send_def e z [simplified])
  then obtain c where c: "sent s2 = sent st @ [(USB_EDP_KEYBOARD_IN, c, replicate 8 0)]" by blast
  have p: "usb_fifo s2 ! unat (w AND 3) = ?slot" using i l by (simp add: f(2))
  have "usb_hid_report_fifo_proc s2 = Some (True,
      (ep_send USB_EDP_KEYBOARD_IN ([ctrl, 0] @ keys) s2)\<lparr>usb_ff_rptr := w + 1\<rparr>)"
    using f(5) assms(4)
    by (simp add: usb_hid_report_fifo_proc_def f(3,4) p Let_def usbkb_hid_report_normal_def
        KEYBOARD_REPORT_KEY_MAX_def ep_send_def)
  then show ?thesis unfolding s2 [symmetric] by (simp add: ep_send_def c)
qed

lemma queued_press_follows_release_witness:
  "\<exists>c1 c2 st'.
    usb_hid_report_fifo_proc (poll (snd (usbkb_hid_report_normal 0 (replicate 6 0)
      (poll (snd (usbkb_hid_report_normal 0 [VK_A, 0, 0, 0, 0, 0] kb_busy_init)))))) = Some (True, st') \<and>
    sent st' = sent kb_busy_init @ [(USB_EDP_KEYBOARD_IN, c1, replicate 8 0),
      (USB_EDP_KEYBOARD_IN, c2, [0, 0] @ [VK_A, 0, 0, 0, 0, 0])]"
  by (rule queued_press_follows_release)
     (simp_all add: kb_busy_init_def fifo_inv_def fifo_contents_def hid_init_def)

text \<open>
  The loop of \<open>usbkb_add_frame\<close> ends after its first round, because it compares the write
  pointer with itself: of a frame with several events all but the first are lost.
\<close>

theorem add_frame_keeps_first_event:
  assumes "0 < pno" "8 \<le> length pdata"
  shows "usbkb_add_frame pno pdata st = Some (st\<lparr>
    kb_dat_buff := (kb_dat_buff st)[unat (usbkb_wptr st) := kb_of_bytes (take 8 pdata)],
    usbkb_wptr := BOUND_INC_POW2 (usbkb_wptr st) USBKB_BUFF_DATA_NUM\<rparr>)"
proof -
  obtain k where "unat pno = Suc k" using assms(1) by (metis gr0_conv_Suc unat_gt_0 word_gt_0)
  then show ?thesis using assms(2) by (simp add: usbkb_add_frame_def Let_def)
qed

text \<open>
  Two mouse frames of four events fill the buffer of eight: the write pointer meets the read
  pointer, the buffer reads as empty and nothing is reported.
\<close>

definition four_moves :: bytes where
  "four_moves = [1, 1, 1, 1, 1, 1, 1, 1, 1, 1, 1, 1, 1, 1, 1, 1]"

theorem full_mouse_buffer_reads_empty:
  "\<exists>st1 st2. usbmouse_add_frame 4 four_moves report_proto_init = Some st1 \<and>
     usbmouse_add_frame 4 four_moves st1 = Some st2 \<and>
     usbmouse_wptr st2 = usbmouse_rptr st2 \<and> usbmouse_report_frame now st2 = Some st2"
proof -
  have u: "unat (4 :: u8) = Suc (Suc (Suc (Suc 0)))" by simp
  have "usbmouse_wptr report_proto_init = 0" "usbmouse_rptr report_proto_init = 0"
    by (simp_all add: report_proto_init_def hid_init_def)
  then show ?thesis
    unfolding usbmouse_add_frame_def u mouse_add_from.simps Let_def
    by (simp add: four_moves_def BOUND_INC_POW2_def USBMOUSE_BUFF_DATA_NUM_def usbmouse_report_frame_def)
qed

text \<open>
  The host reads two bits of a system report: 1 to 3 select sleep (\<open>0x82\<close>), power down
  (\<open>0x81\<close>) and wake up (\<open>0x83\<close>). The table sends 4 for the wake-up key, which reads as 0.
\<close>

definition sys_usage :: "u8 \<Rightarrow> u8 option" where
  "sys_usage b = (let v = unat (b AND 3) in if v = 0 then None else Some ([0x82, 0x81, 0x83] ! (v - 1)))"

theorem wakeup_key_reports_nothing:
  "map (\<lambda>k. sys_usage (vk_sys_map ! unat (k - VK_SYS_START))) [VK_SLEEP, VK_POWER, VK_WAKEUP] =
   [Some 0x82, Some 0x81, None]"
  by (simp add: sys_usage_def vk_sys_map_def vk_codes)

text \<open>
  In boot protocol the mouse endpoint sends the first three bytes of whatever it is given: a
  media key leaves as a mouse movement, and a system key reads past the end of its table.
\<close>

theorem boot_protocol_mixes_reports:
  assumes "usb_mouse_report_proto st = 0" "\<not> ep_busy st USB_EDP_MOUSE"
  shows "usbkb_report_sys_key VK_WAKEUP st = None \<and>
    (\<exists>st'. usbkb_report_media_key VK_VOL_UP st = Some st' \<and>
       sent st' = sent st @ [(USB_EDP_MOUSE, ep_ctrl USB_EDP_MOUSE st, [0xe9, 0x00, 0])])"
  using assms
  by (simp add: usbkb_report_sys_key_def usbkb_report_media_key_def usbmouse_hid_report_def
      vk_sys_map_def vk_media_map_def vk_codes ep_send_def)

end
