(* ===== verification/Usb_Ep0.thy ===== *)
theory Usb_Ep0
  imports Usb_Desc "HOL-Library.Monad_Syntax"
begin

text \<open>
  Control endpoint 0 as \<open>usbhw_i.h\<close> and \<open>usbhw.c\<close> use it: an eight byte buffer behind a data
  register whose pointer every read and write advances, and a control register through which the
  handler acknowledges or stalls the phase. The buffer holds what the host sent; what lies before
  the pointer when the control register is written is what the host gets. \<open>ep0_log\<close> records those
  writes. An access past the eighth byte is \<^const>\<open>None\<close>.
\<close>

record ep0_st =
  ep0_dat :: bytes
  ep0_ptr :: nat
  ep0_log :: "(u8 \<times> bytes) list"

definition usbhw_reset_ctrl_ep_ptr :: "ep0_st \<Rightarrow> ep0_st" where
  "usbhw_reset_ctrl_ep_ptr e = e\<lparr>ep0_ptr := 0\<rparr>"

definition usbhw_read_ctrl_ep_data :: "ep0_st \<Rightarrow> (u8 \<times> ep0_st) option" where
  "usbhw_read_ctrl_ep_data e =
     (if ep0_ptr e < length (ep0_dat e)
      then Some (ep0_dat e ! ep0_ptr e, e\<lparr>ep0_ptr := ep0_ptr e + 1\<rparr>) else None)"

definition usbhw_write_ctrl_ep_data :: "u8 \<Rightarrow> ep0_st \<Rightarrow> ep0_st option" where
  "usbhw_write_ctrl_ep_data d e =
     (if ep0_ptr e < length (ep0_dat e)
      then Some (e\<lparr>ep0_dat := (ep0_dat e)[ep0_ptr e := d], ep0_ptr := ep0_ptr e + 1\<rparr>) else None)"

definition usbhw_write_ctrl_ep_ctrl :: "u8 \<Rightarrow> ep0_st \<Rightarrow> ep0_st" where
  "usbhw_write_ctrl_ep_ctrl c e = e\<lparr>ep0_log := ep0_log e @ [(c, take (ep0_ptr e) (ep0_dat e))]\<rparr>"

definition usbhw_write_ctrl_ep_u16 :: "u16 \<Rightarrow> ep0_st \<Rightarrow> ep0_st option" where
  "usbhw_write_ctrl_ep_u16 v e = do {
     e1 \<leftarrow> usbhw_write_ctrl_ep_data (ucast (v AND 0xff)) e;
     usbhw_write_ctrl_ep_data (ucast (drop_bit 8 v)) e1
   }"

definition usbhw_read_ctrl_ep_u16 :: "ep0_st \<Rightarrow> (u16 \<times> ep0_st) option" where
  "usbhw_read_ctrl_ep_u16 e = do {
     (lo, e1) \<leftarrow> usbhw_read_ctrl_ep_data e;
     (hi, e2) \<leftarrow> usbhw_read_ctrl_ep_data e1;
     Some (push_bit 8 (ucast hi) OR ucast lo, e2)
   }"

text \<open>The mode register: a set bit leaves the request to the hardware.\<close>

definition usbhw_disable_manual_interrupt :: "u8 \<Rightarrow> u8 \<Rightarrow> u8" where
  "usbhw_disable_manual_interrupt m mode = mode OR m"

definition usbhw_enable_manual_interrupt :: "u8 \<Rightarrow> u8 \<Rightarrow> u8" where
  "usbhw_enable_manual_interrupt m mode = mode AND NOT m"

text \<open>Writing a pending bit of the status register clears it.\<close>

definition usbhw_clr_ctrl_ep_irq :: "u8 \<Rightarrow> u8 \<Rightarrow> u8" where
  "usbhw_clr_ctrl_ep_irq irq sta = sta AND NOT irq"

section \<open>Reading and writing runs of bytes\<close>

definition ep0_ok :: "ep0_st \<Rightarrow> bool" where
  "ep0_ok e \<longleftrightarrow> length (ep0_dat e) = 8"

fun ep0_writes :: "bytes \<Rightarrow> ep0_st \<Rightarrow> ep0_st option" where
  "ep0_writes [] e = Some e"
| "ep0_writes (b # bs) e = do { e1 \<leftarrow> usbhw_write_ctrl_ep_data b e; ep0_writes bs e1 }"

named_theorems ep0_ops \<open>what the accessors of endpoint 0 do inside the buffer\<close>

lemma ep0_reset [ep0_ops]:
  "ep0_ptr (usbhw_reset_ctrl_ep_ptr e) = 0" "ep0_dat (usbhw_reset_ctrl_ep_ptr e) = ep0_dat e"
  "ep0_log (usbhw_reset_ctrl_ep_ptr e) = ep0_log e" "ep0_ok (usbhw_reset_ctrl_ep_ptr e) = ep0_ok e"
  by (simp_all add: usbhw_reset_ctrl_ep_ptr_def ep0_ok_def)

lemma ep0_read [ep0_ops]:
  "ep0_ok e \<Longrightarrow> ep0_ptr e < 8 \<Longrightarrow>
   usbhw_read_ctrl_ep_data e = Some (ep0_dat e ! ep0_ptr e, e\<lparr>ep0_ptr := ep0_ptr e + 1\<rparr>)"
  by (simp add: usbhw_read_ctrl_ep_data_def ep0_ok_def)

lemma ep0_ok_ptr [simp]: "ep0_ok (e\<lparr>ep0_ptr := p\<rparr>) = ep0_ok e"
  by (simp add: ep0_ok_def)

lemma u16_of_bytes: "push_bit 8 (ucast hi) OR ucast lo = u16_le lo hi"
  by (simp add: u16_le_def or.commute)

lemma ep0_read_u16 [ep0_ops]:
  "ep0_ok e \<Longrightarrow> ep0_ptr e < 7 \<Longrightarrow>
   usbhw_read_ctrl_ep_u16 e =
     Some (u16_le (ep0_dat e ! ep0_ptr e) (ep0_dat e ! (ep0_ptr e + 1)), e\<lparr>ep0_ptr := ep0_ptr e + 2\<rparr>)"
  by (simp add: usbhw_read_ctrl_ep_u16_def ep0_read u16_of_bytes)

lemma take_Suc_update: "n < length xs \<Longrightarrow> take (Suc n) (xs[n := x]) = take n xs @ [x]"
  by (simp add: take_Suc_conv_app_nth)

lemma ep0_writes_ok:
  "ep0_ok e \<Longrightarrow> ep0_ptr e + length bs \<le> 8 \<Longrightarrow>
   \<exists>e'. ep0_writes bs e = Some e' \<and> ep0_ok e' \<and> ep0_ptr e' = ep0_ptr e + length bs \<and>
     take (ep0_ptr e') (ep0_dat e') = take (ep0_ptr e) (ep0_dat e) @ bs \<and> ep0_log e' = ep0_log e"
proof (induction bs arbitrary: e)
  case (Cons b bs)
  let ?e = "e\<lparr>ep0_dat := (ep0_dat e)[ep0_ptr e := b], ep0_ptr := ep0_ptr e + 1\<rparr>"
  have w: "usbhw_write_ctrl_ep_data b e = Some ?e"
    using Cons.prems by (simp add: usbhw_write_ctrl_ep_data_def ep0_ok_def)
  have ok: "ep0_ok ?e" "ep0_ptr ?e + length bs \<le> 8"
    and t: "take (ep0_ptr ?e) (ep0_dat ?e) = take (ep0_ptr e) (ep0_dat e) @ [b]"
    using Cons.prems by (simp_all add: ep0_ok_def take_Suc_update)
  obtain e' where "ep0_writes bs ?e = Some e'" "ep0_ok e'" "ep0_ptr e' = ep0_ptr ?e + length bs"
    "take (ep0_ptr e') (ep0_dat e') = take (ep0_ptr ?e) (ep0_dat ?e) @ bs" "ep0_log e' = ep0_log ?e"
    using Cons.IH [OF ok] by blast
  with w t show ?case by simp
qed simp

lemma ep0_writes_fresh:
  assumes "ep0_ok e" "ep0_ptr e = 0" "length bs \<le> 8"
  shows "\<exists>e'. ep0_writes bs e = Some e' \<and> ep0_ok e' \<and> ep0_ptr e' = length bs \<and>
    take (ep0_ptr e') (ep0_dat e') = bs \<and> ep0_log e' = ep0_log e"
  using ep0_writes_ok [of e bs] assms by simp

lemma ep0_write_writes: "usbhw_write_ctrl_ep_data b e = ep0_writes [b] e"
  by (cases "usbhw_write_ctrl_ep_data b e") simp_all

lemma ep0_write_u16_writes: "usbhw_write_ctrl_ep_u16 v e = ep0_writes (le16 v) e"
proof -
  have "v AND 255 = take_bit 8 v" by (simp add: take_bit_eq_mask mask_eq_exp_minus_1)
  then have "ucast (v AND 255 :: u16) = (ucast v :: u8)"
    by (auto intro!: bit_word_eqI simp: bit_simps)
  then show ?thesis
    by (simp add: usbhw_write_ctrl_ep_u16_def le16_def split: Option.bind_splits)
qed

end
