(* ===== verification/Usb_Audio.thy ===== *)
theory Usb_Audio
  imports Usb_Ep0 Usb_Hid
begin

text \<open>
  The audio class requests of the dongle, \<open>application/app/usbaud.c\<close>: mute and volume of the
  speaker and the microphone feature unit, set and read over the data bytes of endpoint 0. Volumes
  are signed sixteen bit numbers in units of 1/256 dB; a step counts multiples of the resolution
  above the minimum.
\<close>

record vol_setting =
  vol_cur :: u16
  vol_step :: u16
  mute :: u8

record usb_audio_status =
  speaker_vol :: u16
  mic_vol :: u16
  speaker_mute :: u8
  mic_mute :: u8
  change :: u8

record audio_st =
  speaker_setting :: vol_setting
  mic_setting :: vol_setting
  g_usb_audio_status :: usb_audio_status

definition usbaud_set_audio_mode :: "u8 \<Rightarrow> u8" where
  "usbaud_set_audio_mode mic_ctrl = mic_ctrl OR (FLD_USB_EP_EOF_ISO OR FLD_USB_EP_MONO)"

definition usbaud_hid_report :: "u8 \<Rightarrow> u8 \<Rightarrow> hid_st \<Rightarrow> bool \<times> hid_st" where
  "usbaud_hid_report cmd vol h =
     (if ep_busy h USB_EDP_AUDIO_IN then (False, h)
      else (True, h\<lparr>sent := sent h @ [(USB_EDP_AUDIO_IN, FLD_EP_DAT_ACK, [USB_HID_AUDIO, cmd, vol])],
                   ep_busy := (ep_busy h)(USB_EDP_AUDIO_IN := True)\<rparr>))"

text \<open>The comparison and the division are on \<open>int\<close>; the quotient is cut to sixteen bits.\<close>

definition usbaud_cal_speaker_step :: "u16 \<Rightarrow> u16" where
  "usbaud_cal_speaker_step vol =
     (if sint vol < sint SPEAKER_VOL_MIN then 0
      else word_of_int ((sint vol - sint SPEAKER_VOL_MIN) div sint SPEAKER_VOL_RES))"

definition usbaud_cal_mic_step :: "u16 \<Rightarrow> u16" where
  "usbaud_cal_mic_step vol =
     (if sint vol < sint MIC_VOL_MIN then 0
      else word_of_int ((sint vol - sint MIC_VOL_MIN) div sint MIC_VOL_RES))"

definition usbaud_set_speaker_vol :: "u16 \<Rightarrow> audio_st \<Rightarrow> audio_st" where
  "usbaud_set_speaker_vol vol a =
     a\<lparr>speaker_setting := (speaker_setting a)\<lparr>vol_cur := vol, vol_step := usbaud_cal_speaker_step vol\<rparr>\<rparr>"

definition usbaud_set_mic_vol :: "u16 \<Rightarrow> audio_st \<Rightarrow> audio_st" where
  "usbaud_set_mic_vol vol a =
     a\<lparr>mic_setting := (mic_setting a)\<lparr>vol_cur := vol, vol_step := usbaud_cal_mic_step vol\<rparr>\<rparr>"

definition usbaud_speaker_vol_get :: "audio_st \<Rightarrow> u8" where
  "usbaud_speaker_vol_get a =
     push_bit 7 (mute (speaker_setting a)) OR (ucast (vol_step (speaker_setting a)) AND 0x7f)"

definition usbaud_mic_vol_get :: "audio_st \<Rightarrow> u8" where
  "usbaud_mic_vol_get a =
     push_bit 7 (mute (mic_setting a)) OR (ucast (vol_step (mic_setting a)) AND 0x7f)"

definition usbaud_mic_en :: "u8 \<Rightarrow> audio_st \<Rightarrow> audio_st" where
  "usbaud_mic_en en a = a\<lparr>mic_setting := (mic_setting a)\<lparr>mute := en\<rparr>\<rparr>"

text \<open>The handler of an older interface; its two reads in one sum run in the order written.\<close>

definition speaker_level :: "u16 \<Rightarrow> u16" where
  "speaker_level v =
     (let n = word_of_int (((sint v - sint SPEAKER_VOL_MIN + sint SPEAKER_VOL_STEP) * (10 - 1)) div 2 ^ 12) :: u16
      in if sint n < 0 then 0 else n)"

definition usb_audio_class_out_intf_proc :: "u8 \<Rightarrow> u8 \<Rightarrow> audio_st \<Rightarrow> ep0_st \<Rightarrow> (int \<times> audio_st \<times> ep0_st) option" where
  "usb_audio_class_out_intf_proc type feature_id a e =
     (let s = g_usb_audio_status a in
      if type = 1
      then if feature_id = 0 then Some (0, a, e)
           else if feature_id = AUDIO_FEATURE_ID_SPEAKER
           then do {
             (m, e1) \<leftarrow> usbhw_read_ctrl_ep_data e;
             Some (0, a\<lparr>g_usb_audio_status := s\<lparr>speaker_mute := m, change := change s OR 1\<rparr>\<rparr>, e1)
           }
           else if feature_id = AUDIO_FEATURE_ID_MIC
           then do {
             (m, e1) \<leftarrow> usbhw_read_ctrl_ep_data e;
             Some (0, a\<lparr>g_usb_audio_status := s\<lparr>mic_mute := m, change := change s OR 2\<rparr>\<rparr>, e1)
           }
           else Some (1, a, e)
      else if type = 2
      then if feature_id = AUDIO_FEATURE_ID_SPEAKER
           then do {
             (lo, e1) \<leftarrow> usbhw_read_ctrl_ep_data e;
             (hi, e2) \<leftarrow> usbhw_read_ctrl_ep_data e1;
             Some (0, a\<lparr>g_usb_audio_status :=
               s\<lparr>speaker_vol := speaker_level (ucast lo + push_bit 8 (ucast hi)), change := change s OR 4\<rparr>\<rparr>, e2)
           }
           else if feature_id = AUDIO_FEATURE_ID_MIC
           then do {
             (lo, e1) \<leftarrow> usbhw_read_ctrl_ep_data e;
             (hi, e2) \<leftarrow> usbhw_read_ctrl_ep_data e1;
             Some (0, a\<lparr>g_usb_audio_status :=
               s\<lparr>mic_vol := ucast lo + push_bit 8 (ucast hi), change := change s OR 8\<rparr>\<rparr>, e2)
           }
           else Some (1, a, e)
      else Some (0, a, e))"

definition usbaud_handle_set_speaker_cmd :: "u8 \<Rightarrow> audio_st \<Rightarrow> ep0_st \<Rightarrow> (int \<times> audio_st \<times> ep0_st) option" where
  "usbaud_handle_set_speaker_cmd type a e =
     (if type = AUDIO_FEATURE_MUTE
      then do {
        (m, e1) \<leftarrow> usbhw_read_ctrl_ep_data e;
        Some (0, a\<lparr>speaker_setting := (speaker_setting a)\<lparr>mute := m\<rparr>\<rparr>, e1)
      }
      else if type = AUDIO_FEATURE_VOLUME
      then do {
        (v, e1) \<leftarrow> usbhw_read_ctrl_ep_u16 e;
        Some (0, usbaud_set_speaker_vol v a, e1)
      }
      else Some (-1, a, e))"

definition usbaud_handle_set_mic_cmd :: "u8 \<Rightarrow> audio_st \<Rightarrow> ep0_st \<Rightarrow> (int \<times> audio_st \<times> ep0_st) option" where
  "usbaud_handle_set_mic_cmd type a e =
     (if type = AUDIO_FEATURE_MUTE
      then do {
        (m, e1) \<leftarrow> usbhw_read_ctrl_ep_data e;
        Some (0, a\<lparr>mic_setting := (mic_setting a)\<lparr>mute := m\<rparr>\<rparr>, e1)
      }
      else if type = AUDIO_FEATURE_VOLUME
      then do {
        (v, e1) \<leftarrow> usbhw_read_ctrl_ep_u16 e;
        Some (0, usbaud_set_mic_vol v a, e1)
      }
      else Some (0, a, e))"

definition usbaud_handle_get_speaker_cmd :: "u8 \<Rightarrow> u8 \<Rightarrow> audio_st \<Rightarrow> ep0_st \<Rightarrow> (int \<times> ep0_st) option" where
  "usbaud_handle_get_speaker_cmd req type a e =
     (if type = AUDIO_FEATURE_MUTE
      then map_option (Pair 0) (usbhw_write_ctrl_ep_data (mute (speaker_setting a)) e)
      else if type = AUDIO_FEATURE_VOLUME
      then if req = AUDIO_REQ_GetCurrent
           then map_option (Pair 0) (usbhw_write_ctrl_ep_u16 (vol_cur (speaker_setting a)) e)
           else if req = AUDIO_REQ_GetMinimum then map_option (Pair 0) (usbhw_write_ctrl_ep_u16 SPEAKER_VOL_MIN e)
           else if req = AUDIO_REQ_GetMaximum then map_option (Pair 0) (usbhw_write_ctrl_ep_u16 SPEAKER_VOL_MAX e)
           else if req = AUDIO_REQ_GetResolution then map_option (Pair 0) (usbhw_write_ctrl_ep_u16 SPEAKER_VOL_RES e)
           else Some (-1, e)
      else Some (-1, e))"

definition usbaud_handle_get_mic_cmd :: "u8 \<Rightarrow> u8 \<Rightarrow> audio_st \<Rightarrow> ep0_st \<Rightarrow> (int \<times> ep0_st) option" where
  "usbaud_handle_get_mic_cmd req type a e =
     (if type = AUDIO_FEATURE_MUTE
      then map_option (Pair 0) (usbhw_write_ctrl_ep_data (mute (mic_setting a)) e)
      else if type = AUDIO_FEATURE_VOLUME
      then if req = AUDIO_REQ_GetCurrent
           then map_option (Pair 0) (usbhw_write_ctrl_ep_u16 (vol_cur (mic_setting a)) e)
           else if req = AUDIO_REQ_GetMinimum then map_option (Pair 0) (usbhw_write_ctrl_ep_u16 MIC_VOL_MIN e)
           else if req = AUDIO_REQ_GetMaximum then map_option (Pair 0) (usbhw_write_ctrl_ep_u16 MIC_VOL_MAX e)
           else if req = AUDIO_REQ_GetResolution then map_option (Pair 0) (usbhw_write_ctrl_ep_u16 MIC_VOL_RES e)
           else Some (-1, e)
      else Some (-1, e))"

text \<open>The statics at power-on, and \<open>usbaud_init\<close> with the speaker off and one microphone channel.\<close>

definition audio_zero :: audio_st where
  "audio_zero = (let z = \<lparr>vol_cur = 0, vol_step = 0, mute = 0\<rparr> in
     \<lparr>speaker_setting = z, mic_setting = z,
      g_usb_audio_status = \<lparr>speaker_vol = 0, mic_vol = 0, speaker_mute = 0, mic_mute = 0, change = 0\<rparr>\<rparr>)"

definition usbaud_init :: "u8 \<times> audio_st \<Rightarrow> u8 \<times> audio_st" where
  "usbaud_init = (\<lambda>(mic_ctrl, a).
     (if MIC_CHANNLE_COUNT = 1 then usbaud_set_audio_mode mic_ctrl else mic_ctrl,
      a\<lparr>mic_setting := (mic_setting a)\<lparr>vol_cur := MIC_VOL_DEF\<rparr>\<rparr>))"


section \<open>Steps\<close>

lemma step_nat:
  assumes "a < 65536" "0 \<le> a"
  shows "unat (word_of_int (a div 384) :: u16) = nat (a div 384)"
proof -
  have "0 \<le> a div 384" using assms(2) by (simp add: pos_imp_zdiv_nonneg_iff)
  moreover have "a div 384 \<le> 65536 div 384" using assms(1) by (intro zdiv_mono1) simp_all
  ultimately show ?thesis by (simp add: unat_eq_nat_uint take_bit_int_eq_self uint_word_of_int_eq)
qed

lemma nat_div_neg: "a < 0 \<Longrightarrow> nat (a div 384) = 0" for a :: int
  by (simp add: pos_imp_zdiv_neg_iff less_imp_le)

lemma speaker_step_nat: "unat (usbaud_cal_speaker_step v) = nat ((sint v + 24576) div 384)"
proof -
  have c: "sint SPEAKER_VOL_MIN = - 24576" "sint SPEAKER_VOL_RES = 384" by (simp_all add: usb_consts)
  have b: "sint v + 24576 < 65536" using sint_lt [of v] by simp
  show ?thesis
  proof (cases "sint v < - 24576")
    case True
    then have "usbaud_cal_speaker_step v = 0" "sint v + 24576 < 0" by (simp_all add: usbaud_cal_speaker_step_def c)
    then show ?thesis by (simp add: nat_div_neg)
  next
    case False
    then have "usbaud_cal_speaker_step v = word_of_int ((sint v + 24576) div 384)" "0 \<le> sint v + 24576"
      by (simp_all only: usbaud_cal_speaker_step_def c if_False diff_minus_eq_add)
    then show ?thesis using step_nat [OF b] by simp
  qed
qed

lemma mic_step_nat: "unat (usbaud_cal_mic_step v) = nat (sint v div 384)"
proof -
  have c: "sint MIC_VOL_MIN = 0" "sint MIC_VOL_RES = 384" by (simp_all add: usb_consts)
  have b: "sint v < 65536" using sint_lt [of v] by simp
  show ?thesis
  proof (cases "sint v < 0")
    case True
    then show ?thesis by (simp add: usbaud_cal_mic_step_def c nat_div_neg)
  next
    case False
    then have "usbaud_cal_mic_step v = word_of_int (sint v div 384)" "0 \<le> sint v"
      by (simp_all only: usbaud_cal_mic_step_def c if_False diff_zero)
    then show ?thesis using step_nat [OF b] by simp
  qed
qed

lemma packed_step:
  assumes "unat (s :: u16) < 128"
  shows "unat ((push_bit 7 m OR (ucast s AND 0x7f)) AND 0x7f :: u8) = unat s"
proof -
  have m: "(0x7f :: u8) = mask 7" by (simp add: mask_eq_exp_minus_1)
  have "(push_bit 7 m OR (ucast s AND 0x7f)) AND 0x7f = (ucast s AND mask 7 :: u8)"
    unfolding m by (auto intro!: bit_word_eqI simp: bit_simps)
  then have "unat ((push_bit 7 m OR (ucast s AND 0x7f)) AND 0x7f :: u8) = unat s mod 256 mod 128"
    by (simp only: unat_and_mask_mod) (simp add: unsigned_ucast_eq take_bit_eq_mod)
  also have "\<dots> = unat s" using assms by simp
  finally show ?thesis .
qed

text \<open>
  For every volume within the range the device announces, the step is the number of whole
  resolutions above the minimum, at most 66 for the speaker and 20 for the microphone, so the
  low seven bits of the volume byte hold it; the steps follow the order of the volumes.
\<close>
theorem volume_steps_fit:
  shows "(sint v \<le> sint SPEAKER_VOL_MAX \<longrightarrow>
      unat (usbaud_cal_speaker_step v) = nat ((sint v - sint SPEAKER_VOL_MIN) div sint SPEAKER_VOL_RES) \<and>
      unat (usbaud_cal_speaker_step v) \<le> 66 \<and>
      unat (usbaud_speaker_vol_get (usbaud_set_speaker_vol v a) AND 0x7f) = unat (usbaud_cal_speaker_step v)) \<and>
    (sint v \<le> sint MIC_VOL_MAX \<longrightarrow>
      unat (usbaud_cal_mic_step v) = nat ((sint v - sint MIC_VOL_MIN) div sint MIC_VOL_RES) \<and>
      unat (usbaud_cal_mic_step v) \<le> 20 \<and>
      unat (usbaud_mic_vol_get (usbaud_set_mic_vol v a) AND 0x7f) = unat (usbaud_cal_mic_step v)) \<and>
    (sint v \<le> sint w \<longrightarrow> usbaud_cal_speaker_step v \<le> usbaud_cal_speaker_step w \<and>
      usbaud_cal_mic_step v \<le> usbaud_cal_mic_step w)"
proof (intro conjI impI)
  have c: "sint SPEAKER_VOL_MAX = 768" "sint SPEAKER_VOL_MIN = - 24576" "sint SPEAKER_VOL_RES = 384"
    "sint MIC_VOL_MAX = 7680" "sint MIC_VOL_MIN = 0" "sint MIC_VOL_RES = 384"
    by (simp_all add: usb_consts)
  show "unat (usbaud_cal_speaker_step v) = nat ((sint v - sint SPEAKER_VOL_MIN) div sint SPEAKER_VOL_RES)"
    "unat (usbaud_cal_mic_step v) = nat ((sint v - sint MIC_VOL_MIN) div sint MIC_VOL_RES)"
    by (simp_all add: speaker_step_nat mic_step_nat c)
  show s: "unat (usbaud_cal_speaker_step v) \<le> 66" if "sint v \<le> sint SPEAKER_VOL_MAX"
    using that by (simp add: speaker_step_nat c)
  show m: "unat (usbaud_cal_mic_step v) \<le> 20" if "sint v \<le> sint MIC_VOL_MAX"
    using that by (simp add: mic_step_nat c)
  show "unat (usbaud_speaker_vol_get (usbaud_set_speaker_vol v a) AND 0x7f) = unat (usbaud_cal_speaker_step v)"
    if "sint v \<le> sint SPEAKER_VOL_MAX"
    using s [OF that] packed_step by (simp add: usbaud_speaker_vol_get_def usbaud_set_speaker_vol_def)
  show "unat (usbaud_mic_vol_get (usbaud_set_mic_vol v a) AND 0x7f) = unat (usbaud_cal_mic_step v)"
    if "sint v \<le> sint MIC_VOL_MAX"
    using m [OF that] packed_step by (simp add: usbaud_mic_vol_get_def usbaud_set_mic_vol_def)
  show "usbaud_cal_speaker_step v \<le> usbaud_cal_speaker_step w" "usbaud_cal_mic_step v \<le> usbaud_cal_mic_step w"
    if "sint v \<le> sint w"
    using that by (simp_all add: word_le_nat_alt speaker_step_nat mic_step_nat nat_mono zdiv_mono1)
qed

lemma volume_steps_fit_witness:
  "unat (usbaud_cal_speaker_step 0x0300) = 66 \<and> unat (usbaud_cal_mic_step 0x1e00) = 20 \<and>
   unat (usbaud_speaker_vol_get (usbaud_set_speaker_vol 0x0300 audio_zero) AND 0x7f) = 66 \<and>
   unat (usbaud_mic_vol_get (usbaud_set_mic_vol 0x0300 audio_zero) AND 0x7f) = 2"
proof -
  have "sint (0x0300 :: u16) \<le> sint SPEAKER_VOL_MAX" "sint (0x0300 :: u16) \<le> sint MIC_VOL_MAX"
    "sint (0x1e00 :: u16) \<le> sint MIC_VOL_MAX" by (simp_all add: usb_consts)
  with volume_steps_fit [where v = "0x0300" and a = audio_zero] volume_steps_fit [where v = "0x1e00" and a = audio_zero]
  show ?thesis by (simp add: usb_consts)
qed

text \<open>The initialisation stores the default volume without its step: the step stays 0 instead of 16.\<close>

theorem init_leaves_step:
  "vol_cur (mic_setting (snd (usbaud_init (c, audio_zero)))) = MIC_VOL_DEF \<and>
   vol_step (mic_setting (snd (usbaud_init (c, audio_zero)))) = 0 \<and> usbaud_cal_mic_step MIC_VOL_DEF = 16"
  by (simp add: usbaud_init_def audio_zero_def Let_def usbaud_cal_mic_step_def usb_consts)

end
