(* ===== verification/Usb_Control.thy ===== *)
theory Usb_Control
  imports Usb_Audio
begin

text \<open>
  The control transfers of the dongle, \<open>application/usbstd/usb.c\<close>: a SETUP packet is decoded into
  \<open>control_request\<close>, dispatched, and acknowledged or stalled; each further data packet of the
  transfer runs the dispatcher again. Descriptors go out in pieces of at most eight bytes from
  \<open>g_response\<close>, here the bytes from the pointer on. Core registers (\<open>core\<close>, by address) and analog
  registers are plain stores; the wait of the re-enumeration is left out. An access outside an
  array is \<^const>\<open>None\<close>; the \<open>assert\<close> of the code is empty.
\<close>

section \<open>State\<close>

record USB_Request_Hdr_t =
  RequestType :: u8
  Request :: u8
  Value :: u16
  Index :: u16
  Length :: u16

record usb_st =
  ep0 :: ep0_st
  ep0_irq_sta :: u8
  ctrl_ep_irq_mode :: u8
  irq_src :: u32
  control_request :: USB_Request_Hdr_t
  g_response :: bytes
  g_response_len :: u16
  g_stall :: bool
  g_rate :: u8
  host_keyboard_status :: u8
  host_cmd :: bytes
  host_cmd_paring_ok :: u8
  custom_read_dat :: u32
  custom_reg_cmd :: bool
  usb_alt_intf :: bytes
  usb_has_suspend_irq :: u8
  audio :: audio_st
  hid :: hid_st
  core :: "u32 \<Rightarrow> u8"
  analog :: "u8 \<Rightarrow> u8"
  analog_log :: "(u8 \<times> u8) list"

definition lo8 :: "u16 \<Rightarrow> u8" where "lo8 v = ucast v"
definition hi8 :: "u16 \<Rightarrow> u8" where "hi8 v = ucast (drop_bit 8 v)"

section \<open>Descriptors\<close>

fun response_loop :: "nat \<Rightarrow> usb_st \<Rightarrow> usb_st option" where
  "response_loop 0 st = Some st"
| "response_loop (Suc n) st =
     (case g_response st of [] \<Rightarrow> None
      | b # rest \<Rightarrow> do {
          e \<leftarrow> usbhw_write_ctrl_ep_data b (ep0 st);
          response_loop n (st\<lparr>ep0 := e, g_response := rest\<rparr>)
        })"

definition usb_send_response :: "usb_st \<Rightarrow> usb_st option" where
  "usb_send_response st =
     (let n = (if g_response_len st < 8 then g_response_len st else 8);
          st1 = st\<lparr>g_response_len := g_response_len st - n, ep0 := usbhw_reset_ctrl_ep_ptr (ep0 st)\<rparr>
      in response_loop (unat n) st1)"

definition usb_limit_length :: "usb_st \<Rightarrow> usb_st" where
  "usb_limit_length st =
     (if Length (control_request st) < g_response_len st
      then st\<lparr>g_response_len := Length (control_request st)\<rparr> else st)"

definition usb_prepare_desc_data :: "usb_st \<Rightarrow> usb_st" where
  "usb_prepare_desc_data st =
     (let value_l = lo8 (Value (control_request st));
          value_h = hi8 (Value (control_request st));
          st0 = st\<lparr>g_response := [], g_response_len := 0\<rparr>;
          answer = (\<lambda>d n. st0\<lparr>g_response := d, g_response_len := of_nat n\<rparr>)
      in usb_limit_length (
        if value_h = DTYPE_Device then answer usbdesc_get_device (length device_desc)
        else if value_h = DTYPE_Configuration
        then answer usbdesc_get_configuration (length configuration_desc)
        else if value_h = DTYPE_String
        then if value_l = USB_STRING_LANGUAGE then answer usbdesc_get_language 4
             else if value_l = USB_STRING_VENDOR
             then answer usbdesc_get_vendor (sizeof_wide STRING_VENDOR)
             else if value_l = USB_STRING_PRODUCT
             then answer usbdesc_get_product (sizeof_wide STRING_PRODUCT)
             else if value_l = USB_STRING_SERIAL
             then answer usbdesc_get_serial (sizeof_wide STRING_SERIAL)
             else st0\<lparr>g_stall := True\<rparr>
        else st0\<lparr>g_stall := True\<rparr>))"

definition usb_handle_std_intf_req :: "usb_st \<Rightarrow> usb_st" where
  "usb_handle_std_intf_req st =
     (let value_h = hi8 (Value (control_request st));
          index_l = lo8 (Index (control_request st))
      in usb_limit_length (
        if value_h = HID_DTYPE_HID
        then let st1 = (if index_l = USB_INTF_MOUSE
                   then st\<lparr>g_response := usbdesc_get_mouse, g_response_len := of_nat (length mouse_descriptor)\<rparr>
                   else st)
             in if index_l = USB_INTF_KEYBOARD
                then st1\<lparr>g_response := usbdesc_get_keyboard, g_response_len := of_nat (length keyboard_descriptor)\<rparr>
                else st1
        else if value_h = HID_DTYPE_Report
        then if index_l = USB_INTF_KEYBOARD
             then st\<lparr>g_response := keyboard_report_desc, g_response_len := usbkb_get_report_desc_size\<rparr>
             else if index_l = USB_INTF_MOUSE
             then st\<lparr>g_response := mouse_report_desc, g_response_len := usbmouse_get_report_desc_size\<rparr>
             else st\<lparr>g_stall := True\<rparr>
        else st))"

section \<open>Class requests\<close>

definition REG_BASE_ADDR :: u32 where "REG_BASE_ADDR = 0x800000"

definition read_reg8 :: "u32 \<Rightarrow> usb_st \<Rightarrow> u8" where
  "read_reg8 addr st = core st (REG_BASE_ADDR + addr)"

fun write_reg :: "u32 \<Rightarrow> bytes \<Rightarrow> usb_st \<Rightarrow> usb_st" where
  "write_reg addr [] st = st"
| "write_reg addr (b # bs) st =
     write_reg (addr + 1) bs (st\<lparr>core := (core st)(REG_BASE_ADDR + addr := b)\<rparr>)"

definition analog_write :: "u8 \<Rightarrow> u8 \<Rightarrow> usb_st \<Rightarrow> usb_st" where
  "analog_write adr v st = st\<lparr>analog := (analog st)(adr := v), analog_log := analog_log st @ [(adr, v)]\<rparr>"

definition usb_dp_pullup_en :: "bool \<Rightarrow> usb_st \<Rightarrow> usb_st" where
  "usb_dp_pullup_en en st =
     analog_write 0x0b (if en then analog st 0x0b OR 0x80 else analog st 0x0b AND 0x7f) st"

definition custom_reg_access :: "usb_st \<Rightarrow> usb_st" where
  "custom_reg_access st =
     (let hc = host_cmd st;
          st1 = st\<lparr>custom_reg_cmd := (hc ! 1 AND 0xf0 = 0xc0)\<rparr>
      in if \<not> custom_reg_cmd st1 then st1
         else
           let st2 = st1\<lparr>host_cmd := hc[0 := 0]\<rparr>;
               adr = ucast (u16_le (hc ! 2) (hc ! 3)) :: u32;
               len = hc ! 1 AND 3;
               (adr, st3) = (if hc ! 1 = 0xcc \<and> adr = 0x5af0
                 then (adr, usb_dp_pullup_en True ((usb_dp_pullup_en False st2)\<lparr>ctrl_ep_irq_mode := 0xff\<rparr>))
                 else (adr + 0x800000, st2))
           in if hc ! 1 AND 0x0c = 0
              then if len = 0
                   then st3\<lparr>custom_read_dat := fold (\<lambda>k dat.
                          drop_bit 8 dat OR push_bit 24 (ucast (read_reg8 (adr + of_nat k) st3)))
                          [0..<4] (custom_read_dat st3)\<rparr>
                   else if len = 1 then write_reg adr [hc ! 4] st3
                   else if len = 2 then write_reg adr [hc ! 4, hc ! 5] st3
                   else write_reg adr [hc ! 4, hc ! 5, hc ! 6, hc ! 7] st3
              else if len = 0 then st3\<lparr>custom_read_dat := ucast (analog st3 (hc ! 2))\<rparr>
                   else analog_write (hc ! 2) (hc ! 4) st3)"

fun read_host_cmd :: "nat \<Rightarrow> nat \<Rightarrow> usb_st \<Rightarrow> usb_st option" where
  "read_host_cmd 0 i st = Some st"
| "read_host_cmd (Suc k) i st = do {
     (b, e) \<leftarrow> usbhw_read_ctrl_ep_data (ep0 st);
     if i < length (host_cmd st)
     then read_host_cmd k (Suc i) (st\<lparr>ep0 := e, host_cmd := (host_cmd st)[i := b]\<rparr>) else None
   }"

text \<open>The HID requests; what is none of them is stalled for the moment.\<close>

definition out_class_hid :: "bool \<Rightarrow> usb_st \<Rightarrow> usb_st option" where
  "out_class_hid data_request st =
     (let property = Request (control_request st);
          value_l = lo8 (Value (control_request st));
          value_h = hi8 (Value (control_request st))
      in if property = HID_REQ_SetReport
         then if value_h = HID_REPORT_ITEM_In then Some st
              else if value_h = HID_REPORT_ITEM_Out then Some st
              else if value_h = HID_REPORT_ITEM_Feature
              then if data_request
                   then do {
                     (b, e) \<leftarrow> usbhw_read_ctrl_ep_data (ep0 st);
                     Some (st\<lparr>ep0 := e, host_keyboard_status := b\<rparr>)
                   }
                   else Some st
              else if value_h = HID_REPORT_CUSTOM
              then if data_request
                   then map_option custom_reg_access
                          (read_host_cmd 8 0 (st\<lparr>ep0 := usbhw_reset_ctrl_ep_ptr (ep0 st)\<rparr>))
                   else Some st
              else Some (st\<lparr>g_stall := True\<rparr>)
         else if property = HID_REQ_SetIdle
         then do {
           st1 \<leftarrow> (if data_request
             then do { (b, e) \<leftarrow> usbhw_read_ctrl_ep_data (ep0 st); Some (st\<lparr>ep0 := e, g_rate := b\<rparr>) }
             else Some st);
           Some (st1\<lparr>g_rate := value_h\<rparr>)
         }
         else if property = HID_REQ_SetProtocol
         then do {
           st1 \<leftarrow> (if data_request
             then do {
               (b, e) \<leftarrow> usbhw_read_ctrl_ep_data (ep0 st);
               Some (st\<lparr>ep0 := e, hid := (hid st)\<lparr>usb_mouse_report_proto := b\<rparr>\<rparr>)
             }
             else Some st);
           Some (st1\<lparr>hid := (hid st1)\<lparr>usb_mouse_report_proto := value_l,
             ep_busy := (ep_busy (hid st1))(USB_EDP_MOUSE := False)\<rparr>\<rparr>)
         }
         else Some (st\<lparr>g_stall := True\<rparr>))"

definition usb_handle_out_class_intf_req :: "bool \<Rightarrow> usb_st \<Rightarrow> usb_st option" where
  "usb_handle_out_class_intf_req data_request st =
     (let value_h = hi8 (Value (control_request st));
          Entity = hi8 (Index (control_request st))
      in do {
        st1 \<leftarrow> out_class_hid data_request st;
        if \<not> g_stall st1 then Some st1
        else let st2 = st1\<lparr>g_stall := False\<rparr> in
          if Entity = USB_SPEAKER_FEATURE_UNIT_ID
          then do {
            (r, a, e) \<leftarrow> usbaud_handle_set_speaker_cmd value_h (audio st2) (ep0 st2);
            Some (st2\<lparr>audio := a, ep0 := e\<rparr>)
          }
          else if Entity = USB_MIC_FEATURE_UNIT_ID
          then do {
            (r, a, e) \<leftarrow> usbaud_handle_set_mic_cmd value_h (audio st2) (ep0 st2);
            Some (st2\<lparr>audio := a, ep0 := e\<rparr>)
          }
          else Some (st2\<lparr>g_stall := True\<rparr>)
      })"

definition custom_report :: "usb_st \<Rightarrow> bytes" where
  "custom_report st =
     (if custom_reg_cmd st
      then le32 (custom_read_dat st) @ [0x10, 0x20, 0x40, 0x80]
      else [0x04, 0x58, 0x00, if host_cmd_paring_ok st \<noteq> 0 then 0xa1 else 0x00, 0x00, 0x00, 0x08, 0x00])"

definition ep0_reply :: "bytes \<Rightarrow> usb_st \<Rightarrow> usb_st option" where
  "ep0_reply bs st = map_option (\<lambda>e. st\<lparr>ep0 := e\<rparr>) (ep0_writes bs (ep0 st))"

definition in_class_hid :: "usb_st \<Rightarrow> usb_st option" where
  "in_class_hid st =
     (let property = Request (control_request st) in
      if property = 0 then ep0_reply [0] st
      else if property = HID_REQ_GetReport
      then if Value (control_request st) = 0x0305 then ep0_reply (custom_report st) st else Some st
      else if property = HID_REQ_GetIdle then ep0_reply [g_rate st] st
      else if property = HID_REQ_GetProtocol then ep0_reply [usb_mouse_report_proto (hid st)] st
      else Some (st\<lparr>g_stall := True\<rparr>))"

definition usb_handle_in_class_intf_req :: "usb_st \<Rightarrow> usb_st option" where
  "usb_handle_in_class_intf_req st =
     (let property = Request (control_request st);
          value_h = hi8 (Value (control_request st));
          Entity = hi8 (Index (control_request st))
      in do {
        st1 \<leftarrow> in_class_hid st;
        if \<not> g_stall st1 then Some st1
        else let st2 = st1\<lparr>g_stall := False\<rparr> in
          if Entity = USB_SPEAKER_FEATURE_UNIT_ID
          then do {
            (r, e) \<leftarrow> usbaud_handle_get_speaker_cmd property value_h (audio st2) (ep0 st2);
            Some (st2\<lparr>ep0 := e, g_stall := (r \<noteq> 0)\<rparr>)
          }
          else if Entity = USB_MIC_FEATURE_UNIT_ID
          then do {
            (r, e) \<leftarrow> usbaud_handle_get_mic_cmd property value_h (audio st2) (ep0 st2);
            Some (st2\<lparr>ep0 := e, g_stall := (r \<noteq> 0)\<rparr>)
          }
          else Some (st2\<lparr>g_stall := True\<rparr>)
      })"

definition usb_handle_in_class_endp_req :: "usb_st \<Rightarrow> usb_st option" where
  "usb_handle_in_class_endp_req st =
     (let property = Request (control_request st);
          ep_ctrl = hi8 (Value (control_request st))
      in if ep_ctrl = AUDIO_EPCONTROL_SamplingFreq \<and> property = AUDIO_REQ_GetCurrent
         then ep0_reply (take 3 (le32 (of_nat MIC_SAMPLE_RATE))) st
         else Some st)"

definition usb_handle_out_class_endp_req :: "bool \<Rightarrow> usb_st \<Rightarrow> usb_st option" where
  "usb_handle_out_class_endp_req data_request st = Some st"

text \<open>Selecting a setting other than 0 of the microphone hands its endpoint an empty packet.\<close>

definition usb_handle_set_intf :: "usb_st \<Rightarrow> usb_st option" where
  "usb_handle_set_intf st =
     (let value_l = lo8 (Value (control_request st));
          intf_index = lo8 (Index (control_request st)) AND 7
      in if unat intf_index < length (usb_alt_intf st)
         then let st1 = st\<lparr>usb_alt_intf := (usb_alt_intf st)[unat intf_index := value_l]\<rparr>
              in Some (if USB_INTF_MIC = intf_index \<and> value_l \<noteq> 0
                   then st1\<lparr>hid := (hid st1)\<lparr>sent := sent (hid st1) @ [(USB_EDP_MIC, 1, [])],
                          ep_busy := (ep_busy (hid st1))(USB_EDP_MIC := True)\<rparr>\<rparr>
                   else st1)
         else None)"

definition usb_handle_get_intf :: "usb_st \<Rightarrow> usb_st option" where
  "usb_handle_get_intf st =
     (let intf_index = lo8 (Index (control_request st)) AND 7
      in if unat intf_index < length (usb_alt_intf st)
         then ep0_reply [usb_alt_intf st ! unat intf_index] st else None)"

section \<open>Dispatch\<close>

definition usb_handle_request :: "u8 \<Rightarrow> usb_st \<Rightarrow> usb_st option" where
  "usb_handle_request data_request st =
     (let rt = RequestType (control_request st);
          rq = Request (control_request st);
          st = st\<lparr>ep0 := usbhw_reset_ctrl_ep_ptr (ep0 st)\<rparr>
      in if rt = REQDIR_DEVICETOHOST OR REQTYPE_STANDARD OR REQREC_DEVICE
         then if rq = REQ_GetDescriptor
              then usb_send_response (if data_request = USB_IRQ_SETUP_REQ then usb_prepare_desc_data st else st)
              else Some st
         else if rt = REQDIR_DEVICETOHOST OR REQTYPE_STANDARD OR REQREC_INTERFACE
         then if rq = REQ_GetDescriptor
              then usb_send_response (if data_request = USB_IRQ_SETUP_REQ then usb_handle_std_intf_req st else st)
              else if rq = REQ_GetInterface then usb_handle_get_intf st
              else Some st
         else if rt = REQDIR_HOSTTODEVICE OR REQTYPE_CLASS OR REQREC_INTERFACE
         then usb_handle_out_class_intf_req (data_request \<noteq> 0) st
         else if rt = REQDIR_HOSTTODEVICE OR REQTYPE_CLASS OR REQREC_ENDPOINT
         then usb_handle_out_class_endp_req (data_request \<noteq> 0) st
         else if rt = REQDIR_DEVICETOHOST OR REQTYPE_CLASS OR REQREC_INTERFACE
         then usb_handle_in_class_intf_req st
         else if rt = REQDIR_DEVICETOHOST OR REQTYPE_CLASS OR REQREC_ENDPOINT
         then usb_handle_in_class_endp_req st
         else if rt = REQDIR_HOSTTODEVICE OR REQTYPE_STANDARD OR REQREC_INTERFACE
         then if rq = REQ_SetInterface then usb_handle_set_intf st else Some st
         else Some (st\<lparr>g_stall := True\<rparr>))"

definition ep0_answer :: "usb_st \<Rightarrow> usb_st" where
  "ep0_answer st =
     st\<lparr>ep0 := usbhw_write_ctrl_ep_ctrl (if g_stall st then FLD_EP_DAT_STALL else FLD_EP_DAT_ACK) (ep0 st)\<rparr>"

definition read_setup :: "ep0_st \<Rightarrow> (USB_Request_Hdr_t \<times> ep0_st) option" where
  "read_setup e0 = do {
     (rt, e1) \<leftarrow> usbhw_read_ctrl_ep_data (usbhw_reset_ctrl_ep_ptr e0);
     (rq, e2) \<leftarrow> usbhw_read_ctrl_ep_data e1;
     (v, e3) \<leftarrow> usbhw_read_ctrl_ep_u16 e2;
     (i, e4) \<leftarrow> usbhw_read_ctrl_ep_u16 e3;
     (l, e5) \<leftarrow> usbhw_read_ctrl_ep_u16 e4;
     Some (\<lparr>RequestType = rt, Request = rq, Value = v, Index = i, Length = l\<rparr>, e5)
   }"

definition usb_handle_ctl_ep_setup :: "usb_st \<Rightarrow> usb_st option" where
  "usb_handle_ctl_ep_setup st = do {
     (rq, e) \<leftarrow> read_setup (ep0 st);
     st1 \<leftarrow> usb_handle_request USB_IRQ_SETUP_REQ (st\<lparr>ep0 := e, control_request := rq, g_stall := False\<rparr>);
     Some (ep0_answer st1)
   }"

definition usb_handle_ctl_ep_data :: "usb_st \<Rightarrow> usb_st option" where
  "usb_handle_ctl_ep_data st = do {
     st1 \<leftarrow> usb_handle_request USB_IRQ_DATA_REQ
       (st\<lparr>ep0 := usbhw_reset_ctrl_ep_ptr (ep0 st), g_stall := False\<rparr>);
     Some (ep0_answer st1)
   }"

definition usb_handle_ctl_ep_status :: "usb_st \<Rightarrow> usb_st" where
  "usb_handle_ctl_ep_status st =
     st\<lparr>ep0 := usbhw_write_ctrl_ep_ctrl (if g_stall st then FLD_EP_STA_STALL else FLD_EP_STA_ACK) (ep0 st)\<rparr>"

section \<open>The polled interrupt handler\<close>

definition FLD_IRQ_USB_PWDN_EN :: u32 where "FLD_IRQ_USB_PWDN_EN = 0x8"
definition FLD_IRQ_USB_RST_EN :: u32 where "FLD_IRQ_USB_RST_EN = 0x20000"

definition usb_bus_reset :: "usb_st \<Rightarrow> usb_st" where
  "usb_bus_reset st =
     st\<lparr>irq_src := irq_src st AND NOT FLD_IRQ_USB_RST_EN,
        hid := (hid st)\<lparr>usb_mouse_report_proto := 1,
          ep_busy := (\<lambda>ep. if ep < 8 then False else ep_busy (hid st) ep),
          edp_toggle := replicate 8 0\<rparr>\<rparr>"

definition usb_handle_irq :: "u32 \<Rightarrow> usb_st \<Rightarrow> usb_st option" where
  "usb_handle_irq now st =
     (let irq = ep0_irq_sta st in do {
        st1 \<leftarrow> (if irq AND FLD_CTRL_EP_IRQ_SETUP \<noteq> 0
          then usb_handle_ctl_ep_setup (st\<lparr>ep0_irq_sta := usbhw_clr_ctrl_ep_irq FLD_CTRL_EP_IRQ_SETUP (ep0_irq_sta st)\<rparr>)
          else Some st);
        st2 \<leftarrow> (if irq AND FLD_CTRL_EP_IRQ_DATA \<noteq> 0
          then usb_handle_ctl_ep_data (st1\<lparr>ep0_irq_sta := usbhw_clr_ctrl_ep_irq FLD_CTRL_EP_IRQ_DATA (ep0_irq_sta st1)\<rparr>)
          else Some st1);
        let st3 = (if irq AND FLD_CTRL_EP_IRQ_STA \<noteq> 0
          then usb_handle_ctl_ep_status (st2\<lparr>ep0_irq_sta := usbhw_clr_ctrl_ep_irq FLD_CTRL_EP_IRQ_STA (ep0_irq_sta st2)\<rparr>)
          else st2);
        let st4 = (if irq_src st3 AND FLD_IRQ_USB_RST_EN \<noteq> 0 then usb_bus_reset st3 else st3);
        let st5 = st4\<lparr>usb_has_suspend_irq := 0\<rparr>;
        if irq_src st5 AND FLD_IRQ_USB_PWDN_EN \<noteq> 0 then Some st5
        else do {
          h1 \<leftarrow> usbmouse_report_frame now (hid st5);
          (r, h2) \<leftarrow> usb_hid_report_fifo_proc h1;
          Some (st5\<lparr>hid := h2\<rparr>)
        }
      })"

definition usb_init_interrupt :: "usb_st \<Rightarrow> usb_st" where
  "usb_init_interrupt st =
     st\<lparr>ctrl_ep_irq_mode :=
       usbhw_enable_manual_interrupt (FLD_CTRL_EP_AUTO_STD OR FLD_CTRL_EP_AUTO_DESC) (ctrl_ep_irq_mode st)\<rparr>"

text \<open>With \<open>FLOW_NO_OS\<close> the initialisation does no more; the keyboard's and the mouse's are empty.\<close>

definition usb_init :: "usb_st \<Rightarrow> usb_st" where
  "usb_init st = usb_init_interrupt st"

definition usb_mic_is_enable :: "usb_st \<Rightarrow> u8" where
  "usb_mic_is_enable st = usb_alt_intf st ! unat USB_INTF_MIC"


section \<open>Descriptor transfers\<close>

text \<open>The response is sent in pieces: what the pieces are and what is left.\<close>

definition resp_ok :: "usb_st \<Rightarrow> bool" where
  "resp_ok st \<longleftrightarrow> ep0_ok (ep0 st) \<and> unat (g_response_len st) \<le> length (g_response st)"

lemma response_loop_writes:
  "n \<le> length (g_response st) \<Longrightarrow>
   response_loop n st = map_option (\<lambda>e. st\<lparr>ep0 := e, g_response := drop n (g_response st)\<rparr>)
     (ep0_writes (take n (g_response st)) (ep0 st))"
proof (induction n arbitrary: st)
  case (Suc n)
  then obtain b r where g: "g_response st = b # r" by (cases "g_response st") auto
  show ?case
  proof (cases "usbhw_write_ctrl_ep_data b (ep0 st)")
    case (Some e)
    have "response_loop n (st\<lparr>ep0 := e, g_response := r\<rparr>) =
      map_option (\<lambda>e. st\<lparr>ep0 := e, g_response := drop n r\<rparr>) (ep0_writes (take n r) e)"
      using Suc.IH [of "st\<lparr>ep0 := e, g_response := r\<rparr>"] Suc.prems g by simp
    then show ?thesis by (simp add: g Some)
  qed (simp add: g)
qed simp

lemma send_response:
  assumes "resp_ok st" "k = min 8 (unat (g_response_len st))"
  shows "\<exists>e. usb_send_response st = Some (st\<lparr>ep0 := e, g_response := drop k (g_response st),
      g_response_len := g_response_len st - of_nat k\<rparr>) \<and>
    ep0_ok e \<and> take (ep0_ptr e) (ep0_dat e) = take k (g_response st) \<and> ep0_log e = ep0_log (ep0 st)"
proof -
  let ?n = "if g_response_len st < 8 then g_response_len st else 8"
  let ?s = "st\<lparr>g_response_len := g_response_len st - ?n, ep0 := usbhw_reset_ctrl_ep_ptr (ep0 st)\<rparr>"
  have n: "unat ?n = k" "?n = of_nat k"
    using assms(2) by (auto simp: word_less_nat_alt min_def)
  have le: "k \<le> length (g_response st)" using assms by (auto simp: resp_ok_def min_def)
  have "usb_send_response st = response_loop k ?s"
    by (simp only: usb_send_response_def Let_def n(1))
  then have r: "usb_send_response st = map_option (\<lambda>e. ?s\<lparr>ep0 := e, g_response := drop k (g_response st)\<rparr>)
      (ep0_writes (take k (g_response st)) (usbhw_reset_ctrl_ep_ptr (ep0 st)))"
    using le by (simp add: response_loop_writes)
  obtain e where e: "ep0_writes (take k (g_response st)) (usbhw_reset_ctrl_ep_ptr (ep0 st)) = Some e"
    "ep0_ok e" "take (ep0_ptr e) (ep0_dat e) = take k (g_response st)" "ep0_log e = ep0_log (ep0 st)"
    using ep0_writes_fresh [of "usbhw_reset_ctrl_ep_ptr (ep0 st)" "take k (g_response st)"] assms
    by (auto simp: resp_ok_def ep0_reset)
  have eq: "?s\<lparr>ep0 := e, g_response := drop k (g_response st)\<rparr> =
      st\<lparr>ep0 := e, g_response := drop k (g_response st), g_response_len := g_response_len st - of_nat k\<rparr>"
    by (simp only: n(2)) simp
  show ?thesis
    by (rule exI [of _ e]) (use r e eq in simp)
qed

text \<open>Reading the SETUP packet back from the buffer.\<close>

definition setup_bytes :: "USB_Request_Hdr_t \<Rightarrow> bytes" where
  "setup_bytes rq = [RequestType rq, Request rq] @ le16 (Value rq) @ le16 (Index rq) @ le16 (Length rq)"

lemma length_setup_bytes [simp]: "length (setup_bytes rq) = 8"
  by (simp add: setup_bytes_def)

lemma read_setup_bytes:
  assumes "ep0_dat e = setup_bytes rq"
  shows "read_setup e = Some (rq, e\<lparr>ep0_ptr := 8\<rparr>)"
proof -
  have "ep0_ok e" using assms by (simp add: ep0_ok_def)
  then have ok: "ep0_ok (e\<lparr>ep0_ptr := p\<rparr>)" for p by simp
  show ?thesis
    by (cases rq)
       (simp add: read_setup_def usbhw_reset_ctrl_ep_ptr_def ep0_read [OF ok] ep0_read_u16 [OF ok]
         assms setup_bytes_def le16_def u16_le_split nth_Cons')
qed

lemma read_setup_any:
  assumes "ep0_ok e"
  shows "\<exists>rq. ep0_dat e = setup_bytes rq \<and> read_setup e = Some (rq, e\<lparr>ep0_ptr := 8\<rparr>)"
proof -
  let ?d = "ep0_dat e"
  let ?rq = "\<lparr>RequestType = ?d ! 0, Request = ?d ! 1, Value = u16_le (?d ! 2) (?d ! 3),
    Index = u16_le (?d ! 4) (?d ! 5), Length = u16_le (?d ! 6) (?d ! 7)\<rparr>"
  have "?d = [?d ! 0, ?d ! 1, ?d ! 2, ?d ! 3, ?d ! 4, ?d ! 5, ?d ! 6, ?d ! 7]"
    using assms by (auto simp: ep0_ok_def intro!: nth_equalityI simp: less_Suc_eq numeral_eq_Suc)
  then have "?d = setup_bytes ?rq"
    by (simp add: setup_bytes_def le16_def u16_le_bytes)
  then show ?thesis using read_setup_bytes by blast
qed


text \<open>
  What the host asks for by request type, value and index: the descriptors of the device, cut to
  the length a string descriptor announces, and those of the two HID interfaces.
\<close>

definition announced :: "bytes \<Rightarrow> bytes" where
  "announced d = take (unat (hd d)) d"

definition host_descriptor :: "u8 \<Rightarrow> u16 \<Rightarrow> u16 \<Rightarrow> bytes option" where
  "host_descriptor rt v i =
     (if rt = 0x80
      then if hi8 v = DTYPE_Device then Some device_desc
           else if hi8 v = DTYPE_Configuration then Some configuration_desc
           else if hi8 v = DTYPE_String
           then map_of [(USB_STRING_LANGUAGE, announced language_desc), (USB_STRING_VENDOR, announced vendor_desc),
                  (USB_STRING_PRODUCT, announced product_desc), (USB_STRING_SERIAL, announced serial_desc)] (lo8 v)
           else None
      else if rt = 0x81
      then if hi8 v = HID_DTYPE_HID
           then map_of [(USB_INTF_KEYBOARD, keyboard_descriptor), (USB_INTF_MOUSE, mouse_descriptor)] (lo8 i)
           else if hi8 v = HID_DTYPE_Report
           then map_of [(USB_INTF_KEYBOARD, keyboard_report_desc), (USB_INTF_MOUSE, mouse_report_desc)] (lo8 i)
           else None
      else None)"

definition remaining :: "usb_st \<Rightarrow> bytes" where
  "remaining st = take (unat (g_response_len st)) (g_response st)"

fun pieces :: "nat \<Rightarrow> bytes \<Rightarrow> bytes list" where
  "pieces 0 xs = []"
| "pieces (Suc n) xs = take 8 xs # pieces n (drop 8 xs)"

fun data_phases :: "nat \<Rightarrow> usb_st \<Rightarrow> usb_st option" where
  "data_phases 0 st = Some st"
| "data_phases (Suc n) st = do { st1 \<leftarrow> usb_handle_ctl_ep_data st; data_phases n st1 }"

lemma concat_pieces: "concat (pieces n xs) = take (8 * n) xs"
proof (induction n arbitrary: xs)
  case (Suc n)
  have "take (8 * Suc n) xs = take 8 xs @ take (8 * n) (drop 8 xs)"
    using take_add [of 8 "8 * n" xs] by simp
  then show ?case by (simp add: Suc)
qed simp

lemma unat_of_nat_u16: "n < 65536 \<Longrightarrow> unat (of_nat n :: u16) = n"
  by (simp add: unat_of_nat_small)

lemma limit_length:
  assumes "n < 65536"
  shows "usb_limit_length (st\<lparr>g_response := d, g_response_len := of_nat n\<rparr>) =
    st\<lparr>g_response := d, g_response_len := of_nat (min (unat (Length (control_request st))) n)\<rparr>"
  using assms unat_of_nat_u16 [OF assms] by (simp add: usb_limit_length_def word_less_nat_alt min_def)

lemma remaining_limited:
  assumes "n < 65536" "n \<le> length d"
  shows "remaining (usb_limit_length (st\<lparr>g_response := d, g_response_len := of_nat n\<rparr>)) =
      take (unat (Length (control_request st))) (take n d)"
    "unat (g_response_len (usb_limit_length (st\<lparr>g_response := d, g_response_len := of_nat n\<rparr>))) \<le>
      length (g_response (usb_limit_length (st\<lparr>g_response := d, g_response_len := of_nat n\<rparr>)))"
  using assms unat_of_nat_u16 [of "min (unat (Length (control_request st))) n"]
  by (simp_all add: limit_length remaining_def min.commute)

lemma limit_length_frame [simp]:
  "ep0 (usb_limit_length st) = ep0 st" "control_request (usb_limit_length st) = control_request st"
  "g_stall (usb_limit_length st) = g_stall st"
  by (simp_all add: usb_limit_length_def)

lemma send_remaining:
  assumes "resp_ok st"
  shows "\<exists>st'. usb_send_response st = Some st' \<and> resp_ok st' \<and> remaining st' = drop 8 (remaining st) \<and>
    take (ep0_ptr (ep0 st')) (ep0_dat (ep0 st')) = take 8 (remaining st) \<and>
    ep0_log (ep0 st') = ep0_log (ep0 st) \<and> control_request st' = control_request st \<and> g_stall st' = g_stall st"
proof -
  obtain k where k: "k = min 8 (unat (g_response_len st))" by simp
  obtain e where e: "usb_send_response st = Some (st\<lparr>ep0 := e, g_response := drop k (g_response st),
      g_response_len := g_response_len st - of_nat k\<rparr>)"
    "ep0_ok e" "take (ep0_ptr e) (ep0_dat e) = take k (g_response st)" "ep0_log e = ep0_log (ep0 st)"
    using send_response [OF assms k] by blast
  have l: "unat (g_response_len st) \<le> length (g_response st)" using assms by (simp add: resp_ok_def)
  have "k < 65536" by (simp add: k)
  then have uk: "unat (of_nat k :: u16) = k" by (rule unat_of_nat_u16)
  have u: "unat (g_response_len st - of_nat k) = unat (g_response_len st) - k"
  proof (subst unat_sub)
    have "k \<le> unat (g_response_len st)" using k by simp
    then show "of_nat k \<le> g_response_len st" by (simp only: word_le_nat_alt uk)
    show "unat (g_response_len st) - unat (of_nat k :: u16) = unat (g_response_len st) - k" by (simp only: uk)
  qed
  have t: "take k (g_response st) = take 8 (remaining st)" by (simp add: remaining_def k min.commute)
  have dr: "drop 8 (remaining st) = take (unat (g_response_len st) - k) (drop k (g_response st))"
    by (cases "8 \<le> unat (g_response_len st)") (simp_all add: remaining_def k drop_take)
  show ?thesis
    using e l u t dr by (simp add: resp_ok_def remaining_def)
qed

lemma get_descriptor_data:
  assumes "resp_ok st" "Request (control_request st) = REQ_GetDescriptor"
    "RequestType (control_request st) = 0x80 \<or> RequestType (control_request st) = 0x81"
  shows "\<exists>st'. usb_handle_ctl_ep_data st = Some st' \<and> resp_ok st' \<and> remaining st' = drop 8 (remaining st) \<and>
    ep0_log (ep0 st') = ep0_log (ep0 st) @ [(FLD_EP_DAT_ACK, take 8 (remaining st))] \<and>
    control_request st' = control_request st"
proof -
  let ?s = "st\<lparr>g_stall := False, ep0 := usbhw_reset_ctrl_ep_ptr (usbhw_reset_ctrl_ep_ptr (ep0 st))\<rparr>"
  have h: "usb_handle_request USB_IRQ_DATA_REQ (st\<lparr>ep0 := usbhw_reset_ctrl_ep_ptr (ep0 st), g_stall := False\<rparr>) =
      usb_send_response ?s"
    using assms(2,3) by (auto simp: usb_handle_request_def usb_consts Let_def)
  have "resp_ok ?s" "remaining ?s = remaining st" "ep0_log (ep0 ?s) = ep0_log (ep0 st)"
    using assms(1) by (simp_all add: resp_ok_def remaining_def ep0_reset)
  then obtain st1 where "usb_send_response ?s = Some st1" "resp_ok st1" "remaining st1 = drop 8 (remaining st)"
    "take (ep0_ptr (ep0 st1)) (ep0_dat (ep0 st1)) = take 8 (remaining st)" "ep0_log (ep0 st1) = ep0_log (ep0 st)"
    "control_request st1 = control_request st" "\<not> g_stall st1"
    using send_remaining [of ?s] by auto
  then show ?thesis
    by (simp add: usb_handle_ctl_ep_data_def h ep0_answer_def usbhw_write_ctrl_ep_ctrl_def resp_ok_def
        ep0_ok_def remaining_def)
qed

lemma get_descriptor_phases:
  "resp_ok st \<Longrightarrow> Request (control_request st) = REQ_GetDescriptor \<Longrightarrow>
   RequestType (control_request st) = 0x80 \<or> RequestType (control_request st) = 0x81 \<Longrightarrow>
   \<exists>st'. data_phases n st = Some st' \<and>
     ep0_log (ep0 st') = ep0_log (ep0 st) @ map (Pair FLD_EP_DAT_ACK) (pieces n (remaining st))"
proof (induction n arbitrary: st)
  case (Suc n)
  obtain st1 where s: "usb_handle_ctl_ep_data st = Some st1" "resp_ok st1" "remaining st1 = drop 8 (remaining st)"
    "ep0_log (ep0 st1) = ep0_log (ep0 st) @ [(FLD_EP_DAT_ACK, take 8 (remaining st))]"
    "control_request st1 = control_request st"
    using get_descriptor_data [OF Suc.prems] by blast
  then show ?case using Suc.IH [of st1] Suc.prems by auto
qed simp


lemma descriptor_sizes:
  "length device_desc = 18" "length configuration_desc = 182" "length language_desc = 4"
  "sizeof_wide STRING_VENDOR \<le> length vendor_desc" "sizeof_wide STRING_PRODUCT \<le> length product_desc"
  "sizeof_wide STRING_SERIAL \<le> length serial_desc" "sizeof_wide STRING_VENDOR < 256"
  "sizeof_wide STRING_PRODUCT < 256" "sizeof_wide STRING_SERIAL < 256"
  "length keyboard_descriptor = 16" "length mouse_descriptor = 16"
proof -
  show "length device_desc = 18" by code_simp
  show "length configuration_desc = 182" unfolding configuration_desc_bytes by code_simp
  show "length language_desc = 4" by code_simp
  show "sizeof_wide STRING_VENDOR \<le> length vendor_desc" "sizeof_wide STRING_PRODUCT \<le> length product_desc"
    "sizeof_wide STRING_SERIAL \<le> length serial_desc" by code_simp+
  show "sizeof_wide STRING_VENDOR < 256" "sizeof_wide STRING_PRODUCT < 256" "sizeof_wide STRING_SERIAL < 256"
    by code_simp+
  show "length keyboard_descriptor = 16" "length mouse_descriptor = 16" by code_simp+
qed

lemma announced_strings:
  "announced vendor_desc = take (sizeof_wide STRING_VENDOR) vendor_desc"
  "announced product_desc = take (sizeof_wide STRING_PRODUCT) product_desc"
  "announced serial_desc = take (sizeof_wide STRING_SERIAL) serial_desc"
  "announced language_desc = take 4 language_desc"
  using string_descriptors_announce_length by (simp_all add: announced_def descriptor_sizes)

lemma prepare_device_descriptor:
  assumes "RequestType (control_request st) = 0x80" "\<not> g_stall st"
    "host_descriptor 0x80 (Value (control_request st)) i = Some d"
  shows "\<exists>D n. usb_prepare_desc_data st = usb_limit_length (st\<lparr>g_response := D, g_response_len := of_nat n\<rparr>) \<and>
    d = take n D \<and> n \<le> length D \<and> n < 65536"
proof -
  consider "hi8 (Value (control_request st)) = DTYPE_Device" "d = take 18 device_desc"
    | "hi8 (Value (control_request st)) = DTYPE_Configuration" "d = take 182 configuration_desc"
    | "hi8 (Value (control_request st)) = DTYPE_String" "lo8 (Value (control_request st)) = USB_STRING_LANGUAGE"
      "d = take 4 language_desc"
    | "hi8 (Value (control_request st)) = DTYPE_String" "lo8 (Value (control_request st)) = USB_STRING_VENDOR"
      "d = take (sizeof_wide STRING_VENDOR) vendor_desc"
    | "hi8 (Value (control_request st)) = DTYPE_String" "lo8 (Value (control_request st)) = USB_STRING_PRODUCT"
      "d = take (sizeof_wide STRING_PRODUCT) product_desc"
    | "hi8 (Value (control_request st)) = DTYPE_String" "lo8 (Value (control_request st)) = USB_STRING_SERIAL"
      "d = take (sizeof_wide STRING_SERIAL) serial_desc"
    using assms(3) by (auto simp: host_descriptor_def announced_strings descriptor_sizes split: if_splits)
  then show ?thesis
  proof cases
    case 1
    then show ?thesis
      by (intro exI [of _ device_desc] exI [of _ 18])
         (simp add: usb_prepare_desc_data_def Let_def usbdesc_get_device_def descriptor_sizes usb_consts)
  next
    case 2
    then show ?thesis
      by (intro exI [of _ configuration_desc] exI [of _ 182])
         (simp add: usb_prepare_desc_data_def Let_def usbdesc_get_configuration_def descriptor_sizes usb_consts)
  next
    case 3
    then show ?thesis
      by (intro exI [of _ language_desc] exI [of _ 4])
         (simp add: usb_prepare_desc_data_def Let_def usbdesc_get_language_def descriptor_sizes usb_consts)
  next
    case 4
    then show ?thesis using descriptor_sizes(4,7)
      by (intro exI [of _ vendor_desc] exI [of _ "sizeof_wide STRING_VENDOR"])
         (simp add: usb_prepare_desc_data_def Let_def usbdesc_get_vendor_def usb_consts)
  next
    case 5
    then show ?thesis using descriptor_sizes(5,8)
      by (intro exI [of _ product_desc] exI [of _ "sizeof_wide STRING_PRODUCT"])
         (simp add: usb_prepare_desc_data_def Let_def usbdesc_get_product_def usb_consts)
  next
    case 6
    then show ?thesis using descriptor_sizes(6,9)
      by (intro exI [of _ serial_desc] exI [of _ "sizeof_wide STRING_SERIAL"])
         (simp add: usb_prepare_desc_data_def Let_def usbdesc_get_serial_def usb_consts)
  qed
qed

lemma prepare_interface_descriptor:
  assumes "host_descriptor 0x81 (Value (control_request st)) (Index (control_request st)) = Some d"
  shows "\<exists>D n. usb_handle_std_intf_req st = usb_limit_length (st\<lparr>g_response := D, g_response_len := of_nat n\<rparr>) \<and>
    d = take n D \<and> n \<le> length D \<and> n < 65536"
proof -
  consider "hi8 (Value (control_request st)) = HID_DTYPE_HID" "lo8 (Index (control_request st)) = USB_INTF_KEYBOARD"
      "d = keyboard_descriptor"
    | "hi8 (Value (control_request st)) = HID_DTYPE_HID" "lo8 (Index (control_request st)) = USB_INTF_MOUSE"
      "d = mouse_descriptor"
    | "hi8 (Value (control_request st)) = HID_DTYPE_Report" "lo8 (Index (control_request st)) = USB_INTF_KEYBOARD"
      "d = keyboard_report_desc"
    | "hi8 (Value (control_request st)) = HID_DTYPE_Report" "lo8 (Index (control_request st)) = USB_INTF_MOUSE"
      "d = mouse_report_desc"
    using assms by (auto simp: host_descriptor_def split: if_splits)
  then show ?thesis
  proof cases
    case 1
    then show ?thesis
      by (intro exI [of _ usbdesc_get_keyboard] exI [of _ 16])
         (simp add: usb_handle_std_intf_req_def Let_def usbdesc_get_keyboard_def descriptor_sizes usb_consts)
  next
    case 2
    then show ?thesis
      by (intro exI [of _ mouse_descriptor] exI [of _ 16])
         (simp add: usb_handle_std_intf_req_def Let_def usbdesc_get_mouse_def descriptor_sizes usb_consts)
  next
    case 3
    then show ?thesis
      by (intro exI [of _ keyboard_report_desc] exI [of _ 59])
         (simp add: usb_handle_std_intf_req_def Let_def usbkb_get_report_desc_size_def
           keyboard_report_desc_length usb_consts)
  next
    case 4
    then show ?thesis
      by (intro exI [of _ mouse_report_desc] exI [of _ 142])
         (simp add: usb_handle_std_intf_req_def Let_def usbmouse_get_report_desc_size_def
           mouse_report_desc_length usb_consts)
  qed
qed


text \<open>
  C9. Whatever descriptor the host asks for, of the device or of a HID interface, the SETUP phase
  and the data phases that follow send it, cut to the length of the request, in pieces of eight
  bytes in order, each acknowledged; enough phases send all of it.
\<close>
theorem get_descriptor_transfer:
  assumes "ep0_dat (ep0 st) = setup_bytes \<lparr>RequestType = rt, Request = REQ_GetDescriptor, Value = v, Index = i, Length = l\<rparr>"
    and "host_descriptor rt v i = Some d"
  shows "\<exists>st'. Option.bind (usb_handle_ctl_ep_setup st) (data_phases n) = Some st' \<and>
    ep0_log (ep0 st') = ep0_log (ep0 st) @ map (Pair FLD_EP_DAT_ACK) (pieces (Suc n) (take (unat l) d)) \<and>
    concat (pieces (Suc n) (take (unat l) d)) = take (8 * Suc n) (take (unat l) d)"
proof -
  let ?rq = "\<lparr>RequestType = rt, Request = REQ_GetDescriptor, Value = v, Index = i, Length = l\<rparr>"
  let ?e = "usbhw_reset_ctrl_ep_ptr (ep0 st\<lparr>ep0_ptr := 8\<rparr>)"
  let ?s = "st\<lparr>control_request := ?rq, g_stall := False, ep0 := ?e\<rparr>"
  have ok: "ep0_ok ?e" using assms(1) by (simp add: ep0_reset) (simp add: ep0_ok_def)
  have rt: "rt = 0x80 \<or> rt = 0x81" using assms(2) by (auto simp: host_descriptor_def split: if_splits)
  obtain p where p: "usb_handle_request USB_IRQ_SETUP_REQ (st\<lparr>ep0 := ep0 st\<lparr>ep0_ptr := 8\<rparr>, control_request := ?rq, g_stall := False\<rparr>) =
      usb_send_response p" "\<exists>D n. p = usb_limit_length (?s\<lparr>g_response := D, g_response_len := of_nat n\<rparr>) \<and>
    d = take n D \<and> n \<le> length D \<and> n < 65536"
  proof (cases "rt = 0x80")
    case True
    show ?thesis
      by (rule that [of "usb_prepare_desc_data ?s"])
         (use prepare_device_descriptor [of ?s] assms(2) True in \<open>simp_all add: usb_handle_request_def usb_consts Let_def\<close>)
  next
    case False
    with rt have "rt = 0x81" by simp
    then show ?thesis
      by (intro that [of "usb_handle_std_intf_req ?s"])
         (use prepare_interface_descriptor [of ?s] assms(2) in \<open>simp_all add: usb_handle_request_def usb_consts Let_def\<close>)
  qed
  then obtain D k where D: "p = usb_limit_length (?s\<lparr>g_response := D, g_response_len := of_nat k\<rparr>)"
    "d = take k D" "k \<le> length D" "k < 65536" by blast
  have pr: "resp_ok p" "remaining p = take (unat l) d" "ep0_log (ep0 p) = ep0_log (ep0 st)"
    "control_request p = ?rq" "\<not> g_stall p"
    using remaining_limited [OF D(4,3), of ?s] ok by (simp_all add: D(1,2) resp_ok_def ep0_reset)
  obtain q where q: "usb_send_response p = Some q" "resp_ok q" "remaining q = drop 8 (take (unat l) d)"
    "take (ep0_ptr (ep0 q)) (ep0_dat (ep0 q)) = take 8 (take (unat l) d)"
    "ep0_log (ep0 q) = ep0_log (ep0 st)" "control_request q = ?rq" "\<not> g_stall q"
    using send_remaining [OF pr(1)] pr by auto
  let ?q = "ep0_answer q"
  have s: "usb_handle_ctl_ep_setup st = Some ?q"
    by (simp add: usb_handle_ctl_ep_setup_def read_setup_bytes [OF assms(1)] p(1) q(1))
  have a: "resp_ok ?q" "remaining ?q = drop 8 (take (unat l) d)" "control_request ?q = ?rq"
    "ep0_log (ep0 ?q) = ep0_log (ep0 st) @ [(FLD_EP_DAT_ACK, take 8 (take (unat l) d))]"
    using q by (simp_all add: ep0_answer_def usbhw_write_ctrl_ep_ctrl_def resp_ok_def ep0_ok_def remaining_def)
  obtain st' where "data_phases n ?q = Some st'"
    "ep0_log (ep0 st') = ep0_log (ep0 ?q) @ map (Pair FLD_EP_DAT_ACK) (pieces n (remaining ?q))"
    using get_descriptor_phases [OF a(1), of n] a(3) rt by auto
  then have "Option.bind (usb_handle_ctl_ep_setup st) (data_phases n) = Some st'"
    "ep0_log (ep0 st') = ep0_log (ep0 st) @ map (Pair FLD_EP_DAT_ACK) (pieces (Suc n) (take (unat l) d))"
    by (simp_all only: s a(2,4) Option.bind.bind_lunit pieces.simps list.map append.simps append_assoc)
  then show ?thesis using concat_pieces [of "Suc n" "take (unat l) d"] by blast
qed

definition usb_boot :: usb_st where
  "usb_boot = \<lparr>ep0 = \<lparr>ep0_dat = replicate 8 0, ep0_ptr = 0, ep0_log = []\<rparr>, ep0_irq_sta = 0,
     ctrl_ep_irq_mode = 0xff, irq_src = 0,
     control_request = \<lparr>RequestType = 0, Request = 0, Value = 0, Index = 0, Length = 0\<rparr>,
     g_response = [], g_response_len = 0, g_stall = False, g_rate = 0, host_keyboard_status = 0,
     host_cmd = replicate 8 0, host_cmd_paring_ok = 0, custom_read_dat = 0, custom_reg_cmd = False,
     usb_alt_intf = replicate 5 0, usb_has_suspend_irq = 0, audio = audio_zero, hid = hid_init,
     core = \<lambda>_. 0, analog = \<lambda>_. 0, analog_log = []\<rparr>"

text \<open>The host puts the eight bytes of a request, or the data bytes, into the buffer.\<close>

definition host_sends :: "bytes \<Rightarrow> usb_st \<Rightarrow> usb_st" where
  "host_sends bs st = st\<lparr>ep0 := (ep0 st)\<lparr>ep0_dat := bs @ drop (length bs) (ep0_dat (ep0 st))\<rparr>\<rparr>"

lemma get_descriptor_transfer_witness:
  "\<exists>st'. Option.bind (usb_handle_ctl_ep_setup (host_sends (setup_bytes
      \<lparr>RequestType = 0x80, Request = REQ_GetDescriptor, Value = 0x0200, Index = 0, Length = 255\<rparr>) usb_boot)) (data_phases 22) =
      Some st' \<and>
    ep0_log (ep0 st') = ep0_log (ep0 (host_sends (setup_bytes
      \<lparr>RequestType = 0x80, Request = REQ_GetDescriptor, Value = 0x0200, Index = 0, Length = 255\<rparr>) usb_boot)) @
      map (Pair FLD_EP_DAT_ACK) (pieces (Suc 22) (take (unat (255 :: u16)) configuration_desc)) \<and>
    concat (pieces (Suc 22) (take (unat (255 :: u16)) configuration_desc)) =
      take (8 * Suc 22) (take (unat (255 :: u16)) configuration_desc)"
proof (rule get_descriptor_transfer)
  show "ep0_dat (ep0 (host_sends (setup_bytes
      \<lparr>RequestType = 0x80, Request = REQ_GetDescriptor, Value = 0x0200, Index = 0, Length = 255\<rparr>) usb_boot)) =
    setup_bytes \<lparr>RequestType = 0x80, Request = REQ_GetDescriptor, Value = 0x0200, Index = 0, Length = 255\<rparr>"
    by (simp add: host_sends_def usb_boot_def)
  have "hi8 0x0200 = 2" by (simp add: hi8_def)
  then show "host_descriptor 0x80 0x0200 0 = Some configuration_desc"
    by (simp add: host_descriptor_def usb_consts)
qed


section \<open>Memory safety of the polled handler\<close>

text \<open>The report ring of the HID part: four slots of eight bytes, mouse slots with at most four data bytes.\<close>

definition slot_ok :: "bytes \<Rightarrow> bool" where
  "slot_ok s \<longleftrightarrow> length s = 8 \<and> (s ! 0 = DAT_TYPE_MOUSE \<longrightarrow> unat (s ! 2) \<le> 4)"

definition hid_ok :: "hid_st \<Rightarrow> bool" where
  "hid_ok h \<longleftrightarrow> length (usb_fifo h) = 4 \<and> (\<forall>s\<in>set (usb_fifo h). slot_ok s)"

lemma hid_ok_push: "hid_ok h \<Longrightarrow> slot_ok s \<Longrightarrow> hid_ok (fifo_push s h)"
  using set_update_subset_insert [of "usb_fifo h" "unat (usb_ff_wptr h AND 3)" s]
  by (auto simp: hid_ok_def fifo_push_def Let_def)

lemma hid_ok_send [simp]: "hid_ok (ep_send ep bs h) = hid_ok h"
  by (simp add: hid_ok_def ep_send_def)

lemma hid_ok_slot: "hid_ok h \<Longrightarrow> slot_ok (usb_fifo h ! unat (w AND 3 :: u8))"
  by (simp add: hid_ok_def u8_and_3)

lemma mouse_report_ok:
  assumes "hid_ok h" "n \<le> 4" "n \<le> length data" "3 \<le> length data"
  shows "\<exists>r h'. usbmouse_hid_report rid data n h = Some (r, h') \<and> hid_ok h'"
proof -
  obtain old where old: "old = usb_fifo h ! unat (usb_ff_wptr h AND 3)" by simp
  have "length old = 8" using hid_ok_slot [OF assms(1)] by (simp add: old slot_ok_def)
  then have "slot_ok ([DAT_TYPE_MOUSE, rid, of_nat n, old ! 3] @ take n data @ drop (4 + n) old)"
    using assms(2,3) by (simp add: slot_ok_def unat_of_nat_small)
  then have "hid_ok (fifo_push ([DAT_TYPE_MOUSE, rid, of_nat n, old ! 3] @ take n data @ drop (4 + n) old) h)"
    by (rule hid_ok_push [OF assms(1)])
  then show ?thesis
    using assms by (simp add: usbmouse_hid_report_def Let_def ex_bool_eq flip: old)
qed

lemma mouse_frame_ok:
  assumes "hid_ok h"
  shows "\<exists>h'. usbmouse_report_frame now h = Some h' \<and> hid_ok h'"
proof -
  obtain d where d: "d = mouse_bytes (mouse_dat_buff h ! unat (usbmouse_rptr h))" by simp
  then have "length d = 4" by (simp add: mouse_bytes_def)
  then obtain r h1 where "usbmouse_hid_report USB_HID_MOUSE d MOUSE_REPORT_DATA_LEN h = Some (r, h1)" "hid_ok h1"
    using mouse_report_ok [OF assms, of MOUSE_REPORT_DATA_LEN d USB_HID_MOUSE] by (auto simp: MOUSE_REPORT_DATA_LEN_def)
  then show ?thesis
    using assms by (auto simp: usbmouse_report_frame_def Let_def hid_ok_def simp flip: d)
qed

lemma fifo_proc_ok:
  assumes "hid_ok h"
  shows "\<exists>r h'. usb_hid_report_fifo_proc h = Some (r, h') \<and> hid_ok h'"
proof -
  obtain p where p: "p = usb_fifo h ! unat (usb_ff_rptr h AND 3)" by simp
  have s: "slot_ok p" using hid_ok_slot [OF assms] by (simp add: p)
  have f: "hid_ok (h1\<lparr>usb_ff_rptr := w\<rparr>) = hid_ok h1" for h1 w by (simp add: hid_ok_def)
  show ?thesis
  proof (cases "p ! 0 = DAT_TYPE_MOUSE")
    case True
    then have n: "unat (p ! 2) \<le> 4" "length (drop 4 p) = 4" using s by (simp_all add: slot_ok_def)
    then obtain r h1 where "usbmouse_hid_report (p ! 1) (drop 4 p) (unat (p ! 2)) h = Some (r, h1)" "hid_ok h1"
      using mouse_report_ok [OF assms n(1), of "drop 4 p" "p ! 1"] by fastforce
    then show ?thesis
      using True assms by (simp add: usb_hid_report_fifo_proc_def Let_def f usb_consts ex_bool_eq flip: p)
  next
    case False
    then show ?thesis
      using assms by (simp add: usb_hid_report_fifo_proc_def Let_def f usbkb_hid_report_normal_def ex_bool_eq flip: p)
  qed
qed

text \<open>
  The invariant: arrays at their size, the response inside its descriptor, and a stored request
  that does not select an interface setting past the end of \<open>usb_alt_intf\<close>.
\<close>

definition request_of :: "bytes \<Rightarrow> USB_Request_Hdr_t" where
  "request_of bs = \<lparr>RequestType = bs ! 0, Request = bs ! 1, Value = u16_le (bs ! 2) (bs ! 3),
     Index = u16_le (bs ! 4) (bs ! 5), Length = u16_le (bs ! 6) (bs ! 7)\<rparr>"

definition intf_ok :: "USB_Request_Hdr_t \<Rightarrow> bool" where
  "intf_ok rq \<longleftrightarrow>
     ((RequestType rq, Request rq) \<in> {(0x81, REQ_GetInterface), (0x01, REQ_SetInterface)} \<longrightarrow>
      unat (lo8 (Index rq) AND 7) < 5)"

definition usb_ok :: "usb_st \<Rightarrow> bool" where
  "usb_ok st \<longleftrightarrow> resp_ok st \<and> length (host_cmd st) = 8 \<and> length (usb_alt_intf st) = 5 \<and>
     hid_ok (hid st) \<and> intf_ok (control_request st)"

lemma request_of_setup: "request_of (setup_bytes rq) = rq"
  by (cases rq) (simp add: request_of_def setup_bytes_def le16_def u16_le_split nth_Cons')

lemma read_setup_ok: "ep0_ok e \<Longrightarrow> read_setup e = Some (request_of (ep0_dat e), e\<lparr>ep0_ptr := 8\<rparr>)"
  using read_setup_any [of e] by (auto simp: request_of_setup)

lemma usb_ok_ep0: "usb_ok st \<Longrightarrow> ep0_ok e \<Longrightarrow> usb_ok (st\<lparr>ep0 := e\<rparr>)"
  by (simp add: usb_ok_def resp_ok_def)

lemma usb_ok_frame [simp]:
  "usb_ok (st\<lparr>g_stall := b\<rparr>) = usb_ok st" "usb_ok (st\<lparr>g_rate := x\<rparr>) = usb_ok st"
  "usb_ok (st\<lparr>host_keyboard_status := x\<rparr>) = usb_ok st" "usb_ok (st\<lparr>custom_reg_cmd := b\<rparr>) = usb_ok st"
  "usb_ok (st\<lparr>custom_read_dat := y\<rparr>) = usb_ok st" "usb_ok (st\<lparr>audio := a\<rparr>) = usb_ok st"
  "usb_ok (st\<lparr>core := c\<rparr>) = usb_ok st" "usb_ok (st\<lparr>ctrl_ep_irq_mode := x\<rparr>) = usb_ok st"
  "usb_ok (st\<lparr>ep0_irq_sta := x\<rparr>) = usb_ok st" "usb_ok (st\<lparr>irq_src := y\<rparr>) = usb_ok st"
  "usb_ok (st\<lparr>usb_has_suspend_irq := x\<rparr>) = usb_ok st"
  by (simp_all add: usb_ok_def resp_ok_def)

lemma usb_ok_hid: "usb_ok st \<Longrightarrow> hid_ok h \<Longrightarrow> usb_ok (st\<lparr>hid := h\<rparr>)"
  by (simp add: usb_ok_def resp_ok_def)

lemma hid_ok_frame [simp]:
  "hid_ok (h\<lparr>usb_mouse_report_proto := x\<rparr>) = hid_ok h" "hid_ok (h\<lparr>ep_busy := f\<rparr>) = hid_ok h"
  "hid_ok (h\<lparr>sent := l\<rparr>) = hid_ok h" "hid_ok (h\<lparr>edp_toggle := t\<rparr>) = hid_ok h"
  by (simp_all add: hid_ok_def)


lemma reply_ok:
  assumes "usb_ok st" "ep0_ptr (ep0 st) = 0" "length bs \<le> 8"
  shows "\<exists>e. ep0_reply bs st = Some (st\<lparr>ep0 := e\<rparr>) \<and> ep0_ok e \<and> take (ep0_ptr e) (ep0_dat e) = bs \<and>
    ep0_log e = ep0_log (ep0 st)"
  using ep0_writes_fresh [of "ep0 st" bs] assms by (auto simp: ep0_reply_def usb_ok_def resp_ok_def)

lemma reply_safe:
  "usb_ok st \<Longrightarrow> ep0_ptr (ep0 st) = 0 \<Longrightarrow> length bs \<le> 8 \<Longrightarrow>
   \<exists>st'. ep0_reply bs st = Some st' \<and> usb_ok st' \<and> g_stall st' = g_stall st"
  using reply_ok [of st bs] by (auto intro: usb_ok_ep0)

lemma read_host_cmd_ok:
  "usb_ok st \<Longrightarrow> ep0_ptr (ep0 st) + k \<le> 8 \<Longrightarrow> i + k \<le> 8 \<Longrightarrow>
   \<exists>st'. read_host_cmd k i st = Some st' \<and> usb_ok st' \<and> g_stall st' = g_stall st"
proof (induction k arbitrary: i st)
  case (Suc k)
  let ?st = "st\<lparr>ep0 := (ep0 st)\<lparr>ep0_ptr := ep0_ptr (ep0 st) + 1\<rparr>,
    host_cmd := (host_cmd st)[i := ep0_dat (ep0 st) ! ep0_ptr (ep0 st)]\<rparr>"
  have h: "ep0_ok (ep0 st)" "length (host_cmd st) = 8" using Suc.prems(1) by (simp_all add: usb_ok_def resp_ok_def)
  have "usb_ok ?st" using Suc.prems(1) by (simp add: usb_ok_def resp_ok_def)
  then have "\<exists>st'. read_host_cmd k (Suc i) ?st = Some st' \<and> usb_ok st' \<and> g_stall st' = g_stall ?st"
    by (rule Suc.IH) (use Suc.prems in simp_all)
  moreover have "read_host_cmd (Suc k) i st = read_host_cmd k (Suc i) ?st"
    using Suc.prems h by (simp add: ep0_read)
  ultimately show ?case by simp
qed simp

lemma usb_ok_write_reg [simp]: "usb_ok (write_reg adr bs st) = usb_ok st"
  by (induction bs arbitrary: adr st) simp_all

lemma g_stall_write_reg [simp]: "g_stall (write_reg adr bs st) = g_stall st"
  by (induction bs arbitrary: adr st) simp_all

lemma usb_ok_analog [simp]:
  "usb_ok (analog_write adr v st) = usb_ok st" "g_stall (analog_write adr v st) = g_stall st"
  "usb_ok (usb_dp_pullup_en en st) = usb_ok st" "g_stall (usb_dp_pullup_en en st) = g_stall st"
  by (simp_all add: analog_write_def usb_dp_pullup_en_def usb_ok_def resp_ok_def)

lemma custom_reg_access_ok: "usb_ok st \<Longrightarrow> usb_ok (custom_reg_access st) \<and> g_stall (custom_reg_access st) = g_stall st"
proof -
  assume a: "usb_ok st"
  have "usb_ok (st\<lparr>custom_reg_cmd := b, host_cmd := (host_cmd st)[0 := 0]\<rparr>)" for b
    using a by (simp add: usb_ok_def resp_ok_def)
  with a show ?thesis by (simp add: custom_reg_access_def Let_def split: prod.split if_splits)
qed

lemma out_class_hid_ok:
  assumes "usb_ok st" "ep0_ptr (ep0 st) = 0" "\<not> g_stall st"
  shows "\<exists>st'. out_class_hid dr st = Some st' \<and> usb_ok st' \<and> (g_stall st' \<longrightarrow> st' = st\<lparr>g_stall := True\<rparr>)"
proof -
  have e: "ep0_ok (ep0 st)" "hid_ok (hid st)" using assms(1) by (simp_all add: usb_ok_def resp_ok_def)
  let ?r = "st\<lparr>ep0 := usbhw_reset_ctrl_ep_ptr (ep0 st)\<rparr>"
  have "usb_ok ?r" by (rule usb_ok_ep0 [OF assms(1)]) (simp add: ep0_reset e)
  then obtain st1 where st1: "read_host_cmd 8 0 ?r = Some st1" "usb_ok st1" "\<not> g_stall st1"
    using read_host_cmd_ok [of ?r 8 0] assms(3) by (auto simp: ep0_reset)
  then have c: "usb_ok (custom_reg_access st1)" "\<not> g_stall (custom_reg_access st1)"
    using custom_reg_access_ok by simp_all
  show ?thesis
    using assms e st1(1) c
    by (simp add: out_class_hid_def Let_def ep0_read usb_ok_ep0 usb_ok_hid)
qed

lemma audio_set_ok:
  assumes "ep0_ok e" "ep0_ptr e = 0"
  shows "\<exists>r a' e'. usbaud_handle_set_speaker_cmd type a e = Some (r, a', e') \<and> ep0_ok e'"
    "\<exists>r a' e'. usbaud_handle_set_mic_cmd type a e = Some (r, a', e') \<and> ep0_ok e'"
  using assms
  by (simp_all add: usbaud_handle_set_speaker_cmd_def usbaud_handle_set_mic_cmd_def ep0_read ep0_read_u16)

lemma audio_get_ok:
  assumes "ep0_ok e" "ep0_ptr e = 0"
  shows "\<exists>r e'. usbaud_handle_get_speaker_cmd req type a e = Some (r, e') \<and> ep0_ok e'"
    "\<exists>r e'. usbaud_handle_get_mic_cmd req type a e = Some (r, e') \<and> ep0_ok e'"
proof -
  have w: "\<exists>e'. ep0_writes bs e = Some e' \<and> ep0_ok e'" if "length bs \<le> 2" for bs
    using ep0_writes_fresh [OF assms, of bs] that by auto
  note w16 = w [of "le16 v" for v, simplified] and w8 = w [of "[b]" for b, simplified length_Cons list.size]
  show "\<exists>r e'. usbaud_handle_get_speaker_cmd req type a e = Some (r, e') \<and> ep0_ok e'"
    "\<exists>r e'. usbaud_handle_get_mic_cmd req type a e = Some (r, e') \<and> ep0_ok e'"
    using w16 w8 assms(1)
    by (simp_all only: usbaud_handle_get_speaker_cmd_def usbaud_handle_get_mic_cmd_def
        ep0_write_writes ep0_write_u16_writes split: if_split)
       (force simp del: ep0_writes.simps)+
qed


lemma out_class_ok:
  assumes "usb_ok st" "ep0_ptr (ep0 st) = 0" "\<not> g_stall st"
  shows "\<exists>st'. usb_handle_out_class_intf_req dr st = Some st' \<and> usb_ok st'"
proof -
  obtain st1 where s: "out_class_hid dr st = Some st1" "usb_ok st1" "g_stall st1 \<longrightarrow> st1 = st\<lparr>g_stall := True\<rparr>"
    using out_class_hid_ok [OF assms] by blast
  have e: "ep0_ok (ep0 st)" using assms(1) by (simp add: usb_ok_def resp_ok_def)
  show ?thesis
  proof (cases "g_stall st1")
    case True
    obtain r1 a1 e1 where 1: "usbaud_handle_set_speaker_cmd (hi8 (Value (control_request st))) (audio st) (ep0 st) = Some (r1, a1, e1)"
      "ep0_ok e1" using audio_set_ok(1) [OF e assms(2)] by blast
    obtain r2 a2 e2 where 2: "usbaud_handle_set_mic_cmd (hi8 (Value (control_request st))) (audio st) (ep0 st) = Some (r2, a2, e2)"
      "ep0_ok e2" using audio_set_ok(2) [OF e assms(2)] by blast
    have "st1 = st\<lparr>g_stall := True\<rparr>" using True s(3) by simp
    then show ?thesis using s(1) 1 2 assms(1)
      by (simp add: usb_handle_out_class_intf_req_def Let_def usb_ok_ep0)
  qed (simp add: usb_handle_out_class_intf_req_def Let_def s(1,2))
qed

lemma in_class_hid_ok:
  assumes "usb_ok st" "ep0_ptr (ep0 st) = 0" "\<not> g_stall st"
  shows "\<exists>st'. in_class_hid st = Some st' \<and> usb_ok st' \<and> (g_stall st' \<longrightarrow> st' = st\<lparr>g_stall := True\<rparr>)"
proof -
  have "length (custom_report st) = 8" by (simp add: custom_report_def)
  then show ?thesis
    using reply_safe [OF assms(1,2)] assms
    by (force simp: in_class_hid_def Let_def)
qed

lemma in_class_ok:
  assumes "usb_ok st" "ep0_ptr (ep0 st) = 0" "\<not> g_stall st"
  shows "\<exists>st'. usb_handle_in_class_intf_req st = Some st' \<and> usb_ok st'"
proof -
  obtain st1 where s: "in_class_hid st = Some st1" "usb_ok st1" "g_stall st1 \<longrightarrow> st1 = st\<lparr>g_stall := True\<rparr>"
    using in_class_hid_ok [OF assms] by blast
  let ?q = "Request (control_request st)" and ?v = "hi8 (Value (control_request st))"
  have e: "ep0_ok (ep0 st)" using assms(1) by (simp add: usb_ok_def resp_ok_def)
  show ?thesis
  proof (cases "g_stall st1")
    case True
    obtain r1 e1 where 1: "usbaud_handle_get_speaker_cmd ?q ?v (audio st) (ep0 st) = Some (r1, e1)"
      "ep0_ok e1" using audio_get_ok(1) [OF e assms(2)] by blast
    obtain r2 e2 where 2: "usbaud_handle_get_mic_cmd ?q ?v (audio st) (ep0 st) = Some (r2, e2)"
      "ep0_ok e2" using audio_get_ok(2) [OF e assms(2)] by blast
    have "st1 = st\<lparr>g_stall := True\<rparr>" using True s(3) by simp
    then show ?thesis using s(1) 1 2 assms(1)
      by (simp add: usb_handle_in_class_intf_req_def Let_def usb_ok_ep0)
  qed (simp add: usb_handle_in_class_intf_req_def Let_def s(1,2))
qed

lemma limit_length_ok: "resp_ok st \<Longrightarrow> resp_ok (usb_limit_length st)"
  by (auto simp: resp_ok_def usb_limit_length_def word_less_nat_alt)

lemma resp_ok_set:
  assumes "ep0_ok (ep0 st)" "n \<le> length d" "n < 65536"
  shows "resp_ok (st\<lparr>g_response := d, g_response_len := of_nat n\<rparr>)"
  using assms unat_of_nat_u16 [OF assms(3)] by (simp add: resp_ok_def)

lemma prepare_desc_ok:
  assumes "usb_ok st"
  shows "usb_ok (usb_prepare_desc_data st)"
proof -
  have e: "ep0_ok (ep0 st)" using assms by (simp add: usb_ok_def resp_ok_def)
  have u: "usb_ok (usb_limit_length s)" if "resp_ok s" "host_cmd s = host_cmd st" "usb_alt_intf s = usb_alt_intf st"
      "hid s = hid st" "control_request s = control_request st" for s
    using assms that limit_length_ok [OF that(1)] by (simp add: usb_ok_def usb_limit_length_def)
  have a: "usb_ok (usb_limit_length (st\<lparr>g_response := d, g_response_len := of_nat n\<rparr>))"
    if "n \<le> length d" "n < 65536" for d n
    by (rule u) (use resp_ok_set [OF e that] in simp_all)
  have z: "usb_ok (usb_limit_length (st\<lparr>g_response := [], g_response_len := 0, g_stall := True\<rparr>))"
    by (rule u) (simp_all add: resp_ok_def e)
  note d = a [of 18 device_desc] a [of 182 configuration_desc] a [of 4 language_desc]
    a [OF descriptor_sizes(4)] a [OF descriptor_sizes(5)] a [OF descriptor_sizes(6)]
  show ?thesis
    using d z descriptor_sizes
    by (simp add: usb_prepare_desc_data_def Let_def usbdesc_get_device_def usbdesc_get_configuration_def
        usbdesc_get_language_def usbdesc_get_vendor_def usbdesc_get_product_def usbdesc_get_serial_def)
qed

lemma std_intf_ok:
  assumes "usb_ok st"
  shows "usb_ok (usb_handle_std_intf_req st)"
proof -
  have e: "ep0_ok (ep0 st)" "resp_ok st" using assms by (simp_all add: usb_ok_def resp_ok_def)
  have u: "usb_ok (usb_limit_length s)" if "resp_ok s" "host_cmd s = host_cmd st" "usb_alt_intf s = usb_alt_intf st"
      "hid s = hid st" "control_request s = control_request st" for s
    using assms that limit_length_ok [OF that(1)] by (simp add: usb_ok_def usb_limit_length_def)
  have a: "usb_ok (usb_limit_length (st\<lparr>g_response := d, g_response_len := of_nat n\<rparr>))"
    if "n \<le> length d" "n < 65536" for d n
    by (rule u) (use resp_ok_set [OF e(1) that] in simp_all)
  have l: "usb_ok (usb_limit_length st)" "usb_ok (usb_limit_length (st\<lparr>g_stall := True\<rparr>))"
    by (rule u; use e in \<open>simp add: resp_ok_def\<close>)+
  note d = a [of 16 mouse_descriptor] a [of 16 usbdesc_get_keyboard] a [of 59 keyboard_report_desc]
    a [of 142 mouse_report_desc]
  show ?thesis
    using d l descriptor_sizes
    by (simp add: usb_handle_std_intf_req_def Let_def usbdesc_get_mouse_def usbdesc_get_keyboard_def
        usbkb_get_report_desc_size_def usbmouse_get_report_desc_size_def keyboard_report_desc_length
        mouse_report_desc_length USB_INTF_MOUSE_def USB_INTF_KEYBOARD_def)
qed


lemma send_response_ok:
  assumes "usb_ok st"
  shows "\<exists>st'. usb_send_response st = Some st' \<and> usb_ok st'"
proof -
  have r: "resp_ok st" using assms by (simp add: usb_ok_def)
  obtain e k where e: "usb_send_response st = Some (st\<lparr>ep0 := e, g_response := drop k (g_response st),
      g_response_len := g_response_len st - of_nat k\<rparr>)" using send_response [OF r refl] by blast
  obtain st' where "usb_send_response st = Some st'" "resp_ok st'" using send_remaining [OF r] by blast
  with e assms show ?thesis by (auto simp: usb_ok_def)
qed

lemma usb_ok_index:
  "usb_ok st \<Longrightarrow> RequestType (control_request st) = 1 \<Longrightarrow> Request (control_request st) = REQ_SetInterface \<Longrightarrow>
     unat (lo8 (Index (control_request st)) AND 7) < 5"
  "usb_ok st \<Longrightarrow> RequestType (control_request st) = 0x81 \<Longrightarrow> Request (control_request st) = REQ_GetInterface \<Longrightarrow>
     unat (lo8 (Index (control_request st)) AND 7) < 5"
  by (simp_all add: usb_ok_def intf_ok_def)

lemma set_intf_ok:
  assumes "usb_ok st" "unat (lo8 (Index (control_request st)) AND 7) < 5"
  shows "\<exists>st'. usb_handle_set_intf st = Some st' \<and> usb_ok st'"
proof -
  have a: "usb_ok (st\<lparr>usb_alt_intf := (usb_alt_intf st)[i := v]\<rparr>)" for i v
    using assms(1) by (simp add: usb_ok_def resp_ok_def)
  have l: "length (usb_alt_intf st) = 5" "hid_ok (hid st)" using assms(1) by (simp_all add: usb_ok_def)
  show ?thesis using a assms(2) l by (auto simp: usb_handle_set_intf_def Let_def usb_ok_hid)
qed

lemma get_intf_ok:
  assumes "usb_ok st" "ep0_ptr (ep0 st) = 0" "unat (lo8 (Index (control_request st)) AND 7) < 5"
  shows "\<exists>st'. usb_handle_get_intf st = Some st' \<and> usb_ok st'"
proof -
  have "length (usb_alt_intf st) = 5" using assms(1) by (simp add: usb_ok_def)
  then show ?thesis
    using assms(3) reply_safe [OF assms(1,2), of "[usb_alt_intf st ! unat (lo8 (Index (control_request st)) AND 7)]"]
    by (auto simp: usb_handle_get_intf_def Let_def)
qed

lemma handle_request_ok:
  assumes "usb_ok st" "\<not> g_stall st"
  shows "\<exists>st'. usb_handle_request dr st = Some st' \<and> usb_ok st'"
proof -
  let ?s = "st\<lparr>ep0 := usbhw_reset_ctrl_ep_ptr (ep0 st)\<rparr>"
  have s: "usb_ok ?s" "ep0_ptr (ep0 ?s) = 0" "\<not> g_stall ?s" "control_request ?s = control_request st"
    using assms by (simp_all add: ep0_reset usb_ok_ep0 usb_ok_def resp_ok_def)
  note simps = usb_handle_request_def usb_consts Let_def
  consider (dev) "RequestType (control_request st) = 0x80" | (std) "RequestType (control_request st) = 0x81"
    | (outc) "RequestType (control_request st) = 0x21" | (oute) "RequestType (control_request st) = 0x22"
    | (inc) "RequestType (control_request st) = 0xA1" | (ine) "RequestType (control_request st) = 0xA2"
    | (set) "RequestType (control_request st) = 1"
    | (other) "RequestType (control_request st) \<notin> {0x80, 0x81, 0x21, 0x22, 0xA1, 0xA2, 1}" by blast
  then show ?thesis
  proof cases
    case dev
    then show ?thesis
      using send_response_ok [OF s(1)] send_response_ok [OF prepare_desc_ok [OF s(1)]] s(1)
      by (simp add: simps)
  next
    case std
    then show ?thesis
      using send_response_ok [OF s(1)] send_response_ok [OF std_intf_ok [OF s(1)]] s(1,2)
        get_intf_ok [OF s(1,2)] usb_ok_index(2) [OF s(1)]
      by (simp add: simps)
  next
    case outc
    then show ?thesis using out_class_ok [OF s(1-3)] by (simp add: simps)
  next
    case oute
    then show ?thesis using s(1) by (simp add: simps usb_handle_out_class_endp_req_def)
  next
    case inc
    then show ?thesis using in_class_ok [OF s(1-3)] by (simp add: simps)
  next
    case ine
    have "\<exists>st'. ep0_reply (take 3 (le32 (of_nat MIC_SAMPLE_RATE))) ?s = Some st' \<and> usb_ok st'"
      using reply_safe [OF s(1,2), of "take 3 (le32 (of_nat MIC_SAMPLE_RATE))"] by auto
    with ine s(1) show ?thesis by (simp add: simps usb_handle_in_class_endp_req_def)
  next
    case set
    then show ?thesis using set_intf_ok [OF s(1)] usb_ok_index(1) [OF s(1)] s(1) by (simp add: simps)
  next
    case other
    then show ?thesis using s(1) by (simp add: simps)
  qed
qed

lemma ep0_answer_ok: "usb_ok (ep0_answer st) = usb_ok st"
  by (simp add: ep0_answer_def usbhw_write_ctrl_ep_ctrl_def usb_ok_def resp_ok_def ep0_ok_def)

lemma ctl_ep_setup_ok:
  assumes "usb_ok st" "intf_ok (request_of (ep0_dat (ep0 st)))"
  shows "\<exists>st'. usb_handle_ctl_ep_setup st = Some st' \<and> usb_ok st'"
proof -
  have e: "ep0_ok (ep0 st)" using assms(1) by (simp add: usb_ok_def resp_ok_def)
  let ?s = "st\<lparr>ep0 := ep0 st\<lparr>ep0_ptr := 8\<rparr>, control_request := request_of (ep0_dat (ep0 st)), g_stall := False\<rparr>"
  have "usb_ok ?s" using assms by (simp add: usb_ok_def resp_ok_def)
  then obtain st1 where "usb_handle_request USB_IRQ_SETUP_REQ ?s = Some st1" "usb_ok st1"
    using handle_request_ok [of ?s] by auto
  then show ?thesis by (simp add: usb_handle_ctl_ep_setup_def read_setup_ok [OF e] ep0_answer_ok)
qed

lemma ctl_ep_data_ok:
  assumes "usb_ok st"
  shows "\<exists>st'. usb_handle_ctl_ep_data st = Some st' \<and> usb_ok st'"
proof -
  let ?s = "st\<lparr>ep0 := usbhw_reset_ctrl_ep_ptr (ep0 st), g_stall := False\<rparr>"
  have "usb_ok ?s" using assms by (simp add: usb_ok_def resp_ok_def ep0_reset)
  then obtain st1 where "usb_handle_request USB_IRQ_DATA_REQ ?s = Some st1" "usb_ok st1"
    using handle_request_ok [of ?s] by auto
  then show ?thesis by (simp add: usb_handle_ctl_ep_data_def ep0_answer_ok)
qed

lemma ctl_ep_status_ok: "usb_ok (usb_handle_ctl_ep_status st) = usb_ok st"
  by (simp add: usb_handle_ctl_ep_status_def usbhw_write_ctrl_ep_ctrl_def usb_ok_def resp_ok_def ep0_ok_def)




section \<open>Requests the device does not know\<close>

definition usb_setup :: "USB_Request_Hdr_t \<Rightarrow> usb_st \<Rightarrow> usb_st option" where
  "usb_setup rq st = usb_handle_ctl_ep_setup (host_sends (setup_bytes rq) st)"

definition usb_data :: "bytes \<Rightarrow> usb_st \<Rightarrow> usb_st option" where
  "usb_data bs st = usb_handle_ctl_ep_data (host_sends bs st)"

definition setup_state :: "USB_Request_Hdr_t \<Rightarrow> usb_st \<Rightarrow> usb_st" where
  "setup_state rq st = st\<lparr>ep0 := (ep0 st)\<lparr>ep0_dat := setup_bytes rq, ep0_ptr := 0\<rparr>,
     control_request := rq, g_stall := False\<rparr>"

lemma setup_state_fields [simp]:
  "control_request (setup_state rq st) = rq" "\<not> g_stall (setup_state rq st)"
  "ep0_ptr (ep0 (setup_state rq st)) = 0" "ep0_dat (ep0 (setup_state rq st)) = setup_bytes rq"
  "ep0_log (ep0 (setup_state rq st)) = ep0_log (ep0 st)" "ep0_ok (ep0 (setup_state rq st))"
  "g_response (setup_state rq st) = g_response st" "g_response_len (setup_state rq st) = g_response_len st"
  "audio (setup_state rq st) = audio st" "hid (setup_state rq st) = hid st" "g_rate (setup_state rq st) = g_rate st"
  by (simp_all add: setup_state_def ep0_ok_def)

lemma usb_setup_request:
  assumes "ep0_ok (ep0 st)"
  shows "usb_setup rq st = map_option ep0_answer (usb_handle_request USB_IRQ_SETUP_REQ (setup_state rq st))"
proof -
  have d: "ep0_dat (ep0 (host_sends (setup_bytes rq) st)) = setup_bytes rq"
    using assms by (simp add: host_sends_def ep0_ok_def)
  have r: "usb_handle_request dr (s\<lparr>ep0 := e\<lparr>ep0_ptr := p\<rparr>\<rparr>) = usb_handle_request dr (s\<lparr>ep0 := e\<lparr>ep0_ptr := q\<rparr>\<rparr>)"
    for dr s e p q
    by (simp add: usb_handle_request_def usbhw_reset_ctrl_ep_ptr_def Let_def)
  have c: "s\<lparr>ep0 := e, control_request := rq, g_stall := False\<rparr> = s\<lparr>control_request := rq, g_stall := False, ep0 := e\<rparr>"
    for s :: usb_st and e by simp
  have "usb_handle_request USB_IRQ_SETUP_REQ ((host_sends (setup_bytes rq) st)\<lparr>ep0 :=
      (ep0 (host_sends (setup_bytes rq) st))\<lparr>ep0_ptr := 8\<rparr>, control_request := rq, g_stall := False\<rparr>) =
    usb_handle_request USB_IRQ_SETUP_REQ (setup_state rq st)"
    using r [where dr = USB_IRQ_SETUP_REQ and s = "setup_state rq st" and e = "(ep0 st)\<lparr>ep0_dat := setup_bytes rq\<rparr>"
        and p = 8 and q = 0]
      assms d by (simp add: setup_state_def host_sends_def ep0_ok_def c)
  then show ?thesis
    by (simp add: usb_setup_def usb_handle_ctl_ep_setup_def read_setup_bytes [OF d] map_conv_bind_option comp_def)
qed

lemma answer_log:
  "ep0_log (ep0 (ep0_answer st)) = ep0_log (ep0 st) @
     [(if g_stall st then FLD_EP_DAT_STALL else FLD_EP_DAT_ACK, take (ep0_ptr (ep0 st)) (ep0_dat (ep0 st)))]"
  by (simp add: ep0_answer_def usbhw_write_ctrl_ep_ctrl_def)

lemma reset_setup_state [simp]:
  "(setup_state rq st)\<lparr>ep0 := usbhw_reset_ctrl_ep_ptr (ep0 (setup_state rq st))\<rparr> = setup_state rq st"
  by (simp add: setup_state_def usbhw_reset_ctrl_ep_ptr_def)

lemma resp_ok_setup_state: "resp_ok st \<Longrightarrow> resp_ok (setup_state rq st)"
  by (simp add: resp_ok_def)



text \<open>
  C34. A HID descriptor of an interface that has none is not stalled: what an earlier, unfinished
  transfer left in \<open>g_response\<close> is sent and acknowledged.
\<close>
theorem missing_hid_descriptor_sends_stale_bytes:
  assumes "resp_ok st" "RequestType rq = 0x81" "Request rq = REQ_GetDescriptor" "hi8 (Value rq) = HID_DTYPE_HID"
    and "lo8 (Index rq) \<notin> {USB_INTF_KEYBOARD, USB_INTF_MOUSE}"
  shows "\<exists>st'. usb_setup rq st = Some st' \<and>
    ep0_log (ep0 st') = ep0_log (ep0 st) @ [(FLD_EP_DAT_ACK, take 8 (take (unat (Length rq)) (remaining st)))]"
proof -
  let ?s = "usb_limit_length (setup_state rq st)"
  have "usb_handle_std_intf_req (setup_state rq st) = ?s"
    using assms(4,5) by (simp add: usb_handle_std_intf_req_def Let_def)
  then have h: "usb_handle_request USB_IRQ_SETUP_REQ (setup_state rq st) = usb_send_response ?s"
    using assms(2,3) by (simp add: usb_handle_request_def usb_consts Let_def)
  have r: "remaining ?s = take (unat (Length rq)) (remaining st)"
    by (auto simp: usb_limit_length_def remaining_def word_less_nat_alt min_def)
  obtain q where "usb_send_response ?s = Some q" "take (ep0_ptr (ep0 q)) (ep0_dat (ep0 q)) = take 8 (remaining ?s)"
    "ep0_log (ep0 q) = ep0_log (ep0 st)" "\<not> g_stall q"
    using send_remaining [OF limit_length_ok [OF resp_ok_setup_state [OF assms(1)]], of rq] by auto
  moreover have "ep0_ok (ep0 st)" using assms(1) by (simp add: resp_ok_def)
  ultimately show ?thesis by (simp add: usb_setup_request h answer_log r)
qed

lemma missing_hid_descriptor_sends_stale_bytes_witness:
  "\<exists>st'. usb_setup \<lparr>RequestType = 0x81, Request = REQ_GetDescriptor, Value = 0x2100, Index = 0, Length = 9\<rparr>
      (usb_boot\<lparr>g_response := [1, 2, 3, 4], g_response_len := 3\<rparr>) = Some st' \<and>
    ep0_log (ep0 st') = ep0_log (ep0 (usb_boot\<lparr>g_response := [1, 2, 3, 4], g_response_len := 3\<rparr>)) @ [(FLD_EP_DAT_ACK,
      take 8 (take (unat (Length \<lparr>RequestType = 0x81, Request = REQ_GetDescriptor, Value = 0x2100, Index = 0, Length = 9\<rparr>))
        (remaining (usb_boot\<lparr>g_response := [1, 2, 3, 4], g_response_len := 3\<rparr>))))]"
  by (rule missing_hid_descriptor_sends_stale_bytes)
     (simp_all add: resp_ok_def ep0_ok_def usb_boot_def hi8_def lo8_def usb_consts)


section \<open>Settings the host writes and reads back\<close>

definition data_state :: "bytes \<Rightarrow> usb_st \<Rightarrow> usb_st" where
  "data_state bs st = st\<lparr>ep0 := (ep0 st)\<lparr>ep0_dat := bs @ drop (length bs) (ep0_dat (ep0 st)), ep0_ptr := 0\<rparr>,
     g_stall := False\<rparr>"

lemma usb_data_request:
  "usb_data bs st = map_option ep0_answer (usb_handle_request USB_IRQ_DATA_REQ (data_state bs st))"
  by (simp add: usb_data_def usb_handle_ctl_ep_data_def host_sends_def data_state_def usbhw_reset_ctrl_ep_ptr_def
      map_conv_bind_option comp_def)

lemma data_state_fields [simp]:
  "control_request (data_state bs st) = control_request st" "\<not> g_stall (data_state bs st)"
  "ep0_ptr (ep0 (data_state bs st)) = 0"
  "ep0_dat (ep0 (data_state bs st)) = bs @ drop (length bs) (ep0_dat (ep0 st))"
  "audio (data_state bs st) = audio st" "hid (data_state bs st) = hid st"
  by (simp_all add: data_state_def)

lemma ep0_ok_data_state: "ep0_ok (ep0 st) \<Longrightarrow> length bs \<le> 8 \<Longrightarrow> ep0_ok (ep0 (data_state bs st))"
  by (simp add: data_state_def ep0_ok_def)

definition volume_request :: "bool \<Rightarrow> bool \<Rightarrow> USB_Request_Hdr_t" where
  "volume_request mic get =
     \<lparr>RequestType = if get then 0xA1 else 0x21, Request = if get then AUDIO_REQ_GetCurrent else 1,
      Value = push_bit 8 (ucast AUDIO_FEATURE_VOLUME),
      Index = push_bit 8 (ucast (if mic then USB_MIC_FEATURE_UNIT_ID else USB_SPEAKER_FEATURE_UNIT_ID)), Length = 2\<rparr>"

definition volume :: "bool \<Rightarrow> usb_st \<Rightarrow> vol_setting" where
  "volume mic st = (if mic then mic_setting (audio st) else speaker_setting (audio st))"

lemma hi8_values [simp]: "hi8 512 = 2" "hi8 1280 = 5"
  by (simp_all add: hi8_def)

lemma set_volume_request:
  assumes "control_request st = volume_request mic False" "ep0_ok (ep0 st)" "\<not> g_stall st"
  shows "\<exists>st'. usb_handle_request dr st = Some st' \<and> ep0_ok (ep0 st') \<and> \<not> g_stall st' \<and>
    control_request st' = control_request st \<and> ep0_log (ep0 st') = ep0_log (ep0 st) \<and>
    vol_cur (volume mic st') = u16_le (ep0_dat (ep0 st) ! 0) (ep0_dat (ep0 st) ! 1) \<and>
    mute (volume mic st') = mute (volume mic st) \<and>
    vol_step (volume mic st') = (if mic then usbaud_cal_mic_step else usbaud_cal_speaker_step) (vol_cur (volume mic st'))"
proof -
  let ?s = "st\<lparr>ep0 := usbhw_reset_ctrl_ep_ptr (ep0 st)\<rparr>"
  have e: "ep0_ok (ep0 ?s)" "ep0_ptr (ep0 ?s) = 0" using assms(2) by (simp_all add: ep0_reset)
  have h: "usb_handle_request dr st = usb_handle_out_class_intf_req (dr \<noteq> 0) ?s"
    using assms(1) by (simp add: usb_handle_request_def usb_consts Let_def volume_request_def)
  have o: "out_class_hid (dr \<noteq> 0) ?s = Some (?s\<lparr>g_stall := True\<rparr>)"
    using assms(1) by (simp add: out_class_hid_def volume_request_def Let_def usb_consts)
  show ?thesis
  proof (cases mic)
    case True
    then have "usbaud_handle_set_mic_cmd (hi8 (Value (control_request st))) (audio st) (ep0 ?s) =
        Some (0, usbaud_set_mic_vol (u16_le (ep0_dat (ep0 st) ! 0) (ep0_dat (ep0 st) ! 1)) (audio st),
          (ep0 ?s)\<lparr>ep0_ptr := 2\<rparr>)"
      using assms(1) e by (simp add: usbaud_handle_set_mic_cmd_def volume_request_def ep0_read_u16 ep0_reset usb_consts)
    with True show ?thesis using assms e
      by (simp add: h o usb_handle_out_class_intf_req_def Let_def volume_def usbaud_set_mic_vol_def ep0_reset)
         (simp add: volume_request_def usb_consts)
  next
    case False
    then have "usbaud_handle_set_speaker_cmd (hi8 (Value (control_request st))) (audio st) (ep0 ?s) =
        Some (0, usbaud_set_speaker_vol (u16_le (ep0_dat (ep0 st) ! 0) (ep0_dat (ep0 st) ! 1)) (audio st),
          (ep0 ?s)\<lparr>ep0_ptr := 2\<rparr>)"
      using assms(1) e by (simp add: usbaud_handle_set_speaker_cmd_def volume_request_def ep0_read_u16 ep0_reset usb_consts)
    with False show ?thesis using assms e
      by (simp add: h o usb_handle_out_class_intf_req_def Let_def volume_def usbaud_set_speaker_vol_def ep0_reset)
         (simp add: volume_request_def usb_consts)
  qed
qed

lemma get_volume_request:
  assumes "control_request st = volume_request mic True" "ep0_ok (ep0 st)" "\<not> g_stall st"
  shows "\<exists>st'. usb_handle_request dr st = Some st' \<and> \<not> g_stall st' \<and> ep0_log (ep0 st') = ep0_log (ep0 st) \<and>
    take (ep0_ptr (ep0 st')) (ep0_dat (ep0 st')) = le16 (vol_cur (volume mic st))"
proof -
  let ?s = "st\<lparr>ep0 := usbhw_reset_ctrl_ep_ptr (ep0 st)\<rparr>"
  have h: "usb_handle_request dr st = usb_handle_in_class_intf_req ?s"
    using assms(1) by (simp add: usb_handle_request_def usb_consts Let_def volume_request_def)
  have o: "in_class_hid ?s = Some (?s\<lparr>g_stall := True\<rparr>)"
    using assms(1) by (simp add: in_class_hid_def volume_request_def Let_def usb_consts)
  obtain e where e: "ep0_writes (le16 (vol_cur (volume mic st))) (ep0 ?s) = Some e" "ep0_log e = ep0_log (ep0 st)"
    "take (ep0_ptr e) (ep0_dat e) = le16 (vol_cur (volume mic st))"
    using ep0_writes_fresh [of "ep0 ?s" "le16 (vol_cur (volume mic st))"] assms(2) by (auto simp: ep0_reset)
  have "usb_handle_in_class_intf_req ?s = Some (st\<lparr>ep0 := e, g_stall := False\<rparr>)"
    using assms(1) e(1) o
    by (cases mic)
       (simp_all add: usb_handle_in_class_intf_req_def Let_def volume_request_def usbaud_handle_get_mic_cmd_def
         usbaud_handle_get_speaker_cmd_def ep0_write_u16_writes volume_def usb_consts)
  with e show ?thesis by (simp add: h)
qed

text \<open>
  C30. A volume the host sets, of the speaker or of the microphone, is stored with its step, and
  reading the current volume returns it. In between, the SETUP phase has already stored a volume
  the host never sent: the handler reads the first bytes of the request as data.
\<close>
theorem volume_round_trip:
  assumes "ep0_ok (ep0 st)"
  shows "\<exists>s1 s2 s3. usb_setup (volume_request mic False) st = Some s1 \<and> vol_cur (volume mic s1) = 0x0121 \<and>
    usb_data (le16 vol) s1 = Some s2 \<and> vol_cur (volume mic s2) = vol \<and>
    vol_step (volume mic s2) = (if mic then usbaud_cal_mic_step else usbaud_cal_speaker_step) vol \<and>
    usb_setup (volume_request mic True) s2 = Some s3 \<and>
    (\<exists>a b. ep0_log (ep0 s3) = ep0_log (ep0 st) @
       [(FLD_EP_DAT_ACK, a), (FLD_EP_DAT_ACK, b), (FLD_EP_DAT_ACK, le16 vol)])"
proof -
  obtain r1 where 1: "usb_handle_request USB_IRQ_SETUP_REQ (setup_state (volume_request mic False) st) = Some r1"
    "ep0_ok (ep0 r1)" "\<not> g_stall r1" "control_request r1 = volume_request mic False"
    "ep0_log (ep0 r1) = ep0_log (ep0 st)" "vol_cur (volume mic r1) = u16_le 0x21 1"
    using set_volume_request [of "setup_state (volume_request mic False) st" mic USB_IRQ_SETUP_REQ]
    by (auto simp: setup_bytes_def volume_request_def nth_Cons')
  have a1: "ep0_ok (ep0 (ep0_answer r1))" "control_request (ep0_answer r1) = volume_request mic False"
    using 1 by (simp_all add: ep0_answer_def usbhw_write_ctrl_ep_ctrl_def ep0_ok_def)
  let ?d = "data_state (le16 vol) (ep0_answer r1)"
  have d: "ep0_ok (ep0 ?d)" by (rule ep0_ok_data_state [OF a1(1)]) simp
  have v: "u16_le (ep0_dat (ep0 ?d) ! 0) (ep0_dat (ep0 ?d) ! 1) = vol"
    by (simp add: le16_def u16_le_split)
  obtain r2 where 2: "usb_handle_request USB_IRQ_DATA_REQ ?d = Some r2"
    "ep0_ok (ep0 r2)" "\<not> g_stall r2" "ep0_log (ep0 r2) = ep0_log (ep0 ?d)" "vol_cur (volume mic r2) = vol"
    "vol_step (volume mic r2) = (if mic then usbaud_cal_mic_step else usbaud_cal_speaker_step) vol"
    using set_volume_request [of ?d mic USB_IRQ_DATA_REQ, unfolded v] a1(2) d by auto
  have a2: "ep0_ok (ep0 (ep0_answer r2))"
    using 2(2) by (simp add: ep0_answer_def usbhw_write_ctrl_ep_ctrl_def ep0_ok_def)
  have va: "volume mic (ep0_answer r) = volume mic r" "volume mic (setup_state q r) = volume mic r" for r q
    by (simp_all add: volume_def ep0_answer_def)
  obtain r3 where 3: "usb_handle_request USB_IRQ_SETUP_REQ (setup_state (volume_request mic True) (ep0_answer r2)) = Some r3"
    "\<not> g_stall r3" "ep0_log (ep0 r3) = ep0_log (ep0 (ep0_answer r2))"
    "take (ep0_ptr (ep0 r3)) (ep0_dat (ep0 r3)) = le16 vol"
    using get_volume_request [of "setup_state (volume_request mic True) (ep0_answer r2)" mic USB_IRQ_SETUP_REQ]
      2(5) by (auto simp: va)
  have c: "u16_le 0x21 1 = 0x0121" by (simp add: u16_le_def)
  have l: "ep0_log (ep0 ?d) = ep0_log (ep0 (ep0_answer r1))" by (simp add: data_state_def)
  have "usb_setup (volume_request mic False) st = Some (ep0_answer r1)"
    "usb_data (le16 vol) (ep0_answer r1) = Some (ep0_answer r2)"
    "usb_setup (volume_request mic True) (ep0_answer r2) = Some (ep0_answer r3)"
    by (simp_all add: usb_setup_request [OF assms] usb_setup_request [OF a2] usb_data_request 1(1) 2(1) 3(1))
  moreover have "ep0_log (ep0 (ep0_answer r3)) = ep0_log (ep0 st) @
      [(FLD_EP_DAT_ACK, take (ep0_ptr (ep0 r1)) (ep0_dat (ep0 r1))),
       (FLD_EP_DAT_ACK, take (ep0_ptr (ep0 r2)) (ep0_dat (ep0 r2))), (FLD_EP_DAT_ACK, le16 vol)]"
    using 1(3,5) 2(3,4) 3(2-4) l by (simp add: answer_log)
  ultimately show ?thesis
    using 1(6) 2(5,6) c by (intro exI conjI) (simp_all only: va)
qed

lemma volume_round_trip_witness:
  "\<exists>s1 s2 s3. usb_setup (volume_request True False) usb_boot = Some s1 \<and> vol_cur (volume True s1) = 0x0121 \<and>
    usb_data (le16 0x1800) s1 = Some s2 \<and> vol_cur (volume True s2) = 0x1800 \<and>
    vol_step (volume True s2) = (if True then usbaud_cal_mic_step else usbaud_cal_speaker_step) 0x1800 \<and>
    usb_setup (volume_request True True) s2 = Some s3 \<and>
    (\<exists>a b. ep0_log (ep0 s3) = ep0_log (ep0 usb_boot) @
       [(FLD_EP_DAT_ACK, a), (FLD_EP_DAT_ACK, b), (FLD_EP_DAT_ACK, le16 0x1800)])"
  by (rule volume_round_trip) (simp add: usb_boot_def ep0_ok_def)


definition hid_request :: "u8 \<Rightarrow> u8 \<Rightarrow> u16 \<Rightarrow> USB_Request_Hdr_t" where
  "hid_request rt rq v = \<lparr>RequestType = rt, Request = rq, Value = v, Index = 0, Length = 1\<rparr>"

text \<open>
  The idle rate and the mouse protocol the host sets are what it reads back; setting the
  protocol also frees the mouse endpoint.
\<close>
theorem idle_and_protocol_round_trip:
  assumes "ep0_ok (ep0 st)"
  shows "\<exists>s1 s2 s3 s4 a b. usb_setup (hid_request 0x21 HID_REQ_SetIdle v) st = Some s1 \<and>
    usb_setup (hid_request 0xA1 HID_REQ_GetIdle 0) s1 = Some s2 \<and>
    usb_setup (hid_request 0x21 HID_REQ_SetProtocol v) s2 = Some s3 \<and> \<not> ep_busy (hid s3) USB_EDP_MOUSE \<and>
    usb_setup (hid_request 0xA1 HID_REQ_GetProtocol 0) s3 = Some s4 \<and>
    ep0_log (ep0 s4) = ep0_log (ep0 st) @
      [(FLD_EP_DAT_ACK, a), (FLD_EP_DAT_ACK, [hi8 v]), (FLD_EP_DAT_ACK, b), (FLD_EP_DAT_ACK, [lo8 v])]"
proof -
  have put: "\<exists>s1. usb_setup (hid_request 0x21 HID_REQ_SetIdle v) s = Some s1 \<and> ep0_ok (ep0 s1) \<and> g_rate s1 = hi8 v \<and>
      (\<exists>a. ep0_log (ep0 s1) = ep0_log (ep0 s) @ [(FLD_EP_DAT_ACK, a)])"
    "\<exists>s1. usb_setup (hid_request 0x21 HID_REQ_SetProtocol v) s = Some s1 \<and> ep0_ok (ep0 s1) \<and>
      usb_mouse_report_proto (hid s1) = lo8 v \<and> \<not> ep_busy (hid s1) USB_EDP_MOUSE \<and>
      (\<exists>a. ep0_log (ep0 s1) = ep0_log (ep0 s) @ [(FLD_EP_DAT_ACK, a)])" if "ep0_ok (ep0 s)" for s
    using that setup_state_fields(6) [unfolded ep0_ok_def]
    by (simp_all add: usb_setup_request usb_handle_request_def hid_request_def Let_def usb_handle_out_class_intf_req_def
        out_class_hid_def usb_consts ep0_answer_def usbhw_write_ctrl_ep_ctrl_def ep0_ok_def)
  have get: "\<exists>s1. usb_setup (hid_request 0xA1 rq 0) s = Some s1 \<and> ep0_ok (ep0 s1) \<and> hid s1 = hid s \<and>
      ep0_log (ep0 s1) = ep0_log (ep0 s) @ [(FLD_EP_DAT_ACK, [x])]"
    if "ep0_ok (ep0 s)" "rq = HID_REQ_GetIdle \<and> x = g_rate s \<or> rq = HID_REQ_GetProtocol \<and> x = usb_mouse_report_proto (hid s)"
    for s rq x
  proof -
    let ?s = "setup_state (hid_request 0xA1 rq 0) s"
    obtain e where e: "ep0_writes [x] (ep0 ?s) = Some e" "ep0_ok e" "take (ep0_ptr e) (ep0_dat e) = [x]"
      "ep0_log e = ep0_log (ep0 s)"
      using ep0_writes_fresh [of "ep0 ?s" "[x]"] by auto
    have "usb_handle_request USB_IRQ_SETUP_REQ ?s = usb_handle_in_class_intf_req ?s"
      by (simp add: usb_handle_request_def usb_consts Let_def) (simp add: hid_request_def)
    also have "\<dots> = Some (?s\<lparr>ep0 := e\<rparr>)"
      using that(2) e(1)
      by (auto simp: usb_handle_in_class_intf_req_def in_class_hid_def Let_def hid_request_def usb_consts
          ep0_reply_def simp del: ep0_writes.simps)
    finally show ?thesis using e
      by (simp add: usb_setup_request [OF that(1)] answer_log) (simp add: ep0_answer_def usbhw_write_ctrl_ep_ctrl_def ep0_ok_def)
  qed
  obtain s1 a where 1: "usb_setup (hid_request 0x21 HID_REQ_SetIdle v) st = Some s1" "ep0_ok (ep0 s1)" "g_rate s1 = hi8 v"
    "ep0_log (ep0 s1) = ep0_log (ep0 st) @ [(FLD_EP_DAT_ACK, a)]" using put(1) [OF assms] by blast
  obtain s2 where 2: "usb_setup (hid_request 0xA1 HID_REQ_GetIdle 0) s1 = Some s2" "ep0_ok (ep0 s2)"
    "ep0_log (ep0 s2) = ep0_log (ep0 s1) @ [(FLD_EP_DAT_ACK, [hi8 v])]"
    using get [OF 1(2), of HID_REQ_GetIdle "hi8 v"] 1(3) by auto
  obtain s3 b where 3: "usb_setup (hid_request 0x21 HID_REQ_SetProtocol v) s2 = Some s3" "ep0_ok (ep0 s3)"
    "usb_mouse_report_proto (hid s3) = lo8 v" "\<not> ep_busy (hid s3) USB_EDP_MOUSE"
    "ep0_log (ep0 s3) = ep0_log (ep0 s2) @ [(FLD_EP_DAT_ACK, b)]" using put(2) [OF 2(2)] by blast
  obtain s4 where 4: "usb_setup (hid_request 0xA1 HID_REQ_GetProtocol 0) s3 = Some s4"
    "ep0_log (ep0 s4) = ep0_log (ep0 s3) @ [(FLD_EP_DAT_ACK, [lo8 v])]"
    using get [OF 3(2), of HID_REQ_GetProtocol "lo8 v"] 3(3) by auto
  show ?thesis using 1(1,4) 2(1,3) 3(1,4,5) 4 by (intro exI conjI) simp_all
qed

lemma idle_and_protocol_round_trip_witness:
  "\<exists>s1 s2 s3 s4 a b. usb_setup (hid_request 0x21 HID_REQ_SetIdle 0x7d01) usb_boot = Some s1 \<and>
    usb_setup (hid_request 0xA1 HID_REQ_GetIdle 0) s1 = Some s2 \<and>
    usb_setup (hid_request 0x21 HID_REQ_SetProtocol 0x7d01) s2 = Some s3 \<and> \<not> ep_busy (hid s3) USB_EDP_MOUSE \<and>
    usb_setup (hid_request 0xA1 HID_REQ_GetProtocol 0) s3 = Some s4 \<and>
    ep0_log (ep0 s4) = ep0_log (ep0 usb_boot) @
      [(FLD_EP_DAT_ACK, a), (FLD_EP_DAT_ACK, [hi8 0x7d01]), (FLD_EP_DAT_ACK, b), (FLD_EP_DAT_ACK, [lo8 0x7d01])]"
  by (rule idle_and_protocol_round_trip) (simp add: usb_boot_def ep0_ok_def)

section \<open>Where the handler leaves its arrays and its registers\<close>

text \<open>
  C36. \<open>usb_alt_intf\<close> has an entry for each of the five interfaces, the index is cut to three
  bits, and the \<open>assert\<close> is empty: selecting a setting of interface 5 to 7 writes past the array.
\<close>
theorem interface_setting_leaves_array:
  assumes "ep0_ok (ep0 st)" "length (usb_alt_intf st) = 5" "RequestType rq = 0x01" "Request rq = REQ_SetInterface"
    and "lo8 (Index rq) AND 7 \<in> {5, 6, 7}"
  shows "usb_setup rq st = None"
proof -
  have "\<not> unat (lo8 (Index rq) AND 7) < 5" using assms(5) by auto
  then have "usb_handle_set_intf (setup_state rq st) = None"
    using assms(2) by (simp add: usb_handle_set_intf_def Let_def) (simp add: setup_state_def)
  then show ?thesis
    using assms by (simp add: usb_setup_request usb_handle_request_def usb_consts Let_def)
qed

lemma interface_setting_leaves_array_witness:
  "usb_setup \<lparr>RequestType = 0x01, Request = REQ_SetInterface, Value = 1, Index = 6, Length = 0\<rparr> usb_boot = None"
  by (rule interface_setting_leaves_array) (simp_all add: usb_boot_def ep0_ok_def lo8_def)

text \<open>
  The register writes of the custom report add the register base, and the access macro adds it
  again: no register of the window from \<open>0x800000\<close> to \<open>0x80ffff\<close> ever changes.
\<close>

theorem custom_write_misses_registers:
  assumes "host_cmd st ! 1 AND 0xfc = 0xc0" "host_cmd st ! 1 AND 3 = 1"
  shows "core (custom_reg_access st) =
    (core st)(0x1000000 + ucast (u16_le (host_cmd st ! 2) (host_cmd st ! 3)) := host_cmd st ! 4)"
proof -
  have "host_cmd st ! 1 AND 0xf0 = (host_cmd st ! 1 AND 0xfc) AND 0xf0" "host_cmd st ! 1 AND 0x0c = (host_cmd st ! 1 AND 0xfc) AND 0x0c"
    by (simp_all add: and.assoc)
  then have a: "host_cmd st ! 1 AND 0xf0 = 0xc0" "host_cmd st ! 1 AND 0x0c = 0" using assms(1) by simp_all
  then have "host_cmd st ! 1 \<noteq> 0xcc" by auto
  with a assms(2) show ?thesis
    by (simp add: custom_reg_access_def Let_def REG_BASE_ADDR_def algebra_simps)
qed

end
