(* ===== verification/Master_Ota.thy ===== *)
theory Master_Ota
  imports Prelude "HOL-Library.Sublist"
begin

unbundle bit_operations_syntax

text \<open>
  The firmware update that the master dongle performs on its slave,
  \<open>vendor/8258_master_kma_dongle/blm_ota.c\<close>. The state machine is driven by the passes of the main
  loop (\<open>proc_ota\<close>), by the buttons, by the connection update event and by the answer to the handle
  request. What a pass asks of the controller (connected, radio busy, packets waiting, packet
  accepted), the clock and the memory it reads are the record \<open>ota_env\<close>; \<open>crc16\<close> of the binary stack
  is a parameter. A packet is an output only when \<open>blm_push_fifo\<close> took it. One pass sees one value of the clock.
\<close>

section \<open>State\<close>

datatype led = LED_BLUE | LED_GREEN

record ota_st =
  master_ota_test_mode :: nat
  slave_ota_handle :: u16
  flash_adr_ota_master :: u32
  p_firmware :: u32
  n_firmware :: u32
  ota_adr :: u32
  ota_mode_begin_tick :: u32
  master_ota_cmd :: nat
  led_indicate_begin_tick :: u32
  led_indicate_gpio :: led
  ota_result_tick :: u32
  host_ota_start :: nat
  host_ota_update_pending :: nat
  adr_index_max_l :: u8
  adr_index_max_h :: u8
  otaStart_cmd_tick :: u32
  ota_lastData_tick :: u32
  ota_begin_tick :: u32
  led_step :: nat
  read_by_type_req_uuid :: "u8 list"
  read_by_type_req_uuidLen :: u8

record ota_env =
  now :: u32
  connected :: bool
  rf_busy :: bool
  tx_fifo :: nat
  push_ok :: bool
  update_req :: bool
  sdp_pending :: bool
  rom :: "u32 \<Rightarrow> u8"

datatype ota_out =
    Led led bool
  | Update_connection u16 u16 u16
  | Read_by_type "u8 list"
  | Write_cmd u16 "u8 list"
  | Ota_result bool

definition FW_SIZE_MAX :: u32 where "FW_SIZE_MAX = 128"
definition OTA_TIMEOUT_S :: u32 where "OTA_TIMEOUT_S = 20"
definition LED_INTERVAL_US :: u32 where "LED_INTERVAL_US = 400000"
definition OTA_INTERVAL_US :: u32 where "OTA_INTERVAL_US = 500000"
definition CMD_OTA_START :: u16 where "CMD_OTA_START = 0xff01"
definition CMD_OTA_END :: u16 where "CMD_OTA_END = 0xff02"

definition my_OtaUUID :: "u8 list" where
  "my_OtaUUID = [0x12, 0x2B, 0x0d, 0x0c, 0x0b, 0x0a, 0x09, 0x08, 0x07, 0x06, 0x05, 0x04, 0x03, 0x02, 0x01, 0x00]"

definition ota_start_state :: ota_st where
  "ota_start_state = \<lparr>master_ota_test_mode = 0, slave_ota_handle = 0, flash_adr_ota_master = 0x20000, p_firmware = 0,
     n_firmware = 0, ota_adr = 0, ota_mode_begin_tick = 0, master_ota_cmd = 0, led_indicate_begin_tick = 0,
     led_indicate_gpio = LED_BLUE, ota_result_tick = 0, host_ota_start = 0, host_ota_update_pending = 0,
     adr_index_max_l = 0, adr_index_max_h = 0, otaStart_cmd_tick = 0, ota_lastData_tick = 0, ota_begin_tick = 0,
     led_step = 0, read_by_type_req_uuid = replicate 16 0, read_by_type_req_uuidLen = 0\<rparr>"

section \<open>Operations\<close>

definition ota_set_result :: "bool \<Rightarrow> u32 \<Rightarrow> ota_st \<Rightarrow> ota_st \<times> ota_out list" where
  "ota_set_result success t st =
     (let g = (if master_ota_cmd st = 1 then LED_BLUE else LED_GREEN) in
      (st\<lparr>led_indicate_gpio := g, led_indicate_begin_tick := (if success then t OR 1 else 0),
          host_ota_update_pending := 0, host_ota_start := 0, master_ota_cmd := 0, ota_result_tick := t OR 1\<rparr>,
       [Ota_result success, Led g False]))"

definition host_button_trigger_ota_start :: "bool \<Rightarrow> bool \<Rightarrow> bool \<Rightarrow> ota_st \<Rightarrow> ota_st" where
  "host_button_trigger_ota_start conn button0_press_flag button1_press_flag st =
     (if conn then
        if button0_press_flag then st\<lparr>master_ota_cmd := 1\<rparr>
        else if button1_press_flag then st\<lparr>master_ota_cmd := 2\<rparr> else st
      else st)"

definition host_ota_update_conn_complete :: "u16 \<Rightarrow> u16 \<Rightarrow> u16 \<Rightarrow> ota_st \<Rightarrow> ota_st" where
  "host_ota_update_conn_complete interval latency timeout st =
     (if host_ota_update_pending st = 2 \<and> interval = 8 \<and> latency = 0 \<and> timeout = 200 then
        let st1 = st\<lparr>host_ota_update_pending := 0\<rparr> in
        if host_ota_start st1 = 1 then st1\<lparr>host_ota_start := 2\<rparr> else st1
      else st)"

text \<open>The first two bytes of the data of the answer are the handle.\<close>

definition host_find_slave_ota_attHandle :: "u8 \<Rightarrow> u8 \<Rightarrow> ota_st \<Rightarrow> ota_st" where
  "host_find_slave_ota_attHandle d0 d1 st =
     (if host_ota_start st = 3 \<and> read_by_type_req_uuidLen st = 16 \<and> read_by_type_req_uuid st = my_OtaUUID
      then st\<lparr>slave_ota_handle := u16_le d0 d1, host_ota_start := 4\<rparr> else st)"

definition host_att_set_current_readByTypeReq_uuid :: "u8 list \<Rightarrow> u8 \<Rightarrow> ota_st \<Rightarrow> ota_st" where
  "host_att_set_current_readByTypeReq_uuid uuid uuid_len st =
     st\<lparr>read_by_type_req_uuidLen := uuid_len, read_by_type_req_uuid := take (unat uuid_len) uuid @ drop (unat uuid_len) (read_by_type_req_uuid st)\<rparr>"

text \<open>The parts of \<open>proc_ota\<close> in their order: the connection update, the light show that opens the test mode, the
  light that shows the result, and the transfer with its timeout.\<close>

definition ota_request_update :: "ota_env \<Rightarrow> ota_st \<Rightarrow> ota_st \<times> ota_out list" where
  "ota_request_update e st =
     (if host_ota_update_pending st = 1 \<and> \<not> update_req e \<and> \<not> sdp_pending e \<and> connected e
      then (st\<lparr>host_ota_update_pending := 2\<rparr>, [Update_connection 8 0 200]) else (st, []))"

definition ota_mode_leds :: "u32 \<Rightarrow> ota_st \<Rightarrow> ota_st \<times> ota_out list" where
  "ota_mode_leds t st =
     (let elapsed = (\<lambda>k. clock_time_exceed t (ota_mode_begin_tick st) (OTA_INTERVAL_US * k));
          both = (\<lambda>b. [Led LED_BLUE b, Led LED_GREEN b]) in
      if master_ota_test_mode st \<noteq> 1 then (st, [])
      else if led_step st = 0 \<and> elapsed 1 then (st\<lparr>led_step := 1\<rparr>, both True)
      else if led_step st = 1 \<and> elapsed 2 then (st\<lparr>led_step := 2\<rparr>, both False)
      else if led_step st = 2 \<and> elapsed 3 then (st\<lparr>led_step := 3\<rparr>, both True)
      else if led_step st = 3 \<and> elapsed 4 then (st\<lparr>led_step := 4\<rparr>, both False)
      else if led_step st = 4 \<and> elapsed 5 then (st\<lparr>led_step := 5\<rparr>, both True)
      else if led_step st = 5 \<and> elapsed 6 then (st\<lparr>led_step := 0, master_ota_test_mode := 2\<rparr>, both False)
      else (st, []))"

definition ota_result_leds :: "u32 \<Rightarrow> ota_st \<Rightarrow> ota_st \<times> ota_out list" where
  "ota_result_leds t st =
     (let elapsed = (\<lambda>k. clock_time_exceed t (led_indicate_begin_tick st) (LED_INTERVAL_US * k));
          g = led_indicate_gpio st in
      if led_indicate_begin_tick st = 0 then (st, [])
      else if led_step st = 0 \<and> elapsed 1 then (st\<lparr>led_step := 1\<rparr>, [Led g True])
      else if led_step st = 1 \<and> elapsed 2 then (st\<lparr>led_step := 2\<rparr>, [Led g False])
      else if led_step st = 2 \<and> elapsed 3 then (st\<lparr>led_step := 3\<rparr>, [Led g True])
      else if led_step st = 3 \<and> elapsed 4 then (st\<lparr>led_step := 4\<rparr>, [Led g False])
      else if led_step st = 4 \<and> elapsed 5 then (st\<lparr>led_step := 5\<rparr>, [Led g True])
      else if led_step st = 5 \<and> elapsed 6 then (st\<lparr>led_indicate_begin_tick := 0, led_step := 0\<rparr>, [Led g False])
      else (st, []))"

definition rom32 :: "(u32 \<Rightarrow> u8) \<Rightarrow> u32 \<Rightarrow> u32" where
  "rom32 m a = u32_le (m a) (m (a + 1)) (m (a + 2)) (m (a + 3))"

definition ota_begin :: "ota_env \<Rightarrow> ota_st \<Rightarrow> ota_st \<times> ota_out list" where
  "ota_begin e st =
     (if master_ota_cmd st = 0 then (st, [])
      else
        let g = (if master_ota_cmd st = 1 then LED_BLUE else LED_GREEN);
            a = (if master_ota_cmd st = 1 then 0x20000 else 0x40000);
            st1 = st\<lparr>flash_adr_ota_master := a, n_firmware := rom32 (rom e) (a + 0x18)\<rparr>
        in if n_firmware st1 > push_bit 10 FW_SIZE_MAX
           then let (st2, o2) = ota_set_result False (now e) st1 in (st2, Led g True # o2)
           else (st1\<lparr>host_ota_start := 1, ota_begin_tick := now e, host_ota_update_pending := 1\<rparr>, [Led g True]))"

text \<open>A block of the image: its number, its sixteen bytes and the checksum over both.\<close>

definition rom_block :: "(u32 \<Rightarrow> u8) \<Rightarrow> u32 \<Rightarrow> u8 list" where
  "rom_block m a = map (\<lambda>i. m (a + of_nat i)) [0..<16]"

definition ota_data_packet :: "(u8 list \<Rightarrow> u16) \<Rightarrow> (u32 \<Rightarrow> u8) \<Rightarrow> u32 \<Rightarrow> u32 \<Rightarrow> u8 list" where
  "ota_data_packet crc16 m p a =
     (let body = le16 (ucast (drop_bit 4 a)) @ rom_block m (p + a) in body @ le16 (crc16 body))"

definition ota_send_data :: "(u8 list \<Rightarrow> u16) \<Rightarrow> ota_env \<Rightarrow> ota_st \<Rightarrow> ota_st \<times> ota_out list" where
  "ota_send_data crc16 e st =
     (if \<not> rf_busy e \<and> tx_fifo e < 5 then
        if ota_adr st < n_firmware st then
          if push_ok e
          then (st\<lparr>ota_adr := ota_adr st + 16\<rparr>,
                [Write_cmd (slave_ota_handle st) (ota_data_packet crc16 (rom e) (p_firmware st) (ota_adr st))])
          else (st, [])
        else (st\<lparr>host_ota_start := 7\<rparr>, [])
      else (st, []))"

definition ota_send_end :: "ota_env \<Rightarrow> ota_st \<Rightarrow> ota_st \<times> ota_out list" where
  "ota_send_end e st =
     (if \<not> rf_busy e \<and> tx_fifo e < 5 then
        let l = ucast (drop_bit 4 (ota_adr st - 16)); h = ucast (drop_bit 12 (ota_adr st - 16));
            st1 = st\<lparr>adr_index_max_l := l, adr_index_max_h := h\<rparr>
        in if push_ok e
           then (st1\<lparr>host_ota_start := 9\<rparr>, [Write_cmd (slave_ota_handle st) (le16 CMD_OTA_END @ [l, h, NOT l, NOT h])])
           else (st1, [])
      else (st, []))"

definition ota_step :: "(u8 list \<Rightarrow> u16) \<Rightarrow> ota_env \<Rightarrow> ota_st \<Rightarrow> ota_st \<times> ota_out list" where
  "ota_step crc16 e st =
     (if host_ota_start st = 0 then ota_begin e st
      else if host_ota_start st = 2 then
        let st1 = host_att_set_current_readByTypeReq_uuid my_OtaUUID 16 st
        in if push_ok e then (st1\<lparr>host_ota_start := 3\<rparr>, [Read_by_type (read_by_type_req_uuid st1)]) else (st1, [])
      else if host_ota_start st = 4 then
        let st1 = st\<lparr>p_firmware := flash_adr_ota_master st, ota_adr := 0\<rparr>
        in if push_ok e
           then (st1\<lparr>host_ota_start := 5, otaStart_cmd_tick := now e\<rparr>, [Write_cmd (slave_ota_handle st) (le16 CMD_OTA_START)])
           else (st1, [])
      else if host_ota_start st = 5 then
        (if clock_time_exceed (now e) (otaStart_cmd_tick st) 50000 then st\<lparr>host_ota_start := 6\<rparr> else st, [])
      else if host_ota_start st = 6 then ota_send_data crc16 e st
      else if host_ota_start st = 7 then
        (if clock_time_exceed (now e) (ota_lastData_tick st) 1 then st\<lparr>host_ota_start := 8\<rparr> else st, [])
      else if host_ota_start st = 8 then ota_send_end e st
      else if host_ota_start st = 9 then if tx_fifo e = 0 then ota_set_result True (now e) st else (st, [])
      else (st, []))"

definition ota_transfer :: "(u8 list \<Rightarrow> u16) \<Rightarrow> ota_env \<Rightarrow> ota_st \<Rightarrow> ota_st \<times> ota_out list" where
  "ota_transfer crc16 e st =
     (if host_ota_start st \<noteq> 0 \<and>
         (clock_time_exceed (now e) (ota_begin_tick st) (OTA_TIMEOUT_S * 1000000) \<or> \<not> connected e)
      then ota_set_result False (now e) st
      else ota_step crc16 e st)"

definition proc_ota :: "(u8 list \<Rightarrow> u16) \<Rightarrow> ota_env \<Rightarrow> ota_st \<Rightarrow> ota_st \<times> ota_out list" where
  "proc_ota crc16 e st =
     (let (st1, o1) = ota_request_update e st;
          (st2, o2) = ota_mode_leds (now e) st1;
          (st3, o3) = ota_result_leds (now e) st2;
          (st4, o4) = ota_transfer crc16 e st3
      in (st4, o1 @ o2 @ o3 @ o4))"

section \<open>Histories\<close>

datatype ota_event =
    Pass ota_env
  | Conn_updated u16 u16 u16
  | Handle_rsp u8 u8
  | Buttons bool bool bool

fun ota_handle :: "(u8 list \<Rightarrow> u16) \<Rightarrow> ota_event \<Rightarrow> ota_st \<Rightarrow> ota_st \<times> ota_out list" where
  "ota_handle crc16 (Pass e) st = proc_ota crc16 e st"
| "ota_handle crc16 (Conn_updated i l t) st = (host_ota_update_conn_complete i l t st, [])"
| "ota_handle crc16 (Handle_rsp d0 d1) st = (host_find_slave_ota_attHandle d0 d1 st, [])"
| "ota_handle crc16 (Buttons conn b0 b1) st = (host_button_trigger_ota_start conn b0 b1 st, [])"

fun ota_run :: "(u8 list \<Rightarrow> u16) \<Rightarrow> ota_event list \<Rightarrow> ota_st \<Rightarrow> ota_st \<times> ota_out list" where
  "ota_run crc16 [] st = (st, [])"
| "ota_run crc16 (x # xs) st =
     (let (st1, o1) = ota_handle crc16 x st; (st2, o2) = ota_run crc16 xs st1 in (st2, o1 @ o2))"

section \<open>What a complete update sends\<close>

definition n_blocks :: "u32 \<Rightarrow> nat" where "n_blocks n = (unat n + 15) div 16"

definition ota_packet :: "(u8 list \<Rightarrow> u16) \<Rightarrow> (u32 \<Rightarrow> u8) \<Rightarrow> u32 \<Rightarrow> nat \<Rightarrow> u8 list" where
  "ota_packet crc16 m p k = (let body = le16 (of_nat k) @ rom_block m (p + of_nat (16 * k)) in body @ le16 (crc16 body))"

definition ota_packets :: "(u8 list \<Rightarrow> u16) \<Rightarrow> (u32 \<Rightarrow> u8) \<Rightarrow> u32 \<Rightarrow> u32 \<Rightarrow> u8 list list" where
  "ota_packets crc16 m p n = le16 CMD_OTA_START # map (ota_packet crc16 m p) [0..<n_blocks n] @
     [let last = of_nat (n_blocks n - 1) in le16 CMD_OTA_END @ le16 last @ le16 (NOT last)]"

definition ota_writes :: "ota_out list \<Rightarrow> (u16 \<times> u8 list) list" where
  "ota_writes os = concat (map (\<lambda>x. case x of Write_cmd h d \<Rightarrow> [(h, d)] | _ \<Rightarrow> []) os)"

lemma ota_writes_simps [simp]:
  "ota_writes [] = []" "ota_writes (Led g b # os) = ota_writes os" "ota_writes (Update_connection i l t # os) = ota_writes os"
  "ota_writes (Read_by_type u # os) = ota_writes os" "ota_writes (Write_cmd h d # os) = (h, d) # ota_writes os"
  "ota_writes (Ota_result r # os) = ota_writes os" "ota_writes (xs @ ys) = ota_writes xs @ ota_writes ys"
  by (simp_all add: ota_writes_def)

lemma length_ota_packets: "length (ota_packets crc16 m p n) = n_blocks n + 2"
  by (simp add: ota_packets_def)

lemma n_blocks_bound: "n \<le> 0x20000 \<Longrightarrow> n_blocks n \<le> 0x2000"
proof -
  assume "n \<le> 0x20000"
  hence "unat n \<le> 0x20000" by (simp add: word_le_nat_alt)
  thus ?thesis unfolding n_blocks_def by linarith
qed

text \<open>The address of a block, its number and the end marker in the code are those of the specification.\<close>

lemma unat_block:
  assumes "k \<le> 0x2000"
  shows "unat (of_nat (16 * k) :: u32) = 16 * k"
  using assms by (intro unat_of_nat_small) simp

lemma block_number:
  assumes "k \<le> 0x2000"
  shows "ucast (drop_bit 4 (of_nat (16 * k) :: u32)) = (of_nat k :: u16)"
proof -
  have "unat (drop_bit 4 (of_nat (16 * k) :: u32)) = k"
    unfolding unat_drop_bit_eq unat_block [OF assms] by (simp add: drop_bit_eq_div)
  thus ?thesis by (metis of_nat_unat)
qed

lemma block_less: "k \<le> 0x2000 \<Longrightarrow> of_nat (16 * k) < n \<longleftrightarrow> k < n_blocks n" for n :: u32
  using unat_block [of k] unfolding n_blocks_def word_less_nat_alt by (simp only:) linarith

lemma data_packet:
  "k \<le> 0x2000 \<Longrightarrow> ota_data_packet crc16 m p (of_nat (16 * k)) = ota_packet crc16 m p k"
  by (simp only: ota_data_packet_def ota_packet_def block_number)

lemma end_marker:
  assumes "0 < k" "k \<le> 0x2000"
  shows "let l = ucast (drop_bit 4 (of_nat (16 * k) - 16 :: u32)); h = ucast (drop_bit 12 (of_nat (16 * k) - 16 :: u32)) in
    [l, h, NOT l, NOT h] = le16 (of_nat (k - 1)) @ le16 (NOT (of_nat (k - 1)))"
proof -
  have sub: "of_nat (16 * k) - 16 = (of_nat (16 * (k - 1)) :: u32)"
    using assms(1) by (cases k) simp_all
  have w: "ucast (drop_bit 4 (of_nat (16 * (k - 1)) :: u32)) = (of_nat (k - 1) :: u16)"
    using assms by (intro block_number) simp
  have "ucast (drop_bit 4 x) = (ucast (ucast (drop_bit 4 x) :: u16) :: u8)"
    "ucast (drop_bit 12 x) = (ucast (drop_bit 8 (ucast (drop_bit 4 x) :: u16)) :: u8)"
    "NOT (ucast (w :: u16)) = (ucast (NOT w) :: u8)" "NOT (ucast (drop_bit 8 w)) = (ucast (drop_bit 8 (NOT w)) :: u8)"
    for x :: u32 and w :: u16
    by (rule bit_eqI; auto simp: bit_simps)+
  thus ?thesis unfolding sub le16_def Let_def by (simp only: w append.simps)
qed

section \<open>The transfer, pass by pass\<close>

text \<open>The lights and the connection request of a pass leave the transfer alone.\<close>

definition same_transfer :: "ota_st \<Rightarrow> ota_st \<Rightarrow> bool" where
  "same_transfer st st' \<longleftrightarrow> host_ota_start st' = host_ota_start st \<and> master_ota_cmd st' = master_ota_cmd st \<and>
     slave_ota_handle st' = slave_ota_handle st \<and> flash_adr_ota_master st' = flash_adr_ota_master st \<and>
     p_firmware st' = p_firmware st \<and> n_firmware st' = n_firmware st \<and> ota_adr st' = ota_adr st \<and>
     otaStart_cmd_tick st' = otaStart_cmd_tick st \<and> ota_begin_tick st' = ota_begin_tick st \<and>
     ota_lastData_tick st' = ota_lastData_tick st"

definition quiet :: "ota_out list \<Rightarrow> bool" where
  "quiet os \<longleftrightarrow> ota_writes os = [] \<and> (\<forall>r. Ota_result r \<notin> set os)"

lemma side_effects_quiet:
  "ota_request_update e st = (st1, o1) \<Longrightarrow> same_transfer st st1 \<and> quiet o1"
  "ota_mode_leds t st = (st1, o1) \<Longrightarrow> same_transfer st st1 \<and> quiet o1"
  "ota_result_leds t st = (st1, o1) \<Longrightarrow> same_transfer st st1 \<and> quiet o1"
  by (auto simp: ota_request_update_def ota_mode_leds_def ota_result_leds_def same_transfer_def quiet_def Let_def
      split: if_splits)

lemma proc_ota_transfer:
  assumes "proc_ota crc16 e st = (st', os)"
  shows "\<exists>st1 o1 o2. same_transfer st st1 \<and> quiet o1 \<and> ota_transfer crc16 e st1 = (st', o2) \<and> os = o1 @ o2"
proof -
  obtain s1 a1 s2 a2 s3 a3 o2 where s: "ota_request_update e st = (s1, a1)" "ota_mode_leds (now e) s1 = (s2, a2)"
    "ota_result_leds (now e) s2 = (s3, a3)" "ota_transfer crc16 e s3 = (st', o2)" "os = a1 @ a2 @ a3 @ o2"
    using assms by (auto simp: proc_ota_def split: prod.splits)
  have "same_transfer st s3" "quiet (a1 @ a2 @ a3)"
    using side_effects_quiet(1) [OF s(1)] side_effects_quiet(2) [OF s(2)] side_effects_quiet(3) [OF s(3)]
    by (auto simp: same_transfer_def quiet_def)
  thus ?thesis using s(4,5) by (metis append.assoc)
qed

text \<open>
  How far a transfer is: the packets sent so far are the first ones of the complete list, their number
  given by the state. After the result the machine is idle until a button is pressed.
\<close>

definition sent_count :: "u32 \<Rightarrow> ota_st \<Rightarrow> nat" where
  "sent_count n st = (if host_ota_start st = 4 then 0 else if host_ota_start st = 9 then n_blocks n + 2
     else 1 + unat (ota_adr st) div 16)"

definition transfer_inv :: "(u8 list \<Rightarrow> u16) \<Rightarrow> (u32 \<Rightarrow> u8) \<Rightarrow> u16 \<Rightarrow> u32 \<Rightarrow> u32 \<Rightarrow> (u16 \<times> u8 list) list \<Rightarrow> ota_st \<Rightarrow> bool" where
  "transfer_inv crc16 m h p n sent st \<longleftrightarrow>
     (let all = map (Pair h) (ota_packets crc16 m p n) in
      if host_ota_start st = 0 then master_ota_cmd st = 0 \<and> (\<exists>c. sent = take c all)
      else host_ota_start st \<in> {4..9} \<and> slave_ota_handle st = h \<and> flash_adr_ota_master st = p \<and> n_firmware st = n \<and>
        sent = take (sent_count n st) all \<and>
        (host_ota_start st \<noteq> 4 \<longrightarrow> p_firmware st = p \<and> (\<exists>k \<le> n_blocks n. ota_adr st = of_nat (16 * k) \<and>
           (host_ota_start st = 5 \<longrightarrow> k = 0) \<and> (7 \<le> host_ota_start st \<longrightarrow> k = n_blocks n))))"

lemma transfer_inv_cong: "same_transfer st st' \<Longrightarrow> transfer_inv crc16 m h p n sent st' = transfer_inv crc16 m h p n sent st"
  by (simp add: same_transfer_def transfer_inv_def sent_count_def)

lemma take_packets:
  "take 1 (ota_packets crc16 m p n) = [le16 CMD_OTA_START]"
  "k < n_blocks n \<Longrightarrow> take (2 + k) (ota_packets crc16 m p n) = take (1 + k) (ota_packets crc16 m p n) @ [ota_packet crc16 m p k]"
  "take (n_blocks n + 2) (ota_packets crc16 m p n) = take (1 + n_blocks n) (ota_packets crc16 m p n) @
     [let last = of_nat (n_blocks n - 1) in le16 CMD_OTA_END @ le16 last @ le16 (NOT last)]"
proof -
  show "take 1 (ota_packets crc16 m p n) = [le16 CMD_OTA_START]" by (simp add: ota_packets_def)
  show "take (n_blocks n + 2) (ota_packets crc16 m p n) = take (1 + n_blocks n) (ota_packets crc16 m p n) @
     [let last = of_nat (n_blocks n - 1) in le16 CMD_OTA_END @ le16 last @ le16 (NOT last)]"
    by (simp add: ota_packets_def)
  assume k: "k < n_blocks n"
  hence "ota_packets crc16 m p n ! Suc k = ota_packet crc16 m p k" by (simp add: ota_packets_def nth_append)
  thus "take (2 + k) (ota_packets crc16 m p n) = take (1 + k) (ota_packets crc16 m p n) @ [ota_packet crc16 m p k]"
    using take_Suc_conv_app_nth [of "Suc k" "ota_packets crc16 m p n"] k unfolding length_ota_packets by auto
qed

lemma transfer_inv_0:
  "host_ota_start st = 0 \<Longrightarrow> transfer_inv crc16 m h p n sent st \<longleftrightarrow>
     master_ota_cmd st = 0 \<and> (\<exists>c. sent = take c (map (Pair h) (ota_packets crc16 m p n)))"
  by (simp add: transfer_inv_def)

lemma result_inv:
  "transfer_inv crc16 m h p n sent st \<Longrightarrow> ota_set_result r t st = (st', os) \<Longrightarrow>
   transfer_inv crc16 m h p n sent st' \<and> ota_writes os = [] \<and> set os \<subseteq> {Ota_result r, Led LED_BLUE False, Led LED_GREEN False} \<and>
   host_ota_start st' = 0"
proof -
  assume inv: "transfer_inv crc16 m h p n sent st" and r: "ota_set_result r t st = (st', os)"
  have "\<exists>c. sent = take c (map (Pair h) (ota_packets crc16 m p n))"
    using inv unfolding transfer_inv_def Let_def by metis
  moreover have "host_ota_start st' = 0" "master_ota_cmd st' = 0"
    using r by (auto simp: ota_set_result_def Let_def)
  ultimately have "transfer_inv crc16 m h p n sent st'" unfolding transfer_inv_def by simp
  thus ?thesis using r by (auto simp: ota_set_result_def Let_def)
qed

lemma transfer_step:
  assumes inv: "transfer_inv crc16 m h p n sent st" and step: "ota_transfer crc16 e st = (st', os)"
    and m: "rom e = m" and n: "0 < n" "n \<le> 0x20000"
  shows "transfer_inv crc16 m h p n (sent @ ota_writes os) st' \<and>
    (Ota_result True \<in> set os \<longrightarrow> sent @ ota_writes os = map (Pair h) (ota_packets crc16 m p n) \<and> host_ota_start st' = 0) \<and>
    (host_ota_start st = 0 \<longrightarrow> host_ota_start st' = 0 \<and> quiet os)"
proof (cases "host_ota_start st \<noteq> 0 \<and>
    (clock_time_exceed (now e) (ota_begin_tick st) (OTA_TIMEOUT_S * 1000000) \<or> \<not> connected e)")
  case True
  thus ?thesis using step result_inv [OF inv, of False "now e" st' os] by (auto simp: ota_transfer_def)
next
  case False
  hence step: "ota_step crc16 e st = (st', os)" using step by (simp only: ota_transfer_def if_False)
  let ?all = "map (Pair h) (ota_packets crc16 m p n)"
  note nb = n_blocks_bound [OF n(2)]
  have pos: "0 < n_blocks n" using n(1) by (simp add: n_blocks_def word_less_nat_alt)
  show ?thesis
  proof (cases "host_ota_start st = 0 \<or> host_ota_start st = 4")
    case True
    thus ?thesis
    proof
      assume "host_ota_start st = 0"
      thus ?thesis using inv step by (auto simp: ota_step_def ota_begin_def transfer_inv_0 quiet_def)
    next
      assume "host_ota_start st = 4"
      thus ?thesis using inv step
        by (auto simp: ota_step_def transfer_inv_def sent_count_def Let_def take_packets(1) [simplified] take_map split: if_splits)
    qed
  next
    case False
    then obtain k where st: "host_ota_start st \<in> {5..9}" "slave_ota_handle st = h" "flash_adr_ota_master st = p"
      "n_firmware st = n" "p_firmware st = p" "ota_adr st = of_nat (16 * k)" "k \<le> n_blocks n" "host_ota_start st = 5 \<longrightarrow> k = 0"
      "7 \<le> host_ota_start st \<longrightarrow> k = n_blocks n" "sent = take (sent_count n st) ?all"
      using inv by (auto simp: transfer_inv_def)
    have k: "k \<le> 0x2000" using st(7) nb by simp
    have cnt: "sent_count n st = (if host_ota_start st = 9 then n_blocks n + 2 else 1 + k)"
      using False st(1,6) unat_block [OF k] by (auto simp: sent_count_def)
    consider "host_ota_start st \<in> {5, 7}" | "host_ota_start st = 6" | "host_ota_start st = 8" | "host_ota_start st = 9"
      using st(1) by fastforce
    thus ?thesis
    proof cases
      case 1
      thus ?thesis using st step cnt unat_block [OF k]
        by (auto simp: ota_step_def transfer_inv_def sent_count_def Let_def quiet_def split: if_splits)
    next
      case 2
      hence step: "ota_send_data crc16 e st = (st', os)" using step by (simp add: ota_step_def)
      have sent: "sent = take (1 + k) ?all" using st(10) cnt 2 by simp
      show ?thesis
      proof (cases "\<not> rf_busy e \<and> tx_fifo e < 5 \<and> (k < n_blocks n \<longrightarrow> push_ok e)")
        case True
        show ?thesis
        proof (cases "k < n_blocks n")
          case more: True
          have next_adr: "of_nat (16 * k) + 16 = (of_nat (16 * Suc k) :: u32)" by simp
          have k1: "Suc k \<le> 0x2000" using more nb by simp
          have upd: "st' = st\<lparr>ota_adr := of_nat (16 * Suc k)\<rparr>" "os = [Write_cmd h (ota_packet crc16 m p k)]"
            using step True more st(2,4,5,6) m block_less [OF k, of n]
            by (auto simp: ota_send_data_def data_packet [OF k, simplified] next_adr)
          have "sent @ ota_writes os = take (1 + Suc k) ?all"
            using take_packets(2) [OF more, of crc16 m p] by (simp add: sent upd(2) take_map del: take_Suc)
          thus ?thesis using st(2-5) more 2 unat_block [OF k1]
            by (auto simp: upd transfer_inv_def sent_count_def Let_def intro!: exI [of _ "Suc k"])
        next
          case False
          hence "k = n_blocks n" using st(7) by simp
          thus ?thesis using st step True False cnt 2 unat_block [OF k] block_less [OF k, of n]
            by (auto simp: ota_send_data_def transfer_inv_def sent_count_def Let_def)
        qed
      next
        case False
        hence "st' = st" "os = []" using step st(4,6) block_less [OF k, of n]
          by (auto simp: ota_send_data_def split: if_splits)
        thus ?thesis using inv 2 by simp
      qed
    next
      case 3
      hence kn: "k = n_blocks n" using st(9) by simp
      have step: "ota_send_end e st = (st', os)" using step 3 by (simp add: ota_step_def)
      have sent: "sent = take (1 + n_blocks n) ?all" using st(10) cnt 3 kn by simp
      show ?thesis
      proof (cases "\<not> rf_busy e \<and> tx_fifo e < 5 \<and> push_ok e")
        case True
        have "os = [Write_cmd h (let last = of_nat (n_blocks n - 1) in le16 CMD_OTA_END @ le16 last @ le16 (NOT last))]"
          using step True st(2,6) end_marker [OF pos] k kn by (simp add: ota_send_end_def Let_def)
        hence "sent @ ota_writes os = take (n_blocks n + 2) ?all"
          using take_packets(3) [of n crc16 m p] by (simp add: sent take_map Let_def)
        thus ?thesis using step True st(2-7) kn 3
          by (auto simp: ota_send_end_def transfer_inv_def sent_count_def Let_def)
      next
        case False
        thus ?thesis using step st cnt 3 unat_block [OF k]
          by (auto simp: ota_send_end_def transfer_inv_def sent_count_def Let_def split: if_splits)
      qed
    next
      case 4
      have "sent = ?all" using st(10) cnt 4 by (simp add: length_ota_packets)
      thus ?thesis using step inv 4 result_inv [OF inv, of True "now e" st' os]
        by (auto simp: ota_step_def split: if_splits)
    qed
  qed
qed

section \<open>Every history sends a part of the image in order\<close>

definition no_button :: "(u32 \<Rightarrow> u8) \<Rightarrow> ota_event \<Rightarrow> bool" where
  "no_button m x \<longleftrightarrow> (case x of Pass e \<Rightarrow> rom e = m | Buttons conn b0 b1 \<Rightarrow> False | _ \<Rightarrow> True)"

lemma handle_step:
  assumes inv: "transfer_inv crc16 m h p n sent st" and x: "no_button m x" and n: "0 < n" "n \<le> 0x20000"
    and step: "ota_handle crc16 x st = (st', os)"
  shows "transfer_inv crc16 m h p n (sent @ ota_writes os) st' \<and>
    (Ota_result True \<in> set os \<longrightarrow> sent @ ota_writes os = map (Pair h) (ota_packets crc16 m p n) \<and> host_ota_start st' = 0) \<and>
    (host_ota_start st = 0 \<longrightarrow> host_ota_start st' = 0 \<and> quiet os)"
proof (cases x)
  case (Pass e)
  obtain st1 o1 o2 where s: "same_transfer st st1" "quiet o1" "ota_transfer crc16 e st1 = (st', o2)" "os = o1 @ o2"
    using proc_ota_transfer step Pass by fastforce
  have "transfer_inv crc16 m h p n sent st1" using transfer_inv_cong [OF s(1)] inv by simp
  moreover have "host_ota_start st1 = host_ota_start st" using s(1) by (simp add: same_transfer_def)
  moreover have "rom e = m" using x Pass by (simp add: no_button_def)
  ultimately show ?thesis using transfer_step [OF _ s(3) _ n] s(2,4) by (auto simp: quiet_def)
next
  case (Conn_updated i l t)
  hence "same_transfer st st'" "os = []" using step inv
    by (auto simp: host_ota_update_conn_complete_def same_transfer_def transfer_inv_def Let_def split: if_splits)
  thus ?thesis using inv transfer_inv_cong [of st st'] by (simp add: quiet_def same_transfer_def transfer_inv_def Let_def)
next
  case (Handle_rsp d0 d1)
  hence "st' = st" "os = []" using step inv
    by (auto simp: host_find_slave_ota_attHandle_def transfer_inv_def Let_def split: if_splits)
  thus ?thesis using inv by (simp add: quiet_def transfer_inv_def Let_def)
qed (use x in \<open>simp add: no_button_def\<close>)

lemma run_inv:
  assumes "transfer_inv crc16 m h p n sent st" "\<forall>x \<in> set xs. no_button m x" "0 < n" "n \<le> 0x20000"
    "ota_run crc16 xs st = (st', os)"
  shows "transfer_inv crc16 m h p n (sent @ ota_writes os) st' \<and>
    (Ota_result True \<in> set os \<longrightarrow> sent @ ota_writes os = map (Pair h) (ota_packets crc16 m p n) \<and> host_ota_start st' = 0) \<and>
    (host_ota_start st = 0 \<longrightarrow> host_ota_start st' = 0 \<and> quiet os)"
  using assms
proof (induction xs arbitrary: sent st os)
  case (Cons x xs)
  obtain s1 o1 o2 where s: "ota_handle crc16 x st = (s1, o1)" "ota_run crc16 xs s1 = (st', o2)" "os = o1 @ o2"
    using Cons.prems(5) by (auto split: prod.splits)
  have x: "no_button m x" "\<forall>x \<in> set xs. no_button m x" using Cons.prems(2) by simp_all
  note one = handle_step [OF Cons.prems(1) x(1) Cons.prems(3,4) s(1)]
  note rest = Cons.IH [OF one [THEN conjunct1] x(2) Cons.prems(3,4) s(2)]
  show ?case using one rest s(3) by (auto simp: quiet_def)
qed (simp add: quiet_def)

text \<open>
  C32. From the moment the slave's handle is known, whatever the controller answers in whatever order, the
  packets written so far are the first ones of the complete list: the start command, every block of the
  image with its number and checksum, and the end command with the number of the last block. Success is
  reported only when all of them were accepted.
\<close>

theorem ota_sends_image_in_order:
  assumes "host_ota_start st = 4" "slave_ota_handle st = h" "flash_adr_ota_master st = p" "n_firmware st = n"
    and n: "0 < n" "n \<le> 0x20000" and xs: "\<forall>x \<in> set xs. no_button m x" and run: "ota_run crc16 xs st = (st', os)"
  shows "prefix (ota_writes os) (map (Pair h) (ota_packets crc16 m p n)) \<and>
    (Ota_result True \<in> set os \<longrightarrow> ota_writes os = map (Pair h) (ota_packets crc16 m p n))"
proof -
  have "transfer_inv crc16 m h p n [] st" using assms(1-4) by (simp add: transfer_inv_def sent_count_def)
  note inv = run_inv [OF this xs n run, simplified]
  have "\<exists>c. ota_writes os = take c (map (Pair h) (ota_packets crc16 m p n))"
    using inv [THEN conjunct1] unfolding transfer_inv_def Let_def by metis
  thus ?thesis using inv take_is_prefix by metis
qed


section \<open>An undisturbed transfer finishes\<close>

text \<open>The passes a transfer still needs when the controller takes every packet.\<close>

definition passes_left :: "u32 \<Rightarrow> ota_st \<Rightarrow> nat" where
  "passes_left n st = (if host_ota_start st = 5 then n_blocks n + 5
     else if host_ota_start st = 6 then n_blocks n - unat (ota_adr st) div 16 + 4
     else 10 - host_ota_start st)"

definition smooth :: "(u32 \<Rightarrow> u8) \<Rightarrow> u32 \<Rightarrow> u32 \<Rightarrow> ota_env \<Rightarrow> bool" where
  "smooth m b t0 e \<longleftrightarrow> connected e \<and> \<not> rf_busy e \<and> tx_fifo e = 0 \<and> push_ok e \<and> rom e = m \<and>
     \<not> clock_time_exceed (now e) b (OTA_TIMEOUT_S * 1000000) \<and> clock_time_exceed (now e) t0 50000 \<and> clock_time_exceed (now e) 0 1"

definition ready :: "u32 \<Rightarrow> u32 \<Rightarrow> ota_st \<Rightarrow> bool" where
  "ready b t0 st \<longleftrightarrow> host_ota_start st \<in> {5..9} \<and> ota_begin_tick st = b \<and> otaStart_cmd_tick st = t0 \<and> ota_lastData_tick st = 0"

lemma smooth_step:
  assumes inv: "transfer_inv crc16 m h p n sent st" and e: "smooth m b t0 e" and r: "ready b t0 st"
    and step: "ota_transfer crc16 e st = (st', os)" and n: "n \<le> 0x20000"
  shows "Ota_result True \<in> set os \<or> ready b t0 st' \<and> passes_left n st' < passes_left n st"
proof -
  obtain k where st: "n_firmware st = n" "ota_adr st = of_nat (16 * k)" "k \<le> n_blocks n" "host_ota_start st = 5 \<longrightarrow> k = 0"
    "7 \<le> host_ota_start st \<longrightarrow> k = n_blocks n"
    using inv r by (auto simp: transfer_inv_def ready_def)
  have k: "k \<le> 0x2000" using st(3) n_blocks_bound [OF n] by simp
  have step: "ota_step crc16 e st = (st', os)"
    using step r e by (simp add: ota_transfer_def ready_def smooth_def)
  consider "host_ota_start st = 5" | "host_ota_start st \<in> {7, 8, 9}" | "host_ota_start st = 6"
    using r unfolding ready_def by fastforce
  thus ?thesis
  proof cases
    case 1
    hence "st' = st\<lparr>host_ota_start := 6\<rparr>" using step r e by (simp add: ota_step_def smooth_def ready_def)
    thus ?thesis using 1 r by (simp add: ready_def passes_left_def less_Suc_eq_le)
  next
    case 2
    hence "host_ota_start st = 9 \<and> Ota_result True \<in> set os \<or>
        host_ota_start st' = Suc (host_ota_start st) \<and> host_ota_start st < 9 \<and> ota_begin_tick st' = ota_begin_tick st \<and>
        otaStart_cmd_tick st' = otaStart_cmd_tick st \<and> ota_lastData_tick st' = ota_lastData_tick st"
      using step r e by (auto simp: ota_step_def ota_send_end_def ota_set_result_def smooth_def ready_def Let_def)
    thus ?thesis using 2 r by (auto simp: ready_def passes_left_def)
  next
    case 3
    note 2 = this
    show ?thesis
    proof (cases "k < n_blocks n")
      case True
      have next_adr: "of_nat (16 * k) + 16 = (of_nat (16 * Suc k) :: u32)" by simp
      have upd: "st' = st\<lparr>ota_adr := of_nat (16 * Suc k)\<rparr>"
        using step True 2 e st(1,2) block_less [OF k, of n]
        by (auto simp: ota_step_def ota_send_data_def smooth_def next_adr)
      have "Suc k \<le> 0x2000" using True n_blocks_bound [OF n] by simp
      thus ?thesis using upd r 2 True st(2) unat_block [OF k] unat_block [of "Suc k"]
        by (simp add: ready_def passes_left_def) arith
    next
      case False
      thus ?thesis using step 2 e r st unat_block [OF k] block_less [OF k, of n]
        by (auto simp: ota_step_def ota_send_data_def smooth_def ready_def passes_left_def)
    qed
  qed
qed

lemma smooth_run:
  assumes "transfer_inv crc16 m h p n sent st" "ready b t0 st" "\<forall>e \<in> set es. smooth m b t0 e"
    "passes_left n st \<le> length es" "0 < n" "n \<le> 0x20000"
  shows "Ota_result True \<in> set (snd (ota_run crc16 (map Pass es) st))"
  using assms
proof (induction es arbitrary: sent st)
  case Nil
  thus ?case by (auto simp: passes_left_def ready_def split: if_splits)
next
  case (Cons e es)
  obtain st' os where s: "proc_ota crc16 e st = (st', os)" by (cases "proc_ota crc16 e st")
  obtain st1 o1 o2 where t: "same_transfer st st1" "ota_transfer crc16 e st1 = (st', o2)" "os = o1 @ o2"
    using proc_ota_transfer [OF s] by blast
  have e: "smooth m b t0 e" using Cons.prems(3) by simp
  have inv1: "transfer_inv crc16 m h p n sent st1" using transfer_inv_cong [OF t(1)] Cons.prems(1) by simp
  have r1: "ready b t0 st1" and left: "passes_left n st1 = passes_left n st"
    using t(1) Cons.prems(2) by (simp_all add: same_transfer_def ready_def passes_left_def)
  have inv': "transfer_inv crc16 m h p n (sent @ ota_writes o2) st'"
    using transfer_step [OF inv1 t(2) _ Cons.prems(5,6)] e by (simp add: smooth_def)
  show ?case
  proof (cases "Ota_result True \<in> set o2")
    case False
    hence "ready b t0 st'" "passes_left n st' \<le> length es"
      using smooth_step [OF inv1 e r1 t(2) Cons.prems(6)] Cons.prems(4) left by auto
    thus ?thesis using Cons.IH [OF inv' _ _ _ Cons.prems(5,6)] Cons.prems(3) s by (auto split: prod.splits)
  qed (use s t(3) in \<open>auto split: prod.splits\<close>)
qed


text \<open>The events that take an idle dongle to the transfer: the button, the connection update and the handle.\<close>

definition handshake :: "ota_env \<Rightarrow> ota_env \<Rightarrow> ota_env \<Rightarrow> u8 \<Rightarrow> u8 \<Rightarrow> ota_env \<Rightarrow> ota_event list" where
  "handshake e1 e2 e3 d0 d1 e4 =
     [Buttons True True False, Pass e1, Pass e2, Conn_updated 8 0 200, Pass e3, Handle_rsp d0 d1, Pass e4]"

definition in_time :: "u32 \<Rightarrow> ota_env \<Rightarrow> bool" where
  "in_time b e \<longleftrightarrow> connected e \<and> \<not> clock_time_exceed (now e) b (OTA_TIMEOUT_S * 1000000)"

lemma handshake_run:
  assumes m: "rom e1 = m" "rom32 m 0x20018 = n" and n: "n \<le> 0x20000"
    and t: "in_time (now e1) e2" "in_time (now e1) e3" "in_time (now e1) e4"
    and ok: "\<not> update_req e2" "\<not> sdp_pending e2" "push_ok e3" "push_ok e4"
  shows "\<exists>st. ota_run crc16 (handshake e1 e2 e3 d0 d1 e4) ota_start_state =
      (st, [Led LED_BLUE True, Update_connection 8 0 200, Read_by_type my_OtaUUID, Write_cmd (u16_le d0 d1) (le16 CMD_OTA_START)]) \<and>
    transfer_inv crc16 m (u16_le d0 d1) 0x20000 n [(u16_le d0 d1, le16 CMD_OTA_START)] st \<and> ready (now e1) (now e4) st"
proof -
  have "\<not> n > push_bit 10 FW_SIZE_MAX" using n by (simp add: FW_SIZE_MAX_def not_less)
  thus ?thesis using m t ok
    by (simp add: handshake_def proc_ota_def ota_request_update_def ota_mode_leds_def ota_result_leds_def ota_transfer_def
        ota_step_def ota_begin_def ota_start_state_def host_button_trigger_ota_start_def host_ota_update_conn_complete_def
        host_find_slave_ota_attHandle_def host_att_set_current_readByTypeReq_uuid_def in_time_def my_OtaUUID_def
        ready_def transfer_inv_def sent_count_def Let_def ota_packets_def)
qed

lemma run_append:
  "ota_run crc16 (xs @ ys) st =
     (let (st1, o1) = ota_run crc16 xs st; (st2, o2) = ota_run crc16 ys st1 in (st2, o1 @ o2))"
  by (induction xs arbitrary: st) (auto split: prod.splits)



definition sample_rom :: "u32 \<Rightarrow> u8" where
  "sample_rom a = (if a = 0x20018 then 20 else if a < 0x20018 then 7 else 0)"

definition sample_env :: "u32 \<Rightarrow> ota_env" where
  "sample_env t = \<lparr>now = t, connected = True, rf_busy = False, tx_fifo = 0, push_ok = True, update_req = False,
     sdp_pending = False, rom = sample_rom\<rparr>"


theorem ota_sends_image_in_order_witness:
  "let st = ota_start_state\<lparr>host_ota_start := 4, slave_ota_handle := 0x2b, n_firmware := 20\<rparr>;
       xs = [Pass (sample_env 3), Conn_updated 8 0 200, Pass (sample_env 900000), Pass ((sample_env 900001)\<lparr>push_ok := False\<rparr>),
             Pass (sample_env 900002), Handle_rsp 0x30 0]
   in prefix (ota_writes (snd (ota_run (\<lambda>bs. of_nat (length bs)) xs st)))
        (map (Pair 0x2b) (ota_packets (\<lambda>bs. of_nat (length bs)) sample_rom 0x20000 20))"
  unfolding Let_def
  by (rule ota_sends_image_in_order [THEN conjunct1, OF _ _ _ _ _ _ _ prod.collapse [symmetric]])
     (simp_all add: ota_start_state_def no_button_def sample_env_def)

section \<open>Starting and giving up\<close>

text \<open>
  C33. A pass that finds the connection lost or the twenty seconds over ends a running update as failed and
  writes nothing more to the slave; an image of more than 128 K is refused before anything is sent.
\<close>

theorem ota_gives_up:
  assumes "host_ota_start st \<noteq> 0 \<and> (clock_time_exceed (now e) (ota_begin_tick st) (OTA_TIMEOUT_S * 1000000) \<or> \<not> connected e) \<or>
      host_ota_start st = 0 \<and> master_ota_cmd st \<noteq> 0 \<and>
      rom32 (rom e) ((if master_ota_cmd st = 1 then 0x20000 else 0x40000) + 0x18) > 0x20000"
    and "proc_ota crc16 e st = (st', os)"
  shows "host_ota_start st' = 0 \<and> master_ota_cmd st' = 0 \<and> host_ota_update_pending st' = 0 \<and>
    Ota_result False \<in> set os \<and> ota_writes os = []"
proof -
  obtain st1 o1 o2 where s: "same_transfer st st1" "quiet o1" "ota_transfer crc16 e st1 = (st', o2)" "os = o1 @ o2"
    using proc_ota_transfer [OF assms(2)] by blast
  show ?thesis
    using assms(1) s
    by (auto simp: same_transfer_def quiet_def ota_transfer_def ota_step_def ota_begin_def ota_set_result_def FW_SIZE_MAX_def
        Let_def split: if_splits)
qed

theorem ota_gives_up_witness:
  "Ota_result False \<in> set (snd (proc_ota (\<lambda>_. 0) ((sample_env 100)\<lparr>connected := False\<rparr>) (ota_start_state\<lparr>host_ota_start := 6\<rparr>)))"
  using ota_gives_up [of "ota_start_state\<lparr>host_ota_start := 6\<rparr>" "(sample_env 100)\<lparr>connected := False\<rparr>", OF _ prod.collapse [symmetric]]
  by simp

text \<open>An image of size zero passes the check; its end command names block 65535 as the last one.\<close>

lemma empty_image_end_marker:
  assumes "host_ota_start st = 8" "ota_adr st = 0" "\<not> rf_busy e" "tx_fifo e < 5" "push_ok e"
  shows "snd (ota_step crc16 e st) = [Write_cmd (slave_ota_handle st) (le16 CMD_OTA_END @ [0xff, 0xff, 0, 0])]"
  using assms by (simp add: ota_step_def ota_send_end_def)

end
