(* ===== verification/Master_Audio.thy ===== *)
theory Master_Audio
  imports Adpcm Ring4
begin

unbundle bit_operations_syntax

text \<open>
  The audio path of the master dongle, \<open>vendor/8258_master_kma_dongle/audio_buffer.c\<close> with
  \<open>att_mic\<close> and \<open>proc_audio\<close> of \<open>blm_att.c\<close>: encoded frames that the remote notifies go into a ring of
  four frames, the main loop decodes them into a ring of four times 248 samples, and the USB
  interrupt takes sixteen samples for every isochronous packet. The pointers count frames modulo 256
  and samples modulo 63488. The byte of memory behind the frame ring is \<open>after_mic\<close>: the decoder of
  \<open>tl_audio.c\<close> reads it. Logging and the counter of resets are left out.
\<close>

section \<open>State and operations\<close>

definition MIC_ADPCM_FRAME_SIZE :: nat where "MIC_ADPCM_FRAME_SIZE = 128"
definition MIC_SHORT_DEC_SIZE :: nat where "MIC_SHORT_DEC_SIZE = 248"
definition DEC_BUFFER_SIZE :: nat where "DEC_BUFFER_SIZE = 992"
definition USB_ISO_IN_SIZE :: nat where "USB_ISO_IN_SIZE = 16"

record abuf =
  abuf_mic_wptr :: u8
  abuf_dec_wptr :: u8
  abuf_dec_rptr :: u16
  abuf_mic :: "u8 list"
  abuf_dec :: "int list"
  abuf_reset :: nat
  dec_start :: bool
  tick_usb_iso_in :: u32
  buffer_empty :: bool
  n_usb_iso :: u8
  att_mic_rcvd :: bool
  tick_adpcm :: u32
  after_mic :: u8

definition abuf_init :: "abuf \<Rightarrow> abuf" where
  "abuf_init st = st\<lparr>abuf_mic_wptr := 0, abuf_dec_wptr := 0, abuf_reset := 16\<rparr>"

definition abuf_mic_add :: "u8 list \<Rightarrow> abuf \<Rightarrow> abuf option" where
  "abuf_mic_add p st =
     map_option (\<lambda>b. st\<lparr>abuf_mic := b, abuf_mic_wptr := abuf_mic_wptr st + 1\<rparr>)
       (buf_write (unat (abuf_mic_wptr st AND 3) * MIC_ADPCM_FRAME_SIZE) p (abuf_mic st))"

text \<open>The number of decoded frames ahead of the reader, an eight bit difference.\<close>

definition num_dec :: "abuf \<Rightarrow> u8" where
  "num_dec st = abuf_dec_wptr st - of_nat (unat (abuf_dec_rptr st) div MIC_SHORT_DEC_SIZE)"

definition num_mic :: "abuf \<Rightarrow> u8" where
  "num_mic st = abuf_mic_wptr st - abuf_dec_wptr st"

text \<open>Decoding one frame, \<^const>\<open>None\<close> when the decoder leaves its tables.\<close>

definition abuf_decode_next :: "abuf \<Rightarrow> abuf option" where
  "abuf_decode_next st =
     (let slot = unat (abuf_dec_wptr st AND 3) in
      case adpcm_to_pcm (drop (slot * MIC_ADPCM_FRAME_SIZE) (abuf_mic st @ [after_mic st])) MIC_SHORT_DEC_SIZE of
        None \<Rightarrow> None
      | Some pcm \<Rightarrow>
          (case buf_write (slot * MIC_SHORT_DEC_SIZE) pcm (abuf_dec st) of
             None \<Rightarrow> None
           | Some b \<Rightarrow> Some (st\<lparr>abuf_dec := b, abuf_dec_wptr := abuf_dec_wptr st + 1, dec_start := False\<rparr>)))"

definition abuf_mic_dec :: "abuf \<Rightarrow> abuf option" where
  "abuf_mic_dec st =
     (if abuf_reset st \<noteq> 0 then Some (st\<lparr>abuf_dec_wptr := abuf_mic_wptr st\<rparr>)
      else
        let nm = num_mic st; nd = num_dec st;
            st1 = (if nm > 4 then st\<lparr>abuf_dec_wptr := abuf_dec_wptr st + 1\<rparr> else st)
        in if nd > 4 then Some (st1\<lparr>abuf_reset := 16, dec_start := True\<rparr>)
           else if (\<not> dec_start st \<and> nm \<ge> 1 \<or> dec_start st \<and> nm \<ge> 2) \<and> nd \<le> 3 then abuf_decode_next st1
           else Some st1)"

definition iso_bytes :: "int list \<Rightarrow> u8 list" where
  "iso_bytes xs = concat (map (\<lambda>x. le16 (word_of_int x)) xs)"

definition iso_plays :: "abuf \<Rightarrow> bool" where
  "iso_plays st \<longleftrightarrow> num_dec st \<noteq> 0 \<and>
     (buffer_empty st \<and> num_dec st \<ge> 3 \<or> \<not> buffer_empty st \<and> (num_dec st \<ge> 1 \<or> n_usb_iso st AND 3 \<noteq> 0))"

text \<open>An isochronous interrupt first handles a pause and a pending reset.\<close>

definition iso_prepare :: "u32 \<Rightarrow> abuf \<Rightarrow> abuf" where
  "iso_prepare t st =
     (let st1 = st\<lparr>n_usb_iso := n_usb_iso st + 1, tick_usb_iso_in := t,
            abuf_reset := (if clock_time_exceed t (tick_usb_iso_in st) 4000 then 16 else abuf_reset st)\<rparr>
      in if abuf_reset st1 \<noteq> 0
         then st1\<lparr>abuf_dec_rptr := of_nat (unat (abuf_dec_wptr st1) * MIC_SHORT_DEC_SIZE), abuf_reset := abuf_reset st1 - 1\<rparr>
         else st1)"

text \<open>The samples of a packet; \<^const>\<open>None\<close> when samples outside the ring are read.\<close>

definition iso_read :: "abuf \<Rightarrow> int list option" where
  "iso_read st =
     (let offset = unat (abuf_dec_rptr st) mod DEC_BUFFER_SIZE; half = USB_ISO_IN_SIZE div 2 in
      if offset = DEC_BUFFER_SIZE - half
      then case (buf_read offset half (abuf_dec st), buf_read 0 half (abuf_dec st)) of
             (Some a, Some b) \<Rightarrow> Some (a @ b) | _ \<Rightarrow> None
      else buf_read offset USB_ISO_IN_SIZE (abuf_dec st))"

definition reader_next :: "u16 \<Rightarrow> u16" where
  "reader_next r = (if unat (r + of_nat USB_ISO_IN_SIZE) \<ge> MIC_SHORT_DEC_SIZE * 256 then 0 else r + of_nat USB_ISO_IN_SIZE)"

text \<open>The bytes written to endpoint 7.\<close>

definition abuf_dec_usb :: "u32 \<Rightarrow> abuf \<Rightarrow> (u8 list \<times> abuf) option" where
  "abuf_dec_usb t st =
     (let st2 = iso_prepare t st; silence = replicate (USB_ISO_IN_SIZE * 2) 0 in
      if num_dec st2 = 0 then Some (silence, st2\<lparr>buffer_empty := True\<rparr>)
      else if iso_plays st2
      then map_option (\<lambda>xs. (iso_bytes xs, st2\<lparr>buffer_empty := False, abuf_dec_rptr := reader_next (abuf_dec_rptr st2)\<rparr>)) (iso_read st2)
      else Some (silence, st2))"

definition att_mic :: "u8 list \<Rightarrow> abuf \<Rightarrow> abuf option" where
  "att_mic p st = (case buf_read 0 MIC_ADPCM_FRAME_SIZE p of
     None \<Rightarrow> None | Some f \<Rightarrow> abuf_mic_add f (st\<lparr>att_mic_rcvd := True\<rparr>))"

definition proc_audio :: "u32 \<Rightarrow> abuf \<Rightarrow> abuf option" where
  "proc_audio t st =
     (let st1 = (if att_mic_rcvd st then st\<lparr>tick_adpcm := t, att_mic_rcvd := False\<rparr> else st);
          st2 = (if clock_time_exceed t (tick_adpcm st1) 200000 then abuf_init (st1\<lparr>tick_adpcm := t\<rparr>) else st1)
      in abuf_mic_dec st2)"

text \<open>The state after start-up; the static \<open>start\<close> and \<open>buffer_empty\<close> begin as one.\<close>

definition abuf_boot :: "u8 \<Rightarrow> abuf" where
  "abuf_boot x = \<lparr>abuf_mic_wptr = 0, abuf_dec_wptr = 0, abuf_dec_rptr = 0, abuf_mic = replicate 512 0, abuf_dec = replicate 992 0,
     abuf_reset = 0, dec_start = True, tick_usb_iso_in = 0, buffer_empty = True, n_usb_iso = 0, att_mic_rcvd = False,
     tick_adpcm = 0, after_mic = x\<rparr>"

section \<open>The buffers are never left\<close>

text \<open>What every operation keeps: the sizes of the rings and a reader at a multiple of eight samples.\<close>

definition abuf_ok :: "abuf \<Rightarrow> bool" where
  "abuf_ok st \<longleftrightarrow> length (abuf_mic st) = 512 \<and> length (abuf_dec st) = 992 \<and>
     8 dvd unat (abuf_dec_rptr st) \<and> unat (abuf_dec_rptr st) < 63488"

lemma slot_bound: "unat (w AND 3 :: u8) \<le> 3"
proof -
  have "w AND 3 \<le> 3" by (rule word_and_le1)
  thus ?thesis by (simp add: word_le_nat_alt)
qed

lemma mic_add_ok:
  assumes "abuf_ok st" "length p = 128"
  shows "\<exists>st'. abuf_mic_add p st = Some st' \<and> abuf_ok st'"
proof -
  have "unat (abuf_mic_wptr st AND 3) * 128 + 128 \<le> 512" using slot_bound [of "abuf_mic_wptr st"] by simp
  thus ?thesis using assms
    by (auto simp: abuf_mic_add_def MIC_ADPCM_FRAME_SIZE_def buf_write_def abuf_ok_def)
qed

lemma decode_from_length: "decode_from i n c bs a = Some out \<Longrightarrow> length out = n"
  by (induction i n c bs a arbitrary: out rule: decode_from.induct) (auto split: option.splits if_splits list.splits)

lemma adpcm_length: "adpcm_to_pcm src n = Some out \<Longrightarrow> length out = n"
  by (cases "(src, n)" rule: adpcm_to_pcm.cases) (auto dest: decode_from_length)

lemma mic_dec_ok:
  assumes "abuf_ok st" "abuf_mic_dec st = Some st'"
  shows "abuf_ok st'"
  using assms
  by (auto simp: abuf_mic_dec_def abuf_decode_next_def abuf_ok_def Let_def
      dest!: buf_write_length split: if_splits option.splits)

text \<open>The packet an isochronous interrupt takes.\<close>

definition iso_samples :: "abuf \<Rightarrow> int list" where
  "iso_samples st = map (\<lambda>i. abuf_dec st ! ((unat (abuf_dec_rptr st) + i) mod 992)) [0..<16]"

lemma reader_offset:
  assumes ok: "abuf_ok st"
  shows "unat (abuf_dec_rptr st) mod 992 = 984 \<or> unat (abuf_dec_rptr st) mod 992 + 16 \<le> 992"
proof -
  obtain k where k: "unat (abuf_dec_rptr st) = 8 * k" using ok by (auto simp: abuf_ok_def)
  have "8 * k mod 992 = 8 * (k mod 124)" by (simp add: mult_mod_right)
  moreover have "k mod 124 < 124" by simp
  ultimately show ?thesis unfolding k by (cases "k mod 124 = 123") auto
qed

lemma ring_index:
  "o' < 992 \<Longrightarrow> i < 16 \<Longrightarrow> (o' + i) mod 992 = (if o' + i < 992 then o' + i else o' + i - 992)" for o' i :: nat
  by (simp add: mod_if)

lemma iso_read_samples:
  assumes ok: "abuf_ok st"
  shows "iso_read st = Some (iso_samples st)"
proof -
  let ?r = "unat (abuf_dec_rptr st)"
  obtain q where q: "q = ?r mod 992" by simp
  have q992: "q < 992" by (simp add: q)
  have len: "length (abuf_dec st) = 992" using ok by (simp add: abuf_ok_def)
  have xs: "iso_samples st = map (\<lambda>i. abuf_dec st ! (if q + i < 992 then q + i else q + i - 992)) [0..<16]"
    unfolding iso_samples_def using ring_index [OF q992]
    by (intro map_cong) (simp_all add: q mod_add_left_eq)
  from reader_offset [OF ok] show ?thesis
  proof
    assume o: "?r mod 992 = 984"
    have "take 8 (drop 984 (abuf_dec st)) @ take 8 (abuf_dec st) = iso_samples st"
      unfolding xs using len q o by (intro nth_equalityI) (auto simp: nth_append)
    thus ?thesis using o len by (simp add: iso_read_def buf_read_def DEC_BUFFER_SIZE_def USB_ISO_IN_SIZE_def)
  next
    assume o: "?r mod 992 + 16 \<le> 992"
    have "take 16 (drop q (abuf_dec st)) = iso_samples st"
      unfolding xs using len q o by (intro nth_equalityI) auto
    thus ?thesis using o len
      by (simp add: iso_read_def buf_read_def DEC_BUFFER_SIZE_def USB_ISO_IN_SIZE_def Let_def q)
  qed
qed

lemma abuf_dec_usb_cases:
  assumes ok: "abuf_ok (iso_prepare t st)"
  shows "abuf_dec_usb t st =
    (let st2 = iso_prepare t st in
     if num_dec st2 = 0 then Some (replicate 32 0, st2\<lparr>buffer_empty := True\<rparr>)
     else if iso_plays st2 then Some (iso_bytes (iso_samples st2), st2\<lparr>buffer_empty := False, abuf_dec_rptr := reader_next (abuf_dec_rptr st2)\<rparr>)
     else Some (replicate 32 0, st2))"
  by (simp add: abuf_dec_usb_def iso_read_samples [OF ok] Let_def USB_ISO_IN_SIZE_def)

lemma unat_reader_next:
  assumes "unat r < 63488" "8 dvd unat r"
  shows "unat (reader_next r) = (if unat r + 16 \<ge> 63488 then 0 else unat r + 16)"
proof -
  have "unat (r + 16) = unat r + 16" using assms(1) by (simp add: unat_word_ariths)
  thus ?thesis by (simp add: reader_next_def USB_ISO_IN_SIZE_def MIC_SHORT_DEC_SIZE_def)
qed

lemma reset_reader: "unat (of_nat (unat (w :: u8) * 248) :: u16) = unat w * 248"
proof -
  have "unat w < 256" using unsigned_less [of w] by simp
  thus ?thesis by (intro unat_of_nat_small) simp
qed

lemma iso_prepare_ok: "abuf_ok st \<Longrightarrow> abuf_ok (iso_prepare t st)"
proof -
  assume ok: "abuf_ok st"
  have "8 dvd unat (w :: u8) * 248" for w by presburger
  moreover have "unat (w :: u8) * 248 < 63488" for w using unsigned_less [of w] by simp
  ultimately show ?thesis using ok by (simp add: iso_prepare_def abuf_ok_def Let_def MIC_SHORT_DEC_SIZE_def reset_reader del: of_nat_mult)
qed

lemma length_iso_bytes: "length (iso_bytes xs) = 2 * length xs"
  by (induction xs) (simp_all add: iso_bytes_def)

lemma dec_usb_ok:
  assumes ok: "abuf_ok st"
  shows "\<exists>bs st'. abuf_dec_usb t st = Some (bs, st') \<and> abuf_ok st' \<and> length bs = 32"
proof -
  let ?s = "iso_prepare t st"
  have ok2: "abuf_ok ?s" using ok by (rule iso_prepare_ok)
  have "abuf_ok (?s\<lparr>buffer_empty := False, abuf_dec_rptr := reader_next (abuf_dec_rptr ?s)\<rparr>)"
    using ok2 unat_reader_next [of "abuf_dec_rptr ?s"] by (simp add: abuf_ok_def)
  thus ?thesis using ok2 unfolding abuf_dec_usb_cases [OF ok2] Let_def
    by (auto simp: abuf_ok_def length_iso_bytes iso_samples_def)
qed
text \<open>The decoder stays in its tables when the index in the header of the frame is one of theirs.\<close>

lemma clamp_idx_less: "clamp_idx i < 89"
  using clamp_idx_range(2) [of i] by linarith

lemma decode_code_idx: "decode_code c a = Some a' \<Longrightarrow> predict_idx a' < 89"
  by (auto simp: decode_code_def Let_def clamp_idx_less split: if_splits)

lemma decode_total:
  "predict_idx a < 89 \<Longrightarrow> (n + i mod 2) div 2 \<le> length bs \<Longrightarrow> \<exists>out. decode_from i n c bs a = Some out"
proof (induction n arbitrary: i c bs a)
  case (Suc n)
  obtain a' where a': "decode_code c a = Some a'" using Suc.prems(1) by (auto simp: decode_code_def Let_def)
  note idx = decode_code_idx [OF a']
  show ?case
  proof (cases "odd i")
    case True
    hence "(Suc n + 1) div 2 \<le> length bs" using Suc.prems(2) by (simp add: odd_iff_mod_2_eq_one)
    then obtain b bs' where bs: "bs = b # bs'" by (cases bs) auto
    have "(n + Suc i mod 2) div 2 \<le> length bs'" using True Suc.prems(2) bs by (simp add: odd_iff_mod_2_eq_one mod_Suc)
    thus ?thesis using Suc.IH [OF idx, of "Suc i" bs' b] True a' bs by auto
  next
    case False
    hence "(n + Suc i mod 2) div 2 \<le> length bs" using Suc.prems(2) by (simp add: even_iff_mod_2_eq_zero mod_Suc)
    thus ?thesis using Suc.IH [OF idx, of "Suc i" bs "drop_bit 4 c"] False a' by auto
  qed
qed simp

text \<open>The last byte the decoder fetches does not matter, nor does what follows it.\<close>

lemma decode_agree:
  "(n + i mod 2) div 2 \<le> length bs1 \<Longrightarrow> (n + i mod 2) div 2 \<le> length bs2 \<Longrightarrow>
   take ((n + i mod 2 - 1) div 2) bs1 = take ((n + i mod 2 - 1) div 2) bs2 \<Longrightarrow>
   decode_from i n c bs1 a = decode_from i n c bs2 a"
proof (induction n arbitrary: i c bs1 bs2 a)
  case (Suc n)
  show ?case
  proof (cases "odd i")
    case True
    hence i: "i mod 2 = 1" "Suc i mod 2 = 0" by (simp_all add: odd_iff_mod_2_eq_one mod_Suc)
    obtain b1 t1 b2 t2 where b: "bs1 = b1 # t1" "bs2 = b2 # t2" using Suc.prems(1,2) i(1) by (cases bs1; cases bs2) auto
    show ?thesis
    proof (cases n)
      case 0
      thus ?thesis using b True by (simp split: option.splits)
    next
      case (Suc k)
      hence t: "(n + 1) div 2 = Suc ((n - 1) div 2)" by simp
      have "b1 = b2 \<and> take ((n - 1) div 2) t1 = take ((n - 1) div 2) t2" using Suc.prems(3) b i(1) t by simp
      thus ?thesis using Suc.IH [of "Suc i" t1 t2] Suc.prems(1,2) b True i by (auto split: option.splits)
    qed
  next
    case False
    hence i: "i mod 2 = 0" "Suc i mod 2 = 1" by (simp_all add: even_iff_mod_2_eq_zero mod_Suc)
    show ?thesis using Suc.IH [of "Suc i" bs1 bs2] Suc.prems False i by (simp split: option.splits)
  qed
qed simp

definition frame_pcm :: "u8 list \<Rightarrow> int list option" where
  "frame_pcm f = adpcm_to_pcm (f @ [0]) 248"

definition frame_ok :: "u8 list \<Rightarrow> bool" where
  "frame_ok f \<longleftrightarrow> length f = 128 \<and> f ! 2 \<le> 88"

lemma frame_parts:
  assumes "length f = 128"
  obtains p0 p1 i0 l0 b bs where "f = p0 # p1 # i0 # l0 # b # bs" "length bs = 123" "f ! 2 = i0"
  using assms by (auto simp: numeral_eq_Suc length_Suc_conv)

lemma frame_pcm_any:
  assumes "length f = 128"
  shows "adpcm_to_pcm (f @ x # rest) 248 = frame_pcm f"
proof -
  obtain p0 p1 i0 l0 b bs where f: "f = p0 # p1 # i0 # l0 # b # bs" "length bs = 123"
    using frame_parts [OF assms] by metis
  have "decode_from 0 248 b (bs @ x # rest) a = decode_from 0 248 b (bs @ [0]) a" for a
    using f(2) by (intro decode_agree) simp_all
  thus ?thesis by (simp add: frame_pcm_def f(1))
qed

lemma frame_pcm_total:
  assumes "frame_ok f"
  shows "\<exists>pcm. frame_pcm f = Some pcm \<and> length pcm = 248"
proof -
  obtain p0 p1 i0 l0 b bs where f: "f = p0 # p1 # i0 # l0 # b # bs" "length bs = 123" "f ! 2 = i0"
    using assms frame_parts [of f] unfolding frame_ok_def by metis
  have "i0 \<le> 88" using assms f(3) by (simp add: frame_ok_def)
  hence "uint i0 < 89" by (simp add: word_le_def)
  thus ?thesis using decode_total [of "\<lparr>predict = sint (u16_le p0 p1), predict_idx = uint i0\<rparr>" 248 0 "bs @ [0]" b] f(2)
    by (auto simp: frame_pcm_def f(1) dest: decode_from_length)
qed

section \<open>Histories\<close>

definition frame_at :: "abuf \<Rightarrow> nat \<Rightarrow> u8 list" where
  "frame_at st k = take 128 (drop (128 * k) (abuf_mic st))"

definition audio_ok :: "abuf \<Rightarrow> bool" where
  "audio_ok st \<longleftrightarrow> abuf_ok st \<and> (\<forall>k<4. frame_ok (frame_at st k))"

lemma length_frame_at: "abuf_ok st \<Longrightarrow> k < 4 \<Longrightarrow> length (frame_at st k) = 128"
  by (simp add: frame_at_def abuf_ok_def)

lemma decode_slot:
  assumes ok: "abuf_ok st" and k: "k < 4"
  shows "adpcm_to_pcm (drop (k * 128) (abuf_mic st @ [after_mic st])) 248 = frame_pcm (frame_at st k)"
proof -
  have len: "length (abuf_mic st) = 512" using ok by (simp add: abuf_ok_def)
  have "drop (k * 128) (abuf_mic st) = frame_at st k @ drop (k * 128 + 128) (abuf_mic st)"
    unfolding frame_at_def by (metis add.commute append_take_drop_id drop_drop mult.commute)
  hence "drop (k * 128) (abuf_mic st @ [after_mic st]) = frame_at st k @ drop (k * 128 + 128) (abuf_mic st) @ [after_mic st]"
    using k len by simp
  thus ?thesis
    using frame_pcm_any [OF length_frame_at [OF ok k]] by (cases "drop (k * 128 + 128) (abuf_mic st)") simp_all
qed

lemma mic_add_frames:
  assumes ok: "abuf_ok st" and p: "length p = 128"
  shows "\<exists>st'. abuf_mic_add p st = Some st' \<and> abuf_ok st' \<and> abuf_mic_wptr st' = abuf_mic_wptr st + 1 \<and>
    (\<forall>k<4. frame_at st' k = (if k = unat (abuf_mic_wptr st AND 3) then p else frame_at st k)) \<and>
    (\<exists>b. st' = st\<lparr>abuf_mic := b, abuf_mic_wptr := abuf_mic_wptr st + 1\<rparr>)"
proof -
  obtain s where s: "s = unat (abuf_mic_wptr st AND 3)" by simp
  have s4: "s < 4" using slot_bound [of "abuf_mic_wptr st"] s by simp
  have len: "length (abuf_mic st) = 512" using ok by (simp add: abuf_ok_def)
  obtain b where b: "buf_write (s * 128) p (abuf_mic st) = Some b"
    using s4 p len by (simp add: buf_write_def)
  have "take 128 (drop (128 * k) b) = (if k = s then p else take 128 (drop (128 * k) (abuf_mic st)))" if "k < 4" for k
  proof (cases "k = s")
    case True
    thus ?thesis using buf_read_write_same [OF b] p buf_write_length [OF b] len s4
      by (simp add: buf_read_def mult.commute split: if_splits)
  next
    case False
    hence "128 * k + 128 \<le> s * 128 \<or> s * 128 + 128 \<le> 128 * k" by linarith
    hence "buf_read (128 * k) 128 b = buf_read (128 * k) 128 (abuf_mic st)"
      using buf_read_write_other [OF b, of "128 * k" 128] p by simp
    thus ?thesis using that len buf_write_length [OF b] False by (simp add: buf_read_def)
  qed
  thus ?thesis using b ok buf_write_length [OF b]
    by (auto simp: abuf_mic_add_def MIC_ADPCM_FRAME_SIZE_def s [symmetric] frame_at_def abuf_ok_def)
qed

lemma decode_next_ok:
  assumes "audio_ok st"
  shows "\<exists>pcm b. frame_pcm (frame_at st (unat (abuf_dec_wptr st AND 3))) = Some pcm \<and> length pcm = 248 \<and>
    buf_write (unat (abuf_dec_wptr st AND 3) * 248) pcm (abuf_dec st) = Some b \<and>
    abuf_decode_next st = Some (st\<lparr>abuf_dec := b, abuf_dec_wptr := abuf_dec_wptr st + 1, dec_start := False\<rparr>)"
proof -
  obtain s where s: "s = unat (abuf_dec_wptr st AND 3)" by simp
  have s4: "s < 4" using slot_bound [of "abuf_dec_wptr st"] s by simp
  have ok: "abuf_ok st" "frame_ok (frame_at st s)" using assms s4 by (auto simp: audio_ok_def)
  obtain pcm where pcm: "frame_pcm (frame_at st s) = Some pcm" "length pcm = 248" using frame_pcm_total [OF ok(2)] by blast
  have "length (abuf_dec st) = 992" using ok(1) by (simp add: abuf_ok_def)
  hence "buf_write (s * 248) pcm (abuf_dec st) \<noteq> None" using s4 pcm(2) by (simp add: buf_write_def)
  thus ?thesis using pcm decode_slot [OF ok(1) s4]
    by (auto simp: abuf_decode_next_def Let_def MIC_ADPCM_FRAME_SIZE_def MIC_SHORT_DEC_SIZE_def s [symmetric])
qed

datatype audio_event = Notify "u8 list" | Loop u32 | Iso u32

fun audio_step :: "audio_event \<Rightarrow> abuf \<Rightarrow> (u8 list \<times> abuf) option" where
  "audio_step (Notify p) st = map_option (Pair []) (att_mic p st)"
| "audio_step (Loop t) st = map_option (Pair []) (proc_audio t st)"
| "audio_step (Iso t) st = abuf_dec_usb t st"

fun audio_run :: "audio_event list \<Rightarrow> abuf \<Rightarrow> (u8 list list \<times> abuf) option" where
  "audio_run [] st = Some ([], st)"
| "audio_run (x # xs) st = (case audio_step x st of None \<Rightarrow> None
     | Some (bs, st1) \<Rightarrow> (case audio_run xs st1 of None \<Rightarrow> None
         | Some (bss, st2) \<Rightarrow> Some ((if bs = [] then bss else bs # bss), st2)))"

definition event_ok :: "audio_event \<Rightarrow> bool" where
  "event_ok x \<longleftrightarrow> (case x of Notify p \<Rightarrow> 128 \<le> length p \<and> p ! 2 \<le> 88 | _ \<Rightarrow> True)"

lemma audio_ok_updates [simp]:
  "audio_ok (st\<lparr>abuf_mic_wptr := v0\<rparr>) = audio_ok st"
  "audio_ok (st\<lparr>abuf_dec_wptr := v1\<rparr>) = audio_ok st"
  "audio_ok (st\<lparr>abuf_reset := v2\<rparr>) = audio_ok st"
  "audio_ok (st\<lparr>dec_start := v3\<rparr>) = audio_ok st"
  "audio_ok (st\<lparr>tick_usb_iso_in := v4\<rparr>) = audio_ok st"
  "audio_ok (st\<lparr>buffer_empty := v5\<rparr>) = audio_ok st"
  "audio_ok (st\<lparr>n_usb_iso := v6\<rparr>) = audio_ok st"
  "audio_ok (st\<lparr>att_mic_rcvd := v7\<rparr>) = audio_ok st"
  "audio_ok (st\<lparr>tick_adpcm := v8\<rparr>) = audio_ok st"
  "length b = length (abuf_dec st) \<Longrightarrow> audio_ok (st\<lparr>abuf_dec := b\<rparr>) = audio_ok st"
  by (simp_all add: audio_ok_def abuf_ok_def frame_at_def)

lemma decode_next_keeps:
  assumes ok: "audio_ok st"
  shows "\<exists>st'. abuf_decode_next st = Some st' \<and> audio_ok st'"
proof -
  obtain pcm b where w: "buf_write (unat (abuf_dec_wptr st AND 3) * 248) pcm (abuf_dec st) = Some b"
    and d: "abuf_decode_next st = Some (st\<lparr>abuf_dec := b, abuf_dec_wptr := abuf_dec_wptr st + 1, dec_start := False\<rparr>)"
    using decode_next_ok [OF ok] by blast
  have "audio_ok (st\<lparr>abuf_dec := b, abuf_dec_wptr := abuf_dec_wptr st + 1, dec_start := False\<rparr>)"
    using ok buf_write_length [OF w] by simp
  thus ?thesis using d by blast
qed

lemma audio_step_ok:
  assumes ok: "audio_ok st" and x: "event_ok x"
  shows "\<exists>bs st'. audio_step x st = Some (bs, st') \<and> audio_ok st' \<and> length bs = (case x of Iso t \<Rightarrow> 32 | _ \<Rightarrow> 0)"
proof (cases x)
  case (Notify p)
  have p: "length (take 128 p) = 128" "frame_ok (take 128 p)" using x Notify by (simp_all add: event_ok_def frame_ok_def)
  have "abuf_ok (st\<lparr>att_mic_rcvd := True\<rparr>)" using ok by (simp add: audio_ok_def abuf_ok_def)
  from mic_add_frames [OF this p(1)] obtain st' where st': "abuf_mic_add (take 128 p) (st\<lparr>att_mic_rcvd := True\<rparr>) = Some st'"
    "abuf_ok st'" "\<forall>k<4. frame_at st' k = (if k = unat (abuf_mic_wptr st AND 3) then take 128 p
        else frame_at (st\<lparr>att_mic_rcvd := True\<rparr>) k)" by auto
  have "att_mic p st = Some st'" using st'(1) x Notify by (simp add: att_mic_def buf_read_def MIC_ADPCM_FRAME_SIZE_def event_ok_def)
  moreover have "audio_ok st'" using st'(2,3) ok p(2) by (simp add: audio_ok_def frame_at_def)
  ultimately show ?thesis using Notify by simp
next
  case (Loop t)
  have dec: "\<exists>st'. abuf_mic_dec s = Some st' \<and> audio_ok st'" if "audio_ok s" for s
  proof -
    show ?thesis
      using decode_next_keeps [of s] decode_next_keeps [of "s\<lparr>abuf_dec_wptr := abuf_dec_wptr s + 1\<rparr>"] that
      by (simp add: abuf_mic_dec_def Let_def)
  qed
  thus ?thesis using ok Loop by (simp add: proc_audio_def Let_def abuf_init_def)
next
  case (Iso t)
  obtain bs st' where s: "abuf_dec_usb t st = Some (bs, st')" "abuf_ok st'" "length bs = 32"
    using dec_usb_ok [of st t] ok by (auto simp: audio_ok_def)
  have "abuf_mic st' = abuf_mic st" using s(1)
    by (auto simp: abuf_dec_usb_def iso_prepare_def Let_def split: if_splits)
  thus ?thesis using s ok Iso by (simp add: audio_ok_def frame_at_def)
qed

section \<open>Memory safety\<close>

text \<open>
  Whatever the order of notifications, passes of the main loop and isochronous interrupts, and
  whatever the times, no buffer is left and every interrupt gives the host 32 bytes, as long as every
  notification brings a whole frame whose predictor index is one of the table.
\<close>

theorem audio_memory_safe:
  assumes "audio_ok st" "\<forall>x \<in> set xs. event_ok x"
  shows "\<exists>bss st'. audio_run xs st = Some (bss, st') \<and> audio_ok st' \<and>
    map length bss = replicate (length (filter (\<lambda>x. case x of Iso t \<Rightarrow> True | _ \<Rightarrow> False) xs)) 32"
  using assms
proof (induction xs arbitrary: st)
  case (Cons x xs)
  obtain bs s1 where s: "audio_step x st = Some (bs, s1)" "audio_ok s1" "length bs = (case x of Iso t \<Rightarrow> 32 | _ \<Rightarrow> 0)"
    using audio_step_ok [of st x] Cons.prems by auto
  show ?case using Cons.IH [OF s(2)] Cons.prems(2) s(1,3) by (cases x) auto
qed simp

lemma boot_ok: "audio_ok (abuf_boot x)"
proof -
  have "frame_at (abuf_boot x) k = replicate 128 0" if "k < 4" for k
    using that by (simp add: frame_at_def abuf_boot_def)
  thus ?thesis by (simp add: audio_ok_def abuf_ok_def frame_ok_def) (simp add: abuf_boot_def)
qed

theorem audio_memory_safe_witness:
  "\<exists>bss st'. audio_run [Notify (replicate 128 1), Loop 100, Iso 200, Notify (replicate 140 88), Loop 300, Iso 90000, Loop 5000000] (abuf_boot 7)
     = Some (bss, st') \<and> audio_ok st' \<and> map length bss = [32, 32]"
  using audio_memory_safe [OF boot_ok, of "[Notify (replicate 128 1), Loop 100, Iso 200, Notify (replicate 140 88), Loop 300, Iso 90000, Loop 5000000]"]
  by (simp add: event_ok_def)

text \<open>
  C32. The index in the header of a frame comes from the air and is not checked: a frame decodes exactly
  when it is at most 88, and with any larger one the decoder reads outside \<open>steptbl\<close>.
\<close>

theorem frame_decodes_iff_index_in_table:
  assumes "length f = 128"
  shows "frame_pcm f = None \<longleftrightarrow> 88 < f ! 2"
proof
  assume "frame_pcm f = None"
  thus "88 < f ! 2" using frame_pcm_total [of f] assms by (fastforce simp: frame_ok_def)
next
  assume big: "88 < f ! 2"
  obtain p0 p1 i0 l0 b bs where f: "f = p0 # p1 # i0 # l0 # b # bs" "f ! 2 = i0" using frame_parts [OF assms] by metis
  have "\<not> uint i0 < 89" using big f(2) by (simp add: word_less_def)
  hence "decode_code b \<lparr>predict = p, predict_idx = uint i0\<rparr> = None" for p by (simp add: decode_code_def)
  thus "frame_pcm f = None" by (simp add: frame_pcm_def f(1) numeral_eq_Suc)
qed

theorem frame_decodes_iff_index_in_table_witness: "frame_pcm (replicate 128 0xff) = None"
  using frame_decodes_iff_index_in_table [of "replicate 128 0xff"] by simp

section \<open>The samples in the rings\<close>

definition frames :: "abuf \<Rightarrow> u8 list list" where
  "frames st = map (\<lambda>i. frame_at st ((unat (abuf_dec_wptr st) + i) mod 4)) [0..<unat (num_mic st)]"

definition unread :: "abuf \<Rightarrow> nat" where
  "unread st = unat (num_dec st) * 248 - unat (abuf_dec_rptr st) mod 248"

definition samples :: "abuf \<Rightarrow> int list" where
  "samples st = map (\<lambda>i. abuf_dec st ! ((unat (abuf_dec_rptr st) + i) mod 992)) [0..<unread st]"

text \<open>Everything received and not yet played, decoded.\<close>

definition pending :: "abuf \<Rightarrow> int list" where
  "pending st = samples st @ concat (map (\<lambda>f. the (frame_pcm f)) (frames st))"

definition flow_ok :: "abuf \<Rightarrow> bool" where
  "flow_ok st \<longleftrightarrow> audio_ok st \<and> abuf_reset st = 0 \<and> num_mic st \<le> 4 \<and> num_dec st \<le> 4 \<and>
     16 dvd unat (abuf_dec_rptr st) \<and> (num_dec st = 0 \<longrightarrow> 248 dvd unat (abuf_dec_rptr st))"

lemma ring_pos: "(248 * q + x) mod 992 = 248 * ((q + x div 248) mod 4) + x mod 248" for q x :: nat
proof -
  have "248 * q + x = 248 * (q + x div 248) + x mod 248" by simp
  hence "(248 * q + x) mod (248 * 4) = 248 * ((q + x div 248) mod 4) + x mod 248"
    by (simp only: mod_mult2_eq) simp
  thus ?thesis by simp
qed

lemma writer_slot:
  assumes "unat (abuf_dec_rptr st) < 63488"
  shows "(unat (abuf_dec_rptr st) div 248 + unat (num_dec st)) mod 256 = unat (abuf_dec_wptr st)"
    "(unat (abuf_dec_rptr st) div 248 + unat (num_dec st)) mod 4 = unat (abuf_dec_wptr st) mod 4"
proof -
  let ?q = "unat (abuf_dec_rptr st) div 248"
  have "?q < 256" using assms by (simp add: less_mult_imp_div_less)
  hence "unat (of_nat ?q :: u8) = ?q" by (intro unat_of_nat_small) simp
  moreover have "abuf_dec_wptr st = of_nat ?q + num_dec st" by (simp add: num_dec_def MIC_SHORT_DEC_SIZE_def)
  ultimately show sum: "(?q + unat (num_dec st)) mod 256 = unat (abuf_dec_wptr st)" by (simp add: unat_word_ariths)
  have "(?q + unat (num_dec st)) mod 4 = (?q + unat (num_dec st)) mod 256 mod 4" by (simp add: mod_mod_cancel)
  thus "(?q + unat (num_dec st)) mod 4 = unat (abuf_dec_wptr st) mod 4" by (simp only: sum)
qed


text \<open>Decoding a frame puts its samples behind those already waiting.\<close>

lemma decode_appends:
  assumes r: "unat (abuf_dec_rptr st) < 63488" and len: "length (abuf_dec st) = 992" "length pcm = 248"
    and nd: "num_dec st \<le> 3" "num_dec st = 0 \<longrightarrow> 248 dvd unat (abuf_dec_rptr st)"
    and b: "buf_write (unat (abuf_dec_wptr st) mod 4 * 248) pcm (abuf_dec st) = Some b"
    and st': "abuf_dec st' = b" "abuf_dec_rptr st' = abuf_dec_rptr st" "num_dec st' = num_dec st + 1"
  shows "samples st' = samples st @ pcm"
proof -
  obtain R where R: "R = unat (abuf_dec_rptr st)" by simp
  obtain q where q: "q = R div 248" by simp
  obtain x where x: "x = R mod 248" by simp
  obtain d where d: "d = unat (num_dec st)" by simp
  have Rqx: "R = 248 * q + x" and x248: "x < 248" by (simp_all add: q x)
  have d3: "d \<le> 3" using nd(1) by (simp add: d word_le_nat_alt)
  have d1: "unat (num_dec st') = d + 1" using d3 by (simp add: st'(3) d unat_word_ariths)
  have x0: "d = 0 \<longrightarrow> x = 0" using nd(2) by (simp add: d x R unat_eq_0)
  have slot: "(q + d) mod 4 = unat (abuf_dec_wptr st) mod 4" using writer_slot(2) [OF r] by (simp add: q R d)
  have u: "unread st = 248 * d - x" "unread st' = 248 * d - x + 248"
    using x0 x248 by (auto simp: unread_def d1 st'(2) R [symmetric] d [symmetric] x [symmetric])
  have nth: "b ! j = (if (q + d) mod 4 * 248 \<le> j \<and> j < (q + d) mod 4 * 248 + 248 then pcm ! (j - (q + d) mod 4 * 248)
      else abuf_dec st ! j)" if "j < 992" for j
    using b that len by (auto simp: buf_write_def slot nth_append min_def split: if_splits)
  have pos: "(R + i) mod 992 = 248 * ((q + (x + i) div 248) mod 4) + (x + i) mod 248" for i
    using ring_pos [of q "x + i"] by (simp add: Rqx add.assoc)
  show ?thesis
  proof (rule nth_equalityI)
    show "length (samples st') = length (samples st @ pcm)" by (simp add: samples_def u len(2))
  next
    fix i assume "i < length (samples st')"
    hence i: "i < 248 * d - x + 248" by (simp add: samples_def u)
    have m: "(R + i) mod 992 < 992" by simp
    show "samples st' ! i = (samples st @ pcm) ! i"
    proof (cases "i < 248 * d - x")
      case True
      obtain e where e: "e = (x + i) div 248" by simp
      have "e < d" using True by (simp add: e less_mult_imp_div_less)
      hence "(q + e) mod 4 \<noteq> (q + d) mod 4" using d3 by presburger
      hence "\<not> ((q + d) mod 4 * 248 \<le> (R + i) mod 992 \<and> (R + i) mod 992 < (q + d) mod 4 * 248 + 248)"
        unfolding pos e [symmetric] using mod_less_divisor [of 248 "x + i"] by linarith
      thus ?thesis using True nth [OF m] by (auto simp: samples_def u nth_append st' R [symmetric])
    next
      case False
      have xi: "x + i = 248 * d + (i - (248 * d - x))" using False x0 x248 by (cases d) auto
      have f: "i - (248 * d - x) < 248" using i by simp
      have "(x + i) div 248 = d" "(x + i) mod 248 = i - (248 * d - x)" unfolding xi using f by simp_all
      hence p: "(R + i) mod 992 = 248 * ((q + d) mod 4) + (i - (248 * d - x))" using pos [of i] by simp
      have "b ! ((R + i) mod 992) = pcm ! (i - (248 * d - x))" using nth [OF m] f unfolding p by simp
      thus ?thesis using False i by (simp add: samples_def u nth_append st' R [symmetric])
    qed
  qed
qed

text \<open>The arithmetic of the reader: sixteen samples on, and back to zero at the end.\<close>

lemma reader_arith:
  fixes R d :: nat
  assumes "R < 63488" "16 dvd R" "16 \<le> 248 * d - R mod 248" "d \<le> 4"
  defines "R' \<equiv> (if R + 16 \<ge> 63488 then 0 else R + 16)"
  defines "d' \<equiv> (if R mod 248 + 16 < 248 then d else d - 1)"
  shows "R' < 63488" "16 dvd R'" "248 * d' - R' mod 248 = 248 * d - R mod 248 - 16" "d' = 0 \<longrightarrow> 248 dvd R'"
    "(R' + i) mod 992 = (R + (16 + i)) mod 992" 
    "R' div 248 mod 256 = (R div 248 + (d - d')) mod 256" "d' \<le> d"
proof -
  obtain q x where qx: "R = 248 * q + x" "x < 248" "q = R div 248" "x = R mod 248" by (metis mult.commute div_mult_mod_eq mod_less_divisor zero_less_numeral)
  have wrap: "R = 63472" if "R + 16 \<ge> 63488" using that assms(1,2) by presburger
  have d1: "1 \<le> d" using assms(3) by (cases d) auto
  have x16: "x \<le> 248 * d - 16" using assms(3) qx(4) by linarith
  have big: "R' mod 248 = x + 16 - 248 \<and> (R' = 0 \<or> R' div 248 = q + 1)" if "\<not> x + 16 < 248"
  proof (cases "R + 16 \<ge> 63488")
    case True
    have "x = 232" using wrap [OF True] qx(4) by simp
    thus ?thesis using True by (simp add: R'_def)
  next
    case False
    obtain y where y: "y = x + 16 - 248" by simp
    have y248: "y < 248" using qx(2) y by simp
    have "R' = y + (q + 1) * 248" using that qx(1) False y by (simp add: R'_def)
    hence "R' mod 248 = y" "R' div 248 = q + 1"
      using y248 by (simp_all only: mod_mult_self1 div_mult_self1 div_less mod_less)
    thus ?thesis by (simp add: y)
  qed
  have small: "R' mod 248 = x + 16 \<and> R' div 248 = q \<and> R' = R + 16" if "x + 16 < 248"
  proof -
    have "\<not> R + 16 \<ge> 63488" using wrap that qx(4) by auto
    hence "R' = 248 * q + (x + 16)" by (simp add: R'_def qx(1))
    thus ?thesis using that qx(1) by simp
  qed
  show "R' < 63488" by (simp add: R'_def)
  show "16 dvd R'" using assms(2) by (simp add: R'_def)
  show "248 * d' - R' mod 248 = 248 * d - R mod 248 - 16"
    using small big d1 x16 unfolding d'_def qx(4) [symmetric] by (cases "x + 16 < 248") (auto simp: diff_mult_distrib2)
  show "d' \<le> d" by (simp add: d'_def)
  show "d' = 0 \<longrightarrow> 248 dvd R'"
  proof
    assume "d' = 0"
    hence "\<not> x + 16 < 248" "d = 1" using d1 by (auto simp: d'_def qx(4) split: if_splits)
    thus "248 dvd R'" using big x16 by (simp add: dvd_eq_mod_eq_0)
  qed
  show "(R' + i) mod 992 = (R + (16 + i)) mod 992"
  proof (cases "R + 16 \<ge> 63488")
    case True
    have "R + (16 + i) = i + 64 * 992" using wrap [OF True] by simp
    hence "(R + (16 + i)) mod 992 = i mod 992" by (simp only: mod_mult_self1)
    thus ?thesis using True by (simp add: R'_def)
  qed (simp add: R'_def add.assoc)
  show "R' div 248 mod 256 = (R div 248 + (d - d')) mod 256"
  proof (cases "x + 16 < 248")
    case True
    have "R' div 248 = q" using small [OF True] by blast
    thus ?thesis using True d1 by (simp add: d'_def qx(3) [symmetric] qx(4) [symmetric])
  next
    case False
    hence dd: "d - d' = 1" using d1 by (simp add: d'_def qx(4) [symmetric])
    show ?thesis
    proof (cases "R + 16 \<ge> 63488")
      case True
      thus ?thesis using wrap dd by (simp add: R'_def)
    next
      case nw: False
      hence "R' div 248 = q + 1" using big [OF False] by (auto simp: R'_def)
      thus ?thesis using dd by (simp add: qx(3) [symmetric])
    qed
  qed
qed

text \<open>An isochronous packet takes the first sixteen samples away.\<close>

lemma reader_advances:
  assumes r: "unat (abuf_dec_rptr st) < 63488" "16 dvd unat (abuf_dec_rptr st)" and u: "16 \<le> unread st" and nd: "num_dec st \<le> 4"
    and st': "abuf_dec st' = abuf_dec st" "abuf_dec_wptr st' = abuf_dec_wptr st" "abuf_dec_rptr st' = reader_next (abuf_dec_rptr st)"
  shows "samples st = iso_samples st @ samples st'" "num_dec st' \<le> 4" "16 dvd unat (abuf_dec_rptr st')"
    "unat (abuf_dec_rptr st') < 63488" "num_dec st' = 0 \<longrightarrow> 248 dvd unat (abuf_dec_rptr st')"
proof -
  obtain R d where R: "R = unat (abuf_dec_rptr st)" and d: "d = unat (num_dec st)" by simp
  have "8 dvd R" using r(2) unfolding R by (metis dvd_trans dvd_triv_left numeral_Bit0 mult_2_right mult_numeral_1_right)
  hence R': "unat (abuf_dec_rptr st') = (if R + 16 \<ge> 63488 then 0 else R + 16)"
    using unat_reader_next [of "abuf_dec_rptr st"] r(1) by (simp add: st'(3) R)
  have u': "16 \<le> 248 * d - R mod 248" using u by (simp add: unread_def R d mult.commute)
  have d4: "d \<le> 4" using nd by (simp add: d word_le_nat_alt)
  obtain d' where d': "d' = (if R mod 248 + 16 < 248 then d else d - 1)" by simp
  note ar = reader_arith [OF r(1) [folded R] r(2) [folded R] u' d4, folded R' d']
  show "16 dvd unat (abuf_dec_rptr st')" "unat (abuf_dec_rptr st') < 63488" using ar(1,2) by simp_all
  have nd': "unat (num_dec st') = d'"
  proof -
    have "num_dec st' = num_dec st + of_nat (R div 248) - of_nat (unat (abuf_dec_rptr st') div 248)"
      by (simp add: num_dec_def st'(2) R MIC_SHORT_DEC_SIZE_def)
    also have "(of_nat (unat (abuf_dec_rptr st') div 248) :: u8) = of_nat (R div 248 + (d - d'))"
      using ar(6) by (simp add: word_of_nat_eq_iff take_bit_eq_mod del: of_nat_add)
    finally have "num_dec st' = num_dec st - of_nat (d - d')" by simp
    also have "num_dec st = of_nat d" by (simp add: d)
    also have "of_nat d - of_nat (d - d') = (of_nat d' :: u8)" using ar(7) by (simp flip: of_nat_diff)
    finally show ?thesis using ar(7) d4 by (simp add: unat_of_nat_small)
  qed
  show "num_dec st' \<le> 4" using nd' ar(7) d4 by (simp add: word_le_nat_alt)
  show "num_dec st' = 0 \<longrightarrow> 248 dvd unat (abuf_dec_rptr st')" using ar(4) nd' by (simp add: unat_eq_0 [symmetric])
  have un: "unread st = 16 + unread st'" using ar(3) u' by (simp add: unread_def nd' R [symmetric] d [symmetric] mult.commute)
  have "[0..<16 + n] = [0..<16] @ map (\<lambda>i. 16 + i) [0..<n]" for n
    by (intro nth_equalityI) (auto simp: nth_append)
  thus "samples st = iso_samples st @ samples st'"
    by (simp add: samples_def iso_samples_def un ar(5) st'(1) R [symmetric] comp_def)
qed


section \<open>Nothing is lost, repeated or reordered\<close>

lemma views_updates [simp]:
  "frames (st\<lparr>att_mic_rcvd := b\<rparr>) = frames st" "samples (st\<lparr>att_mic_rcvd := b\<rparr>) = samples st" "num_mic (st\<lparr>att_mic_rcvd := b\<rparr>) = num_mic st" "num_dec (st\<lparr>att_mic_rcvd := b\<rparr>) = num_dec st"
  "frames (st\<lparr>tick_adpcm := t\<rparr>) = frames st" "samples (st\<lparr>tick_adpcm := t\<rparr>) = samples st" "num_mic (st\<lparr>tick_adpcm := t\<rparr>) = num_mic st" "num_dec (st\<lparr>tick_adpcm := t\<rparr>) = num_dec st"
  by (simp_all add: frames_def samples_def num_mic_def num_dec_def unread_def frame_at_def)

lemma flow_ok_updates [simp]:
  "flow_ok (st\<lparr>att_mic_rcvd := b\<rparr>) = flow_ok st" "flow_ok (st\<lparr>tick_adpcm := t\<rparr>) = flow_ok st"
  by (simp_all add: flow_ok_def)

lemma slots_differ: "i < n \<Longrightarrow> n < 4 \<Longrightarrow> (w + i) mod 4 \<noteq> (w + n) mod 4" for i n w :: nat
proof
  assume a: "i < n" "n < 4" "(w + i) mod 4 = (w + n) mod 4"
  hence "4 dvd (w + n) - (w + i)" by (metis mod_eq_dvd_iff_nat add_le_cancel_left less_imp_le)
  thus False using a(1,2) by (auto dest: dvd_imp_le)
qed

lemma mod_256_4: "(a mod 256 + i) mod 4 = (a + i) mod 4" for a i :: nat
  using mod_add_left_eq [of "a mod 256" 4 i] mod_add_left_eq [of a 4 i] by (simp add: mod_mod_cancel)

lemma frames_arrive:
  assumes ok: "flow_ok st" and m: "num_mic st < 4" and p: "length p = 128" "frame_ok p" and st': "abuf_mic_add p st = Some st'"
  shows "flow_ok st' \<and> frames st' = frames st @ [p] \<and> samples st' = samples st"
proof -
  obtain W n where W: "W = unat (abuf_dec_wptr st)" and n: "n = unat (num_mic st)" by simp
  have n4: "n < 4" using m by (simp add: n word_less_nat_alt)
  have abuf: "abuf_ok st" "audio_ok st" using ok by (simp_all add: flow_ok_def audio_ok_def)
  obtain b where s: "abuf_ok st'" "\<forall>k<4. frame_at st' k = (if k = unat (abuf_mic_wptr st AND 3) then p else frame_at st k)"
    "st' = st\<lparr>abuf_mic := b, abuf_mic_wptr := abuf_mic_wptr st + 1\<rparr>"
    using mic_add_frames [OF abuf(1) p(1)] st' by auto
  have "abuf_mic_wptr st = abuf_dec_wptr st + num_mic st" by (simp add: num_mic_def)
  hence "unat (abuf_mic_wptr st) = (W + n) mod 256" by (simp add: W n unat_word_ariths)
  hence slot: "unat (abuf_mic_wptr st AND 3) = (W + n) mod 4" by (simp add: u8_and_3 mod_mod_cancel)
  have nm: "unat (num_mic st') = Suc n" "num_mic st' \<le> 4"
  proof -
    have "num_mic st' = num_mic st + 1" by (simp add: num_mic_def s(3))
    thus "unat (num_mic st') = Suc n" using n4 by (simp add: n unat_word_ariths)
    thus "num_mic st' \<le> 4" using n4 by (simp add: word_le_nat_alt)
  qed
  have w': "abuf_dec_wptr st' = abuf_dec_wptr st" by (simp add: s(3))
  have "(W + i) mod 4 \<noteq> (W + n) mod 4" if "i < n" for i using slots_differ [OF that n4] .
  hence "frames st' = frames st @ [p]"
    using s(2) w' by (simp add: frames_def nm(1) slot W [symmetric] n [symmetric])
  moreover have "samples st' = samples st" "num_dec st' = num_dec st"
    by (simp_all add: s(3) samples_def unread_def num_dec_def)
  moreover have "flow_ok st'"
    using ok s nm(2) p(2) by (auto simp: flow_ok_def audio_ok_def num_dec_def)
  ultimately show ?thesis by blast
qed

lemma decode_moves:
  assumes ok: "flow_ok st" and m: "num_mic st \<noteq> 0" and d: "num_dec st \<le> 3"
  shows "\<exists>st'. abuf_decode_next st = Some st' \<and> flow_ok st' \<and> frames st \<noteq> [] \<and> frames st' = tl (frames st) \<and>
    samples st' = samples st @ the (frame_pcm (hd (frames st)))"
proof -
  obtain W n where W: "W = unat (abuf_dec_wptr st)" and n: "n = unat (num_mic st)" by simp
  have audio: "audio_ok st" using ok by (simp add: flow_ok_def)
  obtain pcm b where w: "frame_pcm (frame_at st (W mod 4)) = Some pcm" "length pcm = 248"
    "buf_write (W mod 4 * 248) pcm (abuf_dec st) = Some b"
    "abuf_decode_next st = Some (st\<lparr>abuf_dec := b, abuf_dec_wptr := abuf_dec_wptr st + 1, dec_start := False\<rparr>)"
    using decode_next_ok [OF audio] unfolding u8_and_3 W [symmetric] by blast
  let ?st' = "st\<lparr>abuf_dec := b, abuf_dec_wptr := abuf_dec_wptr st + 1, dec_start := False\<rparr>"
  have nd: "num_dec ?st' = num_dec st + 1" by (simp add: num_dec_def)
  have nm: "num_mic ?st' = num_mic st - 1" by (simp add: num_mic_def)
  have n1: "1 \<le> n" "n \<le> 4" using m ok by (simp_all add: n flow_ok_def unat_gt_0 Suc_le_eq word_le_nat_alt)
  have "unat (num_mic ?st') = n - 1" unfolding nm using m n1 by (simp add: n unat_minus_one)
  moreover have "(unat (abuf_dec_wptr st + 1) + i) mod 4 = (W + Suc i) mod 4" for i
  proof -
    have "(unat (abuf_dec_wptr st + 1) + i) mod 4 = ((W + 1) mod 256 + i) mod 4" by (simp add: W unat_word_ariths)
    also have "\<dots> = (W + 1 + i) mod 4" by (rule mod_256_4)
    finally show ?thesis by simp
  qed
  moreover have "[0..<n] = 0 # map Suc [0..<n - 1]" using n1(1) by (simp add: map_Suc_upt upt_conv_Cons)
  ultimately have fr: "frames st = frame_at st (W mod 4) # frames ?st'"
    by (simp add: frames_def frame_at_def W [symmetric] n [symmetric] comp_def)
  have "samples ?st' = samples st @ pcm"
    using decode_appends [of st pcm b ?st'] ok d w(2,3) nd by (simp add: flow_ok_def audio_ok_def abuf_ok_def W)
  moreover have "flow_ok ?st'"
  proof -
    have "num_dec st + 1 \<le> 4" "num_dec st + 1 \<noteq> 0" "num_mic st - 1 \<le> 4"
      using d m n1 by (simp_all add: word_le_nat_alt unat_word_ariths unat_minus_one n [symmetric] unat_eq_0 [symmetric])
    thus ?thesis using ok buf_write_length [OF w(3)] by (simp add: flow_ok_def nd nm)
  qed
  ultimately show ?thesis using fr w(1,4) by simp
qed


text \<open>
  When the stream flows: a notification finds a free slot, the link was not silent for 200 ms, the host
  polls within 4 ms, and a packet is played only from at least sixteen waiting samples.
\<close>

definition flows :: "audio_event \<Rightarrow> abuf \<Rightarrow> bool" where
  "flows x st \<longleftrightarrow> event_ok x \<and> (case x of
       Notify p \<Rightarrow> num_mic st < 4
     | Loop t \<Rightarrow> att_mic_rcvd st \<or> \<not> clock_time_exceed t (tick_adpcm st) 200000
     | Iso t \<Rightarrow> \<not> clock_time_exceed t (tick_usb_iso_in st) 4000 \<and> (iso_plays (iso_prepare t st) \<longrightarrow> 16 \<le> unread st))"

fun flows_run :: "audio_event list \<Rightarrow> abuf \<Rightarrow> bool" where
  "flows_run [] st = True"
| "flows_run (x # xs) st \<longleftrightarrow> flows x st \<and> (case audio_step x st of None \<Rightarrow> False | Some (bs, st') \<Rightarrow> flows_run xs st')"

text \<open>What the host hears of a packet: the samples played, nothing for a packet of silence.\<close>

definition packet_of :: "int list \<Rightarrow> u8 list \<Rightarrow> bool" where
  "packet_of xs bs \<longleftrightarrow> xs = [] \<and> bs = replicate 32 0 \<or> length xs = 16 \<and> bs = iso_bytes xs"

definition received :: "audio_event \<Rightarrow> int list" where
  "received x = (case x of Notify p \<Rightarrow> the (frame_pcm (take 128 p)) | _ \<Rightarrow> [])"

lemma dec_flow:
  assumes ok: "flow_ok st"
  shows "\<exists>st'. abuf_mic_dec st = Some st' \<and> flow_ok st' \<and> pending st' = pending st"
proof -
  let ?go = "(\<not> dec_start st \<and> num_mic st \<ge> 1 \<or> dec_start st \<and> num_mic st \<ge> 2) \<and> num_dec st \<le> 3"
  have "\<not> num_mic st > 4" "\<not> num_dec st > 4" "abuf_reset st = 0" using ok by (simp_all add: flow_ok_def not_less)
  hence eq: "abuf_mic_dec st = (if ?go then abuf_decode_next st else Some st)" by (auto simp: abuf_mic_dec_def Let_def)
  show ?thesis
  proof (cases ?go)
    case True
    hence "num_mic st \<noteq> 0" by auto
    then obtain st' where s: "abuf_decode_next st = Some st'" "flow_ok st'" "frames st \<noteq> []" "frames st' = tl (frames st)"
      "samples st' = samples st @ the (frame_pcm (hd (frames st)))" using decode_moves [OF ok] True by blast
    hence "pending st' = pending st" by (cases "frames st") (simp_all add: pending_def)
    thus ?thesis using s(1,2) unfolding eq if_P [OF True] by blast
  next
    case False
    thus ?thesis using ok unfolding eq if_not_P [OF False] by blast
  qed
qed

lemma iso_flow:
  assumes ok: "flow_ok st" and f: "flows (Iso t) st"
  shows "\<exists>bs st' xs. abuf_dec_usb t st = Some (bs, st') \<and> flow_ok st' \<and> packet_of xs bs \<and> xs @ pending st' = pending st"
proof -
  let ?s = "iso_prepare t st"
  have s: "?s = st\<lparr>n_usb_iso := n_usb_iso st + 1, tick_usb_iso_in := t, abuf_reset := 0\<rparr>"
    using ok f by (simp add: iso_prepare_def flow_ok_def flows_def)
  have ok2: "flow_ok ?s" "pending ?s = pending st" "unread ?s = unread st"
    using ok unfolding s by (simp_all add: flow_ok_def pending_def samples_def frames_def unread_def num_dec_def num_mic_def frame_at_def)
  have abuf: "abuf_ok ?s" using ok2(1) by (simp add: flow_ok_def audio_ok_def)
  have quiet: "flow_ok (?s\<lparr>buffer_empty := b\<rparr>) \<and> pending (?s\<lparr>buffer_empty := b\<rparr>) = pending ?s" for b
    using ok2(1) by (simp add: flow_ok_def pending_def samples_def frames_def unread_def num_dec_def num_mic_def frame_at_def)
  show ?thesis
  proof (cases "num_dec ?s \<noteq> 0 \<and> iso_plays ?s")
    case True
    let ?st' = "?s\<lparr>buffer_empty := False, abuf_dec_rptr := reader_next (abuf_dec_rptr ?s)\<rparr>"
    have u: "16 \<le> unread ?s" using f True ok2(3) by (simp add: flows_def)
    note adv = reader_advances [of ?s ?st', OF _ _ u]
    have pre: "unat (abuf_dec_rptr ?s) < 63488" "16 dvd unat (abuf_dec_rptr ?s)" "num_dec ?s \<le> 4"
      using ok2(1) by (simp_all add: flow_ok_def audio_ok_def abuf_ok_def)
    have "frames ?st' = frames ?s" "num_mic ?st' = num_mic ?s" by (simp_all add: frames_def num_mic_def frame_at_def)
    hence "iso_samples ?s @ pending ?st' = pending ?s" using adv(1) pre by (simp add: pending_def)
    moreover have "flow_ok ?st'"
    proof -
      have "8 dvd unat (reader_next (abuf_dec_rptr ?s))"
        using adv(3) pre by (auto intro: dvd_trans [of 8 16])
      thus ?thesis using adv(2-5) pre ok2(1) \<open>num_mic ?st' = num_mic ?s\<close>
        by (simp add: flow_ok_def audio_ok_def abuf_ok_def frame_at_def)
    qed
    moreover have "packet_of (iso_samples ?s) (iso_bytes (iso_samples ?s))" by (simp add: packet_of_def iso_samples_def)
    ultimately show ?thesis using True ok2(2) unfolding abuf_dec_usb_cases [OF abuf] Let_def by auto
  next
    case False
    have "packet_of [] (replicate 32 0)" by (simp add: packet_of_def)
    thus ?thesis using False ok2(1,2) quiet [of True] unfolding abuf_dec_usb_cases [OF abuf] Let_def by auto
  qed
qed

lemma step_flow:
  assumes ok: "flow_ok st" and f: "flows x st"
  shows "\<exists>bs st' xs. audio_step x st = Some (bs, st') \<and> flow_ok st' \<and> (if bs = [] then xs = [] else packet_of xs bs) \<and>
    xs @ pending st' = pending st @ received x"
proof (cases x)
  case (Notify p)
  have p: "length (take 128 p) = 128" "frame_ok (take 128 p)" using f Notify by (simp_all add: flows_def event_ok_def frame_ok_def)
  have "abuf_ok (st\<lparr>att_mic_rcvd := True\<rparr>)" using ok by (simp add: flow_ok_def audio_ok_def abuf_ok_def)
  then obtain st' where st': "abuf_mic_add (take 128 p) (st\<lparr>att_mic_rcvd := True\<rparr>) = Some st'"
    using mic_add_frames [OF _ p(1)] by blast
  have "flow_ok st' \<and> frames st' = frames st @ [take 128 p] \<and> samples st' = samples st"
    using frames_arrive [OF _ _ p st'] ok f Notify by (simp add: flows_def)
  moreover have "att_mic p st = Some st'"
    using st' f Notify by (simp add: att_mic_def buf_read_def MIC_ADPCM_FRAME_SIZE_def flows_def event_ok_def)
  ultimately show ?thesis using Notify by (simp add: pending_def received_def)
next
  case (Loop t)
  let ?s = "if att_mic_rcvd st then st\<lparr>tick_adpcm := t, att_mic_rcvd := False\<rparr> else st"
  have "flow_ok ?s" "pending ?s = pending st" using ok by (simp_all add: pending_def)
  moreover have "proc_audio t st = abuf_mic_dec ?s" using f Loop by (auto simp: proc_audio_def flows_def clock_time_exceed_def Let_def)
  ultimately show ?thesis using dec_flow [of ?s] Loop by (auto simp: received_def)
next
  case (Iso t)
  then obtain bs st' xs where s: "abuf_dec_usb t st = Some (bs, st')" "flow_ok st'" "packet_of xs bs" "xs @ pending st' = pending st"
    using iso_flow [OF ok] f by blast
  have "bs \<noteq> []" using s(3) length_iso_bytes [of xs] by (auto simp: packet_of_def)
  thus ?thesis using s Iso by (auto simp: received_def)
qed

text \<open>
  While the stream flows, the host hears exactly what the remote sent: the samples of the packets
  played, followed by what is still waiting in the two rings, are what was waiting before followed by the
  decoded frames that arrived, sample for sample, none lost, repeated or reordered.
\<close>

theorem audio_stream_in_order:
  assumes "flow_ok st" "flows_run xs st"
  shows "\<exists>bss st' heard. audio_run xs st = Some (bss, st') \<and> flow_ok st' \<and> list_all2 packet_of heard bss \<and>
    concat heard @ pending st' = pending st @ concat (map received xs)"
  using assms
proof (induction xs arbitrary: st)
  case (Cons x xs)
  obtain bs s1 ys where s: "audio_step x st = Some (bs, s1)" "flow_ok s1" "if bs = [] then ys = [] else packet_of ys bs"
    "ys @ pending s1 = pending st @ received x" using step_flow [OF Cons.prems(1)] Cons.prems(2) by fastforce
  have "flows_run xs s1" using Cons.prems(2) s(1) by simp
  then obtain bss st' heard where r: "audio_run xs s1 = Some (bss, st')" "flow_ok st'" "list_all2 packet_of heard bss"
    "concat heard @ pending st' = pending s1 @ concat (map received xs)" using Cons.IH [OF s(2)] by blast
  show ?case
  proof (cases "bs = []")
    case True
    thus ?thesis using s r by auto
  next
    case False
    hence l: "list_all2 packet_of (ys # heard) (bs # bss)" using s(3) r(3) by simp
    have "concat (ys # heard) @ pending st' = (ys @ pending s1) @ concat (map received xs)" using r(4) by simp
    hence "concat (ys # heard) @ pending st' = pending st @ concat (map received (x # xs))" using s(4) by simp
    moreover have "audio_run (x # xs) st = Some (bs # bss, st')" using s(1) r(1) False by simp
    ultimately show ?thesis using l r(2) by blast
  qed
qed simp


lemma boot_flows: "flow_ok (abuf_boot x)"
  using boot_ok [of x] by (simp add: flow_ok_def) (simp add: abuf_boot_def num_mic_def num_dec_def)

theorem audio_stream_in_order_witness:
  "\<exists>bss st' heard. audio_run [Notify (replicate 128 0), Notify (replicate 128 0), Loop 5, Iso 6] (abuf_boot 0) = Some (bss, st') \<and>
    flow_ok st' \<and> list_all2 packet_of heard bss \<and>
    concat heard @ pending st' = pending (abuf_boot 0) @
      concat (map received [Notify (replicate 128 0), Notify (replicate 128 0), Loop 5, Iso 6])"
proof (rule audio_stream_in_order [OF boot_flows])
  show "flows_run [Notify (replicate 128 0), Notify (replicate 128 0), Loop 5, Iso 6] (abuf_boot 0)" by code_simp
qed


section \<open>The reader at an odd frame\<close>

text \<open>After a reset the reader stands at the writer; for an odd frame number that is not a multiple of sixteen samples.\<close>

lemma reset_leaves_odd_reader:
  assumes "abuf_reset st \<noteq> 0" "odd (unat (abuf_dec_wptr st))"
  shows "\<not> 16 dvd unat (abuf_dec_rptr (iso_prepare t st))"
proof -
  have r: "unat (abuf_dec_rptr (iso_prepare t st)) = unat (abuf_dec_wptr st) * 248"
    using assms(1) reset_reader [of "abuf_dec_wptr st"] by (simp add: iso_prepare_def Let_def MIC_SHORT_DEC_SIZE_def del: of_nat_mult)
  show ?thesis
  proof
    assume "16 dvd unat (abuf_dec_rptr (iso_prepare t st))"
    then obtain k where "unat (abuf_dec_wptr st) * 248 = 16 * k" using r by (auto simp: dvd_def)
    hence "unat (abuf_dec_wptr st) * 31 = 2 * k" by simp
    hence "even (unat (abuf_dec_wptr st) * 31)" by simp
    thus False using assms(2) by simp
  qed
qed

text \<open>
  A reader that stands eight samples off a multiple of sixteen comes to 63480; the packet taken there
  goes past the end of the count, but the code puts the reader to zero instead of eight, so the eight
  samples that ended this packet are heard again at the start of the next one.
\<close>

theorem reader_wrap_repeats_samples:
  assumes "abuf_dec_rptr st = 63480" "abuf_dec_rptr st' = reader_next (abuf_dec_rptr st)" "abuf_dec st' = abuf_dec st"
  shows "take 8 (iso_samples st') = drop 8 (iso_samples st)"
proof -
  have r: "unat (abuf_dec_rptr st) = 63480" "unat (abuf_dec_rptr st') = 0"
    using assms(1,2) by (simp_all add: reader_next_def USB_ISO_IN_SIZE_def MIC_SHORT_DEC_SIZE_def)
  show ?thesis unfolding iso_samples_def r assms(3) by (simp add: upt_rec numeral_2_eq_2)
qed

theorem reader_wrap_repeats_samples_witness:
  "let st = (abuf_boot 0)\<lparr>abuf_dec_rptr := 63480, abuf_dec := map int [0..<992]\<rparr>
   in take 8 (iso_samples (st\<lparr>abuf_dec_rptr := reader_next 63480\<rparr>)) = drop 8 (iso_samples st)"
  unfolding Let_def by (rule reader_wrap_repeats_samples) simp_all

end
