(* ===== verification/Master_Sdp.thy ===== *)
theory Master_Sdp
  imports Prelude
begin

unbundle bit_operations_syntax

text \<open>
  The service discovery of the master dongle, the ATT client of
  \<open>vendor/8258_master_kma_dongle/blm_att.c\<close>: \<open>host_att_discoveryService\<close> asks the slave for its
  characteristics until it answers with something else, and then for the report reference of every
  HID report. A request blocks until the answer or a timeout; what the requests meet is the list of
  their outcomes, \<^const>\<open>None\<close> for a timeout and the 32 bytes copied by
  \<open>host_att_client_handler\<close> otherwise. Reading past these 32 bytes is \<open>Overread\<close>.
\<close>

section \<open>State and answers\<close>

record char16 =
  c_property :: u8
  c_handle :: u16
  c_uuid :: u16
  c_ref :: u16

record char128 =
  d_property :: u8
  d_handle :: u16
  d_uuid :: "u8 list"

datatype 'a sdp = Timeout | Overread | Done 'a

record att_client =
  att_response :: "u8 list option"
  att_req_busy :: u32

definition ATT_OP_READ_BY_TYPE_RSP :: u8 where "ATT_OP_READ_BY_TYPE_RSP = 0x09"
definition ATT_OP_FIND_INFO_RSP :: u8 where "ATT_OP_FIND_INFO_RSP = 0x05"
definition ATT_OP_READ_RSP :: u8 where "ATT_OP_READ_RSP = 0x0b"
definition CHARACTERISTIC_UUID_HID_REPORT :: u16 where "CHARACTERISTIC_UUID_HID_REPORT = 0x2A4D"
definition GATT_UUID_CHARACTER :: u16 where "GATT_UUID_CHARACTER = 0x2803"
definition GATT_UUID_PRIMARY_SERVICE :: u16 where "GATT_UUID_PRIMARY_SERVICE = 0x2800"
definition GATT_UUID_REPORT_REF :: u16 where "GATT_UUID_REPORT_REF = 0x2908"

text \<open>The fields of a packet: length at 2, channel at 4, opcode at 6, element length or format at 7, data at 8.\<close>

definition l2capLen :: "u8 list \<Rightarrow> u16" where "l2capLen p = u16_le (p ! 2) (p ! 3)"
definition chanId :: "u8 list \<Rightarrow> u16" where "chanId p = u16_le (p ! 4) (p ! 5)"
definition opcode :: "u8 list \<Rightarrow> u8" where "opcode p = p ! 6"

definition host_att_client_handler :: "u16 \<Rightarrow> u8 list \<Rightarrow> att_client \<Rightarrow> att_client" where
  "host_att_client_handler connHandle p st =
     (case att_response st of None \<Rightarrow> st
      | Some d \<Rightarrow>
          if ucast connHandle AND 7 = att_req_busy st AND 7 \<and> chanId p = 4 \<and>
             (opcode p = 1 \<or> ucast (opcode p) = drop_bit 16 (att_req_busy st) OR 1)
          then st\<lparr>att_response := Some (take 32 p), att_req_busy := 0\<rparr> else st)"

text \<open>What a request registers before it waits.\<close>

definition att_request :: "u16 \<Rightarrow> u8 list \<Rightarrow> att_client \<Rightarrow> att_client" where
  "att_request handle p st = st\<lparr>att_req_busy := ucast handle OR push_bit 16 (ucast (opcode p)), att_response := Some p\<rparr>"

section \<open>Discovery\<close>

definition dat_at :: "u8 list \<Rightarrow> nat \<Rightarrow> nat \<Rightarrow> u8 list option" where
  "dat_at dat o' n = buf_read o' n dat"

text \<open>The entries of an answer with sixteen bit UUIDs; \<open>o'\<close> is where \<open>pd\<close> points in the 32 bytes.\<close>

fun entries16 :: "nat \<Rightarrow> nat \<Rightarrow> u8 list \<Rightarrow> u16 \<Rightarrow> nat \<Rightarrow> char16 list \<Rightarrow> (u16 \<times> char16 list) option" where
  "entries16 len o' dat s n16 acc =
     (if len > 7 then
        (case dat_at dat o' 7 of None \<Rightarrow> None
         | Some pd \<Rightarrow>
             let s1 = u16_le (pd ! 3) (pd ! 4);
                 c = \<lparr>c_property = pd ! 2, c_handle = s1, c_uuid = u16_le (pd ! 5) (pd ! 6), c_ref = 0\<rparr>
             in entries16 (len - 7) (o' + 7) dat s1 n16 (if length acc < n16 then acc @ [c] else acc))
      else Some (s, acc))"

declare entries16.simps [simp del]

text \<open>The first loop. It takes one outcome for every request and hands on the outcomes that are left.\<close>

fun char_discovery :: "u8 list option list \<Rightarrow> u16 \<Rightarrow> nat \<Rightarrow> nat \<Rightarrow> char16 list \<Rightarrow> char128 list \<Rightarrow>
    (char16 list \<times> char128 list \<times> u8 list option list) sdp" where
  "char_discovery [] s n16 n128 c16 c128 = Timeout"
| "char_discovery (None # os) s n16 n128 c16 c128 = Timeout"
| "char_discovery (Some dat # os) s n16 n128 c16 c128 =
     (if opcode dat \<noteq> ATT_OP_READ_BY_TYPE_RSP then Done (c16, c128, os)
      else if dat ! 7 = 21 then
        let s1 = u16_le (dat ! 11) (dat ! 12);
            c = \<lparr>d_property = dat ! 10, d_handle = s1, d_uuid = take 16 (drop 13 dat)\<rparr>
        in char_discovery os s1 n16 n128 c16 (if length c128 < n128 then c128 @ [c] else c128)
      else if dat ! 7 = 7 then
        (case entries16 (unat (l2capLen dat)) 8 dat s n16 c16 of None \<Rightarrow> Overread
         | Some (s1, c16') \<Rightarrow> char_discovery os s1 n16 n128 c16' c128)
      else char_discovery os s n16 n128 c16 c128)"

text \<open>Looking through an answer of handles and sixteen bit types for the report reference.\<close>

function find_ref :: "int \<Rightarrow> nat \<Rightarrow> u8 list \<Rightarrow> u16 option option" where
  "find_ref n o' dat =
     (if n > 0 then
        (case dat_at dat o' 4 of None \<Rightarrow> None
         | Some pd \<Rightarrow>
             let t = u16_le (pd ! 2) (pd ! 3) in
             if t = GATT_UUID_CHARACTER \<or> t = GATT_UUID_PRIMARY_SERVICE then Some None
             else if t = GATT_UUID_REPORT_REF then Some (Some (ucast (pd ! 0)))
             else find_ref (n - 4) (o' + 4) dat)
      else Some None)"
  by pat_completeness auto
termination by (relation "measure (\<lambda>(n, o', dat). nat n)") auto

declare find_ref.simps [simp del]

fun ref_discovery :: "u8 list option list \<Rightarrow> char16 list \<Rightarrow> char16 list sdp" where
  "ref_discovery os [] = Done []"
| "ref_discovery os (c # cs) =
     (let next = (\<lambda>os c. case ref_discovery os cs of Done cs' \<Rightarrow> Done (c # cs') | e \<Rightarrow> e) in
      if c_uuid c \<noteq> CHARACTERISTIC_UUID_HID_REPORT then next os c
      else (case os of
          [] \<Rightarrow> Timeout
        | None # os1 \<Rightarrow> Timeout
        | Some dat # os1 \<Rightarrow>
            if opcode dat = ATT_OP_FIND_INFO_RSP \<and> dat ! 7 = 1 then
              (case find_ref (int (unat (l2capLen dat)) - 2) 8 dat of
                 None \<Rightarrow> Overread
               | Some None \<Rightarrow> next os1 c
               | Some (Some h) \<Rightarrow>
                   (case os1 of
                      [] \<Rightarrow> Timeout
                    | None # os2 \<Rightarrow> Timeout
                    | Some rd # os2 \<Rightarrow>
                        next os2 (if opcode rd = ATT_OP_READ_RSP then c\<lparr>c_ref := u16_le (rd ! 7) (rd ! 8)\<rparr> else c)))
            else next os1 c))"

definition host_att_discoveryService :: "u8 list option list \<Rightarrow> nat \<Rightarrow> nat \<Rightarrow> (char16 list \<times> char128 list) sdp" where
  "host_att_discoveryService os n16 n128 =
     (case char_discovery os 1 n16 n128 [] [] of
        Timeout \<Rightarrow> Timeout
      | Overread \<Rightarrow> Overread
      | Done (c16, c128, os1) \<Rightarrow>
          (case ref_discovery os1 c16 of Timeout \<Rightarrow> Timeout | Overread \<Rightarrow> Overread | Done c16' \<Rightarrow> Done (c16', c128)))"

section \<open>A slave that answers as the specification says\<close>

datatype answer = Short_answer "(u16 \<times> char16) list" | Long_answer u16 char128

text \<open>The declarations in an answer carry their own handle, which the dongle skips, before the value.\<close>

definition entry_bytes :: "u16 \<times> char16 \<Rightarrow> u8 list" where
  "entry_bytes e = le16 (fst e) @ [c_property (snd e)] @ le16 (c_handle (snd e)) @ le16 (c_uuid (snd e))"

definition answer_bytes :: "answer \<Rightarrow> u8 list" where
  "answer_bytes a = (case a of
     Short_answer es \<Rightarrow> [2, 0] @ le16 (of_nat (2 + 7 * length es)) @ le16 4 @ [ATT_OP_READ_BY_TYPE_RSP, 7] @ concat (map entry_bytes es)
   | Long_answer d c \<Rightarrow> [2, 0] @ le16 23 @ le16 4 @ [ATT_OP_READ_BY_TYPE_RSP, 21] @ le16 d @ [d_property c] @ le16 (d_handle c) @ d_uuid c)"

definition answer_ok :: "answer \<Rightarrow> bool" where
  "answer_ok a \<longleftrightarrow> (case a of
     Short_answer es \<Rightarrow> length es \<le> 3 \<and> list_all (\<lambda>e. c_ref (snd e) = 0) es
   | Long_answer d c \<Rightarrow> length (d_uuid c) = 16)"

text \<open>An outcome that holds the bytes of an answer, followed by whatever else was in the packet buffer.\<close>

definition answers :: "answer \<Rightarrow> u8 list option \<Rightarrow> bool" where
  "answers a x \<longleftrightarrow> (\<exists>pad. x = Some (answer_bytes a @ pad) \<and> length (answer_bytes a @ pad) = 32)"

definition shorts :: "answer \<Rightarrow> char16 list" where
  "shorts a = (case a of Short_answer es \<Rightarrow> map snd es | Long_answer d c \<Rightarrow> [])"

definition longs :: "answer \<Rightarrow> char128 list" where
  "longs a = (case a of Short_answer es \<Rightarrow> [] | Long_answer d c \<Rightarrow> [c])"

lemma length_entry_bytes [simp]: "length (entry_bytes e) = 7"
  by (simp add: entry_bytes_def)

lemma entry_read:
  assumes "c_ref (snd e) = 0"
  shows "\<lparr>c_property = entry_bytes e ! 2, c_handle = u16_le (entry_bytes e ! 3) (entry_bytes e ! 4),
     c_uuid = u16_le (entry_bytes e ! 5) (entry_bytes e ! 6), c_ref = 0\<rparr> = snd e"
  using assms by (cases "snd e") (simp add: entry_bytes_def le16_def u16_le_split)

lemma take_add_one: "take n (xs @ y # ys) = (if length xs < n then take n ((xs @ [y]) @ ys) else take n xs)"
  by simp

lemma entries16_reads:
  assumes "list_all (\<lambda>e. c_ref (snd e) = 0) es" "length acc \<le> n16"
    "length pre = o'" "len = 2 + 7 * length es"
  shows "\<exists>s'. entries16 len o' (pre @ concat (map entry_bytes es) @ post) s n16 acc = Some (s', take n16 (acc @ map snd es))"
  using assms
proof (induction es arbitrary: len o' pre s acc)
  case Nil
  thus ?case by (simp add: entries16.simps)
next
  case (Cons e es)
  let ?dat = "pre @ concat (map entry_bytes (e # es)) @ post"
  have pd: "dat_at ?dat o' 7 = Some (entry_bytes e)"
    using Cons.prems(3) by (simp add: dat_at_def buf_read_def)
  let ?acc = "if length acc < n16 then acc @ [snd e] else acc"
  have ok: "list_all (\<lambda>e. c_ref (snd e) = 0) es" and accle: "length ?acc \<le> n16" and pre: "length (pre @ entry_bytes e) = o' + 7"
    using Cons.prems(1-3) by simp_all
  have dat: "?dat = (pre @ entry_bytes e) @ concat (map entry_bytes es) @ post" by simp
  obtain s' where s': "entries16 (2 + 7 * length es) (o' + 7) ?dat (u16_le (entry_bytes e ! 3) (entry_bytes e ! 4)) n16 ?acc =
      Some (s', take n16 (?acc @ map snd es))"
    unfolding dat using Cons.IH [OF ok accle pre refl] by blast
  have cut: "take n16 (?acc @ map snd es) = take n16 (acc @ map snd (e # es))" using Cons.prems(2) by (simp add: take_Cons')
  have step: "entries16 len o' ?dat s n16 acc =
      entries16 (2 + 7 * length es) (o' + 7) ?dat (u16_le (entry_bytes e ! 3) (entry_bytes e ! 4)) n16 ?acc"
    using pd entry_read [of e] Cons.prems(1,4) by (subst entries16.simps) (simp add: Let_def)
  show ?case unfolding step s' cut by blast
qed

lemma answer_parts:
  assumes "answer_ok a" "answers a (Some dat)"
  shows "opcode dat = ATT_OP_READ_BY_TYPE_RSP" "unat (l2capLen dat) = (case a of Short_answer es \<Rightarrow> 2 + 7 * length es | _ \<Rightarrow> 23)"
    "dat ! 7 = (case a of Short_answer es \<Rightarrow> 7 | _ \<Rightarrow> 21)"
proof -
  obtain pad where d: "dat = answer_bytes a @ pad" using assms(2) by (auto simp: answers_def)
  have len: "unat (of_nat (2 + 7 * length es) :: u16) = 2 + 7 * length es" if "length es \<le> 3" for es :: "(u16 \<times> char16) list"
    using that by (intro unat_of_nat_small) simp
  show "opcode dat = ATT_OP_READ_BY_TYPE_RSP" "dat ! 7 = (case a of Short_answer es \<Rightarrow> 7 | _ \<Rightarrow> 21)"
    by (cases a; simp add: d answer_bytes_def opcode_def le16_def)+
  show "unat (l2capLen dat) = (case a of Short_answer es \<Rightarrow> 2 + 7 * length es | _ \<Rightarrow> 23)"
  proof (cases a)
    case (Short_answer es)
    hence "l2capLen dat = of_nat (2 + 7 * length es)"
      by (simp add: d answer_bytes_def l2capLen_def le16_def u16_le_split del: of_nat_add of_nat_mult)
    thus ?thesis using len [of es] assms(1) Short_answer by (simp add: answer_ok_def del: of_nat_add of_nat_mult)
  next
    case (Long_answer h c)
    thus ?thesis by (simp add: d answer_bytes_def l2capLen_def le16_def u16_le_def)
  qed
qed

lemma take_append_take: "take n (take n xs @ ys) = take n (xs @ ys)"
  by (cases "length xs \<le> n") simp_all

text \<open>
  C34. The discovery collects the characteristics of the slave: from any sequence of well formed answers,
  up to three entries with sixteen bit UUIDs or one with a long UUID in each, and a last packet that is no
  answer, it returns the first \<open>n16\<close> and the first \<open>n128\<close> of them in order, whatever follows the
  answers in the packet buffers.
\<close>

theorem discovery_collects_characteristics:
  assumes "list_all answer_ok as" "list_all2 answers as os" "opcode stop \<noteq> ATT_OP_READ_BY_TYPE_RSP"
    and "length c16 \<le> n16" "length c128 \<le> n128"
  shows "char_discovery (os @ Some stop # rest) s n16 n128 c16 c128 =
    Done (take n16 (c16 @ concat (map shorts as)), take n128 (c128 @ concat (map longs as)), rest)"
  using assms
proof (induction as arbitrary: os s c16 c128)
  case (Cons a as)
  obtain x os' where os: "os = x # os'" "answers a x" "list_all2 answers as os'" using Cons.prems(2) by (auto simp: list_all2_Cons1)
  then obtain pad where x: "x = Some (answer_bytes a @ pad)" "length (answer_bytes a @ pad) = 32" by (auto simp: answers_def)
  let ?dat = "answer_bytes a @ pad"
  have ok: "answer_ok a" "list_all answer_ok as" using Cons.prems(1) by simp_all
  have parts: "opcode ?dat = ATT_OP_READ_BY_TYPE_RSP" "unat (l2capLen ?dat) = (case a of Short_answer es \<Rightarrow> 2 + 7 * length es | _ \<Rightarrow> 23)"
    "?dat ! 7 = (case a of Short_answer es \<Rightarrow> 7 | _ \<Rightarrow> 21)" using answer_parts [OF ok(1)] os(2) x(1) by auto
  show ?case
  proof (cases a)
    case (Short_answer es)
    have dat: "?dat = ([2, 0] @ le16 (of_nat (2 + 7 * length es)) @ le16 4 @ [ATT_OP_READ_BY_TYPE_RSP, 7]) @ concat (map entry_bytes es) @ pad"
      by (simp add: answer_bytes_def Short_answer)
    have es: "list_all (\<lambda>e. c_ref (snd e) = 0) es" using ok(1) Short_answer by (simp add: answer_ok_def)
    have "\<exists>s1. entries16 (2 + 7 * length es) 8 ?dat s n16 c16 = Some (s1, take n16 (c16 @ map snd es))"
      unfolding dat by (rule entries16_reads [OF es Cons.prems(4)]) simp_all
    then obtain s1 where s1: "entries16 (2 + 7 * length es) 8 ?dat s n16 c16 = Some (s1, take n16 (c16 @ map snd es))" ..
    have l: "unat (l2capLen ?dat) = 2 + 7 * length es" "?dat ! 7 = 7" using parts Short_answer by simp_all
    have "length (take n16 (c16 @ map snd es)) \<le> n16" by simp
    note rest = Cons.IH [OF ok(2) os(3) Cons.prems(3) this Cons.prems(5), of s1]
    have "char_discovery ((x # os') @ Some stop # rest) s n16 n128 c16 c128 =
        char_discovery (os' @ Some stop # rest) s1 n16 n128 (take n16 (c16 @ map snd es)) c128"
      unfolding x(1) using parts(1) l s1 by simp
    moreover have "concat (map shorts (a # as)) = map snd es @ concat (map shorts as)"
      "concat (map longs (a # as)) = concat (map longs as)" by (simp_all add: shorts_def longs_def Short_answer)
    ultimately show ?thesis unfolding os(1) rest take_append_take by (simp only: append_assoc rest take_append_take)
  next
    case (Long_answer h c)
    have u: "length (d_uuid c) = 16" using ok(1) Long_answer by (simp add: answer_ok_def)
    have d: "?dat ! 7 = 21" using parts(3) Long_answer by simp
    have c: "\<lparr>d_property = ?dat ! 10, d_handle = u16_le (?dat ! 11) (?dat ! 12), d_uuid = take 16 (drop 13 ?dat)\<rparr> = c"
      using u by (cases c) (simp add: answer_bytes_def Long_answer le16_def u16_le_split)
    let ?c = "if length c128 < n128 then c128 @ [c] else c128"
    have "length ?c \<le> n128" using Cons.prems(5) by simp
    note rest = Cons.IH [OF ok(2) os(3) Cons.prems(3,4) this]
    have "char_discovery ((x # os') @ Some stop # rest) s n16 n128 c16 c128 =
        char_discovery (os' @ Some stop # rest) (u16_le (?dat ! 11) (?dat ! 12)) n16 n128 c16 ?c"
      unfolding x(1) using parts(1) d c by (simp add: Let_def)
    moreover have "take n128 (?c @ ys) = take n128 (c128 @ [c] @ ys)" for ys
      using Cons.prems(5) by (simp add: take_Cons')
    moreover have "concat (map shorts (a # as)) = concat (map shorts as)"
      "concat (map longs (a # as)) = [c] @ concat (map longs as)" by (simp_all add: shorts_def longs_def Long_answer)
    ultimately show ?thesis unfolding os(1) by (simp only: rest)
  qed
qed simp

lemma discovery_collects_characteristics_witness:
  "char_discovery ([Some (answer_bytes (Short_answer [(1, \<lparr>c_property = 18, c_handle = 22, c_uuid = 0x2A4D, c_ref = 0\<rparr>)]) @ replicate 17 0xff)] @
      Some (replicate 32 1) # []) 1 20 8 [] [] =
    Done (take 20 ([] @ concat (map shorts [Short_answer [(1, \<lparr>c_property = 18, c_handle = 22, c_uuid = 0x2A4D, c_ref = 0\<rparr>)]])),
      take 8 ([] @ concat (map longs [Short_answer [(1, \<lparr>c_property = 18, c_handle = 22, c_uuid = 0x2A4D, c_ref = 0\<rparr>)]])), [])"
  by (rule discovery_collects_characteristics)
    (simp_all add: answer_ok_def answers_def answer_bytes_def le16_def opcode_def ATT_OP_READ_BY_TYPE_RSP_def)

lemma entries16_step:
  assumes "len > 7" "o' + 7 \<le> length dat"
  shows "\<exists>s' acc'. entries16 len o' dat s n16 acc = entries16 (len - 7) (o' + 7) dat s' n16 acc'"
  using assms by (subst entries16.simps) (simp add: dat_at_def buf_read_def Let_def, blast)

lemma entries16_stops: "\<not> len > 7 \<Longrightarrow> entries16 len o' dat s n16 acc = Some (s, acc)"
  by (simp add: entries16.simps)

lemma entries16_overread:
  assumes "length dat = 32"
  shows "entries16 len 8 dat s n16 acc = None \<longleftrightarrow> len > 28"
proof (cases "len > 28")
  case True
  obtain s1 a1 where 1: "entries16 len 8 dat s n16 acc = entries16 (len - 7) 15 dat s1 n16 a1"
    using entries16_step [of len 8 dat] True assms by force
  obtain s2 a2 where 2: "entries16 (len - 7) 15 dat s1 n16 a1 = entries16 (len - 14) 22 dat s2 n16 a2"
    using entries16_step [of "len - 7" 15 dat] True assms by force
  obtain s3 a3 where 3: "entries16 (len - 14) 22 dat s2 n16 a2 = entries16 (len - 21) 29 dat s3 n16 a3"
    using entries16_step [of "len - 14" 22 dat] True assms by force
  have "entries16 (len - 21) 29 dat s3 n16 a3 = None"
    using True assms by (subst entries16.simps) (simp add: dat_at_def buf_read_def)
  thus ?thesis using 1 2 3 True by simp
next
  case False
  have a: "\<exists>x. entries16 l 29 dat s n16 acc = Some x" if "l \<le> 7" for l s acc using that entries16_stops by simp
  have b: "\<exists>x. entries16 l 22 dat s n16 acc = Some x" if "l \<le> 14" for l s acc
    using a [of "l - 7"] entries16_step [of l 22 dat s n16 acc] entries16_stops [of l 22 dat s n16 acc] that assms
    by (cases "l > 7") fastforce+
  have c: "\<exists>x. entries16 l 15 dat s n16 acc = Some x" if "l \<le> 21" for l s acc
    using b [of "l - 7"] entries16_step [of l 15 dat s n16 acc] entries16_stops [of l 15 dat s n16 acc] that assms
    by (cases "l > 7") fastforce+
  have "\<exists>x. entries16 len 8 dat s n16 acc = Some x"
    using c [of "len - 7"] entries16_step [of len 8 dat s n16 acc] entries16_stops [of len 8 dat s n16 acc] False assms
    by (cases "len > 7") fastforce+
  thus ?thesis using False by auto
qed

text \<open>
  The discovery trusts the length of an answer: only 32 bytes of it were copied, and the dongle reads
  past them exactly when an answer of entries with sixteen bit UUIDs announces more than 28 bytes. The
  dongle allows answers of up to 150 bytes.
\<close>

theorem discovery_reads_past_answer:
  assumes "length dat = 32" "opcode dat = ATT_OP_READ_BY_TYPE_RSP" "dat ! 7 = 7"
  shows "char_discovery [Some dat, None] s n16 n128 c16 c128 = (if unat (l2capLen dat) > 28 then Overread else Timeout)"
proof -
  have "char_discovery [Some dat, None] s n16 n128 c16 c128 =
      (case entries16 (unat (l2capLen dat)) 8 dat s n16 c16 of None \<Rightarrow> Overread | Some x \<Rightarrow> Timeout)"
    using assms(2,3) by (simp split: option.splits)
  thus ?thesis using entries16_overread [OF assms(1), of "unat (l2capLen dat)" s n16 c16]
    by (auto split: option.splits)
qed

definition wide_answer :: "u8 list" where
  "wide_answer = [2, 0] @ le16 37 @ le16 4 @ [9, 7] @ replicate 24 0"

lemma discovery_reads_past_answer_witness:
  "char_discovery [Some wide_answer, None] 1 20 8 [] [] = (if unat (l2capLen wide_answer) > 28 then Overread else Timeout) \<and>
    unat (l2capLen wide_answer) = 37"
  using discovery_reads_past_answer [of wide_answer 1 20 8 "[]" "[]"]
  by (simp add: wide_answer_def opcode_def l2capLen_def le16_def u16_le_def ATT_OP_READ_BY_TYPE_RSP_def)


end
