(* ===== verification/Button.thy ===== *)
theory Button
  imports Prelude
begin

unbundle bit_operations_syntax

text \<open>
  The two buttons of the master dongle, \<open>vendor/8258_master_kma_dongle/button.c\<close>: the debounce
  filter and the detection of changes. \<open>levels\<close> are the levels of the two pins.
\<close>

section \<open>State and operations\<close>

definition MAX_BTN_SIZE :: nat where "MAX_BTN_SIZE = 2"
definition BTN_VALID_LEVEL :: nat where "BTN_VALID_LEVEL = 0"
definition BTN_PAIR :: u8 where "BTN_PAIR = 0x01"
definition BTN_UNPAIR :: u8 where "BTN_UNPAIR = 0x02"
definition btn_map :: "u8 list" where "btn_map = [BTN_PAIR, BTN_UNPAIR]"

record vc_data =
  vc_cnt :: u8
  btn_press :: u8
  vc_keycode :: "u8 list"

record btn_status =
  btn_history :: "u8 list"
  btn_filter_last :: u8
  vc_event :: vc_data

definition btn_debounce_filter :: "u8 \<Rightarrow> btn_status \<Rightarrow> bool \<times> btn_status" where
  "btn_debounce_filter btn_v st =
     (let h = [btn_v, btn_history st ! 0, btn_history st ! 1, btn_history st ! 2];
          st1 = st\<lparr>btn_history := h\<rparr>
      in if h ! 0 = h ! 1 \<and> h ! 1 = h ! 2 \<and> h ! 0 \<noteq> btn_filter_last st1
         then (True, st1\<lparr>btn_filter_last := h ! 0\<rparr>) else (False, st1))"

text \<open>The first loop: a pin whose level, negated by \<open>!\<close>, is not the valid level counts as pressed.\<close>

definition btn_pressed :: "bool \<Rightarrow> bool" where
  "btn_pressed level \<longleftrightarrow> BTN_VALID_LEVEL \<noteq> (if level then 0 else 1)"

definition read_buttons :: "bool list \<Rightarrow> u8" where
  "read_buttons levels = fold (\<lambda>i v. if btn_pressed (levels ! i) then v OR push_bit i 1 else v) [0..<MAX_BTN_SIZE] 0"

definition add_key :: "nat \<Rightarrow> vc_data \<Rightarrow> vc_data" where
  "add_key i d = (if btn_press d AND push_bit i 1 \<noteq> 0
     then d\<lparr>vc_keycode := (vc_keycode d)[unat (vc_cnt d) := btn_map ! i], vc_cnt := vc_cnt d + 1\<rparr> else d)"

definition vc_detect_button :: "bool \<Rightarrow> bool list \<Rightarrow> btn_status \<Rightarrow> bool \<times> btn_status" where
  "vc_detect_button read_key levels st =
     (let v = \<lparr>vc_cnt = 0, btn_press = read_buttons levels, vc_keycode = replicate MAX_BTN_SIZE 0\<rparr>;
          (changed, st1) = btn_debounce_filter (btn_press v) (st\<lparr>vc_event := v\<rparr>)
      in if changed \<and> read_key
         then (True, st1\<lparr>vc_event := fold add_key [0..<MAX_BTN_SIZE] (vc_event st1)\<rparr>) else (False, st1))"

definition btn_boot :: btn_status where
  "btn_boot = \<lparr>btn_history = replicate 4 0, btn_filter_last = 0,
     vc_event = \<lparr>vc_cnt = 0, btn_press = 0, vc_keycode = replicate MAX_BTN_SIZE 0\<rparr>\<rparr>"

section \<open>What a detection sees\<close>

lemma read_buttons_cases:
  "read_buttons [a, b] = (if a then (if b then 0 else 2) else (if b then 1 else 3))"
  by (simp add: read_buttons_def MAX_BTN_SIZE_def btn_pressed_def BTN_VALID_LEVEL_def upt_rec)

text \<open>The keys that a pattern of pressed buttons stands for.\<close>

definition keys_of :: "bool list \<Rightarrow> u8 list" where
  "keys_of levels = map fst (filter (\<lambda>(k, l). \<not> l) (zip btn_map levels))"

definition event_keys :: "btn_status \<Rightarrow> u8 list" where
  "event_keys st = take (unat (vc_cnt (vc_event st))) (vc_keycode (vc_event st))"

text \<open>The filtered state after a series of samples: the last value seen three times in a row.\<close>

fun settled :: "u8 \<Rightarrow> u8 \<Rightarrow> u8 \<Rightarrow> u8 list \<Rightarrow> u8" where
  "settled p q s [] = s"
| "settled p q s (v # vs) = settled v p (if v = p \<and> p = q then v else s) vs"

fun detect_all :: "bool list list \<Rightarrow> btn_status \<Rightarrow> u8 list list \<times> btn_status" where
  "detect_all [] st = ([], st)"
| "detect_all (l # ls) st =
     (let (ch, st1) = vc_detect_button True l st; (es, st2) = detect_all ls st1
      in ((if ch then event_keys st1 # es else es), st2))"

text \<open>The changes of the settled state, and the keys of each.\<close>

fun changes :: "u8 \<Rightarrow> u8 \<Rightarrow> u8 \<Rightarrow> bool list list \<Rightarrow> u8 list list" where
  "changes p q s [] = []"
| "changes p q s (l # ls) =
     (let v = read_buttons l; s' = (if v = p \<and> p = q then v else s)
      in (if s' = s then [] else [keys_of l]) @ changes v p s' ls)"

lemma detect_step:
  assumes "length (btn_history st) = 4" "length l = 2"
  shows "let (ch, st1) = vc_detect_button True l st; v = read_buttons l; p = btn_history st ! 0;
           s' = (if v = p \<and> p = btn_history st ! 1 then v else btn_filter_last st)
         in ch = (s' \<noteq> btn_filter_last st) \<and> btn_filter_last st1 = s' \<and>
            btn_history st1 = [v, p, btn_history st ! 1, btn_history st ! 2] \<and> (ch \<longrightarrow> event_keys st1 = keys_of l)"
proof -
  obtain a b where l: "l = [a, b]" using assms(2) by (auto simp: length_Suc_conv numeral_2_eq_2)
  have n: "replicate MAX_BTN_SIZE (0 :: u8) = [0, 0]" "[0..<MAX_BTN_SIZE] = [0, 1]"
    by (simp_all add: MAX_BTN_SIZE_def upt_rec numeral_2_eq_2)
  show ?thesis unfolding l
    by (cases a; cases b) (auto simp: vc_detect_button_def btn_debounce_filter_def Let_def read_buttons_cases
        event_keys_def add_key_def n keys_of_def btn_map_def)
qed

text \<open>
  C35. The dongle reports exactly the settled changes of its buttons: over any series of samples the
  filtered state is the last pattern seen three times in a row, and an event is raised exactly when
  it changes, with the pressed buttons as its keys, the pairing button first.
\<close>

theorem buttons_report_settled_changes:
  assumes "length (btn_history st) = 4" "list_all (\<lambda>l. length l = 2) ls"
  shows "fst (detect_all ls st) = changes (btn_history st ! 0) (btn_history st ! 1) (btn_filter_last st) ls \<and>
    btn_filter_last (snd (detect_all ls st)) =
      settled (btn_history st ! 0) (btn_history st ! 1) (btn_filter_last st) (map read_buttons ls)"
  using assms
proof (induction ls arbitrary: st)
  case (Cons l ls)
  obtain ch st1 where d: "vc_detect_button True l st = (ch, st1)" by force
  obtain es st2 where r: "detect_all ls st1 = (es, st2)" by force
  have l: "length l = 2" "list_all (\<lambda>l. length l = 2) ls" using Cons.prems(2) by simp_all
  note step = detect_step [OF Cons.prems(1) l(1), unfolded d, simplified Let_def prod.case]
  have "length (btn_history st1) = 4" using step by simp
  note IH = Cons.IH [OF this l(2), unfolded r]
  show ?case using step IH d r by (auto simp: Let_def)
qed simp

lemma buttons_report_settled_changes_witness:
  "fst (detect_all [[False, True], [False, True], [False, True], [True, True]] btn_boot) = [[BTN_PAIR]]"
proof -
  have "fst (detect_all [[False, True], [False, True], [False, True], [True, True]] btn_boot) =
      changes (btn_history btn_boot ! 0) (btn_history btn_boot ! 1) (btn_filter_last btn_boot)
        [[False, True], [False, True], [False, True], [True, True]]"
    by (rule conjunct1 [OF buttons_report_settled_changes]) (simp_all add: btn_boot_def)
  thus ?thesis by (simp add: btn_boot_def read_buttons_cases Let_def keys_of_def btn_map_def)
qed

end
