(* ===== verification/Runs.thy ===== *)
theory Runs
  imports Prelude "HOL-Library.Monad_Syntax"
begin

text \<open>
  Histories: a component that reacts to events is a step function that may fail (a read or write outside
  its memory) and that produces outputs. A run is the fold of the steps. The locale \<open>safe_steps\<close> is the
  contract between the steps of a component and its histories: from a state in the invariant, an event
  that keeps its promise leads to a state in the invariant.
\<close>

fun run_steps :: "('e \<Rightarrow> 's \<Rightarrow> ('s \<times> 'o list) option) \<Rightarrow> 'e list \<Rightarrow> 's \<Rightarrow> ('s \<times> 'o list) option" where
  "run_steps step [] st = Some (st, [])"
| "run_steps step (x # xs) st = do {
     (st1, o1) \<leftarrow> step x st;
     (st2, o2) \<leftarrow> run_steps step xs st1;
     Some (st2, o1 @ o2)
   }"

lemma run_steps_append:
  "run_steps step (xs @ ys) st =
    do { (s1, o1) \<leftarrow> run_steps step xs st; (s2, o2) \<leftarrow> run_steps step ys s1; Some (s2, o1 @ o2) }"
  by (induction xs arbitrary: st) (auto split: Option.bind_splits)

lemma run_steps_snoc:
  assumes "run_steps step (xs @ [x]) st = Some (s2, out)"
  obtains s1 o1 o2 where "run_steps step xs st = Some (s1, o1)" "step x s1 = Some (s2, o2)" "out = o1 @ o2"
  using assms that unfolding run_steps_append by (auto split: Option.bind_split_asm)

locale safe_steps =
  fixes step :: "'e \<Rightarrow> 's \<Rightarrow> ('s \<times> 'o list) option"
    and inv :: "'s \<Rightarrow> bool"
    and ok :: "'e \<Rightarrow> bool"
  assumes step_safe: "inv st \<Longrightarrow> ok x \<Longrightarrow> \<exists>st' out. step x st = Some (st', out) \<and> inv st'"
begin

lemma run_safe: "inv st \<Longrightarrow> list_all ok xs \<Longrightarrow> \<exists>st' out. run_steps step xs st = Some (st', out) \<and> inv st'"
proof (induction xs arbitrary: st)
  case (Cons x xs)
  then obtain s1 o1 where s1: "step x st = Some (s1, o1)" "inv s1" using step_safe by fastforce
  then obtain s2 o2 where "run_steps step xs s1 = Some (s2, o2)" "inv s2" using Cons by fastforce
  thus ?case using s1(1) by simp
qed simp

lemma run_keeps: "inv st \<Longrightarrow> list_all ok xs \<Longrightarrow> run_steps step xs st = Some (st', out) \<Longrightarrow> inv st'"
  using run_safe by fastforce

end

end
