(* ===== verification/Master_Host.thy ===== *)
theory Master_Host
  imports Pair_Table Usb_Hid Master_Audio Master_Ota Master_Sdp Button Runs
begin

unbundle bit_operations_syntax

text \<open>
  The host side of the master dongle, \<open>vendor/8258_master_kma_dongle/blm_host.c\<close> with the handlers
  of \<open>blm_att.c\<close>, \<open>button.c\<close> and the main loop of \<open>app.c\<close>: it composes the bonding table, the HID
  reports, the audio buffers, the firmware update, the service discovery and the buttons. Events of
  the controller and L2CAP packets arrive through callbacks; an event is the list of bytes at its
  pointer, and reading past them is \<^const>\<open>None\<close>. The link layer, the packing of L2CAP fragments
  and the search functions over discovered characteristics are in the binary stack: their results
  are parameters, their calls outputs.
\<close>

section \<open>State and outputs\<close>

record 'f host =
  ctl :: "'f pair_ctl"
  man_mac_type :: u8
  man_mac :: "u8 list"
  dongle_pairing_enable :: bool
  conn_handle :: u16
  mac_adrType :: u8
  mac_addr :: "u8 list"
  app_host_smp_sdp_pending :: nat
  main_service :: bool
  sdp_running :: "bool option"
  serviceDiscovery_adr_type :: u8
  serviceDiscovery_address :: "u8 list"
  conn_char_handler :: "u8 list"
  host_update_conn_param_req :: u32
  host_update_conn_min :: u16
  host_update_conn_latency :: u16
  host_update_conn_timeout :: u16
  master_connected_led_on :: bool
  kb_dat_report :: kb_data
  keyboard_not_release :: bool
  att :: att_client
  hid :: hid_st
  audio :: abuf
  ota :: ota_st
  btn :: btn_status
  button_detect_en :: bool
  button_detect_tick :: u32
  button_history :: u32
  last_singleKey_press_tick :: u32
  button0_press_flag :: bool
  button0_press_tick :: u32
  button1_press_flag :: bool
  button1_press_tick :: u32

datatype host_out =
    Create_connection u8 "u8 list"
  | Scan_again
  | Conn_led bool
  | Param_response u16 u8 bool
  | Link_update u16 u16 u16 u16
  | Mtu_response u16 u16
  | Disconnect u16
  | Update ota_out

definition SDP_PENDING :: nat where "SDP_PENDING = 2"

definition telink_adv_trigger_paring_8258 :: "u8 list" where
  "telink_adv_trigger_paring_8258 = [7, 0xFF, 0x11, 0x02, 0x01, 0x00, 0x58, 0x82]"

definition telink_adv_trigger_unpair_8258 :: "u8 list" where
  "telink_adv_trigger_unpair_8258 = [7, 0xFF, 0x11, 0x02, 0x01, 0x01, 0x58, 0x82]"

definition HCI_FLAG_EVENT_BT_STD :: u32 where "HCI_FLAG_EVENT_BT_STD = push_bit 25 1"
definition HCI_CMD_DISCONNECTION_COMPLETE :: u8 where "HCI_CMD_DISCONNECTION_COMPLETE = 0x05"
definition HCI_EVT_LE_META :: u8 where "HCI_EVT_LE_META = 0x3E"
definition HCI_SUB_EVT_LE_ADVERTISING_REPORT :: u8 where "HCI_SUB_EVT_LE_ADVERTISING_REPORT = 0x02"
definition HCI_SUB_EVT_LE_CONNECTION_UPDATE_COMPLETE :: u8 where "HCI_SUB_EVT_LE_CONNECTION_UPDATE_COMPLETE = 0x03"
definition HCI_SUB_EVT_LE_CONNECTION_COMPLETE :: u8 where "HCI_SUB_EVT_LE_CONNECTION_COMPLETE = 0x01"
definition HCI_SUB_EVT_LE_CONNECTION_ESTABLISH :: u8 where "HCI_SUB_EVT_LE_CONNECTION_ESTABLISH = 0x20"
definition BLE_INVALID_CONNECTION_HANDLE :: u16 where "BLE_INVALID_CONNECTION_HANDLE = 0xffff"
definition TELINK_UNPAIR_KEYVALUE :: u8 where "TELINK_UNPAIR_KEYVALUE = 0xFF"

lemmas hci_codes = HCI_FLAG_EVENT_BT_STD_def HCI_CMD_DISCONNECTION_COMPLETE_def HCI_EVT_LE_META_def
  HCI_SUB_EVT_LE_ADVERTISING_REPORT_def HCI_SUB_EVT_LE_CONNECTION_UPDATE_COMPLETE_def
  HCI_SUB_EVT_LE_CONNECTION_COMPLETE_def HCI_SUB_EVT_LE_CONNECTION_ESTABLISH_def

text \<open>Single bytes of an event, and \<open>memcmp\<close> against a constant, which stops at the first difference.\<close>

definition byte_at :: "u8 list \<Rightarrow> nat \<Rightarrow> u8 option" where
  "byte_at p i = (if i < length p then Some (p ! i) else None)"

definition u16_at :: "u8 list \<Rightarrow> nat \<Rightarrow> u16 option" where
  "u16_at p i = (if i + 1 < length p then Some (u16_le (p ! i) (p ! (i + 1))) else None)"

fun starts_with :: "u8 list \<Rightarrow> nat \<Rightarrow> u8 list \<Rightarrow> bool option" where
  "starts_with p i [] = Some True"
| "starts_with p i (b # bs) =
     (if i < length p then if p ! i = b then starts_with p (i + 1) bs else Some False else None)"

section \<open>Events of the controller\<close>

text \<open>\<open>create_ok\<close>: \<open>blc_ll_createConnection\<close> returned success; \<open>t\<close> is the clock.\<close>

definition adv_manual :: "bool \<Rightarrow> u8 list \<Rightarrow> int \<Rightarrow> bool option" where
  "adv_manual pairing p rssi =
     (if pairing \<and> rssi > - 56 then Some True
      else map_option (\<lambda>b. b \<and> rssi > - 56) (starts_with p 11 telink_adv_trigger_paring_8258))"

definition blm_le_adv_report_event_handle ::
  "(u8 list \<Rightarrow> 'f \<Rightarrow> 'f) \<Rightarrow> bool \<Rightarrow> u32 \<Rightarrow> u8 list \<Rightarrow> 'f host \<Rightarrow> ('f host \<times> host_out list) option" where
  "blm_le_adv_report_event_handle xfer create_ok t p st = do {
     len \<leftarrow> byte_at p 10;
     rssi \<leftarrow> map_option sint (byte_at p (11 + unat len));
     if app_host_smp_sdp_pending st \<noteq> 0 then Some (st, [])
     else do {
       manual \<leftarrow> adv_manual (dongle_pairing_enable st) p rssi;
       ty \<leftarrow> byte_at p 3;
       mac \<leftarrow> buf_read 4 6 p;
       let known = (user_tbl_slave_mac_search ty mac (slave_tbl (ctl st)) \<noteq> 0);
       let connect = (known \<or> manual);
       let st1 = (if connect \<and> create_ok \<and> manual \<and> \<not> known
                  then st\<lparr>ctl := (ctl st)\<lparr>manual_pair := 1, pair_tick := t\<rparr>, man_mac_type := ty, man_mac := mac\<rparr> else st);
       unpair \<leftarrow> starts_with p 11 telink_adv_trigger_unpair_8258;
       let st2 = (if unpair \<and> user_tbl_slave_mac_search ty mac (slave_tbl (ctl st1)) \<noteq> 0
                  then st1\<lparr>ctl := (ctl st1)\<lparr>slave_tbl :=
                    snd (user_tbl_slave_mac_delete_by_adr xfer ty mac (slave_tbl (ctl st1)))\<rparr>\<rparr> else st1);
       Some (st2, if connect then [Create_connection ty mac] else [])
     }
   }"

definition blm_le_connection_establish_event_handle ::
  "(u8 list \<Rightarrow> 'f \<Rightarrow> 'f) \<Rightarrow> u8 list \<Rightarrow> 'f host \<Rightarrow> ('f host \<times> host_out list) option" where
  "blm_le_connection_establish_event_handle xfer p st = do {
     status \<leftarrow> byte_at p 1;
     if status \<noteq> 0 then Some (st, [])
     else do {
       h \<leftarrow> u16_at p 2;
       ty \<leftarrow> byte_at p 5;
       mac \<leftarrow> buf_read 6 6 p;
       let st1 = st\<lparr>master_connected_led_on := True, conn_handle := h, mac_adrType := ty, mac_addr := mac\<rparr>;
       let st2 = (if manual_pair (ctl st1) \<noteq> 0 \<and> man_mac_type st1 = ty \<and> man_mac st1 = mac
                  then st1\<lparr>ctl := (ctl st1)\<lparr>manual_pair := 0,
                         slave_tbl := snd (user_tbl_slave_mac_add xfer ty mac (slave_tbl (ctl st1)))\<rparr>\<rparr>
                  else st1);
       let st3 = (if ty \<noteq> serviceDiscovery_adr_type st2 \<or> mac \<noteq> serviceDiscovery_address st2
                  then st2\<lparr>main_service := True, app_host_smp_sdp_pending := SDP_PENDING\<rparr>
                  else st2\<lparr>app_host_smp_sdp_pending := 0\<rparr>);
       Some (st3, [Conn_led True])
     }
   }"

definition att_keyboard_release :: "'f host \<Rightarrow> 'f host" where
  "att_keyboard_release st = st\<lparr>kb_dat_report := (kb_dat_report st)\<lparr>cnt := 0\<rparr>\<rparr>"

definition host_att_data_clear :: "'f host \<Rightarrow> 'f host" where
  "host_att_data_clear st =
     (if keyboard_not_release st then att_keyboard_release (st\<lparr>keyboard_not_release := False\<rparr>) else st)"

definition blm_disconnect_event_handle :: "'f host \<Rightarrow> 'f host \<times> host_out list" where
  "blm_disconnect_event_handle st =
     (let st1 = (if master_connected_led_on st then st\<lparr>master_connected_led_on := False\<rparr> else st);
          st2 = st1\<lparr>conn_handle := 0, app_host_smp_sdp_pending := 0, host_update_conn_param_req := 0\<rparr>
      in (host_att_data_clear st2, (if master_connected_led_on st then [Conn_led False] else []) @ [Scan_again]))"

definition blm_le_conn_update_event_proc :: "u8 list \<Rightarrow> 'f host \<Rightarrow> ('f host \<times> host_out list) option" where
  "blm_le_conn_update_event_proc p st = do {
     i \<leftarrow> u16_at p 4; l \<leftarrow> u16_at p 6; t \<leftarrow> u16_at p 8;
     Some (st\<lparr>ota := host_ota_update_conn_complete i l t (ota st)\<rparr>, [])
   }"

definition app_event_callback ::
  "(u8 list \<Rightarrow> 'f \<Rightarrow> 'f) \<Rightarrow> bool \<Rightarrow> u32 \<Rightarrow> u32 \<Rightarrow> u8 list \<Rightarrow> 'f host \<Rightarrow> ('f host \<times> host_out list) option" where
  "app_event_callback xfer create_ok t h p st =
     (if h AND HCI_FLAG_EVENT_BT_STD \<noteq> 0 then
        let evtCode = ucast (h AND 0xff) in
        if evtCode = HCI_CMD_DISCONNECTION_COMPLETE then Some (blm_disconnect_event_handle st)
        else if evtCode = HCI_EVT_LE_META then do {
          subEvt_code \<leftarrow> byte_at p 0;
          if subEvt_code = HCI_SUB_EVT_LE_CONNECTION_COMPLETE then Some (st, [])
          else if subEvt_code = HCI_SUB_EVT_LE_CONNECTION_ESTABLISH then blm_le_connection_establish_event_handle xfer p st
          else if subEvt_code = HCI_SUB_EVT_LE_ADVERTISING_REPORT then blm_le_adv_report_event_handle xfer create_ok t p st
          else if subEvt_code = HCI_SUB_EVT_LE_CONNECTION_UPDATE_COMPLETE then blm_le_conn_update_event_proc p st
          else Some (st, [])
        }
        else Some (st, [])
      else Some (st, []))"

section \<open>Packets\<close>

definition att_keyboard_media :: "u32 \<Rightarrow> u8 list \<Rightarrow> 'f host \<Rightarrow> 'f host option" where
  "att_keyboard_media t p st = do {
     key \<leftarrow> u16_at p 0;
     hd' \<leftarrow> usbkb_report_consumer_key t key (hid st);
     Some (st\<lparr>hid := hd'\<rparr>)
   }"

text \<open>The eight bytes are copied over \<open>cnt\<close>, \<open>ctrl_key\<close> and \<open>keycode\<close>.\<close>

definition att_keyboard :: "u32 \<Rightarrow> u8 list \<Rightarrow> 'f host \<Rightarrow> 'f host option" where
  "att_keyboard t p st = do {
     bs \<leftarrow> buf_read 0 8 p;
     let k = kb_of_bytes bs;
     let st1 = st\<lparr>kb_dat_report := k\<rparr>;
     if keycode k ! 0 = TELINK_UNPAIR_KEYVALUE
     then Some (st1\<lparr>ctl := (ctl st1)\<lparr>dongle_unpair_enable := True\<rparr>\<rparr>)
     else do {
       let pressed = (keycode k ! 0 \<noteq> 0);
       let k1 = k\<lparr>cnt := if pressed then 1 else 0\<rparr>;
       hd' \<leftarrow> usbkb_hid_report t k1 (hid st1);
       Some (st1\<lparr>kb_dat_report := k1, keyboard_not_release := pressed, hid := hd'\<rparr>)
     }
   }"

definition att_notification :: "u32 \<Rightarrow> u16 \<Rightarrow> u8 list \<Rightarrow> 'f host \<Rightarrow> 'f host option" where
  "att_notification t attHandle dat st =
     (if attHandle = ucast (conn_char_handler st ! 3) then att_keyboard_media t dat st
      else if attHandle = ucast (conn_char_handler st ! 4) then att_keyboard t dat st
      else if attHandle = ucast (conn_char_handler st ! 0)
      then map_option (\<lambda>a. st\<lparr>audio := a\<rparr>) (att_mic dat (audio st))
      else Some st)"

text \<open>The tests of a parameter request, in 32 bit arithmetic.\<close>

definition param_ok :: "u16 \<Rightarrow> u16 \<Rightarrow> u16 \<Rightarrow> bool" where
  "param_ok min_interval latency timeout \<longleftrightarrow>
     (let interval_us = ucast min_interval * 1250 :: u32;
          timeout_us = ucast timeout * 10000 :: u32;
          long_suspend_us = interval_us * (ucast latency + 1)
      in interval_us < 200000 \<and> long_suspend_us < 20000000 \<and> long_suspend_us * 2 \<le> timeout_us)"

definition conn_param_request :: "u32 \<Rightarrow> u16 \<Rightarrow> u8 list \<Rightarrow> 'f host \<Rightarrow> ('f host \<times> host_out list) option" where
  "conn_param_request t conn p st = do {
     mn \<leftarrow> u16_at p 10; latency \<leftarrow> u16_at p 14; timeout \<leftarrow> u16_at p 16; i \<leftarrow> byte_at p 7;
     if param_ok mn latency timeout
     then Some (st\<lparr>host_update_conn_param_req := t OR 1, host_update_conn_min := mn,
            host_update_conn_latency := latency, host_update_conn_timeout := timeout\<rparr>, [Param_response conn i True])
     else Some (st, [Param_response conn i False])
   }"

text \<open>\<open>pack\<close> is \<open>blm_l2cap_packet_pack\<close>: the whole packet when it is complete.\<close>

definition app_l2cap_handler ::
  "(u16 \<Rightarrow> u8 list \<Rightarrow> u8 list option) \<Rightarrow> u32 \<Rightarrow> u16 \<Rightarrow> u8 list \<Rightarrow> 'f host \<Rightarrow> ('f host \<times> host_out list) option" where
  "app_l2cap_handler pack t conn raw st =
     (case pack conn raw of None \<Rightarrow> Some (st, [])
      | Some p \<Rightarrow> do {
          chan \<leftarrow> u16_at p 4;
          op \<leftarrow> byte_at p 6;
          if chan = 4 then do {
            let st1 = (if app_host_smp_sdp_pending st = SDP_PENDING
                       then st\<lparr>att := host_att_client_handler conn p (att st)\<rparr> else st);
            attHandle \<leftarrow> u16_at p 7;
            if op = 0x02 then Some (st1, [Mtu_response conn 150])
            else if op = ATT_OP_READ_BY_TYPE_RSP then do {
              d0 \<leftarrow> byte_at p 8; d1 \<leftarrow> byte_at p 9;
              Some (st1\<lparr>ota := host_find_slave_ota_attHandle d0 d1 (ota st1)\<rparr>, [])
            }
            else if op = 0x1b then map_option (\<lambda>s. (s, [])) (att_notification t attHandle (drop 9 p) st1)
            else Some (st1, [])
          }
          else if chan = 5 then if op = 0x12 then conn_param_request t conn p st else Some (st, [])
          else Some (st, [])
        })"

section \<open>Service discovery as a service of the main loop\<close>

definition my_MicUUID :: "u8 list" where
  "my_MicUUID = [0x18, 0x2B, 0x0d, 0x0c, 0x0b, 0x0a, 0x09, 0x08, 0x07, 0x06, 0x05, 0x04, 0x03, 0x02, 0x01, 0x00]"

definition my_SpeakerUUID :: "u8 list" where
  "my_SpeakerUUID = [0x19, 0x2B, 0x0d, 0x0c, 0x0b, 0x0a, 0x09, 0x08, 0x07, 0x06, 0x05, 0x04, 0x03, 0x02, 0x01, 0x00]"

text \<open>
  \<open>app_service_discovery\<close> blocks while the main loop goes on inside it. \<open>sdp_start\<close> is its entry
  (\<^const>\<open>Some\<close> says whether the handle was valid), \<open>sdp_finish\<close> what follows the discovery and the
  return to the main loop. The result is \<^const>\<open>Done\<close> only on success; \<open>find16\<close> and \<open>find128\<close> are the
  searches of the stack.
\<close>

definition sdp_start :: "'f host \<Rightarrow> 'f host" where
  "sdp_start st =
     (if main_service st \<and> sdp_running st = None
      then st\<lparr>sdp_running := Some (conn_handle st \<noteq> BLE_INVALID_CONNECTION_HANDLE)\<rparr> else st)"

definition sdp_handlers ::
  "(char16 list \<Rightarrow> u16 \<Rightarrow> u16 \<Rightarrow> u16) \<Rightarrow> (char128 list \<Rightarrow> u8 list \<Rightarrow> u16) \<Rightarrow> char16 list \<Rightarrow> char128 list \<Rightarrow> u8 list" where
  "sdp_handlers find16 find128 db16 db128 =
     map ucast [find128 db128 my_MicUUID, find128 db128 my_SpeakerUUID, find128 db128 my_OtaUUID,
       find16 db16 CHARACTERISTIC_UUID_HID_REPORT (2 OR push_bit 8 1),
       find16 db16 CHARACTERISTIC_UUID_HID_REPORT (1 OR push_bit 8 1),
       find16 db16 CHARACTERISTIC_UUID_HID_REPORT (3 OR push_bit 8 1)]"

definition app_service_discovery ::
  "(char16 list \<Rightarrow> u16 \<Rightarrow> u16 \<Rightarrow> u16) \<Rightarrow> (char128 list \<Rightarrow> u8 list \<Rightarrow> u16) \<Rightarrow> u8 \<Rightarrow> bool \<Rightarrow>
   (char16 list \<times> char128 list) sdp \<Rightarrow> 'f host \<Rightarrow> 'f host" where
  "app_service_discovery find16 find128 mac_ptr valid result st =
     (let st1 = (case (valid, result) of
          (True, Done (db16, db128)) \<Rightarrow>
            st\<lparr>conn_char_handler := sdp_handlers find16 find128 db16 db128 @ drop 6 (conn_char_handler st),
               serviceDiscovery_adr_type := mac_ptr, serviceDiscovery_address := mac_addr st\<rparr>
        | _ \<Rightarrow> st)
      in st1\<lparr>app_host_smp_sdp_pending := 0\<rparr>)"

definition sdp_finish ::
  "(char16 list \<Rightarrow> u16 \<Rightarrow> u16 \<Rightarrow> u16) \<Rightarrow> (char128 list \<Rightarrow> u8 list \<Rightarrow> u16) \<Rightarrow> u8 \<Rightarrow>
   (char16 list \<times> char128 list) sdp \<Rightarrow> 'f host \<Rightarrow> 'f host" where
  "sdp_finish find16 find128 mac_ptr result st =
     (case sdp_running st of None \<Rightarrow> st
      | Some valid \<Rightarrow> (app_service_discovery find16 find128 mac_ptr valid result st)\<lparr>main_service := False, sdp_running := None\<rparr>)"

section \<open>Buttons\<close>

text \<open>\<open>proc_button\<close>; \<open>conn\<close>: the link layer is connected.\<close>

definition button_test_mode :: "u32 \<Rightarrow> u8 \<Rightarrow> 'f host \<Rightarrow> 'f host" where
  "button_test_mode t key0 st =
     (let st1 = (if master_ota_test_mode (ota st) = 0 \<and> \<not> clock_time_exceed t (last_singleKey_press_tick st) 2000000 then
          let h = push_bit 1 (button_history st) OR (if key0 = BTN_PAIR then 1 else 0); st1 = st\<lparr>button_history := h\<rparr>
          in if h AND 0x0f = 0x0f then st1\<lparr>ota := (ota st1)\<lparr>master_ota_test_mode := 1, ota_mode_begin_tick := t\<rparr>\<rparr> else st1
        else st\<lparr>button_history := 0\<rparr>)
      in st1\<lparr>last_singleKey_press_tick := t\<rparr>)"

definition button_single :: "u32 \<Rightarrow> u8 \<Rightarrow> 'f host \<Rightarrow> 'f host" where
  "button_single t key0 st =
     (let st1 = button_test_mode t key0 st in
      if key0 = BTN_PAIR then
        (if master_ota_test_mode (ota st1) = 0 then st1\<lparr>dongle_pairing_enable := True\<rparr> else st1)
          \<lparr>button0_press_flag := True, button0_press_tick := t\<rparr>
      else if key0 = BTN_UNPAIR then
        (if master_ota_test_mode (ota st1) = 0 then st1\<lparr>ctl := (ctl st1)\<lparr>dongle_unpair_enable := True\<rparr>\<rparr> else st1)
          \<lparr>button1_press_flag := True, button1_press_tick := t\<rparr>
      else st1)"

definition button_release :: "bool \<Rightarrow> 'f host \<Rightarrow> 'f host" where
  "button_release conn st =
     (let st1 = st\<lparr>dongle_pairing_enable := False, ctl := (ctl st)\<lparr>dongle_unpair_enable := False\<rparr>\<rparr>;
          st2 = (if master_ota_test_mode (ota st1) = 2
                 then st1\<lparr>ota := host_button_trigger_ota_start conn (button0_press_flag st1) (button1_press_flag st1) (ota st1)\<rparr>
                 else st1)
      in st2\<lparr>button0_press_flag := False, button1_press_flag := False\<rparr>)"

definition proc_button :: "u32 \<Rightarrow> bool \<Rightarrow> bool list \<Rightarrow> 'f host \<Rightarrow> 'f host" where
  "proc_button t conn levels st =
     (let (det_key, b) = vc_detect_button True levels (btn st); st1 = st\<lparr>btn := b\<rparr> in
      if \<not> det_key then st1
      else if vc_cnt (vc_event b) = 2 then st1
      else if vc_cnt (vc_event b) = 1 then button_single t (vc_keycode (vc_event b) ! 0) st1
      else button_release conn st1)"

section \<open>The main loop\<close>

definition host_update_conn_proc :: "u32 \<Rightarrow> bool \<Rightarrow> 'f host \<Rightarrow> 'f host \<times> host_out list" where
  "host_update_conn_proc t conn st =
     (if host_update_conn_param_req st \<noteq> 0 \<and> clock_time_exceed t (host_update_conn_param_req st) 50000 \<and>
         app_host_smp_sdp_pending st = 0
      then (st\<lparr>host_update_conn_param_req := 0\<rparr>,
            if conn then [Link_update (conn_handle st) (host_update_conn_min st) (host_update_conn_latency st) (host_update_conn_timeout st)]
            else [])
      else (st, []))"

text \<open>What one pass meets: the clock, the pins of the buttons, the state of the link layer at the two
  places of \<open>host_pair_unpair_proc\<close> and the status of its disconnect command, and the environment of \<open>proc_ota\<close>.\<close>

record pass_env =
  clk :: u32
  levels :: "bool list"
  conn1 :: bool
  disc_status :: u8
  conn2 :: bool
  ota_in :: ota_env

definition button_part :: "pass_env \<Rightarrow> 'f host \<Rightarrow> 'f host" where
  "button_part e st =
     (let st1 = (if \<not> button_detect_en st \<and> clock_time_exceed (clk e) 0 1000000 then st\<lparr>button_detect_en := True\<rparr> else st)
      in if button_detect_en st1 \<and> clock_time_exceed (clk e) (button_detect_tick st1) 5000
         then proc_button (clk e) (conn1 e) (levels e) (st1\<lparr>button_detect_tick := clk e\<rparr>) else st1)"

definition pair_part :: "(u8 list \<Rightarrow> 'f \<Rightarrow> 'f) \<Rightarrow> pass_env \<Rightarrow> 'f host \<Rightarrow> 'f host \<times> host_out list" where
  "pair_part xfer e st =
     (st\<lparr>ctl := host_pair_unpair_proc xfer (clk e) (conn1 e) (disc_status e) (conn2 e) (ctl st)\<rparr>,
      if dongle_unpair_enable (ctl st) \<and> \<not> master_disconnect_flag (ctl st) \<and> conn1 e then [Disconnect (conn_handle st)] else [])"

definition ota_part :: "(u8 list \<Rightarrow> u16) \<Rightarrow> pass_env \<Rightarrow> 'f host \<Rightarrow> 'f host \<times> host_out list" where
  "ota_part crc16 e st =
     (let (o1, out) = proc_ota crc16 ((ota_in e)\<lparr>now := clk e, update_req := host_update_conn_param_req st \<noteq> 0,
            sdp_pending := app_host_smp_sdp_pending st \<noteq> 0\<rparr>) (ota st)
      in (st\<lparr>ota := o1\<rparr>, map Update out))"

definition main_idle_loop ::
  "(u8 list \<Rightarrow> 'f \<Rightarrow> 'f) \<Rightarrow> (u8 list \<Rightarrow> u16) \<Rightarrow> pass_env \<Rightarrow> 'f host \<Rightarrow> ('f host \<times> host_out list) option" where
  "main_idle_loop xfer crc16 e st = do {
     let st1 = button_part e st;
     a \<leftarrow> proc_audio (clk e) (audio st1);
     let (st2, o2) = pair_part xfer e (st1\<lparr>audio := a\<rparr>);
     let (st3, o3) = ota_part crc16 e st2;
     let (st4, o4) = (if host_update_conn_param_req st3 \<noteq> 0 then host_update_conn_proc (clk e) (conn1 e) st3 else (st3, []));
     Some (st4, o2 @ o3 @ o4)
   }"

section \<open>Histories\<close>

text \<open>
  The dongle is driven by the callbacks of the stack, the passes of the main loop, the isochronous
  interrupt of the PC and the two ends of a discovery. \<open>world\<close> collects what is not under the
  firmware's control: the flash chip, \<open>crc16\<close>, the packing of fragments, and the searches.
\<close>

record 'f world =
  w_xfer :: "u8 list \<Rightarrow> 'f \<Rightarrow> 'f"
  w_crc16 :: "u8 list \<Rightarrow> u16"
  w_pack :: "u16 \<Rightarrow> u8 list \<Rightarrow> u8 list option"
  w_find16 :: "char16 list \<Rightarrow> u16 \<Rightarrow> u16 \<Rightarrow> u16"
  w_find128 :: "char128 list \<Rightarrow> u8 list \<Rightarrow> u16"
  w_mac_ptr :: u8

datatype host_event =
    Hci bool u32 u32 "u8 list"
  | L2cap u32 u16 "u8 list"
  | Idle_pass pass_env
  | Iso_in u32
  | Sdp_start
  | Sdp_finish "(char16 list \<times> char128 list) sdp"

fun host_step :: "'f world \<Rightarrow> host_event \<Rightarrow> 'f host \<Rightarrow> ('f host \<times> host_out list) option" where
  "host_step w (Hci create_ok t h p) st = app_event_callback (w_xfer w) create_ok t h p st"
| "host_step w (L2cap t conn raw) st = app_l2cap_handler (w_pack w) t conn raw st"
| "host_step w (Idle_pass e) st = main_idle_loop (w_xfer w) (w_crc16 w) e st"
| "host_step w (Iso_in t) st = map_option (\<lambda>(bs, a). (st\<lparr>audio := a\<rparr>, [])) (abuf_dec_usb t (audio st))"
| "host_step w Sdp_start st = Some (sdp_start st, [])"
| "host_step w (Sdp_finish r) st = Some (sdp_finish (w_find16 w) (w_find128 w) (w_mac_ptr w) r st, [])"

abbreviation host_run :: "'f world \<Rightarrow> host_event list \<Rightarrow> 'f host \<Rightarrow> ('f host \<times> host_out list) option" where
  "host_run w \<equiv> run_steps (host_step w)"

text \<open>Power-on: zero-initialised variables over a bonding table and what the parts start with.\<close>

definition host_boot :: "'f slave_tbl \<Rightarrow> hid_st \<Rightarrow> u8 \<Rightarrow> 'f host" where
  "host_boot tbl h x = \<lparr>
     ctl = \<lparr>manual_pair = 0, pair_tick = 0, dongle_unpair_enable = False, master_disconnect_flag = False, slave_tbl = tbl\<rparr>,
     man_mac_type = 0, man_mac = replicate 6 0, dongle_pairing_enable = False, conn_handle = 0, mac_adrType = 0,
     mac_addr = replicate 6 0, app_host_smp_sdp_pending = 0, main_service = False, sdp_running = None,
     serviceDiscovery_adr_type = 0, serviceDiscovery_address = replicate 6 0, conn_char_handler = replicate 8 0,
     host_update_conn_param_req = 0, host_update_conn_min = 0, host_update_conn_latency = 0, host_update_conn_timeout = 0,
     master_connected_led_on = False, kb_dat_report = kb_of_bytes (1 # replicate 7 0), keyboard_not_release = False,
     att = \<lparr>att_response = None, att_req_busy = 0\<rparr>, hid = h, audio = abuf_boot x, ota = ota_start_state, btn = btn_boot,
     button_detect_en = False, button_detect_tick = 0, button_history = 0, last_singleKey_press_tick = 0,
     button0_press_flag = False, button0_press_tick = 0, button1_press_flag = False, button1_press_tick = 0\<rparr>"

section \<open>Bonds and the table\<close>

definition bonds :: "'f host \<Rightarrow> mac_addr set" where
  "bonds st = set (live_devices (slave_tbl (ctl st)))"

definition tbl_ok :: "'f slave_tbl \<Rightarrow> bool" where
  "tbl_ok t \<longleftrightarrow> length (bond_device t) = 1 \<and> unat (cur_num t) \<le> 1"

lemma tbl_ok_cases: "tbl_ok t \<Longrightarrow> (cur_num t = 0 \<or> cur_num t = 1) \<and> (\<exists>d. bond_device t = [d])"
proof -
  assume t: "tbl_ok t"
  have "unat (cur_num t) = 0 \<or> unat (cur_num t) = 1" using t by (auto simp: tbl_ok_def)
  hence "cur_num t = 0 \<or> cur_num t = 1" by (metis unat_eq_zero unat_1 word_unat_eq_iff)
  thus ?thesis using t by (auto simp: tbl_ok_def length_Suc_conv)
qed

lemma shift_down_none: "shift_down i 0 xs = xs"
  by (subst shift_down.simps) simp

lemma tbl_add:
  assumes "tbl_ok t" "user_tbl_slave_mac_add xfer ty adr t = (r, t')"
  shows "tbl_ok t' \<and> live_devices t' = [\<lparr>bond_mark = ADR_BOND_MARK, adr_type = ty, address = take 6 adr\<rparr>]"
  using tbl_ok_cases [OF assms(1)] assms(2)
  by (auto simp: user_tbl_slave_mac_add_def user_tbl_slave_mac_delete_by_index_def Let_def tbl_ok_def
      live_devices_def USER_PAIR_SLAVE_MAX_NUM_def shift_down_none)

lemma tbl_delete_by_adr:
  assumes "tbl_ok t" "user_tbl_slave_mac_delete_by_adr xfer ty adr t = (r, t')"
  shows "tbl_ok t' \<and> set (live_devices t') \<subseteq> set (live_devices t)"
  using tbl_ok_cases [OF assms(1)] assms
  by (auto simp: user_tbl_slave_mac_delete_by_adr_def user_tbl_slave_mac_delete_by_index_def Let_def tbl_ok_def
      live_devices_def shift_down_none mac_find.simps split: option.splits if_splits)

lemma tbl_delete_all:
  assumes "tbl_ok t"
  shows "tbl_ok (user_tbl_salve_mac_unpair_proc xfer t) \<and> live_devices (user_tbl_salve_mac_unpair_proc xfer t) = []"
  using tbl_ok_cases [OF assms]
  by (auto simp: user_tbl_salve_mac_unpair_proc_def user_tbl_slave_mac_delete_all_def tbl_ok_def live_devices_def)

section \<open>Who is bonded\<close>

text \<open>An advertisement that invites its sender: close by, and with the pairing button down or the special data.\<close>

definition invites :: "host_event \<Rightarrow> 'f host \<Rightarrow> u8 \<Rightarrow> u8 list \<Rightarrow> bool" where
  "invites x st ty mac \<longleftrightarrow> (case x of
     Hci create_ok t h p \<Rightarrow> create_ok \<and> p ! 0 = HCI_SUB_EVT_LE_ADVERTISING_REPORT \<and> p ! 3 = ty \<and> buf_read 4 6 p = Some mac \<and>
       sint (p ! (11 + unat (p ! 10))) > - 56 \<and>
       (dongle_pairing_enable st \<or> starts_with p 11 telink_adv_trigger_paring_8258 = Some True)
   | _ \<Rightarrow> False)"

text \<open>What a step may do to the table and to the pending pairing.\<close>

definition pairing_step :: "host_event \<Rightarrow> 'f host \<Rightarrow> 'f host \<Rightarrow> bool" where
  "pairing_step x st st' \<longleftrightarrow> tbl_ok (slave_tbl (ctl st')) \<and>
     (\<forall>d \<in> bonds st'. d \<in> bonds st \<or> manual_pair (ctl st) \<noteq> 0 \<and> adr_type d = man_mac_type st \<and> address d = take 6 (man_mac st)) \<and>
     (manual_pair (ctl st') \<noteq> 0 \<longrightarrow>
        manual_pair (ctl st) \<noteq> 0 \<and> man_mac_type st' = man_mac_type st \<and> man_mac st' = man_mac st \<or>
        invites x st (man_mac_type st') (man_mac st'))"

lemma pairing_step_same:
  "tbl_ok (slave_tbl (ctl st)) \<Longrightarrow> slave_tbl (ctl st') = slave_tbl (ctl st) \<Longrightarrow> manual_pair (ctl st') = manual_pair (ctl st) \<Longrightarrow>
    man_mac_type st' = man_mac_type st \<Longrightarrow> man_mac st' = man_mac st \<Longrightarrow> pairing_step x st st'"
  by (simp add: pairing_step_def bonds_def)

lemma pairing_adv:
  assumes "tbl_ok (slave_tbl (ctl st))" "p ! 0 = HCI_SUB_EVT_LE_ADVERTISING_REPORT"
    and "blm_le_adv_report_event_handle xfer create_ok t p st = Some (st', out)"
  shows "pairing_step (Hci create_ok t h p) st st'"
proof -
  obtain lb rb where b: "byte_at p 10 = Some lb" "byte_at p (11 + unat lb) = Some rb"
    using assms(3) by (auto simp: blm_le_adv_report_event_handle_def split: Option.bind_split_asm)
  hence pb: "p ! 10 = lb" "p ! (11 + unat lb) = rb" by (auto simp: byte_at_def split: if_splits)
  show ?thesis
  proof (cases "app_host_smp_sdp_pending st = 0")
    case False
    hence "st' = st" using assms(3) b by (simp add: blm_le_adv_report_event_handle_def)
    thus ?thesis using pairing_step_same [OF assms(1)] by blast
  next
    case True
    obtain manual ty mac unpair where m: "adv_manual (dongle_pairing_enable st) p (sint rb) = Some manual"
      "byte_at p 3 = Some ty" "buf_read 4 6 p = Some mac" "starts_with p 11 telink_adv_trigger_unpair_8258 = Some unpair"
      using assms(3) b True by (auto simp: blm_le_adv_report_event_handle_def Let_def split: Option.bind_split_asm)
    let ?known = "user_tbl_slave_mac_search ty mac (slave_tbl (ctl st)) \<noteq> 0"
    obtain st1 where st1: "st1 = (if (?known \<or> manual) \<and> create_ok \<and> manual \<and> \<not> ?known
        then st\<lparr>ctl := (ctl st)\<lparr>manual_pair := 1, pair_tick := t\<rparr>, man_mac_type := ty, man_mac := mac\<rparr> else st)" by simp
    have tbl1: "slave_tbl (ctl st1) = slave_tbl (ctl st)" by (simp add: st1)
    have st': "st' = (if unpair \<and> user_tbl_slave_mac_search ty mac (slave_tbl (ctl st1)) \<noteq> 0
        then st1\<lparr>ctl := (ctl st1)\<lparr>slave_tbl := snd (user_tbl_slave_mac_delete_by_adr xfer ty mac (slave_tbl (ctl st1)))\<rparr>\<rparr> else st1)"
      using assms(3) b True m unfolding st1 by (simp add: blm_le_adv_report_event_handle_def Let_def)
    have "tbl_ok (slave_tbl (ctl st')) \<and> bonds st' \<subseteq> bonds st"
      using tbl_delete_by_adr [OF assms(1) surjective_pairing] assms(1) unfolding st' by (auto simp: tbl1 bonds_def)
    moreover have "manual_pair (ctl st') = manual_pair (ctl st1)" "man_mac_type st' = man_mac_type st1" "man_mac st' = man_mac st1"
      by (simp_all add: st')
    moreover have "invites (Hci create_ok t h p) st ty mac" if "manual" "create_ok"
      using that m pb b assms(2) by (auto simp: invites_def adv_manual_def byte_at_def split: if_splits)
    ultimately show ?thesis unfolding pairing_step_def st1 by (auto split: if_splits)
  qed
qed

lemma pairing_establish:
  assumes "tbl_ok (slave_tbl (ctl st))" "blm_le_connection_establish_event_handle xfer p st = Some (st', out)"
  shows "pairing_step x st st'"
proof -
  obtain status where s: "byte_at p 1 = Some status" using assms(2)
    by (auto simp: blm_le_connection_establish_event_handle_def split: Option.bind_split_asm)
  show ?thesis
  proof (cases "status = 0")
    case False
    hence "st' = st" using assms(2) s by (simp add: blm_le_connection_establish_event_handle_def)
    thus ?thesis using pairing_step_same [OF assms(1)] by blast
  next
    case True
    obtain hdl ty mac where b: "u16_at p 2 = Some hdl" "byte_at p 5 = Some ty" "buf_read 6 6 p = Some mac"
      using assms(2) s True by (auto simp: blm_le_connection_establish_event_handle_def Let_def split: Option.bind_split_asm)
    let ?match = "manual_pair (ctl st) \<noteq> 0 \<and> man_mac_type st = ty \<and> man_mac st = mac"
    have st': "ctl st' = (if ?match then (ctl st)\<lparr>manual_pair := 0, slave_tbl := snd (user_tbl_slave_mac_add xfer ty mac (slave_tbl (ctl st)))\<rparr>
        else ctl st)" "man_mac_type st' = man_mac_type st" "man_mac st' = man_mac st"
      using assms(2) s True b by (auto simp: blm_le_connection_establish_event_handle_def Let_def)
    show ?thesis
    proof (cases ?match)
      case False
      have "ctl st' = ctl st" by (rule st'(1) [unfolded if_not_P [OF False]])
      thus ?thesis using st'(2,3) by (intro pairing_step_same [OF assms(1)]) simp_all
    next
      case match: True
      note add = tbl_add [OF assms(1) surjective_pairing, of xfer ty mac]
      show ?thesis using match add by (simp add: pairing_step_def st' bonds_def)
    qed
  qed
qed

lemma pairing_callback:
  assumes "tbl_ok (slave_tbl (ctl st))" "app_event_callback xfer create_ok t h p st = Some (st', out)"
  shows "pairing_step (Hci create_ok t h p) st st'"
proof -
  have same: "pairing_step x st st" for x :: host_event using pairing_step_same [OF assms(1)] by blast
  have disc: "pairing_step x st (fst (blm_disconnect_event_handle st))" for x :: host_event
    by (rule pairing_step_same [OF assms(1)])
      (simp_all add: blm_disconnect_event_handle_def host_att_data_clear_def att_keyboard_release_def Let_def)
  have upd: "pairing_step x st st'" if "blm_le_conn_update_event_proc p st = Some (st', out)" for x :: host_event and st' out
    using that by (intro pairing_step_same [OF assms(1)]) (auto simp: blm_le_conn_update_event_proc_def split: Option.bind_split_asm)
  have sub: "p ! 0 = HCI_SUB_EVT_LE_ADVERTISING_REPORT" if "byte_at p 0 = Some HCI_SUB_EVT_LE_ADVERTISING_REPORT"
    using that by (simp add: byte_at_def split: if_splits)
  show ?thesis using assms(2) same disc [of "Hci create_ok t h p"] upd sub pairing_establish [OF assms(1)] pairing_adv [OF assms(1)]
    unfolding app_event_callback_def Let_def
    by (auto split: if_splits Option.bind_split_asm)
qed

lemma pairing_notification:
  assumes "att_notification t a dat st = Some st'"
  shows "slave_tbl (ctl st') = slave_tbl (ctl st)" "manual_pair (ctl st') = manual_pair (ctl st)"
    "man_mac_type st' = man_mac_type st" "man_mac st' = man_mac st"
proof -
  have "slave_tbl (ctl st') = slave_tbl (ctl st) \<and> manual_pair (ctl st') = manual_pair (ctl st) \<and>
      man_mac_type st' = man_mac_type st \<and> man_mac st' = man_mac st"
    using assms unfolding att_notification_def att_keyboard_def att_keyboard_media_def Let_def
    by (auto split: if_splits Option.bind_split_asm)
  thus "slave_tbl (ctl st') = slave_tbl (ctl st)" "manual_pair (ctl st') = manual_pair (ctl st)"
    "man_mac_type st' = man_mac_type st" "man_mac st' = man_mac st" by simp_all
qed

lemma pairing_l2cap:
  assumes "tbl_ok (slave_tbl (ctl st))" "app_l2cap_handler pack t conn raw st = Some (st', out)"
  shows "pairing_step x st st'"
proof (cases "pack conn raw")
  case None
  thus ?thesis using assms(2) pairing_step_same [OF assms(1)] by (simp add: app_l2cap_handler_def)
next
  case (Some p)
  obtain chan op where c: "u16_at p 4 = Some chan" "byte_at p 6 = Some op"
    using assms(2) Some by (auto simp: app_l2cap_handler_def split: Option.bind_split_asm)
  obtain st1 where st1: "st1 = (if app_host_smp_sdp_pending st = SDP_PENDING
      then st\<lparr>att := host_att_client_handler conn p (att st)\<rparr> else st)" by simp
  have keep: "slave_tbl (ctl st1) = slave_tbl (ctl st)" "manual_pair (ctl st1) = manual_pair (ctl st)"
    "man_mac_type st1 = man_mac_type st" "man_mac st1 = man_mac st" by (simp_all add: st1)
  note note1 = pairing_notification [of t _ "drop 9 p" st1]
  have "pairing_step x st st'" if "chan = 4"
  proof -
    have "slave_tbl (ctl st') = slave_tbl (ctl st1) \<and> manual_pair (ctl st') = manual_pair (ctl st1) \<and>
        man_mac_type st' = man_mac_type st1 \<and> man_mac st' = man_mac st1"
      using assms(2) Some c that note1 unfolding app_l2cap_handler_def
      by (auto simp: Let_def st1 [symmetric] split: if_splits Option.bind_split_asm)
    thus ?thesis unfolding keep by (intro pairing_step_same [OF assms(1)]) simp_all
  qed
  moreover have "pairing_step x st st'" if "chan \<noteq> 4"
    using assms(2) Some c that unfolding app_l2cap_handler_def conn_param_request_def
    by (intro pairing_step_same [OF assms(1)]) (auto simp: Let_def split: if_splits Option.bind_split_asm)
  ultimately show ?thesis by blast
qed

lemma pairing_button:
  "slave_tbl (ctl (button_part e st)) = slave_tbl (ctl st)" "manual_pair (ctl (button_part e st)) = manual_pair (ctl st)"
  "man_mac_type (button_part e st) = man_mac_type st" "man_mac (button_part e st) = man_mac st"
  by (simp_all add: button_part_def proc_button_def button_single_def button_test_mode_def button_release_def Let_def split_beta)

lemma pairing_pass:
  assumes "tbl_ok (slave_tbl (ctl st))" "main_idle_loop xfer crc16 e st = Some (st', out)"
  shows "pairing_step x st st'"
proof -
  obtain c where c: "c = host_pair_unpair_proc xfer (clk e) (conn1 e) (disc_status e) (conn2 e) (ctl (button_part e st))" by simp
  have s: "ctl st' = c" "man_mac_type st' = man_mac_type st" "man_mac st' = man_mac st"
    using assms(2) unfolding main_idle_loop_def Let_def pair_part_def ota_part_def host_update_conn_proc_def
    by (auto simp: c pairing_button split_beta split: Option.bind_split_asm if_splits)
  have "manual_pair c = 0 \<or> manual_pair c = manual_pair (ctl st)"
    "slave_tbl c = slave_tbl (ctl st) \<or> slave_tbl c = user_tbl_salve_mac_unpair_proc xfer (slave_tbl (ctl st))"
    by (simp_all add: c host_pair_unpair_proc_def Let_def pairing_button)
  thus ?thesis using tbl_delete_all [OF assms(1), of xfer] assms(1) unfolding pairing_step_def s bonds_def by auto
qed

lemma pairing_host_step:
  assumes "tbl_ok (slave_tbl (ctl st))" "host_step w x st = Some (st', out)"
  shows "pairing_step x st st'"
proof (cases x)
  case (Hci ok t h p)
  thus ?thesis using assms(2) pairing_callback [OF assms(1)] by simp
next
  case (L2cap t c r)
  thus ?thesis using assms(2) pairing_l2cap [OF assms(1)] by simp
next
  case (Idle_pass e)
  thus ?thesis using assms(2) pairing_pass [OF assms(1)] by simp
next
  case (Iso_in t)
  thus ?thesis using assms(2) by (intro pairing_step_same [OF assms(1)]) auto
next
  case Sdp_start
  thus ?thesis using assms(2) by (intro pairing_step_same [OF assms(1)]) (auto simp: sdp_start_def)
next
  case (Sdp_finish r)
  thus ?thesis using assms(2)
    by (intro pairing_step_same [OF assms(1)])
      (auto simp: sdp_finish_def app_service_discovery_def Let_def split: option.splits sdp.splits bool.splits)
qed

text \<open>\<open>(ty, mac)\<close> was invited at some point of a history.\<close>

definition invited :: "'f world \<Rightarrow> host_event list \<Rightarrow> 'f host \<Rightarrow> u8 \<Rightarrow> u8 list \<Rightarrow> bool" where
  "invited w xs st ty mac \<longleftrightarrow>
     (\<exists>pre x post s out. xs = pre @ x # post \<and> host_run w pre st = Some (s, out) \<and> invites x s ty mac)"

lemma invited_snoc:
  "invited w xs st ty mac \<Longrightarrow> invited w (xs @ [x]) st ty mac"
  "host_run w xs st = Some (s, out) \<Longrightarrow> invites x s ty mac \<Longrightarrow> invited w (xs @ [x]) st ty mac"
  unfolding invited_def by (metis append_Cons append_assoc) blast

lemma invites_length: "invites x st ty mac \<Longrightarrow> length mac = 6"
  by (auto simp: invites_def buf_read_def split: host_event.splits if_splits)

text \<open>
  C4. Nobody is bonded uninvited: in any history, from any state without a pairing under way, a slave
  that is in the bonding table at the end either was there before or sent an advertisement that was
  received close by (above -56 dBm) while the pairing button was down or with the pairing data in it, and
  that the controller answered with a connection.
\<close>

theorem only_invited_slaves_are_bonded:
  assumes "tbl_ok (slave_tbl (ctl st))" "manual_pair (ctl st) = 0"
    and "host_run w xs st = Some (st', out)" "d \<in> bonds st'"
  shows "d \<in> bonds st \<or> invited w xs st (adr_type d) (address d)"
proof -
  have "\<forall>s out. host_run w xs st = Some (s, out) \<longrightarrow> tbl_ok (slave_tbl (ctl s)) \<and>
      (\<forall>d \<in> bonds s. d \<in> bonds st \<or> invited w xs st (adr_type d) (address d)) \<and>
      (manual_pair (ctl s) \<noteq> 0 \<longrightarrow> length (man_mac s) = 6 \<and> invited w xs st (man_mac_type s) (man_mac s))"
  proof (induction xs rule: rev_induct)
    case Nil
    thus ?case using assms(1,2) by simp
  next
    case (snoc x xs)
    show ?case
    proof (intro allI impI)
      fix s2 out assume "host_run w (xs @ [x]) st = Some (s2, out)"
      then obtain s1 o1 o2 where r: "host_run w xs st = Some (s1, o1)" "host_step w x s1 = Some (s2, o2)"
        by (rule run_steps_snoc)
      have ok: "tbl_ok (slave_tbl (ctl s1))"
        and b: "\<forall>d \<in> bonds s1. d \<in> bonds st \<or> invited w xs st (adr_type d) (address d)"
        and m: "manual_pair (ctl s1) \<noteq> 0 \<Longrightarrow> length (man_mac s1) = 6 \<and> invited w xs st (man_mac_type s1) (man_mac s1)"
        using snoc.IH r(1) by auto
      have step: "pairing_step x s1 s2" using pairing_host_step [OF ok r(2)] .
      show "tbl_ok (slave_tbl (ctl s2)) \<and>
          (\<forall>d \<in> bonds s2. d \<in> bonds st \<or> invited w (xs @ [x]) st (adr_type d) (address d)) \<and>
          (manual_pair (ctl s2) \<noteq> 0 \<longrightarrow> length (man_mac s2) = 6 \<and> invited w (xs @ [x]) st (man_mac_type s2) (man_mac s2))"
        using step b m invited_snoc [of w xs st _ _ x] r(1) invites_length [of x s1] unfolding pairing_step_def
        by (metis take_all order_refl)
    qed
  qed
  thus ?thesis using assms(3,4) by blast
qed

text \<open>A dongle fresh from power-on, and a slave that advertises with the pairing data and is connected.\<close>

definition demo_world :: "unit world" where
  "demo_world = \<lparr>w_xfer = \<lambda>bs f. f, w_crc16 = \<lambda>bs. 0, w_pack = \<lambda>c raw. Some raw, w_find16 = \<lambda>db u r. 0,
     w_find128 = \<lambda>db u. 0, w_mac_ptr = 0\<rparr>"

definition demo_host :: "unit host" where "demo_host = host_boot (power_on_tbl ()) report_proto_init 0"
definition slave_mac :: "u8 list" where "slave_mac = [1, 2, 3, 4, 5, 6]"
definition le_meta :: u32 where "le_meta = 0x200003E"
definition adv_event :: "u8 \<Rightarrow> u8 list \<Rightarrow> u8 list \<Rightarrow> u8 \<Rightarrow> host_event" where
  "adv_event ty mac dat rssi = Hci True 100 le_meta ([2, 1, 0, ty] @ mac @ [of_nat (length dat)] @ dat @ [rssi])"
definition est_event :: "u8 \<Rightarrow> u8 list \<Rightarrow> host_event" where
  "est_event ty mac = Hci True 200 le_meta ([0x20, 0, 0x80, 0, 0, ty] @ mac)"

lemmas demo_defs = demo_world_def demo_host_def slave_mac_def le_meta_def adv_event_def est_event_def host_boot_def power_on_tbl_def
  app_event_callback_def blm_le_adv_report_event_handle_def blm_le_connection_establish_event_handle_def adv_manual_def byte_at_def
  u16_at_def buf_read_def u16_le_def hci_codes telink_adv_trigger_paring_8258_def telink_adv_trigger_unpair_8258_def
  user_tbl_slave_mac_search_def mac_find.simps USER_PAIR_SLAVE_MAX_NUM_def SDP_PENDING_def

lemma demo_pairing:
  "\<exists>s out. host_run demo_world [adv_event 0 slave_mac telink_adv_trigger_paring_8258 0xD8, est_event 0 slave_mac] demo_host = Some (s, out) \<and>
     bonds s = {\<lparr>bond_mark = ADR_BOND_MARK, adr_type = 0, address = slave_mac\<rparr>} \<and> slave_tbl (ctl s) =
       snd (user_tbl_slave_mac_add (\<lambda>bs f. f) 0 slave_mac (power_on_tbl ())) \<and> conn_handle s = 0x80"
  by (simp add: demo_defs Let_def bonds_def live_devices_def user_tbl_slave_mac_add_def flash_write_page_def)

lemma demo_clean: "tbl_ok (slave_tbl (ctl demo_host))" "manual_pair (ctl demo_host) = 0" "bonds demo_host = {}"
  by (simp_all add: demo_host_def host_boot_def power_on_tbl_def tbl_ok_def bonds_def live_devices_def USER_PAIR_SLAVE_MAX_NUM_def)

lemma only_invited_slaves_are_bonded_witness:
  "invited demo_world [adv_event 0 slave_mac telink_adv_trigger_paring_8258 0xD8, est_event 0 slave_mac] demo_host 0 slave_mac"
proof -
  obtain s out where r: "host_run demo_world [adv_event 0 slave_mac telink_adv_trigger_paring_8258 0xD8, est_event 0 slave_mac] demo_host =
      Some (s, out)" "\<lparr>bond_mark = ADR_BOND_MARK, adr_type = 0, address = slave_mac\<rparr> \<in> bonds s"
    using demo_pairing by auto
  show ?thesis using only_invited_slaves_are_bonded [OF demo_clean(1,2) r] by (simp add: demo_clean(3))
qed

section \<open>Connection parameters\<close>

lemma u32_prod:
  assumes "a * b < 2 ^ 32" "unat (x :: u32) = a" "unat (y :: u32) = b"
  shows "unat (x * y) = a * b"
  using assms by (simp add: unat_word_ariths)



text \<open>Above that the 32 bit product wraps: a slave that asks to sleep for 71 minutes with a timeout of 440 ms is accepted.\<close>

lemma param_request_wraps:
  "param_ok 159 21610 44 \<and> unat (159 :: u16) * 1250 * (unat (21610 :: u16) + 1) = 4295186250"
  by (simp add: param_ok_def Let_def)

section \<open>The keyboard path\<close>

text \<open>
  A keyboard report reaches the PC as its first key alone: whatever the slave sends as modifiers
  in the first byte is overwritten by the key count, so that the PC is told the same for every value of
  it, and of the six keys at most the first is reported.
\<close>

theorem keyboard_report_loses_modifiers:
  assumes "length keys = 6" "keys ! 0 \<noteq> TELINK_UNPAIR_KEYVALUE"
  shows "map_option hid (att_keyboard t ([modifiers, reserved] @ keys @ rest) st) =
    usbkb_hid_report t \<lparr>cnt = if keys ! 0 = 0 then 0 else 1, ctrl_key = reserved, keycode = keys\<rparr> (hid st)"
proof -
  have "buf_read 0 8 ([modifiers, reserved] @ keys @ rest) = Some ([modifiers, reserved] @ keys)"
    using assms(1) by (simp add: buf_read_def)
  moreover have "kb_of_bytes ([modifiers, reserved] @ keys) = \<lparr>cnt = modifiers, ctrl_key = reserved, keycode = keys\<rparr>"
    using assms(1) by (simp add: kb_of_bytes_def)
  ultimately show ?thesis using assms(2)
    by (cases "usbkb_hid_report t \<lparr>cnt = if keys ! 0 = 0 then 0 else 1, ctrl_key = reserved, keycode = keys\<rparr> (hid st)")
      (auto simp: att_keyboard_def Let_def cong: if_cong)
qed

lemma keyboard_report_loses_modifiers_witness:
  "map_option hid (att_keyboard 100 ([2, 0] @ [4, 5, 0, 0, 0, 0] @ []) demo_host) =
    usbkb_hid_report 100 \<lparr>cnt = if [4, 5, 0, 0, 0, 0 :: u8] ! 0 = 0 then 0 else 1, ctrl_key = 0, keycode = [4, 5, 0, 0, 0, 0]\<rparr> (hid demo_host)"
  by (rule keyboard_report_loses_modifiers) (simp_all add: TELINK_UNPAIR_KEYVALUE_def)

section \<open>No history leaves a buffer\<close>

text \<open>
  What every step keeps, and what the events owe: an event of the controller is as long as its kind
  demands, a notification lies in a buffer of 137 bytes, and the index in a microphone frame is in the table.
\<close>

definition host_ok :: "'f host \<Rightarrow> bool" where
  "host_ok st \<longleftrightarrow> audio_ok (audio st) \<and> usb_mouse_report_proto (hid st) \<noteq> 0"

definition hci_event_ok :: "u8 list \<Rightarrow> bool" where
  "hci_event_ok p \<longleftrightarrow> 19 \<le> length p \<and> 12 + unat (p ! 10) \<le> length p"

definition packet_ok :: "u8 list \<Rightarrow> bool" where
  "packet_ok p \<longleftrightarrow> 18 \<le> length p \<and> (p ! 6 = 0x1b \<longrightarrow> 137 \<le> length p \<and> p ! 11 \<le> 88)"

definition host_event_ok :: "'f world \<Rightarrow> host_event \<Rightarrow> bool" where
  "host_event_ok w x \<longleftrightarrow> (case x of
     Hci ok t h p \<Rightarrow> hci_event_ok p
   | L2cap t c raw \<Rightarrow> (case w_pack w c raw of None \<Rightarrow> True | Some p \<Rightarrow> packet_ok p)
   | _ \<Rightarrow> True)"

lemma starts_with_some: "i + length bs \<le> length p \<Longrightarrow> \<exists>b. starts_with p i bs = Some b"
  by (induction bs arbitrary: i) auto

lemma host_ok_cong: "host_ok st \<Longrightarrow> audio st' = audio st \<Longrightarrow> hid st' = hid st \<Longrightarrow> host_ok st'"
  by (simp add: host_ok_def)

lemma safe_adv:
  assumes "hci_event_ok p"
  shows "\<exists>st' out. blm_le_adv_report_event_handle xfer create_ok t p st = Some (st', out) \<and> audio st' = audio st \<and> hid st' = hid st"
proof -
  have len: "19 \<le> length p" "12 + unat (p ! 10) \<le> length p" using assms by (simp_all add: hci_event_ok_def)
  have l8: "11 + length telink_adv_trigger_paring_8258 \<le> length p" "11 + length telink_adv_trigger_unpair_8258 \<le> length p"
    using len by (simp_all add: telink_adv_trigger_paring_8258_def telink_adv_trigger_unpair_8258_def)
  obtain pairing unpair where s: "starts_with p 11 telink_adv_trigger_paring_8258 = Some pairing"
    "starts_with p 11 telink_adv_trigger_unpair_8258 = Some unpair"
    using starts_with_some [OF l8(1)] starts_with_some [OF l8(2)] by blast
  have "\<exists>manual. adv_manual (dongle_pairing_enable st) p (sint (p ! (11 + unat (p ! 10)))) = Some manual"
    by (auto simp: adv_manual_def s)
  then obtain manual where m: "adv_manual (dongle_pairing_enable st) p (sint (p ! (11 + unat (p ! 10)))) = Some manual" ..
  have b: "byte_at p 10 = Some (p ! 10)" "byte_at p (11 + unat (p ! 10)) = Some (p ! (11 + unat (p ! 10)))"
    "byte_at p 3 = Some (p ! 3)" "buf_read 4 6 p = Some (take 6 (drop 4 p))" using len by (simp_all add: byte_at_def buf_read_def)
  show ?thesis
    by (cases "app_host_smp_sdp_pending st = 0") (auto simp: blm_le_adv_report_event_handle_def b s m Let_def)
qed

lemma safe_callback:
  assumes "hci_event_ok p" "host_ok st"
  shows "\<exists>st' out. app_event_callback xfer create_ok t h p st = Some (st', out) \<and> host_ok st'"
proof -
  have len: "19 \<le> length p" using assms(1) by (simp add: hci_event_ok_def)
  obtain s0 o0 where adv: "blm_le_adv_report_event_handle xfer create_ok t p st = Some (s0, o0)" "host_ok s0"
    using safe_adv [OF assms(1)] host_ok_cong [OF assms(2)] by metis
  have "\<exists>st' out. blm_le_connection_establish_event_handle xfer p st = Some (st', out) \<and> audio st' = audio st \<and> hid st' = hid st"
    using len by (simp add: blm_le_connection_establish_event_handle_def byte_at_def u16_at_def buf_read_def Let_def)
  then obtain s1 o1 where est: "blm_le_connection_establish_event_handle xfer p st = Some (s1, o1)" "host_ok s1"
    using host_ok_cong [OF assms(2)] by metis
  have upd: "\<exists>st' out. blm_le_conn_update_event_proc p st = Some (st', out) \<and> host_ok st'"
    using len assms(2) by (simp add: blm_le_conn_update_event_proc_def u16_at_def host_ok_def)
  obtain s2 o2 where disc: "blm_disconnect_event_handle st = (s2, o2)" by fastforce
  hence d: "host_ok s2"
    using assms(2) by (auto simp: blm_disconnect_event_handle_def host_att_data_clear_def att_keyboard_release_def Let_def host_ok_def split: if_splits)
  have b: "byte_at p 0 = Some (p ! 0)" using len by (auto simp: byte_at_def)
  show ?thesis using adv est upd disc d assms(2) unfolding app_event_callback_def Let_def b by simp
qed

lemma safe_notification:
  assumes "host_ok st" "137 \<le> length p" "p ! 11 \<le> 88"
  shows "\<exists>st'. att_notification t a (drop 9 p) st = Some st' \<and> host_ok st'"
proof -
  have "\<exists>st'. att_keyboard_media t (drop 9 p) st = Some st' \<and> host_ok st'"
  proof -
    have "\<exists>k. u16_at (drop 9 p) 0 = Some k" using assms(2) by (simp add: u16_at_def)
    then obtain k where k: "u16_at (drop 9 p) 0 = Some k" ..
    obtain h where "usbkb_report_consumer_key t k (hid st) = Some h" "usb_mouse_report_proto h = usb_mouse_report_proto (hid st)"
      using consumer_key_returns by blast
    thus ?thesis using assms(1) by (simp add: att_keyboard_media_def k host_ok_def)
  qed
  moreover have "\<exists>st'. att_keyboard t (drop 9 p) st = Some st' \<and> host_ok st'"
  proof -
    have "\<exists>bs. buf_read 0 8 (drop 9 p) = Some bs" using assms(2) by (simp add: buf_read_def)
    then obtain bs where bs: "buf_read 0 8 (drop 9 p) = Some bs" ..
    obtain k where k: "k = kb_of_bytes bs" by simp
    obtain h where h: "usbkb_hid_report t (k\<lparr>cnt := if keycode k ! 0 \<noteq> 0 then 1 else 0\<rparr>) (hid st) = Some h"
      "usb_mouse_report_proto h = usb_mouse_report_proto (hid st)"
      using key_event_returns [of "hid st"] assms(1) unfolding host_ok_def by metis
    show ?thesis using assms(1) h by (simp add: att_keyboard_def bs Let_def host_ok_def flip: k)
  qed
  moreover have "\<exists>b. att_mic (drop 9 p) (audio st) = Some b \<and> audio_ok b"
  proof -
    have "event_ok (Notify (drop 9 p))" using assms(2,3) by (simp add: event_ok_def)
    from audio_step_ok [OF _ this, of "audio st"] show ?thesis using assms(1) by (auto simp: host_ok_def)
  qed
  ultimately show ?thesis using assms(1) by (auto simp: att_notification_def host_ok_def)
qed

lemma safe_l2cap:
  assumes "host_ok st" "\<And>p. pack conn raw = Some p \<Longrightarrow> packet_ok p"
  shows "\<exists>st' out. app_l2cap_handler pack t conn raw st = Some (st', out) \<and> host_ok st'"
proof (cases "pack conn raw")
  case None
  thus ?thesis using assms(1) by (simp add: app_l2cap_handler_def)
next
  case (Some p)
  have len: "18 \<le> length p" and n: "p ! 6 = 0x1b \<Longrightarrow> 137 \<le> length p \<and> p ! 11 \<le> 88" using assms(2) [OF Some] by (auto simp: packet_ok_def)
  obtain st1 where st1: "st1 = (if app_host_smp_sdp_pending st = SDP_PENDING
      then st\<lparr>att := host_att_client_handler conn p (att st)\<rparr> else st)" by simp
  have ok1: "host_ok st1" using assms(1) by (simp add: st1 host_ok_def)
  have b: "u16_at p 4 = Some (u16_le (p ! 4) (p ! 5))" "byte_at p 6 = Some (p ! 6)" "u16_at p 7 = Some (u16_le (p ! 7) (p ! 8))"
    "byte_at p 8 = Some (p ! 8)" "byte_at p 9 = Some (p ! 9)" using len by (simp_all add: u16_at_def byte_at_def)
  have notify: "\<exists>st'. att_notification t (u16_le (p ! 7) (p ! 8)) (drop 9 p) st1 = Some st' \<and> host_ok st'" if "p ! 6 = 0x1b"
    using safe_notification [OF ok1] n [OF that] by blast
  have param: "\<exists>st' out. conn_param_request t conn p st = Some (st', out) \<and> host_ok st'"
    using len assms(1) by (simp add: conn_param_request_def u16_at_def byte_at_def host_ok_def)
  have "host_ok (st1\<lparr>ota := x\<rparr>)" for x using ok1 by (simp add: host_ok_def)
  thus ?thesis using notify param ok1 assms(1) unfolding app_l2cap_handler_def Some
    by (auto simp: b Let_def st1 [symmetric])
qed

lemma audio_test_mode: "audio (button_test_mode t k st) = audio st" "hid (button_test_mode t k st) = hid st"
  by (simp_all add: button_test_mode_def Let_def)

lemma audio_single: "audio (button_single t k st) = audio st" "hid (button_single t k st) = hid st"
  by (simp_all add: button_single_def Let_def audio_test_mode)

lemma audio_release: "audio (button_release c st) = audio st" "hid (button_release c st) = hid st"
  by (simp_all add: button_release_def Let_def)

lemma audio_frame: "audio (button_part e st) = audio st" "hid (button_part e st) = hid st"
  by (simp_all add: button_part_def proc_button_def Let_def split_beta audio_single audio_release)

lemma safe_pass:
  assumes "host_ok st"
  shows "\<exists>st' out. main_idle_loop xfer crc16 e st = Some (st', out) \<and> host_ok st'"
proof -
  obtain a where a: "proc_audio (clk e) (audio st) = Some a" "audio_ok a"
    using audio_step_ok [of "audio st" "Loop (clk e)"] assms by (auto simp: host_ok_def event_ok_def)
  obtain s1 where s1: "s1 = (button_part e st)\<lparr>audio := a\<rparr>" by simp
  have ok1: "host_ok s1" using assms a(2) by (simp add: s1 host_ok_def audio_frame)
  obtain s2 o2 where s2: "pair_part xfer e s1 = (s2, o2)" by fastforce
  hence ok2: "host_ok s2" using ok1 by (auto simp: pair_part_def host_ok_def)
  obtain s3 o3 where s3: "ota_part crc16 e s2 = (s3, o3)" by fastforce
  hence ok3: "host_ok s3" using ok2 by (auto simp: ota_part_def host_ok_def split_beta Let_def)
  obtain s4 o4 where s4: "(if host_update_conn_param_req s3 \<noteq> 0 then host_update_conn_proc (clk e) (conn1 e) s3 else (s3, [])) = (s4, o4)"
    by fastforce
  hence ok4: "host_ok s4" using ok3 by (auto simp: host_update_conn_proc_def host_ok_def split: if_splits)
  have "main_idle_loop xfer crc16 e st = Some (s4, o2 @ o3 @ o4)"
    by (simp only: main_idle_loop_def Let_def audio_frame a(1) bind.bind_lunit s1 [symmetric] s2 s3 s4 prod.case)
  thus ?thesis using ok4 by blast
qed

lemma safe_step:
  assumes "host_ok st" "host_event_ok w x"
  shows "\<exists>st' out. host_step w x st = Some (st', out) \<and> host_ok st'"
proof (cases x)
  case (Hci ok t h p)
  thus ?thesis using safe_callback [OF _ assms(1)] assms(2) by (simp add: host_event_ok_def)
next
  case (L2cap t c raw)
  have "packet_ok p" if "w_pack w c raw = Some p" for p using assms(2) that L2cap by (simp add: host_event_ok_def)
  thus ?thesis using safe_l2cap [OF assms(1)] L2cap by simp
next
  case (Idle_pass e)
  thus ?thesis using safe_pass [OF assms(1)] by simp
next
  case (Iso_in t)
  thus ?thesis using audio_step_ok [of "audio st" "Iso t"] assms(1) by (auto simp: host_ok_def event_ok_def)
next
  case Sdp_start
  thus ?thesis using assms(1) by (simp add: sdp_start_def host_ok_def)
next
  case (Sdp_finish r)
  have "host_ok (sdp_finish f16 f128 m r st)" for f16 f128 m using assms(1)
    by (auto simp: sdp_finish_def app_service_discovery_def host_ok_def Let_def split: option.splits sdp.splits bool.splits)
  thus ?thesis using Sdp_finish by simp
qed

interpretation dongle: safe_steps "host_step w" host_ok "host_event_ok w" for w
  by unfold_locales (rule safe_step)


lemma demo_ok: "host_ok demo_host"
  by (simp add: host_ok_def demo_host_def host_boot_def boot_ok report_proto_init_def)


section \<open>Unpairing\<close>

definition notification :: "u8 list \<Rightarrow> u16 \<Rightarrow> bool" where
  "notification p a \<longleftrightarrow> u16_at p 4 = Some 4 \<and> byte_at p 6 = Some 0x1b \<and> u16_at p 7 = Some a"

lemma notification_step:
  assumes "w_pack w c raw = Some p" "notification p a"
  shows "host_step w (L2cap t c raw) st = map_option (\<lambda>s. (s, [])) (att_notification t a (drop 9 p)
    (if app_host_smp_sdp_pending st = SDP_PENDING then st\<lparr>att := host_att_client_handler c p (att st)\<rparr> else st))"
  using assms by (simp add: app_l2cap_handler_def notification_def ATT_OP_READ_BY_TYPE_RSP_def Let_def)

lemma unpair_key:
  assumes "8 \<le> length dat" "dat ! 2 = TELINK_UNPAIR_KEYVALUE"
  shows "\<exists>k. att_keyboard t dat st = Some (st\<lparr>kb_dat_report := k, ctl := (ctl st)\<lparr>dongle_unpair_enable := True\<rparr>\<rparr>)"
  using assms by (simp add: att_keyboard_def buf_read_def kb_of_bytes_def Let_def) blast

text \<open>
  C36. A slave can have itself forgotten: a keyboard notification whose first key is 0xFF is not shown to
  the PC, and the next pass of a connected dongle with no button changing commands the disconnection and
  leaves no bond, unless a disconnection is already under way.
\<close>

theorem slave_unpair_removes_all_bonds:
  assumes "host_ok st" "tbl_ok (slave_tbl (ctl st))" "\<not> master_disconnect_flag (ctl st)"
    and "w_pack w c raw = Some p" "notification p (ucast (conn_char_handler st ! 4))" "17 \<le> length p" "p ! 11 = TELINK_UNPAIR_KEYVALUE"
    and "conn_char_handler st ! 4 \<noteq> conn_char_handler st ! 3"
    and "conn1 e" "disc_status e = 0" "\<not> fst (vc_detect_button True (levels e) (btn st))"
  shows "\<exists>st' out. host_run w [L2cap t c raw, Idle_pass e] st = Some (st', out) \<and>
    bonds st' = {} \<and> hid st' = hid st \<and> Disconnect (conn_handle st) \<in> set out"
proof -
  obtain st1 where st1: "st1 = (if app_host_smp_sdp_pending st = SDP_PENDING
      then st\<lparr>att := host_att_client_handler c p (att st)\<rparr> else st)" by simp
  have f1: "conn_char_handler st1 = conn_char_handler st" "ctl st1 = ctl st" "hid st1 = hid st" "audio st1 = audio st"
    "btn st1 = btn st" "conn_handle st1 = conn_handle st" by (simp_all add: st1)
  have a: "(ucast (conn_char_handler st ! 4) :: u16) \<noteq> ucast (conn_char_handler st ! 3)"
  proof
    assume "(ucast (conn_char_handler st ! 4) :: u16) = ucast (conn_char_handler st ! 3)"
    hence "unat (ucast (conn_char_handler st ! 4) :: u16) = unat (ucast (conn_char_handler st ! 3) :: u16)" by simp
    thus False using assms(8) by (simp add: unat_ucast_up word_unat_eq_iff)
  qed
  have d: "8 \<le> length (drop 9 p)" "drop 9 p ! 2 = TELINK_UNPAIR_KEYVALUE" using assms(6,7) by simp_all
  obtain k where "att_keyboard t (drop 9 p) st1 = Some (st1\<lparr>kb_dat_report := k, ctl := (ctl st1)\<lparr>dongle_unpair_enable := True\<rparr>\<rparr>)"
    using unpair_key [OF d] by blast
  hence n: "att_notification t (ucast (conn_char_handler st ! 4)) (drop 9 p) st1 =
      Some (st1\<lparr>kb_dat_report := k, ctl := (ctl st1)\<lparr>dongle_unpair_enable := True\<rparr>\<rparr>)"
    using a by (simp add: att_notification_def f1)
  define s2 where "s2 = st1\<lparr>kb_dat_report := k, ctl := (ctl st1)\<lparr>dongle_unpair_enable := True\<rparr>\<rparr>"
  have step1: "host_step w (L2cap t c raw) st = Some (s2, [])"
    using notification_step [OF assms(4,5), of t st] n by (simp add: st1 [symmetric] s2_def)
  have f2: "ctl s2 = (ctl st)\<lparr>dongle_unpair_enable := True\<rparr>" "hid s2 = hid st" "audio s2 = audio st" "btn s2 = btn st"
    "conn_handle s2 = conn_handle st" by (simp_all add: s2_def f1)
  have quiet: "ctl (button_part e s2) = ctl s2" "conn_handle (button_part e s2) = conn_handle s2"
    using assms(11) by (auto simp: button_part_def proc_button_def Let_def f2(4) split: prod.splits)
  have "host_ok s2" using assms(1) by (simp add: host_ok_def f2)
  then obtain s3 out where pass: "main_idle_loop (w_xfer w) (w_crc16 w) e s2 = Some (s3, out)" using safe_pass by blast
  have h: "hid s3 = hid st"
    using pass by (auto simp: main_idle_loop_def Let_def pair_part_def ota_part_def host_update_conn_proc_def audio_frame f2
        split_beta split: Option.bind_split_asm if_splits)
  have c3: "ctl s3 = host_pair_unpair_proc (w_xfer w) (clk e) (conn1 e) (disc_status e) (conn2 e) (ctl s2)"
    using pass by (auto simp: main_idle_loop_def Let_def pair_part_def ota_part_def host_update_conn_proc_def quiet
        split_beta split: Option.bind_split_asm if_splits)
  have "slave_tbl (ctl s3) = user_tbl_salve_mac_unpair_proc (w_xfer w) (slave_tbl (ctl st))"
    using assms(3,9,10) unfolding c3 by (simp add: host_pair_unpair_proc_def Let_def f2)
  hence b: "bonds s3 = {}" using tbl_delete_all [OF assms(2)] by (simp add: bonds_def)
  have "Disconnect (conn_handle st) \<in> set out"
    using pass assms(3,9) by (auto simp: main_idle_loop_def Let_def pair_part_def ota_part_def host_update_conn_proc_def quiet f2
        split_beta split: Option.bind_split_asm if_splits)
  thus ?thesis using step1 pass b h by simp
qed

section \<open>Connections\<close>

definition disc_code :: u32 where "disc_code = 0x2000005"

lemma hci_dispatch:
  "host_step w (Hci ok t disc_code p) st = Some (blm_disconnect_event_handle st)"
  "p \<noteq> [] \<Longrightarrow> p ! 0 = HCI_SUB_EVT_LE_ADVERTISING_REPORT \<Longrightarrow>
     host_step w (Hci ok t le_meta p) st = blm_le_adv_report_event_handle (w_xfer w) ok t p st"
  "p \<noteq> [] \<Longrightarrow> p ! 0 = HCI_SUB_EVT_LE_CONNECTION_ESTABLISH \<Longrightarrow>
     host_step w (Hci ok t le_meta p) st = blm_le_connection_establish_event_handle (w_xfer w) p st"
  by (simp_all add: app_event_callback_def disc_code_def le_meta_def hci_codes byte_at_def Let_def)

text \<open>What an advertisement does to a dongle that is not busy.\<close>

lemma adv_answer:
  assumes "hci_event_ok p" "buf_read 4 6 p = Some mac" "app_host_smp_sdp_pending st = 0"
    and "user_tbl_slave_mac_search (p ! 3) mac (slave_tbl (ctl st)) \<noteq> 0 \<or>
      adv_manual (dongle_pairing_enable st) p (sint (p ! (11 + unat (p ! 10)))) = Some True"
  shows "\<exists>st'. blm_le_adv_report_event_handle xfer ok t p st = Some (st', [Create_connection (p ! 3) mac]) \<and>
    sdp_running st' = sdp_running st \<and> conn_char_handler st' = conn_char_handler st \<and>
    serviceDiscovery_adr_type st' = serviceDiscovery_adr_type st \<and> serviceDiscovery_address st' = serviceDiscovery_address st"
proof -
  have len: "19 \<le> length p" "12 + unat (p ! 10) \<le> length p" using assms(1) by (simp_all add: hci_event_ok_def)
  obtain s0 out where s0: "blm_le_adv_report_event_handle xfer ok t p st = Some (s0, out)" using safe_adv [OF assms(1)] by blast
  have b: "byte_at p 10 = Some (p ! 10)" "byte_at p (11 + unat (p ! 10)) = Some (p ! (11 + unat (p ! 10)))"
    "byte_at p 3 = Some (p ! 3)" using len by (simp_all add: byte_at_def)
  obtain manual unpair where m: "adv_manual (dongle_pairing_enable st) p (sint (p ! (11 + unat (p ! 10)))) = Some manual"
    "starts_with p 11 telink_adv_trigger_unpair_8258 = Some unpair"
    using s0 assms(3) by (auto simp: blm_le_adv_report_event_handle_def b Let_def split: Option.bind_split_asm)
  have c: "user_tbl_slave_mac_search (p ! 3) mac (slave_tbl (ctl st)) \<noteq> 0 \<or> manual" using assms(4) m(1) by auto
  show ?thesis using c by (simp add: blm_le_adv_report_event_handle_def b m assms(2,3) Let_def)
qed

text \<open>
  C37. The dongle comes back to its slave: after a disconnection, whatever it was doing, it scans again, and the
  next advertisement of a bonded slave is answered with a connection request.
\<close>

theorem bonded_slave_reconnects:
  assumes "user_tbl_slave_mac_search (p ! 3) mac (slave_tbl (ctl st)) \<noteq> 0"
    and "hci_event_ok p" "p ! 0 = HCI_SUB_EVT_LE_ADVERTISING_REPORT" "buf_read 4 6 p = Some mac"
  shows "\<exists>st' out. host_run w [Hci ok t disc_code q, Hci ok' t' le_meta p] st =
    Some (st', out @ [Scan_again, Create_connection (p ! 3) mac])"
proof -
  obtain s1 o1 where d: "blm_disconnect_event_handle st = (s1, o1 @ [Scan_again])" "slave_tbl (ctl s1) = slave_tbl (ctl st)"
    "app_host_smp_sdp_pending s1 = 0"
    by (auto simp: blm_disconnect_event_handle_def host_att_data_clear_def att_keyboard_release_def Let_def)
  have p: "p \<noteq> []" using assms(2) by (auto simp: hci_event_ok_def)
  have "user_tbl_slave_mac_search (p ! 3) mac (slave_tbl (ctl s1)) \<noteq> 0" using assms(1) d(2) by simp
  then obtain s2 where "blm_le_adv_report_event_handle (w_xfer w) ok' t' p s1 = Some (s2, [Create_connection (p ! 3) mac])"
    using adv_answer [OF assms(2,4) d(3)] by blast
  thus ?thesis by (simp add: hci_dispatch(1) hci_dispatch(2) [OF p assms(3)] d(1) del: host_step.simps)
qed

definition bonded_host :: "unit host" where
  "bonded_host = demo_host\<lparr>ctl := (ctl demo_host)\<lparr>slave_tbl := snd (user_tbl_slave_mac_add (\<lambda>bs f. f) 0 slave_mac (power_on_tbl ()))\<rparr>,
     conn_char_handler := [44, 0, 0, 25, 29, 0, 0, 0]\<rparr>"

lemma bonded_ok: "host_ok bonded_host" "tbl_ok (slave_tbl (ctl bonded_host))" "\<not> master_disconnect_flag (ctl bonded_host)"
    "user_tbl_slave_mac_search 0 slave_mac (slave_tbl (ctl bonded_host)) \<noteq> 0"
proof -
  show "host_ok bonded_host" using demo_ok by (simp add: bonded_host_def host_ok_def)
  show "tbl_ok (slave_tbl (ctl bonded_host))"
    using tbl_add [OF demo_clean(1) surjective_pairing, of "\<lambda>bs f. f" 0 slave_mac]
    by (simp add: bonded_host_def demo_host_def host_boot_def)
  show "\<not> master_disconnect_flag (ctl bonded_host)" by (simp add: bonded_host_def demo_host_def host_boot_def)
  show "user_tbl_slave_mac_search 0 slave_mac (slave_tbl (ctl bonded_host)) \<noteq> 0"
    by (simp add: bonded_host_def demo_defs user_tbl_slave_mac_add_def mac_matches_def Let_def)
qed

definition demo_pass :: pass_env where
  "demo_pass = \<lparr>clk = 100, levels = [True, True], conn1 = True, disc_status = 0, conn2 = True,
     ota_in = \<lparr>now = 100, connected = True, rf_busy = False, tx_fifo = 0, push_ok = True, update_req = False,
       sdp_pending = False, rom = \<lambda>a. 0\<rparr>\<rparr>"

definition unpair_packet :: "u8 list" where
  "unpair_packet = [2, 0, 11, 0, 4, 0, 0x1b, 29, 0, 0, 0, 0xFF, 0, 0, 0, 0, 0]"

lemma unpair_packet_parts:
  "notification unpair_packet 29" "length unpair_packet = 17" "unpair_packet ! 11 = TELINK_UNPAIR_KEYVALUE"
  unfolding unpair_packet_def by (simp_all add: notification_def u16_at_def byte_at_def u16_le_def TELINK_UNPAIR_KEYVALUE_def)

lemma slave_unpair_removes_all_bonds_witness:
  "\<exists>st' out. host_run demo_world [L2cap 90 0x80 unpair_packet, Idle_pass demo_pass] bonded_host = Some (st', out) \<and>
    bonds st' = {} \<and> hid st' = hid bonded_host \<and> Disconnect (conn_handle bonded_host) \<in> set out"
proof (rule slave_unpair_removes_all_bonds [where p = unpair_packet, OF bonded_ok(1-3)])
  show "\<not> fst (vc_detect_button True (levels demo_pass) (btn bonded_host))"
    by (simp add: demo_pass_def bonded_host_def demo_host_def host_boot_def btn_boot_def vc_detect_button_def btn_debounce_filter_def
        read_buttons_cases Let_def)
qed (simp_all add: demo_world_def unpair_packet_parts bonded_host_def demo_pass_def)

lemma bonded_slave_reconnects_witness:
  "\<exists>st' out. host_run demo_world [Hci True 5 disc_code [], Hci True 100 le_meta ([2, 1, 0, 0] @ slave_mac @ [8] @ replicate 9 0)] bonded_host =
    Some (st', out @ [Scan_again, Create_connection (([2, 1, 0, 0] @ slave_mac @ [8] @ replicate 9 0) ! 3) slave_mac])"
  by (rule bonded_slave_reconnects)
    (use bonded_ok(4) in \<open>simp_all add: hci_event_ok_def slave_mac_def HCI_SUB_EVT_LE_ADVERTISING_REPORT_def buf_read_def\<close>)

lemma tbl_delete_known:
  assumes "tbl_ok t" "user_tbl_slave_mac_search ty mac t \<noteq> 0"
  shows "live_devices (snd (user_tbl_slave_mac_delete_by_adr xfer ty mac t)) = []"
proof -
  obtain i where i: "mac_find ty mac 0 t = Some i" using assms(2) by (auto simp: user_tbl_slave_mac_search_def split: option.splits)
  have "cur_num t \<noteq> 0"
  proof
    assume "cur_num t = 0"
    hence "mac_find ty mac 0 t = None" by (subst mac_find.simps) simp
    thus False using i by simp
  qed
  hence "cur_num t = 1" using tbl_ok_cases [OF assms(1)] by blast
  thus ?thesis by (simp add: user_tbl_slave_mac_delete_by_adr_def i user_tbl_slave_mac_delete_by_index_def Let_def live_devices_def)
qed

text \<open>
  A slave that asks to be forgotten is connected once more: an advertisement of a bonded slave
  with the unpairing data is answered with a connection request first, because the slave is still in the
  table, and only then is the bond deleted, at whatever distance it was received.
\<close>

theorem unpair_advertisement_is_answered:
  assumes "tbl_ok (slave_tbl (ctl st))" "app_host_smp_sdp_pending st = 0" "hci_event_ok p"
    and "p ! 0 = HCI_SUB_EVT_LE_ADVERTISING_REPORT" "buf_read 4 6 p = Some mac"
    and "starts_with p 11 telink_adv_trigger_unpair_8258 = Some True"
    and "user_tbl_slave_mac_search (p ! 3) mac (slave_tbl (ctl st)) \<noteq> 0"
  shows "\<exists>st'. host_step w (Hci ok t le_meta p) st = Some (st', [Create_connection (p ! 3) mac]) \<and> bonds st' = {}"
proof -
  have len: "19 \<le> length p" "12 + unat (p ! 10) \<le> length p" using assms(3) by (simp_all add: hci_event_ok_def)
  have b: "byte_at p 10 = Some (p ! 10)" "byte_at p (11 + unat (p ! 10)) = Some (p ! (11 + unat (p ! 10)))"
    "byte_at p 3 = Some (p ! 3)" using len by (simp_all add: byte_at_def)
  obtain s0 out where s0: "blm_le_adv_report_event_handle (w_xfer w) ok t p st = Some (s0, out)" using safe_adv [OF assms(3)] by blast
  obtain manual where m: "adv_manual (dongle_pairing_enable st) p (sint (p ! (11 + unat (p ! 10)))) = Some manual"
    using s0 assms(2) by (auto simp: blm_le_adv_report_event_handle_def b Let_def split: Option.bind_split_asm)
  have "live_devices (snd (user_tbl_slave_mac_delete_by_adr (w_xfer w) (p ! 3) mac (slave_tbl (ctl st)))) = []"
    by (rule tbl_delete_known [OF assms(1,7)])
  thus ?thesis using assms(2,5,6,7) len
    by (subst hci_dispatch(2) [OF _ assms(4)]) (auto simp: blm_le_adv_report_event_handle_def b m Let_def bonds_def)
qed

lemma unpair_advertisement_is_answered_witness:
  "\<exists>st'. host_step demo_world (Hci True 100 le_meta ([2, 1, 0, 0] @ slave_mac @ [8] @ telink_adv_trigger_unpair_8258 @ [0x9C])) bonded_host =
     Some (st', [Create_connection (([2, 1, 0, 0] @ slave_mac @ [8] @ telink_adv_trigger_unpair_8258 @ [0x9C]) ! 3) slave_mac]) \<and> bonds st' = {}"
  by (rule unpair_advertisement_is_answered [OF bonded_ok(2)])
    (use bonded_ok(4) in \<open>simp_all add: hci_event_ok_def slave_mac_def HCI_SUB_EVT_LE_ADVERTISING_REPORT_def buf_read_def
       telink_adv_trigger_unpair_8258_def bonded_host_def demo_host_def host_boot_def\<close>)

text \<open>
  A discovery that is interrupted takes the next slave with it: when the slave disconnects during the
  discovery and another is connected before it times out, the service registered for the new slave
  is cleared with that of the old one; the new slave stays connected with the handles of the previous
  discovery, and nothing is pending that would look for its own.
\<close>

theorem interrupted_discovery_loses_new_slave:
  assumes "sdp_running st = Some True" "length mac = 6"
    and "ty \<noteq> serviceDiscovery_adr_type st \<or> mac \<noteq> serviceDiscovery_address st"
  shows "\<exists>st' out. host_run w [Hci True t0 disc_code q, adv_event ty mac telink_adv_trigger_paring_8258 0xD8, est_event ty mac, Sdp_finish Timeout] st =
      Some (st', out) \<and> Create_connection ty mac \<in> set out \<and> conn_handle st' = 0x80 \<and> mac_addr st' = mac \<and>
    \<not> main_service st' \<and> app_host_smp_sdp_pending st' = 0 \<and> sdp_running st' = None \<and> conn_char_handler st' = conn_char_handler st"
proof -
  obtain s1 o1 where s1: "blm_disconnect_event_handle st = (s1, o1)" by fastforce
  have f1: "app_host_smp_sdp_pending s1 = 0" "sdp_running s1 = Some True" "conn_char_handler s1 = conn_char_handler st"
    "serviceDiscovery_adr_type s1 = serviceDiscovery_adr_type st" "serviceDiscovery_address s1 = serviceDiscovery_address st"
    using s1 assms(1) by (auto simp: blm_disconnect_event_handle_def host_att_data_clear_def att_keyboard_release_def Let_def split: if_splits)
  let ?p = "[2, 1, 0, ty] @ mac @ [8] @ telink_adv_trigger_paring_8258 @ [0xD8]"
  let ?e = "[0x20, 0, 0x80, 0, 0, ty] @ mac"
  obtain a b c d e f where m: "mac = [a, b, c, d, e, f]" using assms(2) by (auto simp: length_Suc_conv numeral_eq_Suc)
  have p: "hci_event_ok ?p" "buf_read 4 6 ?p = Some mac" "?p ! 3 = ty"
    "adv_manual (dongle_pairing_enable s1) ?p (sint (?p ! (11 + unat (?p ! 10)))) = Some True"
    by (simp_all add: hci_event_ok_def m buf_read_def adv_manual_def telink_adv_trigger_paring_8258_def)
  obtain s2 where s2: "blm_le_adv_report_event_handle (w_xfer w) True 100 ?p s1 = Some (s2, [Create_connection ty mac])"
    "sdp_running s2 = Some True" "conn_char_handler s2 = conn_char_handler st"
    "serviceDiscovery_adr_type s2 = serviceDiscovery_adr_type st" "serviceDiscovery_address s2 = serviceDiscovery_address st"
    using adv_answer [OF p(1,2) f1(1), of "w_xfer w" True 100] p(3,4) f1(2-5) by auto
  have adv: "host_step w (adv_event ty mac telink_adv_trigger_paring_8258 0xD8) s1 = Some (s2, [Create_connection ty mac])"
    using hci_dispatch(2) [of ?p w True 100 s1] s2(1)
    by (simp add: adv_event_def HCI_SUB_EVT_LE_ADVERTISING_REPORT_def telink_adv_trigger_paring_8258_def del: host_step.simps)
  have "\<exists>s3. blm_le_connection_establish_event_handle (w_xfer w) ?e s2 = Some (s3, [Conn_led True]) \<and> conn_handle s3 = 0x80 \<and>
      mac_addr s3 = mac \<and> sdp_running s3 = Some True \<and> conn_char_handler s3 = conn_char_handler st"
    using s2(2-5) by (simp add: m blm_le_connection_establish_event_handle_def byte_at_def u16_at_def buf_read_def u16_le_def Let_def)
  then obtain s3 where s3: "blm_le_connection_establish_event_handle (w_xfer w) ?e s2 = Some (s3, [Conn_led True])" "conn_handle s3 = 0x80"
      "mac_addr s3 = mac" "sdp_running s3 = Some True" "conn_char_handler s3 = conn_char_handler st" by blast
  have est: "host_step w (est_event ty mac) s2 = Some (s3, [Conn_led True])"
    using hci_dispatch(3) [of ?e w True 200 s2] s3(1)
    by (simp add: est_event_def HCI_SUB_EVT_LE_CONNECTION_ESTABLISH_def del: host_step.simps)
  show ?thesis
    by (simp add: hci_dispatch(1) s1 adv est sdp_finish_def app_service_discovery_def Let_def s3 del: host_step.simps(1))
qed

lemma interrupted_discovery_loses_new_slave_witness:
  "\<exists>st' out. host_run demo_world [Hci True 0 disc_code [], adv_event 0 [9, 8, 7, 6, 5, 4] telink_adv_trigger_paring_8258 0xD8,
      est_event 0 [9, 8, 7, 6, 5, 4], Sdp_finish Timeout] (bonded_host\<lparr>sdp_running := Some True\<rparr>) =
      Some (st', out) \<and> Create_connection 0 [9, 8, 7, 6, 5, 4] \<in> set out \<and> conn_handle st' = 0x80 \<and> mac_addr st' = [9, 8, 7, 6, 5, 4] \<and>
    \<not> main_service st' \<and> app_host_smp_sdp_pending st' = 0 \<and> sdp_running st' = None \<and>
    conn_char_handler st' = conn_char_handler (bonded_host\<lparr>sdp_running := Some True\<rparr>)"
proof (rule interrupted_discovery_loses_new_slave)
  have "serviceDiscovery_address (bonded_host\<lparr>sdp_running := Some True\<rparr>) = replicate 6 0"
    by (simp add: bonded_host_def demo_host_def host_boot_def)
  also have "\<dots> = [0, 0, 0, 0, 0, 0]" by (simp add: numeral_eq_Suc)
  finally show "0 \<noteq> serviceDiscovery_adr_type (bonded_host\<lparr>sdp_running := Some True\<rparr>) \<or>
      [9, 8, 7, 6, 5, 4] \<noteq> serviceDiscovery_address (bonded_host\<lparr>sdp_running := Some True\<rparr>)" by simp
qed simp_all

text \<open>The handles of the discovery are kept in single bytes: a notification with a handle above 255 is never recognised.\<close>

lemma notifications_above_255_are_ignored:
  assumes "unat a > 255"
  shows "att_notification t a dat st = Some st"
proof -
  have "a \<noteq> ucast (h :: u8)" for h
  proof
    assume "a = ucast h"
    hence "unat a = unat h" by (simp add: unat_ucast_up)
    moreover have "unat h < 2 ^ LENGTH(8)" by (rule unsigned_less)
    ultimately show False using assms by simp
  qed
  thus ?thesis by (simp add: att_notification_def)
qed

end
