(* ===== verification/Printf.thy ===== *)
theory Printf
  imports Prelude
begin

unbundle bit_operations_syntax

text \<open>
  The formatted output of the SDK, \<open>application/print/u_printf.c\<close>. Characters are bytes, a C string is
  the list of its bytes before the terminator, the characters written are appended to a list together with
  the count the functions return. A read past the end of the format, a missing or misused argument
  and a write outside the conversion buffer are \<^const>\<open>None\<close>.
\<close>

section \<open>Output of strings and numbers\<close>

type_synonym chars = "u8 list"

abbreviation "c_space \<equiv> 32 :: u8"
abbreviation "c_zero \<equiv> 48 :: u8"
abbreviation "c_minus \<equiv> 45 :: u8"
abbreviation "c_percent \<equiv> 37 :: u8"

record pad = pad_right :: bool  pad_zero :: bool

definition prints :: "chars \<Rightarrow> int \<Rightarrow> pad \<Rightarrow> chars \<times> int" where
  "prints s width p =
     (let len = int (length s);
          w = (if width > 0 then (if len \<ge> width then 0 else width - len) else width);
          padchar = (if width > 0 \<and> pad_zero p then c_zero else c_space);
          fill = replicate (nat w) padchar;
          out = (if pad_right p then s @ fill else fill @ s)
      in (out, int (length s) + int (length fill)))"

definition PRINT_BUF_LEN :: nat where "PRINT_BUF_LEN = 12"

definition digit_char :: "u8 \<Rightarrow> nat \<Rightarrow> u8" where
  "digit_char letbase t = (if t \<ge> 10 then of_nat t + (letbase - c_zero - 10) + c_zero else of_nat t + c_zero)"

text \<open>The conversion loop fills the buffer downwards from \<open>s\<close>.\<close>

function digit_loop :: "nat \<Rightarrow> u8 \<Rightarrow> nat \<Rightarrow> nat \<Rightarrow> chars \<Rightarrow> (nat \<times> chars) option" where
  "digit_loop b letbase u s buf =
     (if u = 0 then Some (s, buf)
      else if s = 0 then None
      else digit_loop b letbase (u div b) (s - 1) (buf[s - 1 := digit_char letbase (u mod b)]))"
  by pat_completeness auto
termination by (relation "measure (\<lambda>(b, l, u, s, buf). s)") auto

declare digit_loop.simps [simp del]

definition cstr_at :: "nat \<Rightarrow> chars \<Rightarrow> chars" where
  "cstr_at s buf = takeWhile (\<lambda>c. c \<noteq> 0) (drop s buf)"

definition printi :: "u32 \<Rightarrow> nat \<Rightarrow> bool \<Rightarrow> int \<Rightarrow> pad \<Rightarrow> u8 \<Rightarrow> (chars \<times> int) option" where
  "printi i b sg width p letbase =
     (if i = 0 then Some (prints [c_zero] width p)
      else
        let neg = (sg \<and> b = 10 \<and> sint i < 0); u = (if neg then - i else i);
            s = PRINT_BUF_LEN - 1; buf = (replicate PRINT_BUF_LEN c_space)[s := 0]
        in (case digit_loop b letbase (unat u) s buf of
              None \<Rightarrow> None
            | Some (s1, buf1) \<Rightarrow>
                if neg \<and> width \<noteq> 0 \<and> pad_zero p
                then (let (o1, pc) = prints (cstr_at s1 buf1) (width - 1) p in Some (c_minus # o1, pc + 1))
                else if neg then (if s1 = 0 then None else Some (prints (cstr_at (s1 - 1) (buf1[s1 - 1 := c_minus])) width p))
                else Some (prints (cstr_at s1 buf1) width p)))"

section \<open>Formats\<close>

datatype arg = A_int u32 | A_str "chars option"

definition is_digit :: "u8 \<Rightarrow> bool" where "is_digit c \<longleftrightarrow> 48 \<le> c \<and> c \<le> 57"

definition null_text :: chars where "null_text = [40, 110, 117, 108, 108, 41]"

definition digits_value :: "chars \<Rightarrow> int" where
  "digits_value cs = foldl (\<lambda>w c. w * 10 + int (unat (c - c_zero))) 0 cs"

text \<open>One conversion, from behind the percent sign to its letter: adjustment, zeros, width, and the rest.\<close>

definition conv_spec :: "chars \<Rightarrow> pad \<times> int \<times> chars" where
  "conv_spec f =
     (let (right, f1) = (if f \<noteq> [] \<and> hd f = c_minus then (True, tl f) else (False, f));
          f2 = dropWhile (\<lambda>c. c = c_zero) f1;
          f3 = dropWhile is_digit f2
      in (\<lparr>pad_right = right, pad_zero = (f1 \<noteq> [] \<and> hd f1 = c_zero)\<rparr>, digits_value (takeWhile is_digit f2), f3))"

definition conv_out :: "u8 \<Rightarrow> pad \<Rightarrow> int \<Rightarrow> arg list \<Rightarrow> ((chars \<times> int) \<times> arg list) option" where
  "conv_out c p width args =
     (let int_arg = (\<lambda>k. case args of A_int v # rest \<Rightarrow> map_option (\<lambda>r. (r, rest)) (k v) | _ \<Rightarrow> None) in
      if c = 115 then (case args of A_str s # rest \<Rightarrow> Some (prints (case s of Some t \<Rightarrow> t | None \<Rightarrow> null_text) width p, rest) | _ \<Rightarrow> None)
      else if c = 100 then int_arg (\<lambda>v. printi v 10 True width p 97)
      else if c = 120 then int_arg (\<lambda>v. printi v 16 False width p 97)
      else if c = 88 then int_arg (\<lambda>v. printi v 16 False width p 65)
      else if c = 117 then int_arg (\<lambda>v. printi v 10 False width p 97)
      else if c = 99 then int_arg (\<lambda>v. Some (prints (if (ucast v :: u8) = 0 then [] else [ucast v]) width p))
      else Some (([], 0), args))"

lemma conv_spec_length: "conv_spec f = (p, w, f3) \<Longrightarrow> length f3 \<le> length f"
proof -
  assume "conv_spec f = (p, w, f3)"
  then obtain g where g: "f3 = dropWhile is_digit (dropWhile (\<lambda>c. c = c_zero) g)" "length g \<le> length f"
    by (auto simp: conv_spec_def Let_def split: if_splits)
  show ?thesis using g(2) length_dropWhile_le [of is_digit "dropWhile (\<lambda>c. c = c_zero) g"]
      length_dropWhile_le [of "\<lambda>c. c = c_zero" g] by (simp add: g(1))
qed

function print_from :: "chars \<Rightarrow> arg list \<Rightarrow> (chars \<times> int) option" where
  "print_from [] args = Some ([], 0)"
| "print_from (c # f) args =
     (if c \<noteq> c_percent then map_option (\<lambda>(o1, pc). (c # o1, pc + 1)) (print_from f args)
      else if f = [] then Some ([], 0)
      else if hd f = c_percent then map_option (\<lambda>(o1, pc). (c_percent # o1, pc + 1)) (print_from (tl f) args)
      else (case conv_spec f of (p, width, f3) \<Rightarrow>
          case f3 of [] \<Rightarrow> None
          | k # f4 \<Rightarrow>
            (case conv_out k p width args of None \<Rightarrow> None
             | Some ((o1, n1), args') \<Rightarrow> map_option (\<lambda>(o2, n2). (o1 @ o2, n1 + n2)) (print_from f4 args'))))"
  by pat_completeness auto
termination
proof (relation "measure (\<lambda>(f, args). length f)", goal_cases)
  case (4 c f args x p width k f4)
  thus ?case using conv_spec_length [of f x width k] by auto
qed auto

definition u_printf :: "chars \<Rightarrow> arg list \<Rightarrow> (chars \<times> int) option" where
  "u_printf format args = print_from format args"

text \<open>The buffer that \<open>u_sprintf\<close> leaves: the characters and a terminator.\<close>

definition u_sprintf :: "chars \<Rightarrow> arg list \<Rightarrow> (chars \<times> int) option" where
  "u_sprintf format args = map_option (\<lambda>(o1, pc). (o1 @ [0], pc)) (print_from format args)"

fun array_from :: "chars \<Rightarrow> chars option" where
  "array_from [] = Some []"
| "array_from (d # ds) =
     (case u_printf [37, 88, 37, 115] [A_int (ucast d), A_str (Some (if ds \<noteq> [] then [58] else [32]))] of
        None \<Rightarrow> None | Some (o1, _) \<Rightarrow> map_option ((@) o1) (array_from ds))"

definition u_array_printf :: "chars \<Rightarrow> chars option" where
  "u_array_printf data =
     (case (u_printf [123] [], array_from data, u_printf [125, 10] []) of
        (Some (o1, _), Some o2, Some (o3, _)) \<Rightarrow> Some (o1 @ o2 @ o3) | _ \<Rightarrow> None)"

section \<open>What a number looks like\<close>

function num_digits :: "nat \<Rightarrow> u8 \<Rightarrow> nat \<Rightarrow> chars" where
  "num_digits b letbase u =
     (if u = 0 \<or> b < 2 then [] else num_digits b letbase (u div b) @ [digit_char letbase (u mod b)])"
  by pat_completeness auto
termination by (relation "measure (\<lambda>(b, l, u). u)") auto

declare num_digits.simps [simp del]

lemma num_digits_0 [simp]: "num_digits b letbase 0 = []"
  by (simp add: num_digits.simps)

lemma num_digits_step: "0 < u \<Longrightarrow> 2 \<le> b \<Longrightarrow> num_digits b letbase u = num_digits b letbase (u div b) @ [digit_char letbase (u mod b)]"
  by (subst num_digits.simps) simp

lemma length_num_digits: "2 \<le> b \<Longrightarrow> u < b ^ k \<Longrightarrow> length (num_digits b letbase u) \<le> k"
proof (induction k arbitrary: u)
  case (Suc k)
  show ?case
  proof (cases "u = 0")
    case False
    have "u div b < b ^ k" using Suc.prems by (simp add: less_mult_imp_div_less mult.commute)
    thus ?thesis using Suc.IH Suc.prems(1) False by (simp add: num_digits_step)
  qed simp
qed simp

lemma digit_loop_num:
  assumes "2 \<le> b" "length (num_digits b letbase u) \<le> s" "s \<le> length buf"
  shows "digit_loop b letbase u s buf = Some (s - length (num_digits b letbase u),
    take (s - length (num_digits b letbase u)) buf @ num_digits b letbase u @ drop s buf)"
  using assms(2,3)
proof (induction u arbitrary: s buf rule: less_induct)
  case (less u)
  show ?case
  proof (cases "u = 0")
    case True
    thus ?thesis by (subst digit_loop.simps) simp
  next
    case False
    let ?d = "digit_char letbase (u mod b)" and ?q = "num_digits b letbase (u div b)"
    have num: "num_digits b letbase u = ?q @ [?d]" using False assms(1) by (simp add: num_digits_step)
    have s: "0 < s" "length ?q \<le> s - 1" "s - 1 \<le> length (buf[s - 1 := ?d])" using less.prems num by simp_all
    have "u div b < u" using False assms(1) by simp
    note IH = less.IH [OF this s(2,3)]
    have drop: "drop (s - 1) (buf[s - 1 := ?d]) = ?d # drop s buf"
    proof -
      have "s - 1 < length (buf[s - 1 := ?d])" using s(1) less.prems(2) by simp
      from Cons_nth_drop_Suc [OF this] show ?thesis using s(1) less.prems(2) by simp
    qed
    have take: "take (s - 1 - length ?q) (buf[s - 1 := ?d]) = take (s - 1 - length ?q) buf" by simp
    have "digit_loop b letbase u s buf = digit_loop b letbase (u div b) (s - 1) (buf[s - 1 := ?d])"
      using False s(1) by (subst digit_loop.simps) simp
    thus ?thesis unfolding num IH take drop using s(1) by simp
  qed
qed

lemma hex_digits: "t < 16 \<Longrightarrow> t \<in> {0, 1, 2, 3, 4, 5, 6, 7, 8, 9, 10, 11, 12, 13, 14, 15 :: nat}"
  by (auto simp: numeral_eq_Suc less_Suc_eq)

lemma digit_chars:
  assumes "t < b" "b = 10 \<or> b = 16" "letbase = 97 \<or> letbase = 65"
  shows "digit_char letbase t \<noteq> 0 \<and> digit_char letbase t \<noteq> c_space \<and> digit_char letbase t \<noteq> c_minus"
proof -
  have "t < 16" using assms(1,2) by auto
  hence "t \<in> {0, 1, 2, 3, 4, 5, 6, 7, 8, 9, 10, 11, 12, 13, 14, 15}" by (rule hex_digits)
  thus ?thesis using assms(3) by (auto simp: digit_char_def)
qed

definition digit_value :: "u8 \<Rightarrow> nat" where
  "digit_value c = (if c \<le> 57 then unat c - 48 else if 97 \<le> c then unat c - 87 else unat c - 55)"

lemma digit_value_char:
  assumes "t < b" "b = 10 \<or> b = 16" "letbase = 97 \<or> letbase = 65"
  shows "digit_value (digit_char letbase t) = t"
proof -
  have "t < 16" using assms(1,2) by auto
  hence "t \<in> {0, 1, 2, 3, 4, 5, 6, 7, 8, 9, 10, 11, 12, 13, 14, 15}" by (rule hex_digits)
  thus ?thesis using assms(3) by (auto simp: digit_char_def digit_value_def)
qed

definition text_chars :: "chars \<Rightarrow> bool" where
  "text_chars cs \<longleftrightarrow> (\<forall>c \<in> set cs. c \<noteq> 0 \<and> c \<noteq> c_space \<and> c \<noteq> c_minus)"

lemma num_digits_text:
  assumes "b = 10 \<or> b = 16" "letbase = 97 \<or> letbase = 65"
  shows "text_chars (num_digits b letbase u)"
proof (induction u rule: less_induct)
  case (less u)
  show ?case
  proof (cases "u = 0")
    case False
    have "u mod b < b" "u div b < u" "2 \<le> b" using assms(1) False by auto
    thus ?thesis using less.IH [OF \<open>u div b < u\<close>] digit_chars [OF _ assms] False by (auto simp: num_digits_step text_chars_def)
  qed (simp add: text_chars_def)
qed

definition read_nat :: "nat \<Rightarrow> chars \<Rightarrow> nat" where
  "read_nat b cs = foldl (\<lambda>a c. a * b + digit_value c) 0 cs"

lemma read_num_digits:
  assumes "b = 10 \<or> b = 16" "letbase = 97 \<or> letbase = 65"
  shows "read_nat b (num_digits b letbase u) = u"
proof (induction u rule: less_induct)
  case (less u)
  show ?case
  proof (cases "u = 0")
    case False
    have b: "u mod b < b" "u div b < u" "2 \<le> b" using assms(1) False by auto
    have "read_nat b (num_digits b letbase u) = read_nat b (num_digits b letbase (u div b)) * b + u mod b"
      using False b(3) digit_value_char [OF b(1) assms] by (simp add: num_digits_step read_nat_def)
    thus ?thesis using less.IH [OF b(2)] by simp
  qed (simp add: read_nat_def)
qed

lemma num_digits_nonempty: "0 < u \<Longrightarrow> 2 \<le> b \<Longrightarrow> num_digits b letbase u \<noteq> []"
  by (simp add: num_digits_step)

section \<open>Numbers are printed so that they can be read back\<close>

definition magnitude :: "u32 \<Rightarrow> nat \<Rightarrow> bool \<Rightarrow> nat" where
  "magnitude i b sg = unat (if sg \<and> b = 10 \<and> sint i < 0 then - i else i)"

definition number_text :: "u32 \<Rightarrow> nat \<Rightarrow> bool \<Rightarrow> u8 \<Rightarrow> chars" where
  "number_text i b sg letbase = (if i = 0 then [c_zero] else num_digits b letbase (magnitude i b sg))"

lemma printi_text:
  fixes i :: u32 and sg :: bool
  assumes b: "b = 10 \<or> b = 16" and l: "letbase = 97 \<or> letbase = 65"
  defines "neg \<equiv> sg \<and> b = 10 \<and> sint i < 0"
  shows "printi i b sg width p letbase = Some
    (if neg \<and> width \<noteq> 0 \<and> pad_zero p
     then (c_minus # fst (prints (number_text i b sg letbase) (width - 1) p), snd (prints (number_text i b sg letbase) (width - 1) p) + 1)
     else prints ((if neg then [c_minus] else []) @ number_text i b sg letbase) width p)"
proof (cases "i = 0")
  case True
  thus ?thesis by (simp add: printi_def number_text_def neg_def)
next
  case False
  obtain ds where ds: "ds = num_digits b letbase (magnitude i b sg)" by simp
  have number: "number_text i b sg letbase = ds" using False by (simp add: number_text_def ds)
  have m: "magnitude i b sg < 2 ^ LENGTH(32)" unfolding magnitude_def by (rule unsigned_less)
  have "length ds \<le> 10" if "b = 10" unfolding ds using that m by (intro length_num_digits) simp_all
  moreover have "length ds \<le> 8" if "b = 16" unfolding ds using that m by (intro length_num_digits) simp_all
  ultimately have len: "length ds \<le> 10" using b by auto
  obtain buf where buf: "buf = (replicate 12 c_space)[11 := 0]" by simp
  have lb: "length buf = 12" "drop 11 buf = [0]" by (simp_all add: buf numeral_eq_Suc)
  have loop: "digit_loop b letbase (magnitude i b sg) 11 buf = Some (11 - length ds, take (11 - length ds) buf @ ds @ [0])"
    using digit_loop_num [of b letbase "magnitude i b sg" 11 buf] len lb b by (auto simp: ds)
  have "text_chars ds" using num_digits_text [OF b l] by (simp add: ds)
  hence str: "takeWhile (\<lambda>c. c \<noteq> 0) (ds @ [0]) = ds" by (auto simp: text_chars_def takeWhile_append2)
  have s1: "cstr_at (11 - length ds) (take (11 - length ds) buf @ ds @ [0]) = ds"
    using lb(1) str by (simp add: cstr_at_def min_def)
  have s2: "cstr_at (10 - length ds) ((take (11 - length ds) buf @ ds @ [0])[10 - length ds := c_minus]) = c_minus # ds"
  proof -
    have "length (take (11 - length ds) buf) = Suc (10 - length ds)" using lb(1) len by simp
    then obtain xs x where x: "take (11 - length ds) buf = xs @ [x]" "length xs = 10 - length ds"
      by (metis length_append_singleton append_butlast_last_id length_greater_0_conv zero_less_Suc nat.inject length_butlast diff_Suc_1)
    show ?thesis using str by (simp add: x cstr_at_def list_update_append)
  qed
  show ?thesis unfolding number using False len loop s1 s2
    by (auto simp: printi_def Let_def PRINT_BUF_LEN_def buf [symmetric] magnitude_def neg_def split_beta)
qed

definition read_int :: "nat \<Rightarrow> chars \<Rightarrow> int" where
  "read_int b out =
     (let t = dropWhile (\<lambda>c. c = c_space) out; neg = (t \<noteq> [] \<and> hd t = c_minus);
          n = read_nat b (takeWhile (\<lambda>c. c \<noteq> c_space) (if neg then tl t else t))
      in if neg then - int n else int n)"

lemma read_nat_zeros: "read_nat b (replicate m c_zero @ ds) = read_nat b ds"
  by (induction m) (simp_all add: read_nat_def digit_value_def)

lemma read_padded:
  assumes "text_chars ds" "ds \<noteq> []"
  shows "read_int b (replicate n c_space @ (if neg then [c_minus] else []) @ replicate m c_zero @ ds @ replicate k c_space) =
    (if neg then - int (read_nat b ds) else int (read_nat b ds))"
proof -
  have drop: "dropWhile (\<lambda>c. c = c_space) (replicate n c_space @ xs) = xs" if "xs \<noteq> []" "hd xs \<noteq> c_space" for xs
    using that by (induction n) (auto simp: neq_Nil_conv)
  let ?body = "replicate m c_zero @ ds" and ?t = "(if neg then [c_minus] else []) @ replicate m c_zero @ ds @ replicate k c_space"
  have body: "\<forall>c \<in> set ?body. c \<noteq> c_space \<and> c \<noteq> c_minus" using assms(1) by (auto simp: text_chars_def)
  have hd: "hd (?body @ ys) \<in> set ?body" for ys using assms(2) by (cases m) auto
  have ne: "?body @ replicate k c_space \<noteq> []" using assms(2) by simp
  have take: "takeWhile (\<lambda>c. c \<noteq> c_space) (?body @ replicate k c_space) = ?body"
  proof -
    have "takeWhile (\<lambda>c. c \<noteq> c_space) (replicate k c_space) = []" by (cases k) simp_all
    thus ?thesis using takeWhile_append2 [of ?body "\<lambda>c. c \<noteq> c_space" "replicate k c_space"] body by (simp del: append_assoc)
  qed
  have "dropWhile (\<lambda>c. c = c_space) (replicate n c_space @ ?t) = ?t"
    using hd [of "replicate k c_space"] body ne by (intro drop) (auto split: if_splits)
  moreover have "hd (?body @ replicate k c_space) \<noteq> c_minus" using hd [of "replicate k c_space"] body by blast
  ultimately show ?thesis using take ne read_nat_zeros [of b m ds] by (cases neg) (simp_all add: read_int_def Let_def)
qed

lemma prints_count: "snd (prints s w p) = int (length (fst (prints s w p)))"
  by (simp add: prints_def Let_def)

lemma prints_width: "w \<le> int (length (fst (prints s w p)))"
  by (simp add: prints_def Let_def)

text \<open>What padding does, when zeros are not put behind the number.\<close>

lemma prints_shape:
  assumes "\<not> (pad_right p \<and> pad_zero p)"
  shows "\<exists>n m k. fst (prints s w p) = replicate n c_space @ replicate m c_zero @ s @ replicate k c_space \<and> (m \<noteq> 0 \<longrightarrow> pad_zero p \<and> w > 0)"
proof -
  obtain n where n: "fst (prints s w p) = (if pad_right p then s @ replicate n (if w > 0 \<and> pad_zero p then c_zero else c_space)
      else replicate n (if w > 0 \<and> pad_zero p then c_zero else c_space) @ s)"
    by (simp add: prints_def Let_def)
  show ?thesis
  proof (cases "w > 0 \<and> pad_zero p")
    case True
    hence "fst (prints s w p) = replicate 0 c_space @ replicate n c_zero @ s @ replicate 0 c_space" using n assms by simp
    thus ?thesis using True by blast
  next
    case False
    have "fst (prints s w p) = replicate (if pad_right p then 0 else n) c_space @ replicate 0 c_zero @ s @ replicate (if pad_right p then n else 0) c_space"
      using n False by auto
    thus ?thesis by blast
  qed
qed

lemma sint_magnitude:
  "int (magnitude i b sg) = (if sg \<and> b = 10 \<and> sint i < 0 then - sint i else if sg \<and> b = 10 then sint i else uint i)"
proof -
  have r: "- 2147483648 \<le> sint i" "sint i < 2147483648" using sint_greater_eq [of i] sint_lt [of i] by simp_all
  have u: "uint i = sint i mod 4294967296" using uint_sint [of i] by (simp add: take_bit_eq_mod)
  have neg: "int (unat (- i)) = - sint i" if "sint i < 0"
  proof -
    have "uint (- i) = (- uint i) mod 4294967296" by (simp add: uint_word_ariths)
    also have "\<dots> = (- sint i) mod 4294967296" by (simp add: u mod_minus_eq)
    also have "\<dots> = - sint i" using r(1) that by simp
    finally show ?thesis by simp
  qed
  have "uint i = sint i" if "\<not> sint i < 0" using that r(2) u by simp
  thus ?thesis using neg by (simp add: magnitude_def)
qed

lemma number_text_reads:
  assumes "b = 10 \<or> b = 16" "letbase = 97 \<or> letbase = 65"
  shows "text_chars (number_text i b sg letbase)" "number_text i b sg letbase \<noteq> []"
    "read_nat b (number_text i b sg letbase) = magnitude i b sg"
proof -
  have m: "0 < magnitude i b sg" if "i \<noteq> 0"
    using that by (simp add: magnitude_def unat_gt_0)
  show "text_chars (number_text i b sg letbase)"
    using num_digits_text [OF assms] by (simp add: number_text_def text_chars_def)
  show "number_text i b sg letbase \<noteq> []"
    using num_digits_nonempty [OF m, of b] assms(1) by (auto simp: number_text_def)
  show "read_nat b (number_text i b sg letbase) = magnitude i b sg"
  proof (cases "i = 0")
    case True
    thus ?thesis by (simp add: number_text_def magnitude_def read_nat_def digit_value_def)
  next
    case False
    thus ?thesis using read_num_digits [OF assms] by (simp add: number_text_def)
  qed
qed

text \<open>
  C39. Every number is printed so that it can be read back: for the conversions of the formatter (signed and
  unsigned decimal, hexadecimal in both cases), any width and any padding but zeros on the right, the twelve
  bytes of the conversion buffer suffice, the text is at least as wide as asked, the returned count is
  its length, and a reader that skips spaces gets the number.
\<close>

theorem printed_number_reads_back:
  assumes "b = 10 \<or> b = 16" "letbase = 97 \<or> letbase = 65" "\<not> (pad_right p \<and> pad_zero p)"
  shows "\<exists>out. printi i b sg width p letbase = Some (out, int (length out)) \<and> width \<le> int (length out) \<and>
    read_int b out = (if sg \<and> b = 10 then sint i else uint i)"
proof -
  let ?neg = "sg \<and> b = 10 \<and> sint i < 0" and ?ds = "number_text i b sg letbase"
  note shown = printi_text [OF assms(1,2), of i sg width p]
  note ds = number_text_reads [OF assms(1,2), of i sg]
  have num: "(if ?neg then - int (read_nat b ?ds) else int (read_nat b ?ds)) = (if sg \<and> b = 10 then sint i else uint i)"
    unfolding ds(3) sint_magnitude by simp
  show ?thesis
  proof (cases "?neg \<and> width \<noteq> 0 \<and> pad_zero p")
    case True
    obtain m' where s': "fst (prints ?ds (width - 1) p) = replicate m' c_zero @ ?ds"
      using True assms(3) that [of 0] by (auto simp: prints_def Let_def)
    have "read_int b (c_minus # fst (prints ?ds (width - 1) p)) = (if ?neg then - int (read_nat b ?ds) else int (read_nat b ?ds))"
      unfolding s' using read_padded [OF ds(1,2), of b 0 ?neg m' 0] True by simp
    moreover have "width \<le> int (length (c_minus # fst (prints ?ds (width - 1) p)))" using prints_width [of "width - 1" ?ds p] by simp
    ultimately show ?thesis unfolding shown num [symmetric] using True by (simp add: prints_count)
  next
    case False
    let ?t = "(if ?neg then [c_minus] else []) @ ?ds"
    obtain n m k where s: "fst (prints ?t width p) = replicate n c_space @ replicate m c_zero @ ?t @ replicate k c_space"
      and m: "m \<noteq> 0 \<longrightarrow> pad_zero p \<and> width > 0" using prints_shape [OF assms(3)] by metis
    have "replicate m c_zero @ ?t = (if ?neg then [c_minus] else []) @ replicate m c_zero @ ?ds" using False m by (cases m) auto
    hence "read_int b (fst (prints ?t width p)) = (if ?neg then - int (read_nat b ?ds) else int (read_nat b ?ds))"
      using read_padded [OF ds(1,2), of b n ?neg m k] unfolding s by (metis append_assoc)
    thus ?thesis unfolding shown num [symmetric] if_not_P [OF False] using prints_count [of ?t width p] prints_width [of width ?t p]
      by (metis prod.collapse)
  qed
qed

lemma printed_number_reads_back_witness:
  "\<exists>out. printi (- 42) 10 True 6 \<lparr>pad_right = False, pad_zero = True\<rparr> 97 = Some (out, int (length out)) \<and> 6 \<le> int (length out) \<and>
    read_int 10 out = (if True \<and> (10::nat) = 10 then sint (- 42 :: u32) else uint (- 42 :: u32))"
  by (rule printed_number_reads_back) simp_all

text \<open>Zeros on the right change the number: \<open>%-05d\<close> prints 42 as 42000.\<close>

lemma right_zeros_change_number:
  "printi 42 10 True 5 \<lparr>pad_right = True, pad_zero = True\<rparr> 97 = Some ([52, 50, 48, 48, 48], 5)"
  by code_simp

section \<open>Formats\<close>

lemma conv_out_count: "conv_out c p w args = Some ((o1, n1), args') \<Longrightarrow> c \<noteq> 0 \<Longrightarrow> n1 = int (length o1)"
proof -
  have i: "n1 = int (length o1)" if "printi v b sg w p l = Some (o1, n1)" "b = 10 \<or> b = 16" "l = 97 \<or> l = 65" for v b sg l o1 n1
    using that(1) printi_text [OF that(2,3), of v sg w p] prints_count
    by (auto split: if_splits) (metis prod.collapse snd_conv fst_conv)+
  assume "conv_out c p w args = Some ((o1, n1), args')"
  thus ?thesis using prints_count [of _ w p]
    by (auto simp: conv_out_def Let_def dest!: i split: if_splits list.splits arg.splits) (metis fst_conv snd_conv)+
qed

text \<open>
  C40. The formatter counts what it writes: whatever the format and the arguments, if the call returns, the
  count is the number of characters written, which \<open>u_sprintf\<close> leaves followed by one terminator.
\<close>

theorem printed_characters_are_counted:
  assumes "u_printf format args = Some (out, n)"
  shows "n = int (length out) \<and> u_sprintf format args = Some (out @ [0], n)"
proof -
  have "print_from format args = Some (out, n) \<Longrightarrow> n = int (length out)"
  proof (induction format args arbitrary: out n rule: print_from.induct)
    case (2 c f args)
    show ?case
    proof (cases "c \<noteq> c_percent \<or> f = [] \<or> hd f = c_percent")
      case True
      thus ?thesis using 2 by (auto split: if_splits)
    next
      case False
      obtain p w f3 where cs: "conv_spec f = (p, w, f3)" by (metis prod.exhaust)
      obtain k f4 where f3: "f3 = k # f4" using 2(4) False cs by (cases f3) auto
      obtain o1 n1 args' where co: "conv_out k p w args = Some ((o1, n1), args')" using 2(4) False cs f3 by (auto split: option.splits)
      obtain o2 n2 where r: "print_from f4 args' = Some (o2, n2)" "out = o1 @ o2" "n = n1 + n2"
        using 2(4) False cs f3 co by auto
      have "n2 = int (length o2)" using 2(3) False cs f3 co r(1) by simp
      moreover have "n1 = int (length o1)" using conv_out_count [OF co] by (cases "k = 0") (use co in \<open>auto simp: conv_out_def Let_def\<close>)
      ultimately show ?thesis using r by simp
    qed
  qed simp
  thus ?thesis using assms by (simp add: u_printf_def u_sprintf_def)
qed

lemma printed_characters_are_counted_witness:
  "(4::int) = int (length [49, 50, 58, 99 :: u8]) \<and>
   u_sprintf [37, 100, 58, 37, 120] [A_int 12, A_int 12] = Some ([49, 50, 58, 99] @ [0], 4)"
proof (rule printed_characters_are_counted)
  show "u_printf [37, 100, 58, 37, 120] [A_int 12, A_int 12] = Some ([49, 50, 58, 99], 4)" by code_simp
qed

text \<open>A format that ends inside a conversion, such as \<open>%5\<close>, is read past its end; the code steps over the terminator.\<close>

lemma unfinished_conversion_overreads: "u_printf [37, 53] args = None"
  by (simp add: u_printf_def conv_spec_def is_digit_def)

end
