(* ===== verification/Led.thy ===== *)
theory Led
  imports Gpio
begin

text \<open>
  The LED of the applications, \<open>vendor/common/blt_led.c\<close> and \<open>blt_led.h\<close>: a blinking pattern of
  on and off times with a repeat count and a priority, driven by the passes of the main loop. The pin
  is a pin of the GPIO driver. The clock is an argument.
\<close>

section \<open>State and operations\<close>

record led_cfg =
  cfg_onTime_ms :: u16
  cfg_offTime_ms :: u16
  cfg_repeatCount :: u8
  cfg_priority :: u8

record device_led =
  isOn :: u8
  polar :: u8
  repeatCount :: u8
  priority :: u8
  onTime_ms :: u16
  offTime_ms :: u16
  gpio_led :: u32
  startTick :: u32

definition CLOCK_16M_SYS_TIMER_CLK_1MS :: u32 where "CLOCK_16M_SYS_TIMER_CLK_1MS = 16000"

type_synonym led_io = "device_led \<times> gpio_st"

definition device_led_on_off :: "u8 \<Rightarrow> led_io \<Rightarrow> led_io" where
  "device_led_on_off on = (\<lambda>(d, g).
     let g1 = gpio_write (ucast (gpio_led d)) (on XOR polar d \<noteq> 0) g;
         g2 = gpio_set_output_en (ucast (gpio_led d)) (on \<noteq> 0) g1
     in (d\<lparr>isOn := on\<rparr>, g2))"

definition device_led_init :: "u32 \<Rightarrow> u8 \<Rightarrow> led_io \<Rightarrow> led_io" where
  "device_led_init gpio polarity = (\<lambda>(d, g).
     (d\<lparr>gpio_led := gpio, polar := (if polarity = 0 then 1 else 0)\<rparr>, gpio_write (ucast gpio) (polarity = 0) g))"

definition device_led_setup :: "u32 \<Rightarrow> led_cfg \<Rightarrow> led_io \<Rightarrow> bool \<times> led_io" where
  "device_led_setup now cfg = (\<lambda>(d, g).
     if repeatCount d \<noteq> 0 \<and> cfg_priority cfg \<le> priority d then (False, d, g)
     else
       let d1 = d\<lparr>onTime_ms := cfg_onTime_ms cfg, offTime_ms := cfg_offTime_ms cfg,
                  repeatCount := cfg_repeatCount cfg, priority := cfg_priority cfg\<rparr>;
           d2 = (if cfg_repeatCount cfg = 0xff then d1\<lparr>repeatCount := 0\<rparr>
                 else if onTime_ms d1 = 0
                 then d1\<lparr>offTime_ms := offTime_ms d1 * ucast (repeatCount d1), repeatCount := 1\<rparr>
                 else if offTime_ms d1 = 0
                 then d1\<lparr>onTime_ms := onTime_ms d1 * ucast (repeatCount d1), repeatCount := 1\<rparr>
                 else d1);
           d3 = d2\<lparr>startTick := now\<rparr>
       in (True, device_led_on_off (if onTime_ms d3 \<noteq> 0 then 1 else 0) (d3, g)))"

definition led_proc :: "u32 \<Rightarrow> led_io \<Rightarrow> led_io" where
  "led_proc now = (\<lambda>(d, g).
     if isOn d \<noteq> 0 then
       if clock_time_exceed now (startTick d) (ucast (onTime_ms d) * 1000) then
         let (d1, g1) = device_led_on_off 0 (d, g) in
         if offTime_ms d1 \<noteq> 0
         then (d1\<lparr>startTick := startTick d1 + ucast (onTime_ms d1) * CLOCK_16M_SYS_TIMER_CLK_1MS\<rparr>, g1)
         else (d1\<lparr>repeatCount := 0\<rparr>, g1)
       else (d, g)
     else
       if clock_time_exceed now (startTick d) (ucast (offTime_ms d) * 1000) then
         let d1 = d\<lparr>repeatCount := repeatCount d - 1\<rparr> in
         if repeatCount d1 \<noteq> 0 then
           let (d2, g2) = device_led_on_off 1 (d1, g)
           in (d2\<lparr>startTick := startTick d2 + ucast (offTime_ms d2) * CLOCK_16M_SYS_TIMER_CLK_1MS\<rparr>, g2)
         else (d1, g)
       else (d, g))"

definition device_led_process :: "u32 \<Rightarrow> led_io \<Rightarrow> led_io" where
  "device_led_process now s = (if repeatCount (fst s) \<noteq> 0 then led_proc now s else s)"

section \<open>The pattern\<close>

text \<open>
  Whether a pattern of \<open>n\<close> flashes, \<open>on\<close> ticks on and \<open>off\<close> ticks off, is lit \<open>t\<close> ticks after
  its start, and the number of flashes that are not over.
\<close>

definition lit :: "nat \<Rightarrow> nat \<Rightarrow> nat \<Rightarrow> nat \<Rightarrow> bool" where
  "lit on off n t \<longleftrightarrow> (t - 1) div (on + off) < n \<and> (t - 1) mod (on + off) < on"

definition flashes_left :: "nat \<Rightarrow> nat \<Rightarrow> nat \<Rightarrow> nat \<Rightarrow> nat" where
  "flashes_left on off n t = n - (t - 1) div (on + off)"

text \<open>The passes of the main loop at the given times after the start.\<close>

definition led_passes :: "u32 \<Rightarrow> nat list \<Rightarrow> led_io \<Rightarrow> led_io" where
  "led_passes t0 ts s = fold (\<lambda>t. device_led_process (t0 + of_nat t)) ts s"

fun paced :: "nat \<Rightarrow> nat \<Rightarrow> nat list \<Rightarrow> bool" where
  "paced gap t [] = True"
| "paced gap t (u # us) \<longleftrightarrow> t \<le> u \<and> u \<le> t + gap \<and> paced gap u us"

definition ticks :: "u16 \<Rightarrow> nat" where "ticks ms = 16000 * unat ms"

text \<open>What the pass at time \<open>t\<close> leaves: the state is a function of the time.\<close>

definition led_at :: "u32 \<Rightarrow> nat \<Rightarrow> nat \<Rightarrow> nat \<Rightarrow> nat \<Rightarrow> device_led \<Rightarrow> bool" where
  "led_at t0 on off n t d \<longleftrightarrow> on = ticks (onTime_ms d) \<and> off = ticks (offTime_ms d) \<and>
     isOn d = (if lit on off n t then 1 else 0) \<and>
     unat (repeatCount d) = flashes_left on off n t \<and>
     (repeatCount d \<noteq> 0 \<longrightarrow> startTick d = t0 + of_nat ((t - 1) div (on + off) * (on + off) +
        (if lit on off n t then 0 else on)))"

text \<open>The pin shows the state of the LED.\<close>

definition shown :: "nat \<Rightarrow> nat \<Rightarrow> led_io \<Rightarrow> bool" where
  "shown g i s \<longleftrightarrow> gpio_led (fst s) = ucast (pin_of g i) \<and> isOn (fst s) \<le> 1 \<and> polar (fst s) \<le> 1 \<and>
     (v_output (pin_view (snd s) g i) \<longleftrightarrow> isOn (fst s) = 1) \<and>
     (isOn (fst s) = 1 \<longrightarrow> v_out (pin_view (snd s) g i) = (polar (fst s) = 0))"

section \<open>The pattern is followed without drift\<close>

lemma div_window: "k * p \<le> x \<Longrightarrow> x < k * p + p \<Longrightarrow> x div p = k \<and> x mod p = x - k * p" for p :: nat
proof -
  assume a: "k * p \<le> x" "x < k * p + p"
  then obtain r where "x = r + k * p" "r < p" by (metis add.commute add_less_cancel_left le_Suc_ex)
  thus "x div p = k \<and> x mod p = x - k * p" by simp
qed

lemma ticks_bound: "ticks ms < 2 ^ 31"
proof -
  have "unat ms < 2 ^ LENGTH(16)" by (rule unsigned_less)
  thus ?thesis by (simp add: ticks_def)
qed

lemma ticks_word:
  "unat (ucast ms * 1000 * 16 :: u32) = ticks ms" "ucast ms * CLOCK_16M_SYS_TIMER_CLK_1MS = of_nat (ticks ms)"
proof -
  have "unat (ucast ms :: u32) = unat ms" by (simp add: unat_ucast_up)
  moreover have "unat ms < 2 ^ LENGTH(16)" by (rule unsigned_less)
  ultimately show "unat (ucast ms * 1000 * 16 :: u32) = ticks ms"
    by (simp add: unat_word_ariths ticks_def)
  show "ucast ms * CLOCK_16M_SYS_TIMER_CLK_1MS = of_nat (ticks ms)"
    by (simp add: ticks_def CLOCK_16M_SYS_TIMER_CLK_1MS_def unsigned_ucast_eq mult.commute)
qed

lemma exceed_ticks:
  assumes "b \<le> t" "t - b < 2 ^ 32"
  shows "clock_time_exceed (t0 + of_nat t) (t0 + of_nat b) (ucast ms * 1000) \<longleftrightarrow> ticks ms < t - b"
proof -
  have "t0 + of_nat t - (t0 + of_nat b) = (of_nat (t - b) :: u32)" using assms(1) by (simp add: of_nat_diff)
  moreover have "unat (of_nat (t - b) :: u32) = t - b" using assms(2) by (intro unat_of_nat_small) simp
  ultimately show ?thesis by (simp only: clock_time_exceed_def word_less_nat_alt ticks_word(1))
qed

lemma led_on_off_fields [simp]:
  "fst (device_led_on_off b (d, g)) = d\<lparr>isOn := b\<rparr>"
  by (simp add: device_led_on_off_def Let_def)

lemma led_proc_fst:
  "fst (led_proc now (d, g)) =
     (if isOn d \<noteq> 0 then
        if clock_time_exceed now (startTick d) (ucast (onTime_ms d) * 1000)
        then (if offTime_ms d \<noteq> 0
              then d\<lparr>isOn := 0, startTick := startTick d + of_nat (ticks (onTime_ms d))\<rparr>
              else d\<lparr>isOn := 0, repeatCount := 0\<rparr>)
        else d
      else if clock_time_exceed now (startTick d) (ucast (offTime_ms d) * 1000)
      then (if repeatCount d \<noteq> 1
            then d\<lparr>repeatCount := repeatCount d - 1, isOn := 1, startTick := startTick d + of_nat (ticks (offTime_ms d))\<rparr>
            else d\<lparr>repeatCount := repeatCount d - 1\<rparr>)
      else d)"
  by (auto simp: led_proc_def Let_def device_led_on_off_def ticks_word)

lemma led_at_step:
  assumes a: "led_at t0 on off n t d" and n: "n < 256" "0 < on" "0 < off"
    and u: "t \<le> u" "u \<le> t + gap" "gap \<le> on" "gap \<le> off"
  shows "led_at t0 on off n u (fst (device_led_process (t0 + of_nat u) (d, g)))"
proof -
  define p where "p = on + off"
  define k where "k = (t - 1) div p"
  define m where "m = k * p"
  have p: "0 < p" using n by (simp add: p_def)
  have rng: "m \<le> t - 1" "t - 1 < m + p" unfolding m_def k_def using dividend_less_div_times [OF p, of "t - 1"] by (simp_all del: One_nat_def add: add.commute)
  have md: "(t - 1) mod p = t - 1 - m" unfolding m_def k_def by (simp add: minus_div_mult_eq_mod)
  have win: "x div p = k \<and> x mod p = x - m" if "m \<le> x" "x < m + p" for x
    using div_window [of k p x] that by (simp add: m_def)
  have win': "x div p = Suc k \<and> x mod p = x - (m + p)" if "m + p \<le> x" "x < m + p + p" for x
    using div_window [of "Suc k" p x] that by (simp add: m_def add.commute)
  have lt: "lit on off n t \<longleftrightarrow> k < n \<and> t - 1 - m < on" by (simp only: lit_def md flip: p_def k_def)
  have t: "on = ticks (onTime_ms d)" "off = ticks (offTime_ms d)" "isOn d = (if lit on off n t then 1 else 0)"
    "unat (repeatCount d) = n - k"
    using a by (simp_all del: One_nat_def add: led_at_def flashes_left_def flip: p_def k_def)
  have big: "on < 2 ^ 31" "off < 2 ^ 31" unfolding t(1,2) by (rule ticks_bound)+
  have s: "startTick d = t0 + of_nat (m + (if lit on off n t then 0 else on))" if "repeatCount d \<noteq> 0"
    using a that by (simp del: One_nat_def add: led_at_def m_def flip: p_def k_def)
  have off0: "offTime_ms d \<noteq> 0" using n(3) t(2) by (auto simp: ticks_def)
  let ?d = "fst (device_led_process (t0 + of_nat u) (d, g))"
  show ?thesis
  proof (cases "k < n")
    case False
    hence r: "repeatCount d = 0" using t(4) by (simp add: unat_eq_zero)
    hence d: "?d = d" by (simp add: device_led_process_def)
    have "k \<le> (u - 1) div p" unfolding k_def using u(1) by (intro div_le_mono) simp
    hence "\<not> lit on off n u" "flashes_left on off n u = 0" using False by (simp_all del: One_nat_def add: lit_def flashes_left_def flip: p_def)
    thus ?thesis using False r t lt by (simp del: One_nat_def add: led_at_def d)
  next
    case True
    hence r: "repeatCount d \<noteq> 0" using t(4) by (auto simp: unat_eq_zero)
    hence d: "?d = fst (led_proc (t0 + of_nat u) (d, g))" by (simp add: device_led_process_def)
    have at: "led_at t0 on off n u d'"
      if "ticks (onTime_ms d') = on" "ticks (offTime_ms d') = off" "isOn d' = (if q < n \<and> r < on then 1 else 0)"
        "unat (repeatCount d') = n - q" "(u - 1) div p = q" "(u - 1) mod p = r"
        "q < n \<Longrightarrow> startTick d' = t0 + of_nat (q * p + (if q < n \<and> r < on then 0 else on))" for d' q r
    proof -
      have "q < n" if "repeatCount d' \<noteq> 0" using that \<open>unat (repeatCount d') = n - q\<close>
        by (metis unat_eq_zero zero_less_diff not_gr_zero)
      thus ?thesis using that by (simp only: led_at_def lit_def flashes_left_def flip: p_def) simp
    qed
    show ?thesis
    proof (cases "t - 1 - m < on")
      case on: True
      hence l: "lit on off n t" using lt True by simp
      have is1: "isOn d = 1" using t(3) l by simp
      have st: "startTick d = t0 + of_nat m" using s [OF r] l by simp
      have ex: "clock_time_exceed (t0 + of_nat u) (startTick d) (ucast (onTime_ms d) * 1000) \<longleftrightarrow> on < u - m"
        unfolding st t(1) using on u rng big by (intro exceed_ticks) (auto simp: p_def)
      have w: "(u - 1) div p = k" "(u - 1) mod p = u - 1 - m" using win [of "u - 1"] on u rng n by (auto simp: p_def)
      show ?thesis
      proof (cases "on < u - m")
        case False
        have "?d = d" by (simp add: d led_proc_fst ex False is1)
        moreover have "u - 1 - m < on" using False n by arith
        ultimately show ?thesis using t(1,2,4) w st is1 True by (intro at [where q = k and r = "u - 1 - m"]) (auto simp: m_def)
      next
        case x: True
        have "?d = d\<lparr>isOn := 0, startTick := startTick d + of_nat (ticks (onTime_ms d))\<rparr>"
          by (simp add: d led_proc_fst ex x is1 off0)
        moreover have "\<not> u - 1 - m < on" using x by arith
        ultimately show ?thesis using t(1,2,4) w st by (intro at [where q = k and r = "u - 1 - m"]) (auto simp: m_def)
      qed
    next
      case off: False
      hence l: "\<not> lit on off n t" using lt by simp
      have is0: "isOn d = 0" using t(3) l by simp
      have st: "startTick d = t0 + of_nat (m + on)" using s [OF r] l by simp
      have ex: "clock_time_exceed (t0 + of_nat u) (startTick d) (ucast (offTime_ms d) * 1000) \<longleftrightarrow> off < u - (m + on)"
        unfolding st t(2) using off u rng big by (intro exceed_ticks) (auto simp: p_def)
      show ?thesis
      proof (cases "off < u - (m + on)")
        case False
        have w: "(u - 1) div p = k" "(u - 1) mod p = u - 1 - m"
          using win [of "u - 1"] False off u rng n by (auto simp: p_def)
        have "?d = d" by (simp add: d led_proc_fst ex False is0)
        moreover have "\<not> u - 1 - m < on" using off u by arith
        ultimately show ?thesis using t(1,2,4) w st is0 by (intro at [where q = k and r = "u - 1 - m"]) (auto simp: m_def)
      next
        case x: True
        have w: "(u - 1) div p = Suc k" "(u - 1) mod p = u - 1 - (m + p)"
          using win' [of "u - 1"] x off u rng n by (auto simp: p_def)
        have rc: "unat (repeatCount d - 1) = n - Suc k" using unat_minus_one [OF r] t(4) by simp
        have one: "repeatCount d = 1 \<longleftrightarrow> \<not> Suc k < n" using t(4) True by (metis unat_1 word_unat_eq_iff
          Suc_lessI diff_Suc_1 diff_is_0_eq less_or_eq_imp_le not_less One_nat_def Suc_diff_Suc)
        have low: "u - 1 - (m + p) < on" using u rng x by (simp add: p_def)
        show ?thesis
        proof (cases "Suc k < n")
          case more: True
          have "?d = d\<lparr>repeatCount := repeatCount d - 1, isOn := 1, startTick := startTick d + of_nat (ticks (offTime_ms d))\<rparr>"
            by (simp add: d led_proc_fst ex x is0 one more)
          thus ?thesis using t(1,2) w st rc more low
            by (intro at [where q = "Suc k" and r = "u - 1 - (m + p)"]) (auto simp: m_def p_def)
        next
          case fin: False
          have "?d = d\<lparr>repeatCount := repeatCount d - 1\<rparr>" by (simp add: d led_proc_fst ex x is0 one fin)
          thus ?thesis using t(1,2) w is0 rc fin by (intro at [where q = "Suc k" and r = "u - 1 - (m + p)"]) auto
        qed
      qed
    qed
  qed
qed

section \<open>The pin\<close>

lemma pin_on_off:
  assumes p: "is_pin g i" "is_pin h j" and d: "gpio_led d = ucast (pin_of g i)" "polar d \<le> 1" "b \<le> 1"
  shows "pin_view (snd (device_led_on_off b (d, s))) h j =
    (if h = g \<and> j = i then (pin_view s g i)\<lparr>v_output := (b = 1), v_out := ((b = 1) = (polar d = 0))\<rparr> else pin_view s h j)"
proof -
  have "ucast (ucast (pin_of g i) :: u32) = pin_of g i" by (rule bit_word_eqI) (simp add: bit_simps)
  moreover have "b = 0 \<or> b = 1" "polar d = 0 \<or> polar d = 1" using d(2,3)
    by (auto simp: word_le_nat_alt word_unat_eq_iff le_Suc_eq)
  ultimately show ?thesis
    by (auto simp: device_led_on_off_def Let_def d(1) ops_put(3,4) [OF p(1)] view_put(1,2) [OF p] view_put(1,2) [OF p(1) p(1)])
qed

lemma shown_on_off:
  assumes "is_pin g i" "gpio_led d = ucast (pin_of g i)" "polar d \<le> 1" "b \<le> 1"
  shows "shown g i (device_led_on_off b (d, s))"
proof -
  have "b \<le> 1 \<Longrightarrow> b = 0 \<or> b = 1" by (auto simp: word_le_nat_alt word_unat_eq_iff le_Suc_eq)
  thus ?thesis using assms pin_on_off [OF assms(1,1-4)] by (auto simp: shown_def)
qed

text \<open>A step of the LED leaves the pin as it is or switches it.\<close>

lemma process_switches:
  "gpio_led (fst (device_led_process now (d, s))) = gpio_led d"
  "polar (fst (device_led_process now (d, s))) = polar d"
  "snd (device_led_process now (d, s)) = s \<and> isOn (fst (device_led_process now (d, s))) = isOn d \<or>
   isOn (fst (device_led_process now (d, s))) \<le> 1 \<and>
     snd (device_led_process now (d, s)) = snd (device_led_on_off (isOn (fst (device_led_process now (d, s)))) (d, s))"
  by (simp_all add: device_led_process_def led_proc_def device_led_on_off_def Let_def)

lemma shown_process:
  assumes "is_pin g i" "shown g i s"
  shows "shown g i (device_led_process now s) \<and>
    (\<forall>h j. is_pin h j \<longrightarrow> (h, j) \<noteq> (g, i) \<longrightarrow> pin_view (snd (device_led_process now s)) h j = pin_view (snd s) h j)"
proof -
  obtain d m where s: "s = (d, m)" by (cases s)
  obtain d1 m1 where r: "device_led_process now s = (d1, m1)" by (cases "device_led_process now s")
  note sw = process_switches [of now d m, folded s, unfolded r fst_conv snd_conv]
  have d: "gpio_led d = ucast (pin_of g i)" "polar d \<le> 1" using assms(2) by (simp_all add: shown_def s)
  consider "m1 = m" "isOn d1 = isOn d" | "isOn d1 \<le> 1" "m1 = snd (device_led_on_off (isOn d1) (d, m))" using sw(3) unfolding s by blast
  thus ?thesis
  proof cases
    case 1
    thus ?thesis unfolding r using assms(2) sw(1,2) by (simp add: shown_def s)
  next
    case 2
    hence "shown g i (d\<lparr>isOn := isOn d1\<rparr>, m1)"
      using shown_on_off [OF assms(1) d 2(1), of m] by (simp add: shown_def)
    thus ?thesis unfolding r using sw(1,2) pin_on_off [OF assms(1) _ d 2(1)] 2(2) by (auto simp: shown_def s)
  qed
qed

lemma passes_run:
  assumes "n < 256" "0 < on" "0 < off" "gap \<le> on" "gap \<le> off" "is_pin g i"
  shows "led_at t0 on off n t (fst s) \<Longrightarrow> shown g i s \<Longrightarrow> paced gap t ts \<Longrightarrow>
    led_at t0 on off n (last (t # ts)) (fst (led_passes t0 ts s)) \<and> shown g i (led_passes t0 ts s) \<and>
    polar (fst (led_passes t0 ts s)) = polar (fst s) \<and>
    (\<forall>h j. is_pin h j \<longrightarrow> (h, j) \<noteq> (g, i) \<longrightarrow> pin_view (snd (led_passes t0 ts s)) h j = pin_view (snd s) h j)"
proof (induction ts arbitrary: t s)
  case Nil
  thus ?case by (simp add: led_passes_def)
next
  case (Cons u us)
  obtain d m where s: "s = (d, m)" by (cases s)
  define s1 where "s1 = device_led_process (t0 + of_nat u) s"
  have "led_at t0 on off n u (fst s1)"
    unfolding s1_def s using Cons.prems assms by (intro led_at_step [where t = t and gap = gap]) (simp_all add: s)
  moreover have sh: "shown g i s1"
    "is_pin h j \<Longrightarrow> (h, j) \<noteq> (g, i) \<Longrightarrow> pin_view (snd s1) h j = pin_view (snd s) h j" for h j
    using shown_process [OF assms(6) Cons.prems(2)] by (simp_all add: s1_def)
  moreover have "polar (fst s1) = polar (fst s)"
    unfolding s1_def s using process_switches(2) by simp
  moreover have "led_passes t0 (u # us) s = led_passes t0 us s1" by (simp add: led_passes_def s1_def)
  ultimately show ?case using Cons.IH [of u s1] Cons.prems(3) by simp
qed

lemma setup_starts:
  assumes "device_led_setup t0 cfg (d, m) = (True, s)" "cfg_onTime_ms cfg \<noteq> 0" "cfg_offTime_ms cfg \<noteq> 0"
    "cfg_repeatCount cfg \<noteq> 0" "cfg_repeatCount cfg \<noteq> 0xff"
    and "is_pin g i" "gpio_led d = ucast (pin_of g i)" "polar d \<le> 1"
  shows "led_at t0 (ticks (cfg_onTime_ms cfg)) (ticks (cfg_offTime_ms cfg)) (unat (cfg_repeatCount cfg)) 0 (fst s)"
    "shown g i s" "polar (fst s) = polar d"
    "is_pin h j \<Longrightarrow> (h, j) \<noteq> (g, i) \<Longrightarrow> pin_view (snd s) h j = pin_view m h j"
proof -
  let ?d = "d\<lparr>onTime_ms := cfg_onTime_ms cfg, offTime_ms := cfg_offTime_ms cfg,
    repeatCount := cfg_repeatCount cfg, priority := cfg_priority cfg, startTick := t0\<rparr>"
  have s: "s = device_led_on_off 1 (?d, m)"
    using assms(1-5) by (simp add: device_led_setup_def Let_def split: if_splits)
  have pos: "0 < unat (cfg_repeatCount cfg)" "0 < ticks (cfg_onTime_ms cfg)"
    using assms(2,4) by (simp_all add: ticks_def unat_gt_0)
  show "led_at t0 (ticks (cfg_onTime_ms cfg)) (ticks (cfg_offTime_ms cfg)) (unat (cfg_repeatCount cfg)) 0 (fst s)"
    using pos by (simp add: s led_at_def lit_def flashes_left_def)
  show "shown g i s" unfolding s by (rule shown_on_off) (use assms in simp_all)
  show "polar (fst s) = polar d" by (simp add: s)
  show "pin_view (snd s) h j = pin_view m h j" if "is_pin h j" "(h, j) \<noteq> (g, i)"
    using pin_on_off [OF assms(6) that(1), of ?d 1 m] assms(7,8) that(2) by (auto simp: s)
qed

text \<open>
  C40. A blinking pattern is followed without drift: when the passes of the main loop are no further apart
  than the shorter of the two times, the pin after a pass at time \<open>t\<close> is driven at the lit level exactly when the
  pattern is lit at \<open>t\<close>, however the passes fall and wherever the 32 bit clock wraps; after the last flash
  the LED is idle, and no other pin is touched.
\<close>

theorem led_follows_pattern:
  assumes "is_pin g i" "gpio_led d = ucast (pin_of g i)" "polar d \<le> 1"
    and "device_led_setup t0 cfg (d, m) = (True, s)"
    and "cfg_onTime_ms cfg \<noteq> 0" "cfg_offTime_ms cfg \<noteq> 0" "cfg_repeatCount cfg \<noteq> 0" "cfg_repeatCount cfg \<noteq> 0xff"
    and "on = ticks (cfg_onTime_ms cfg)" "off = ticks (cfg_offTime_ms cfg)" "n = unat (cfg_repeatCount cfg)"
    and "paced (min on off) 0 (ts @ [t])" "(d', m') = led_passes t0 (ts @ [t]) s"
  shows "v_output (pin_view m' g i) = lit on off n t \<and>
    (lit on off n t \<longrightarrow> v_out (pin_view m' g i) = (polar d = 0)) \<and>
    (repeatCount d' = 0 \<longleftrightarrow> n \<le> (t - 1) div (on + off)) \<and>
    (\<forall>h j. is_pin h j \<longrightarrow> (h, j) \<noteq> (g, i) \<longrightarrow> pin_view m' h j = pin_view m h j)"
proof -
  note st = setup_starts [OF assms(4-8,1-3)]
  have n: "n < 256" using unsigned_less [of "cfg_repeatCount cfg", where ?'a = nat] assms(11) by simp
  have pos: "0 < on" "0 < off" using assms(5,6,9,10) by (simp_all add: ticks_def unat_gt_0)
  have run: "led_at t0 on off n t d' \<and> shown g i (d', m') \<and> polar d' = polar d \<and>
    (\<forall>h j. is_pin h j \<longrightarrow> (h, j) \<noteq> (g, i) \<longrightarrow> pin_view m' h j = pin_view m h j)"
    using passes_run [OF n pos _ _ assms(1) st(1,2) [folded assms(9-11)] assms(12)] st(3,4)
    by (simp flip: assms(13))
  hence "v_output (pin_view m' g i) = lit on off n t" "lit on off n t \<longrightarrow> v_out (pin_view m' g i) = (polar d = 0)"
    by (auto simp: led_at_def shown_def split: if_splits)
  moreover have "repeatCount d' = 0 \<longleftrightarrow> n \<le> (t - 1) div (on + off)"
    using run by (metis diff_is_0_eq flashes_left_def led_at_def unat_eq_zero)
  ultimately show ?thesis using run by blast
qed

text \<open>Two flashes of half a second on pin PC6, started just before the clock wraps, seen in the second one.\<close>

definition demo_led :: device_led where
  "demo_led = \<lparr>isOn = 0, polar = 0, repeatCount = 0, priority = 0, onTime_ms = 0, offTime_ms = 0,
     gpio_led = ucast (pin_of 2 6), startTick = 0\<rparr>"

definition slow_flash :: led_cfg where
  "slow_flash = \<lparr>cfg_onTime_ms = 500, cfg_offTime_ms = 500, cfg_repeatCount = 2, cfg_priority = 4\<rparr>"

definition demo_lit :: "led_io" where
  "demo_lit = led_passes 0xffffff00 ([5000000, 9000000, 16000000] @ [16000001])
     (snd (device_led_setup 0xffffff00 slow_flash (demo_led, \<lparr>io = (\<lambda>_. 0xff), ana = (\<lambda>_. 0)\<rparr>)))"

lemma led_follows_pattern_witness:
  "v_output (pin_view (snd demo_lit) 2 6) \<and> v_out (pin_view (snd demo_lit) 2 6) \<and> repeatCount (fst demo_lit) \<noteq> 0"
proof -
  obtain s where s: "device_led_setup 0xffffff00 slow_flash (demo_led, \<lparr>io = (\<lambda>_. 0xff), ana = (\<lambda>_. 0)\<rparr>) = (True, s)"
    by (cases "device_led_setup 0xffffff00 slow_flash (demo_led, \<lparr>io = (\<lambda>_. 0xff), ana = (\<lambda>_. 0)\<rparr>)")
      (auto simp: device_led_setup_def demo_led_def slow_flash_def Let_def)
  have l: "lit (ticks 500) (ticks 500) 2 16000001" by (simp add: lit_def ticks_def)
  obtain d m where dm: "(d, m) = led_passes 0xffffff00 ([5000000, 9000000, 16000000] @ [16000001]) s" by (metis surj_pair)
  have "v_output (pin_view m 2 6) = lit (ticks 500) (ticks 500) 2 16000001 \<and>
    (lit (ticks 500) (ticks 500) 2 16000001 \<longrightarrow> v_out (pin_view m 2 6) = (polar demo_led = 0)) \<and>
    (repeatCount d = 0 \<longleftrightarrow> 2 \<le> (16000001 - 1) div (ticks 500 + ticks 500)) \<and>
    (\<forall>h j. is_pin h j \<longrightarrow> (h, j) \<noteq> (2, 6) \<longrightarrow> pin_view m h j = pin_view \<lparr>io = (\<lambda>_. 0xff), ana = (\<lambda>_. 0)\<rparr> h j)"
    by (rule led_follows_pattern [OF _ _ _ s _ _ _ _ _ _ _ _ dm]) (simp_all add: is_pin_def demo_led_def slow_flash_def ticks_def)
  moreover have e: "demo_lit = (d, m)" unfolding demo_lit_def s snd_conv by (rule dm [symmetric])
  moreover have "polar demo_led = 0" by (simp add: demo_led_def)
  ultimately show ?thesis unfolding e fst_conv snd_conv using l by (simp add: ticks_def)
qed

section \<open>Long times\<close>

text \<open>A steady light is given as on time and repeat count; their product is cut to sixteen bits.\<close>

lemma steady_light_is_cut_short:
  "onTime_ms (fst (snd (device_led_setup t
     \<lparr>cfg_onTime_ms = 1000, cfg_offTime_ms = 0, cfg_repeatCount = 100, cfg_priority = 4\<rparr> (demo_led, m)))) = 34464"
  by (simp add: device_led_setup_def demo_led_def Let_def)

end
