(* ===== verification/Remote_Voice.thy ===== *)
theory Remote_Voice
  imports Master_Audio Runs "HOL-Library.Sublist"
begin

unbundle bit_operations_syntax

text \<open>
  The voice path of the remote: \<open>proc_mic_encoder\<close> of \<open>vendor/common/tl_audio.c\<close>, which compresses the half
  of the microphone buffer that the converter has filled, the ring of four encoded packets, and
  \<open>task_audio\<close> of \<open>vendor/8258_ble_remote/app_ui.c\<close>, which notifies them. The converter is the write index and the
  samples it leaves in the buffer, the binary stack is the number of packets it holds and whether it
  takes a notification; all are part of a pass. Filters are disabled in the configuration of the remote.
  The last section joins the remote with the audio path of the dongle.
\<close>

section \<open>State and operations\<close>

definition TL_MIC_BUFFER_SIZE :: nat where "TL_MIC_BUFFER_SIZE = 992"
definition TL_MIC_ADPCM_UNIT_SIZE :: nat where "TL_MIC_ADPCM_UNIT_SIZE = 248"

record mic_enc =
  buffer_mic_rptr :: u16
  buffer_mic_enc :: "u8 list list"
  buffer_mic_pkt_wptr :: u8
  buffer_mic_pkt_rptr :: u8
  coder :: adpcm
  audioProcTick :: u32

definition mic_push :: "u8 list \<Rightarrow> mic_enc \<Rightarrow> mic_enc" where
  "mic_push pkt st =
     (let w = buffer_mic_pkt_wptr st;
          st1 = st\<lparr>buffer_mic_enc := (buffer_mic_enc st)[unat (w AND 3) := pkt], buffer_mic_pkt_wptr := w + 1\<rparr>
      in if (w + 1 - buffer_mic_pkt_rptr st) AND 7 > 4
         then st1\<lparr>buffer_mic_pkt_rptr := buffer_mic_pkt_rptr st + 1\<rparr> else st1)"

definition proc_mic_encoder :: "u16 \<Rightarrow> int list \<Rightarrow> mic_enc \<Rightarrow> mic_enc option" where
  "proc_mic_encoder mic_wptr buffer_mic st =
     (let r = buffer_mic_rptr st;
          l = (if r \<le> mic_wptr then mic_wptr - r else 0xffff)
      in if TL_MIC_BUFFER_SIZE div 4 \<le> unat l then
           map_option (\<lambda>(pkt, c). mic_push pkt (st\<lparr>coder := c,
               buffer_mic_rptr := (if r \<noteq> 0 then 0 else of_nat (TL_MIC_BUFFER_SIZE div 4))\<rparr>))
             (mic_to_adpcm_split (drop (unat r) buffer_mic) TL_MIC_ADPCM_UNIT_SIZE True (coder st))
         else Some st)"

definition mic_encoder_data_buffer :: "mic_enc \<Rightarrow> u8 list option" where
  "mic_encoder_data_buffer st =
     (if buffer_mic_pkt_rptr st = buffer_mic_pkt_wptr st then None
      else Some (buffer_mic_enc st ! unat (buffer_mic_pkt_rptr st AND 3)))"

definition mic_encoder_data_read_ok :: "mic_enc \<Rightarrow> mic_enc" where
  "mic_encoder_data_read_ok st = st\<lparr>buffer_mic_pkt_rptr := buffer_mic_pkt_rptr st + 1\<rparr>"

record voice_pass =
  pass_clock :: u32
  mic_wptr :: u16
  buffer_mic :: "int list"
  tx_fifo :: nat
  push_ok :: bool

text \<open>The outputs are the packets that the stack took.\<close>

definition task_audio :: "voice_pass \<Rightarrow> mic_enc \<Rightarrow> (mic_enc \<times> u8 list list) option" where
  "task_audio x st =
     (if clock_time_exceed (pass_clock x) (audioProcTick st) 500 then
        map_option (\<lambda>st1. if tx_fifo x < 9 then
              (case mic_encoder_data_buffer st1 of
                 None \<Rightarrow> (st1, [])
               | Some p \<Rightarrow> if push_ok x then (mic_encoder_data_read_ok st1, [p]) else (st1, []))
            else (st1, []))
          (proc_mic_encoder (mic_wptr x) (buffer_mic x) (st\<lparr>audioProcTick := pass_clock x\<rparr>))
      else Some (st, []))"

definition voice_boot :: mic_enc where
  "voice_boot = \<lparr>buffer_mic_rptr = 0, buffer_mic_enc = replicate 4 (replicate 128 0), buffer_mic_pkt_wptr = 0,
     buffer_mic_pkt_rptr = 0, coder = split_init, audioProcTick = 0\<rparr>"

section \<open>The ring of packets\<close>

definition mic_inv :: "mic_enc \<Rightarrow> bool" where
  "mic_inv st \<longleftrightarrow> ring4_inv (buffer_mic_enc st) (buffer_mic_pkt_wptr st) (buffer_mic_pkt_rptr st)"

definition waiting :: "mic_enc \<Rightarrow> u8 list list" where
  "waiting st = ring4_contents (buffer_mic_enc st) (buffer_mic_pkt_wptr st) (buffer_mic_pkt_rptr st)"

lemma mic_push_ring:
  assumes "mic_inv st"
  shows "mic_inv (mic_push a st) \<and>
    waiting (mic_push a st) = (if length (waiting st) < 4 then waiting st @ [a] else tl (waiting st) @ [a])"
  using ring4_push [OF assms [unfolded mic_inv_def], of a]
  by (cases "(buffer_mic_pkt_wptr st + 1 - buffer_mic_pkt_rptr st) AND 7 > 4")
    (simp_all add: mic_inv_def waiting_def mic_push_def Let_def)

lemma waiting_le: "mic_inv st \<Longrightarrow> length (waiting st) \<le> 4"
  by (simp add: mic_inv_def waiting_def ring4_inv_def ring4_contents_def)

interpretation micq: overwriting_ring mic_inv waiting 4 mic_push
  by unfold_locales (simp_all add: mic_push_ring waiting_le)

lemma mic_read:
  assumes "mic_inv st" "mic_encoder_data_buffer st = Some p"
  shows "mic_inv (mic_encoder_data_read_ok st)" "waiting st = p # waiting (mic_encoder_data_read_ok st)"
proof -
  have "buffer_mic_pkt_wptr st \<noteq> buffer_mic_pkt_rptr st" "p = buffer_mic_enc st ! unat (buffer_mic_pkt_rptr st AND 3)"
    using assms(2) by (auto simp: mic_encoder_data_buffer_def split: if_splits)
  with ring4_pop [OF assms(1) [unfolded mic_inv_def]]
  show "mic_inv (mic_encoder_data_read_ok st)" "waiting st = p # waiting (mic_encoder_data_read_ok st)"
    by (simp_all add: mic_inv_def waiting_def mic_encoder_data_read_ok_def)
qed

section \<open>What is captured and what is sent\<close>

text \<open>
  A captured half: the samples and the state of the encoder before them. \<open>packet\<close> is its packet,
  \<open>heard_as\<close> what a decoder makes of it.
\<close>

definition due :: "voice_pass \<Rightarrow> mic_enc \<Rightarrow> bool" where
  "due x st \<longleftrightarrow> clock_time_exceed (pass_clock x) (audioProcTick st) 500 \<and>
     (mic_wptr x < buffer_mic_rptr st \<or> 248 \<le> unat (mic_wptr x - buffer_mic_rptr st))"

definition half_of :: "voice_pass \<Rightarrow> mic_enc \<Rightarrow> adpcm \<times> int list" where
  "half_of x st = (coder st, take 248 (drop (unat (buffer_mic_rptr st)) (buffer_mic x)))"

fun captured :: "voice_pass list \<Rightarrow> mic_enc \<Rightarrow> (adpcm \<times> int list) list" where
  "captured [] st = []"
| "captured (x # xs) st = (if due x st then [half_of x st] else []) @
     (case task_audio x st of None \<Rightarrow> [] | Some (st', _) \<Rightarrow> captured xs st')"

definition packet :: "adpcm \<times> int list \<Rightarrow> u8 list" where
  "packet h = fst (the (mic_to_adpcm_split (snd h) 248 True (fst h)))"

definition heard_as :: "adpcm \<times> int list \<Rightarrow> int list" where
  "heard_as h = map predict (track_of (snd h) (fst h))"

text \<open>Every capture finds a free slot.\<close>

fun in_time :: "voice_pass list \<Rightarrow> mic_enc \<Rightarrow> bool" where
  "in_time [] st \<longleftrightarrow> True"
| "in_time (x # xs) st \<longleftrightarrow> (due x st \<longrightarrow> length (waiting st) < 4) \<and>
     (case task_audio x st of None \<Rightarrow> False | Some (st', _) \<Rightarrow> in_time xs st')"

definition voice_inv :: "mic_enc \<Rightarrow> bool" where
  "voice_inv st \<longleftrightarrow> mic_inv st \<and> (buffer_mic_rptr st = 0 \<or> buffer_mic_rptr st = 248) \<and> adpcm_ok (coder st)"

definition pass_ok :: "voice_pass \<Rightarrow> bool" where
  "pass_ok x \<longleftrightarrow> length (buffer_mic x) = 496"

definition half_ok :: "adpcm \<times> int list \<Rightarrow> bool" where
  "half_ok h \<longleftrightarrow> adpcm_ok (fst h) \<and> length (snd h) = 248"

lemma split_take: "mic_to_adpcm_split ps len b a = mic_to_adpcm_split (take len ps) len b a" if "len \<le> length ps"
  using that by (simp add: mic_to_adpcm_split_def)

lemma packet_encodes:
  assumes "half_ok h"
  obtains c where "mic_to_adpcm_split (snd h) 248 True (fst h) = Some (packet h, c)" "adpcm_ok c"
proof -
  obtain pkt c where c: "mic_to_adpcm_split (snd h) 248 True (fst h) = Some (pkt, c)"
    using assms by (simp add: half_ok_def mic_to_adpcm_split_def split_beta)
  hence "adpcm_ok c" using encode_from_ok [of "fst h" 0 "take 248 (snd h)" 0] assms
    by (auto simp: half_ok_def mic_to_adpcm_split_def split_beta split: if_splits)
  thus ?thesis using c that by (simp add: packet_def)
qed

lemma encoder_step:
  assumes "voice_inv st" "pass_ok x"
  shows "if mic_wptr x < buffer_mic_rptr st \<or> 248 \<le> unat (mic_wptr x - buffer_mic_rptr st)
    then half_ok (half_of x st) \<and> (\<exists>st'. proc_mic_encoder (mic_wptr x) (buffer_mic x) st = Some st' \<and> voice_inv st' \<and>
      waiting st' = (if length (waiting st) < 4 then waiting st else tl (waiting st)) @ [packet (half_of x st)])
    else proc_mic_encoder (mic_wptr x) (buffer_mic x) st = Some st"
proof (cases "mic_wptr x < buffer_mic_rptr st \<or> 248 \<le> unat (mic_wptr x - buffer_mic_rptr st)")
  case True
  let ?r = "buffer_mic_rptr st" and ?h = "half_of x st"
  have r: "unat ?r \<le> 248" using assms(1) by (auto simp: voice_inv_def)
  have len: "248 \<le> length (drop (unat ?r) (buffer_mic x))" using assms(2) r by (simp add: pass_ok_def)
  have ok: "half_ok ?h" using assms(1) len by (simp add: half_ok_def half_of_def voice_inv_def)
  obtain c where c: "mic_to_adpcm_split (snd ?h) 248 True (coder st) = Some (packet ?h, c)" and cok: "adpcm_ok c"
    using packet_encodes [OF ok] by (auto simp: half_of_def)
  have enc: "mic_to_adpcm_split (drop (unat ?r) (buffer_mic x)) 248 True (coder st) = Some (packet ?h, c)"
    using c split_take [OF len] by (simp add: half_of_def)
  define s1 where "s1 = st\<lparr>coder := c, buffer_mic_rptr := (if ?r \<noteq> 0 then 0 else 248)\<rparr>"
  have s1: "mic_inv s1" "waiting s1 = waiting st" using assms(1) by (simp_all add: s1_def voice_inv_def mic_inv_def waiting_def)
  have "248 \<le> unat (if ?r \<le> mic_wptr x then mic_wptr x - ?r else 0xffff)" using True by (auto simp: not_le)
  hence p: "proc_mic_encoder (mic_wptr x) (buffer_mic x) st = Some (mic_push (packet ?h) s1)"
    by (simp add: proc_mic_encoder_def Let_def TL_MIC_BUFFER_SIZE_def TL_MIC_ADPCM_UNIT_SIZE_def enc s1_def)
  have "voice_inv (mic_push (packet ?h) s1)"
    using micq.add_inv [OF s1(1)] cok by (simp add: voice_inv_def mic_push_def s1_def Let_def)
  thus ?thesis using True ok p micq.add_contents [OF s1(1)] s1(2) by auto
next
  case False
  hence "\<not> 248 \<le> unat (if buffer_mic_rptr st \<le> mic_wptr x then mic_wptr x - buffer_mic_rptr st else 0xffff)" by auto
  thus ?thesis using False by (simp add: proc_mic_encoder_def Let_def TL_MIC_BUFFER_SIZE_def)
qed

section \<open>Histories of the remote\<close>

lemma due_split:
  "due x st \<longleftrightarrow> clock_time_exceed (pass_clock x) (audioProcTick st) 500 \<and>
     (mic_wptr x < buffer_mic_rptr st \<or> 248 \<le> unat (mic_wptr x - buffer_mic_rptr st))"
  by (rule due_def)

lemma task_step:
  assumes inv: "voice_inv st" and ok: "pass_ok x"
  shows "\<exists>st' out. task_audio x st = Some (st', out) \<and> voice_inv st' \<and> (due x st \<longrightarrow> half_ok (half_of x st)) \<and>
    out @ waiting st' = (if due x st
      then (if length (waiting st) < 4 then waiting st else tl (waiting st)) @ [packet (half_of x st)] else waiting st)"
proof (cases "clock_time_exceed (pass_clock x) (audioProcTick st) 500")
  case True
  define s0 where "s0 = st\<lparr>audioProcTick := pass_clock x\<rparr>"
  have s0: "voice_inv s0" "waiting s0 = waiting st" "half_of x s0 = half_of x st" "buffer_mic_rptr s0 = buffer_mic_rptr st"
    using inv by (simp_all add: s0_def voice_inv_def mic_inv_def waiting_def half_of_def)
  let ?w = "if due x st then (if length (waiting st) < 4 then waiting st else tl (waiting st)) @ [packet (half_of x st)]
    else waiting st"
  obtain s1 where s1: "proc_mic_encoder (mic_wptr x) (buffer_mic x) s0 = Some s1" "voice_inv s1" "waiting s1 = ?w"
    "due x st \<longrightarrow> half_ok (half_of x st)"
    using encoder_step [OF s0(1) ok] True s0 by (auto simp: due_def split: if_splits)
  have t: "task_audio x st = Some (if tx_fifo x < 9 then
      (case mic_encoder_data_buffer s1 of None \<Rightarrow> (s1, [])
       | Some p \<Rightarrow> if push_ok x then (mic_encoder_data_read_ok s1, [p]) else (s1, [])) else (s1, []))"
    using True s1(1) by (simp add: task_audio_def s0_def)
  show ?thesis
  proof (cases "mic_encoder_data_buffer s1")
    case None
    thus ?thesis using t s1 by (simp del: in_time.simps)
  next
    case (Some p)
    have "voice_inv (mic_encoder_data_read_ok s1)"
      using mic_read(1) [OF _ Some] s1(2) by (simp add: voice_inv_def mic_encoder_data_read_ok_def)
    moreover have "waiting s1 = p # waiting (mic_encoder_data_read_ok s1)"
      using mic_read(2) [OF _ Some] s1(2) by (simp add: voice_inv_def)
    ultimately show ?thesis using t s1 Some by (cases "tx_fifo x < 9 \<and> push_ok x") auto
  qed
next
  case False
  thus ?thesis using inv by (simp add: task_audio_def due_def)
qed

interpretation voice: safe_steps task_audio voice_inv pass_ok
  by unfold_locales (use task_step in blast)

lemma voice_frames:
  assumes "voice_inv st" "list_all pass_ok xs" "run_steps task_audio xs st = Some (st', fs)"
  shows "list_all half_ok (captured xs st) \<and>
    subseq (fs @ waiting st') (waiting st @ map packet (captured xs st)) \<and>
    (in_time xs st \<longrightarrow> fs @ waiting st' = waiting st @ map packet (captured xs st))"
  using assms
proof (induction xs arbitrary: st fs)
  case (Cons x xs)
  let ?new = "if due x st then [half_of x st] else []"
  obtain s1 o1 where s: "task_audio x st = Some (s1, o1)" "voice_inv s1" "due x st \<longrightarrow> half_ok (half_of x st)"
    "o1 @ waiting s1 = (if due x st
      then (if length (waiting st) < 4 then waiting st else tl (waiting st)) @ [packet (half_of x st)] else waiting st)"
    using task_step [of st x] Cons.prems by auto
  obtain o2 where r: "run_steps task_audio xs s1 = Some (st', o2)" "fs = o1 @ o2"
    using Cons.prems(3) s(1) by (auto split: Option.bind_split_asm)
  have IH: "list_all half_ok (captured xs s1)" "subseq (o2 @ waiting st') (waiting s1 @ map packet (captured xs s1))"
    "in_time xs s1 \<longrightarrow> o2 @ waiting st' = waiting s1 @ map packet (captured xs s1)"
    using Cons.IH [OF s(2) _ r(1)] Cons.prems(2) by simp_all
  have c: "captured (x # xs) st = ?new @ captured xs s1" using s(1) by simp
  have drop: "subseq (o1 @ waiting s1) (waiting st @ map packet ?new)"
    unfolding s(4) by (cases "waiting st") (auto intro: list_emb_append_mono subseq_order.order_refl)
  have "subseq (o1 @ o2 @ waiting st') (o1 @ waiting s1 @ map packet (captured xs s1))"
    by (rule list_emb_append_mono [OF subseq_order.order_refl IH(2)])
  also have "subseq \<dots> ((waiting st @ map packet ?new) @ map packet (captured xs s1))"
    using drop by (simp flip: append_assoc)
  finally have "subseq (fs @ waiting st') (waiting st @ map packet (captured (x # xs) st))" unfolding c r(2) by simp
  moreover have "in_time (x # xs) st \<longrightarrow> fs @ waiting st' = waiting st @ map packet (captured (x # xs) st)"
  proof
    assume t: "in_time (x # xs) st"
    hence "o2 @ waiting st' = waiting s1 @ map packet (captured xs s1)" using IH(3) s(1) by simp
    hence "fs @ waiting st' = (o1 @ waiting s1) @ map packet (captured xs s1)" by (simp add: r(2))
    thus "fs @ waiting st' = waiting st @ map packet (captured (x # xs) st)" unfolding c s(4) using t by simp
  qed
  ultimately show ?case using IH(1) s(3) unfolding c by simp
qed simp

section \<open>From the microphone to the host\<close>

lemma packet_decodes:
  assumes "half_ok h"
  shows "length (packet h) = 128" "frame_pcm (packet h) = Some (heard_as h)"
proof -
  have ok: "adpcm_ok (fst h)" "length (snd h) = 248" using assms by (simp_all add: half_ok_def)
  obtain c where c: "mic_to_adpcm_split (snd h) 248 True (fst h) = Some (packet h, c)"
    using packet_encodes [OF assms] by blast
  have d: "4 dvd (248 :: nat)" "0 < (248 :: nat)" by simp_all
  show "frame_pcm (packet h) = Some (heard_as h)"
    using decode_split_packet [OF ok(1) c d, of 0] ok(2) by (simp add: frame_pcm_def heard_as_def)
  show "length (packet h) = 128"
    using split_packet(3) [OF c d] length_pack_words [of "codes_of (snd h) (fst h)" 62] ok(2) by (simp add: split_header_def)
qed

definition notified :: "audio_event list \<Rightarrow> u8 list list" where
  "notified ys = concat (map (\<lambda>y. case y of Notify p \<Rightarrow> [p] | _ \<Rightarrow> []) ys)"

lemma notified_simps [simp]:
  "notified [] = []" "notified (Notify p # ys) = p # notified ys"
  "notified (Loop t # ys) = notified ys" "notified (Iso t # ys) = notified ys"
  by (simp_all add: notified_def)

lemma received_simps [simp]:
  "received (Notify p) = the (frame_pcm (take 128 p))" "received (Loop t) = []" "received (Iso t) = []"
  by (simp_all add: received_def)

lemma received_notified:
  "(\<And>p. p \<in> set (notified ys) \<Longrightarrow> length p = 128) \<Longrightarrow>
   concat (map received ys) = concat (map (\<lambda>p. the (frame_pcm p)) (notified ys))"
proof (induction ys)
  case (Cons y ys)
  thus ?case by (cases y) simp_all
qed simp

text \<open>
  C3. Voice from end to end. Every history of the remote runs inside its buffers. When the packets it
  notifies are the ones that reach the dongle, in order, and the dongle keeps up, then what the host
  has heard, followed by what the dongle still holds, is what the dongle held before followed by halves of the
  microphone buffer in the order of their capture, each as the encoder tracked it, sample for sample; a half is left
  out only when the remote overwrote its packet, and none is while the remote finds a free slot for each.
\<close>

theorem voice_reaches_host:
  assumes "list_all pass_ok passes"
  shows "\<exists>st fs. run_steps task_audio passes voice_boot = Some (st, fs) \<and>
    (\<forall>ys d. notified ys = fs \<and> flow_ok d \<and> flows_run ys d \<longrightarrow>
      (\<exists>halves bss d' heard. subseq halves (captured passes voice_boot) \<and>
         audio_run ys d = Some (bss, d') \<and> list_all2 packet_of heard bss \<and>
         concat heard @ pending d' = pending d @ concat (map heard_as halves) \<and>
         (in_time passes voice_boot \<longrightarrow> halves = take (length fs) (captured passes voice_boot))))"
proof -
  have boot: "voice_inv voice_boot" "waiting voice_boot = []"
    by (simp_all add: voice_boot_def voice_inv_def mic_inv_def ring4_inv_def split_init_ok waiting_def ring4_contents_def)
  obtain st fs where run: "run_steps task_audio passes voice_boot = Some (st, fs)"
    using voice.run_safe [OF boot(1) assms] by blast
  let ?caps = "captured passes voice_boot"
  note f = voice_frames [OF boot(1) assms run, unfolded boot(2) append_Nil]
  have "\<exists>halves. subseq halves ?caps \<and> fs = map packet halves \<and>
    (in_time passes voice_boot \<longrightarrow> halves = take (length fs) ?caps)"
  proof (cases "in_time passes voice_boot")
    case True
    hence "fs @ waiting st = map packet ?caps" using f by simp
    hence "fs = map packet (take (length fs) ?caps)" by (metis append_eq_conv_conj take_map)
    thus ?thesis by (intro exI [of _ "take (length fs) ?caps"]) (simp add: subseq_order.order_refl prefix_imp_subseq take_is_prefix)
  next
    case False
    have "subseq fs (map packet ?caps)" using f by (meson list_emb_prefix subseq_order.order_trans subseq_rev_drop_many subseq_order.order_refl)
    then obtain N where "fs = map packet (nths ?caps N)" by (metis nths_map subseq_conv_nths)
    thus ?thesis using False by (intro exI [of _ "nths ?caps N"]) (auto simp: subseq_conv_nths)
  qed
  then obtain halves where h: "subseq halves ?caps" "fs = map packet halves"
    "in_time passes voice_boot \<longrightarrow> halves = take (length fs) ?caps" by blast
  have ok: "half_ok x" if "x \<in> set halves" for x
    using that f h(1) set_nths_subset [of ?caps] by (auto simp: list_all_iff subseq_conv_nths)
  show ?thesis
  proof (rule exI [of _ st], rule exI [of _ fs], intro conjI run allI impI)
    fix ys d assume a: "notified ys = fs \<and> flow_ok d \<and> flows_run ys d"
    obtain bss d' heard where s: "audio_run ys d = Some (bss, d')" "list_all2 packet_of heard bss"
      "concat heard @ pending d' = pending d @ concat (map received ys)"
      using audio_stream_in_order [of d ys] a by blast
    have "length p = 128" if "p \<in> set fs" for p using that packet_decodes(1) [OF ok] by (auto simp: h(2))
    hence "concat (map received ys) = concat (map (\<lambda>p. the (frame_pcm p)) fs)"
      using received_notified [of ys] a by simp
    also have "\<dots> = concat (map heard_as halves)"
      unfolding h(2) using packet_decodes(2) [OF ok] by (simp add: comp_def cong: map_cong)
    finally show "\<exists>halves bss d' heard. subseq halves ?caps \<and> audio_run ys d = Some (bss, d') \<and> list_all2 packet_of heard bss \<and>
         concat heard @ pending d' = pending d @ concat (map heard_as halves) \<and>
         (in_time passes voice_boot \<longrightarrow> halves = take (length fs) ?caps)"
      using s h(1,3) by auto
  qed
qed

text \<open>A silent half, captured, notified, decoded by the dongle and asked for by the host.\<close>

definition demo_passes :: "voice_pass list" where
  "demo_passes = [\<lparr>pass_clock = 10000, mic_wptr = 248, buffer_mic = replicate 496 0, tx_fifo = 0, push_ok = True\<rparr>]"

definition silent_packet :: "u8 list" where
  "silent_packet = [0, 0, 1, 124, 0x90] @ replicate 123 0"

definition demo_dongle :: "audio_event list" where
  "demo_dongle = [Notify silent_packet, Loop 5, Iso 6]"

lemma silent_codes: "codes_of (replicate n 0) \<lparr>predict = 0, predict_idx = 0\<rparr> = replicate n 0"
proof (induction n)
  case (Suc n)
  have "encode_sample \<lparr>predict = 0, predict_idx = 0\<rparr> 0 = (0, \<lparr>predict = 0, predict_idx = 0\<rparr>)" by code_simp
  thus ?case using Suc by simp
qed simp

lemma pack_silence: "pack_words (replicate (4 * k) 0) = replicate k 0"
proof (induction k)
  case (Suc k)
  have "replicate (4 * Suc k) (0 :: nat) = 0 # 0 # 0 # 0 # replicate (4 * k) 0" by (simp add: numeral_eq_Suc)
  thus ?case using Suc by (simp add: pack4_def)
qed simp

lemma silent_packet: "packet (split_init, replicate 248 0) = silent_packet"
proof -
  have ok: "half_ok (split_init, replicate 248 0)" by (simp add: half_ok_def split_init_ok)
  obtain c where c: "mic_to_adpcm_split (replicate 248 0) 248 True split_init = Some (packet (split_init, replicate 248 0), c)"
    by (rule packet_encodes [OF ok, unfolded fst_conv snd_conv])
  have d: "4 dvd (248 :: nat)" "0 < (248 :: nat)" by simp_all
  have e: "encode_sample split_init 0 = (0, \<lparr>predict = 1, predict_idx = 0\<rparr>)"
    "encode_sample \<lparr>predict = 1, predict_idx = 0\<rparr> 0 = (9, \<lparr>predict = 0, predict_idx = 0\<rparr>)" by code_simp+
  have z: "encode_sample \<lparr>predict = 0, predict_idx = 0\<rparr> 0 = (0, \<lparr>predict = 0, predict_idx = 0\<rparr>)" by code_simp
  have "codes_of (replicate (Suc (Suc (Suc (Suc k)))) 0) split_init = 0 # 9 # 0 # 0 # replicate k 0" for k
    unfolding replicate_Suc codes_of.simps e z fst_conv snd_conv silent_codes by (rule refl)
  from this [of "4 * 61"] have "codes_of (replicate 248 0) split_init = 0 # 9 # 0 # 0 # replicate (4 * 61) 0"
    by (simp only: Suc_numeral num.case add_num_simps mult_num_simps numeral_times_numeral)
  moreover have "pack4 0 9 0 0 = 0x90" by code_simp
  ultimately have "pack_words (codes_of (replicate 248 0) split_init) = 0x90 # replicate 61 0"
    by (simp only: pack_words.simps pack_silence)
  moreover have "concat (map le16 (0x90 # replicate 61 0)) = 0x90 # replicate 123 0" by code_simp
  moreover have "split_header split_init = [0, 0, 1, 124]" by code_simp
  ultimately show ?thesis using split_packet(3) [OF c d] by (simp only: silent_packet_def append.simps take_all_iff length_replicate) simp
qed

lemma demo_sends: "map_option snd (run_steps task_audio demo_passes voice_boot) = Some [silent_packet]"
proof -
  have ok: "half_ok (split_init, replicate 248 0)" by (simp add: half_ok_def split_init_ok)
  obtain c where h: "mic_to_adpcm_split (replicate 248 0) 248 True split_init = Some (silent_packet, c)"
    by (rule packet_encodes [OF ok, unfolded fst_conv snd_conv silent_packet])
  have "248 \<le> length (replicate 496 (0 :: int))" "take 248 (replicate 496 (0 :: int)) = replicate 248 0" by simp_all
  hence c: "mic_to_adpcm_split (replicate 496 0) 248 True split_init = Some (silent_packet, c)"
    using split_take h by metis
  show ?thesis
    by (simp add: demo_passes_def voice_boot_def task_audio_def clock_time_exceed_def proc_mic_encoder_def Let_def c
      TL_MIC_BUFFER_SIZE_def TL_MIC_ADPCM_UNIT_SIZE_def mic_push_def mic_encoder_data_buffer_def mic_encoder_data_read_ok_def)
qed

lemma voice_reaches_host_witness:
  "\<exists>halves bss d' heard. subseq halves (captured demo_passes voice_boot) \<and>
     audio_run demo_dongle (abuf_boot 0) = Some (bss, d') \<and> list_all2 packet_of heard bss \<and>
     concat heard @ pending d' = pending (abuf_boot 0) @ concat (map heard_as halves)"
proof -
  have "list_all pass_ok demo_passes" by (simp add: demo_passes_def pass_ok_def)
  from voice_reaches_host [OF this] obtain st fs where r: "run_steps task_audio demo_passes voice_boot = Some (st, fs)"
    and v: "notified ys = fs \<and> flow_ok d \<and> flows_run ys d \<longrightarrow>
      (\<exists>halves bss d' heard. subseq halves (captured demo_passes voice_boot) \<and>
         audio_run ys d = Some (bss, d') \<and> list_all2 packet_of heard bss \<and>
         concat heard @ pending d' = pending d @ concat (map heard_as halves) \<and>
         (in_time demo_passes voice_boot \<longrightarrow> halves = take (length fs) (captured demo_passes voice_boot)))" for ys d
    by blast
  have "fs = notified demo_dongle" using demo_sends by (simp add: r demo_dongle_def)
  moreover have "flows_run demo_dongle (abuf_boot 0)" by code_simp
  ultimately show ?thesis using v [of demo_dongle "abuf_boot 0"] boot_flows by auto
qed

end
