(* ===== verification/Remote_Ui.thy ===== *)
theory Remote_Ui
  imports Led Master_Host Remote_Voice
begin

unbundle bit_operations_syntax

text \<open>
  The application of the remote control, \<open>vendor/8258_ble_remote/app_ui.c\<close> and the main loop of \<open>app.c\<close>: keys
  become notifications, a long press of the voice key opens the microphone, the LED shows what happens,
  and an idle remote disconnects and sleeps. Configuration as in \<open>app_config.h\<close>: audio, LED, battery
  check and power management on, infrared, fast key scan after deep sleep and the radio test off. The state
  composes the LED with the GPIO driver and the voice path. The scan of the keys (\<open>Keyboard\<close>), the
  state of the link and the clock are inputs of a pass; calls of the binary stack and of the register
  drivers are outputs. One pass sees one value of the clock.
\<close>

section \<open>State and outputs\<close>

definition IDLE_KEY :: u8 where "IDLE_KEY = 0"
definition CONSUMER_KEY :: u8 where "CONSUMER_KEY = 1"
definition KEYBOARD_KEY :: u8 where "KEYBOARD_KEY = 2"

definition VOICE :: u8 where "VOICE = 0xc0"
definition KEY_MODE_SWITCH :: u8 where "KEY_MODE_SWITCH = 0xc1"

definition HID_CONSUME_REPORT_INPUT_DP_H :: u16 where "HID_CONSUME_REPORT_INPUT_DP_H = 25"
definition HID_NORMAL_KB_REPORT_INPUT_DP_H :: u16 where "HID_NORMAL_KB_REPORT_INPUT_DP_H = 29"
definition AUDIO_MIC_INPUT_DP_H :: u16 where "AUDIO_MIC_INPUT_DP_H = 52"

definition GPIO_AMIC_BIAS :: u16 where "GPIO_AMIC_BIAS = 0x210"

definition vk_consumer_map :: "u16 list" where
  "vk_consumer_map =
    [0xe9, 0xea, 0xe2, 0x9c,
     0x9d, 0x30, 0x221, 0xb2,
     0xb0, 0xb1, 0xb7, 0xb3,
     0xb3, 0x223, 0x224, 0x40]"

definition led_cfgs :: "led_cfg list" where
  "led_cfgs = map (\<lambda>(on, off, n, p). \<lparr>cfg_onTime_ms = on, cfg_offTime_ms = off, cfg_repeatCount = n, cfg_priority = p\<rparr>)
    [(1000, 0, 1, 0x00),
     (100, 0, 0xff, 0x02),
     (0, 100, 0xff, 0x02),
     (500, 500, 2, 0x04),
     (250, 250, 4, 0x04),
     (250, 250, 200, 0x08)]"

definition LED_POWER_ON :: nat where "LED_POWER_ON = 0"
definition LED_AUDIO_ON :: nat where "LED_AUDIO_ON = 1"
definition LED_AUDIO_OFF :: nat where "LED_AUDIO_OFF = 2"
definition LED_SHINE_SLOW :: nat where "LED_SHINE_SLOW = 3"
definition LED_SHINE_OTA :: nat where "LED_SHINE_OTA = 5"

record remote =
  key_type :: u8
  key_not_released :: bool
  ota_is_working :: bool
  ui_mtu_size_exchange_req :: bool
  user_key_mode :: u8
  ui_mic_enable :: bool
  key_voice_press :: bool
  key_voice_pressTick :: u32
  latest_user_event_tick :: u32
  gpioWakeup_keyProc_cnt :: nat
  keyScanTick :: u32
  led_io :: led_io
  voice :: mic_enc
  device_in_connection_state :: bool
  advertise_begin_tick :: u32
  interval_update_tick :: u32
  sendTerminate_before_enterDeep :: u8

datatype remote_out =
    Att_notify u16 "u8 list"
  | Mtu_request u16
  | Mic_start
  | Mic_stop
  | Battery_detect bool
  | Store_key_mode u8
  | Ota_timeout u32
  | Conn_param_request u16 u16 u16 u16
  | Suspend_mask u8
  | Manual_latency nat
  | Adv_enable bool
  | Terminate u8
  | Deep_sleep
  | Deep_flag

datatype link_state = Link_idle | Link_adv | Link_conn

section \<open>Keys and the microphone\<close>

definition set_led :: "u32 \<Rightarrow> nat \<Rightarrow> remote \<Rightarrow> remote" where
  "set_led t i r = r\<lparr>led_io := snd (device_led_setup t (led_cfgs ! i) (led_io r))\<rparr>"

definition ui_enable_mic :: "u32 \<Rightarrow> bool \<Rightarrow> remote \<Rightarrow> remote \<times> remote_out list" where
  "ui_enable_mic t en r =
     (let r1 = r\<lparr>ui_mic_enable := en\<rparr>;
          g = gpio_write GPIO_AMIC_BIAS en (gpio_set_output_en GPIO_AMIC_BIAS en (snd (led_io r1)));
          r2 = set_led t (if en then LED_AUDIO_ON else LED_AUDIO_OFF) (r1\<lparr>led_io := (fst (led_io r1), g)\<rparr>)
      in (r2, [if en then Mic_start else Mic_stop, Battery_detect (\<not> en)]))"

definition voice_press_proc :: "u32 \<Rightarrow> link_state \<Rightarrow> remote \<Rightarrow> remote \<times> remote_out list" where
  "voice_press_proc t lk r =
     (let (r1, out) = ui_enable_mic t True (r\<lparr>key_voice_press := False\<rparr>) in
      if ui_mtu_size_exchange_req r1 \<and> lk = Link_conn
      then (r1\<lparr>ui_mtu_size_exchange_req := False\<rparr>, out @ [Mtu_request 0x9e])
      else (r1, out))"

definition app_enter_ota_mode :: "u32 \<Rightarrow> remote \<Rightarrow> remote \<times> remote_out list" where
  "app_enter_ota_mode t r = (set_led t LED_SHINE_OTA (r\<lparr>ota_is_working := True\<rparr>), [Ota_timeout 15000000])"

definition blc_checkConnParamUpdate :: "u32 \<Rightarrow> link_state \<Rightarrow> u16 \<Rightarrow> remote \<Rightarrow> remote \<times> remote_out list" where
  "blc_checkConnParamUpdate t lk interval r =
     (if interval_update_tick r \<noteq> 0 \<and> clock_time_exceed t (interval_update_tick r) 5000000 \<and> lk = Link_conn \<and> interval \<noteq> 8
      then (r\<lparr>interval_update_tick := t OR 1\<rparr>, [Conn_param_request 8 8 99 400]) else (r, []))"

definition key_report :: "u8 \<Rightarrow> u8 list" where
  "key_report k = (replicate 8 0)[2 := k]"

definition key_change_proc :: "u32 \<Rightarrow> kb_data \<Rightarrow> remote \<Rightarrow> remote \<times> remote_out list" where
  "key_change_proc t ev r =
     (let r1 = r\<lparr>latest_user_event_tick := t, key_voice_press := False, key_not_released := True\<rparr>;
          key0 = keycode ev ! 0
      in if cnt ev = 2 then (r1, [])
         else if cnt ev = 1 then
           if key0 = KEY_MODE_SWITCH then
             let m = (if user_key_mode r1 = 0 then 1 else 0)
             in (set_led t (LED_SHINE_SLOW + unat m) (r1\<lparr>user_key_mode := m\<rparr>), [Store_key_mode m])
           else if key0 = VOICE then
             if ui_mic_enable r1 then ui_enable_mic t False r1
             else (r1\<lparr>key_voice_press := True, key_voice_pressTick := t\<rparr>, [])
           else if 0xf0 \<le> key0 then
             (r1\<lparr>key_type := CONSUMER_KEY\<rparr>,
              [Att_notify HID_CONSUME_REPORT_INPUT_DP_H (le16 (vk_consumer_map ! unat (key0 AND 0x0f)))])
           else
             (r1\<lparr>key_type := KEYBOARD_KEY\<rparr>, [Att_notify HID_NORMAL_KB_REPORT_INPUT_DP_H (key_report key0)])
         else
           (r1\<lparr>key_not_released := False\<rparr>,
            if key_type r1 = CONSUMER_KEY then [Att_notify HID_CONSUME_REPORT_INPUT_DP_H (le16 0)]
            else if key_type r1 = KEYBOARD_KEY then [Att_notify HID_NORMAL_KB_REPORT_INPUT_DP_H (key_report 0)]
            else []))"

text \<open>\<open>scan\<close> is what \<open>kb_scan_key\<close> would find; it is called when the scan is due.\<close>

definition BLT_EV_FLAG_GPIO_EARLY_WAKEUP :: u8 where "BLT_EV_FLAG_GPIO_EARLY_WAKEUP = 9"
definition GPIO_WAKEUP_KEYPROC_CNT :: nat where "GPIO_WAKEUP_KEYPROC_CNT = 3"

definition proc_keyboard :: "u8 \<Rightarrow> u32 \<Rightarrow> link_state \<Rightarrow> kb_data option \<Rightarrow> remote \<Rightarrow> remote \<times> remote_out list" where
  "proc_keyboard e t lk scan r =
     (let r1 = r\<lparr>gpioWakeup_keyProc_cnt := (if e = BLT_EV_FLAG_GPIO_EARLY_WAKEUP then GPIO_WAKEUP_KEYPROC_CNT
                 else gpioWakeup_keyProc_cnt r - 1)\<rparr>
      in if gpioWakeup_keyProc_cnt r1 \<noteq> 0 \<or> clock_time_exceed t (keyScanTick r1) 8000 then
           let (r2, o2) = (case scan of None \<Rightarrow> (r1\<lparr>keyScanTick := t\<rparr>, [])
                           | Some ev \<Rightarrow> key_change_proc t ev (r1\<lparr>keyScanTick := t\<rparr>))
           in if key_voice_press r2 \<and> \<not> ui_mic_enable r2 \<and> lk = Link_conn \<and>
                 clock_time_exceed t (key_voice_pressTick r2) 1000000
              then let (r3, o3) = voice_press_proc t lk r2 in (r3, o2 @ o3)
              else (r2, o2)
         else (r1, []))"

section \<open>Connections and sleep\<close>

definition SUSPEND_ADV :: u8 where "SUSPEND_ADV = push_bit 0 1"
definition SUSPEND_CONN :: u8 where "SUSPEND_CONN = push_bit 1 1"
definition DEEPSLEEP_RETENTION_ADV :: u8 where "DEEPSLEEP_RETENTION_ADV = push_bit 2 1"
definition DEEPSLEEP_RETENTION_CONN :: u8 where "DEEPSLEEP_RETENTION_CONN = push_bit 3 1"
definition SUSPEND_DISABLE :: u8 where "SUSPEND_DISABLE = 0"
definition HCI_ERR_REMOTE_USER_TERM_CONN :: u8 where "HCI_ERR_REMOTE_USER_TERM_CONN = 0x13"
definition IDLE_ENTER_DEEP_US :: u32 where "IDLE_ENTER_DEEP_US = 60 * 1000000"

definition ble_remote_terminate :: "u32 \<Rightarrow> remote \<Rightarrow> remote \<times> remote_out list" where
  "ble_remote_terminate t r =
     (let r1 = r\<lparr>device_in_connection_state := False,
                 sendTerminate_before_enterDeep := (if sendTerminate_before_enterDeep r = 1 then 2
                   else sendTerminate_before_enterDeep r)\<rparr>;
          (r2, out) = (if ui_mic_enable r1 then ui_enable_mic t False r1 else (r1, []))
      in (r2\<lparr>advertise_begin_tick := t\<rparr>, out))"

definition task_connect :: "u32 \<Rightarrow> remote \<Rightarrow> remote \<times> remote_out list" where
  "task_connect t r =
     (r\<lparr>latest_user_event_tick := t, ui_mtu_size_exchange_req := True, device_in_connection_state := True,
        interval_update_tick := t OR 1\<rparr>, [Conn_param_request 8 8 99 400])"

text \<open>
  \<open>scan_need\<close> and \<open>same\<close> are the key scan's, \<open>ev_pending\<close> says that the controller has events. Deep
  sleep does not return.
\<close>

definition user_task :: "bool \<Rightarrow> remote \<Rightarrow> bool" where
  "user_task scan_need r \<longleftrightarrow> ota_is_working r \<or> scan_need \<or> key_not_released r \<or> repeatCount (fst (led_io r)) \<noteq> 0"

definition blt_pm_proc :: "u32 \<Rightarrow> link_state \<Rightarrow> bool \<Rightarrow> nat \<Rightarrow> bool \<Rightarrow> remote \<Rightarrow> remote \<times> remote_out list" where
  "blt_pm_proc t lk scan_need same ev_pending r =
     (if ui_mic_enable r then (r, [Suspend_mask SUSPEND_DISABLE])
      else
        let busy = user_task scan_need r;
            o1 = Suspend_mask (SUSPEND_ADV OR DEEPSLEEP_RETENTION_ADV OR SUSPEND_CONN OR DEEPSLEEP_RETENTION_CONN) #
              (if busy then [Suspend_mask (SUSPEND_ADV OR SUSPEND_CONN),
                 Manual_latency (if \<not> ota_is_working r \<and> same > 5 then 3 else 0)] else []);
            st = sendTerminate_before_enterDeep r
        in if st = 2 then (r, o1 @ [Deep_flag, Deep_sleep])
           else
             let (r1, o2) = (if st = 1 \<and> busy then (r\<lparr>sendTerminate_before_enterDeep := 0\<rparr>, o1 @ [Adv_enable True]) else (r, o1))
             in if ev_pending then (r1, o2)
                else if lk = Link_adv \<and> sendTerminate_before_enterDeep r1 = 0 \<and>
                   clock_time_exceed t (advertise_begin_tick r1) IDLE_ENTER_DEEP_US
                then (r1, o2 @ [Deep_sleep])
                else if device_in_connection_state r1 \<and> \<not> busy \<and>
                   clock_time_exceed t (latest_user_event_tick r1) IDLE_ENTER_DEEP_US
                then (r1\<lparr>sendTerminate_before_enterDeep := 1\<rparr>,
                      o2 @ [Terminate HCI_ERR_REMOTE_USER_TERM_CONN, Adv_enable False])
                else (r1, o2))"

section \<open>The main loop\<close>

record remote_env =
  env_clock :: u32
  env_link :: link_state
  env_scan :: "kb_data option"
  env_voice :: voice_pass
  env_scan_need :: bool
  env_matrix_same :: nat
  env_pending :: bool

definition ui_audio :: "remote_env \<Rightarrow> remote \<Rightarrow> (remote \<times> remote_out list) option" where
  "ui_audio e r =
     (if ui_mic_enable r
      then map_option (\<lambda>(v, ps). (r\<lparr>voice := v\<rparr>, map (Att_notify AUDIO_MIC_INPUT_DP_H) ps))
             (task_audio ((env_voice e)\<lparr>pass_clock := env_clock e\<rparr>) (voice r))
      else Some (r, []))"

definition main_loop :: "remote_env \<Rightarrow> remote \<Rightarrow> (remote \<times> remote_out list) option" where
  "main_loop e r = do {
     (r1, o1) \<leftarrow> ui_audio e r;
     let (r2, o2) = proc_keyboard 0 (env_clock e) (env_link e) (env_scan e) r1;
     let r3 = r2\<lparr>led_io := device_led_process (env_clock e) (led_io r2)\<rparr>;
     let (r4, o4) = blt_pm_proc (env_clock e) (env_link e) (env_scan_need e) (env_matrix_same e) (env_pending e) r3;
     Some (r4, o1 @ o2 @ o4)
   }"

datatype remote_event =
    Pass remote_env
  | Early_wakeup remote_env
  | Connected u32
  | Terminated u32
  | Ota_mode u32

fun remote_step :: "remote_event \<Rightarrow> remote \<Rightarrow> (remote \<times> remote_out list) option" where
  "remote_step (Pass e) r = main_loop e r"
| "remote_step (Early_wakeup e) r = Some (proc_keyboard BLT_EV_FLAG_GPIO_EARLY_WAKEUP (env_clock e) (env_link e) (env_scan e) r)"
| "remote_step (Connected t) r = Some (task_connect t r)"
| "remote_step (Terminated t) r = Some (ble_remote_terminate t r)"
| "remote_step (Ota_mode t) r = Some (app_enter_ota_mode t r)"

text \<open>Power-on: the statics are zero, \<open>app_ui_init_normal\<close> sets up the LED. \<open>g\<close> are the pins after \<open>gpio_init\<close>.\<close>

definition GPIO_LED :: u32 where "GPIO_LED = 0x240"

definition led_off :: device_led where
  "led_off = \<lparr>isOn = 0, polar = 0, repeatCount = 0, priority = 0, onTime_ms = 0, offTime_ms = 0, gpio_led = 0, startTick = 0\<rparr>"

definition remote_boot :: "u32 \<Rightarrow> gpio_st \<Rightarrow> remote" where
  "remote_boot t g = set_led t LED_POWER_ON
     \<lparr>key_type = IDLE_KEY, key_not_released = False, ota_is_working = False, ui_mtu_size_exchange_req = False,
      user_key_mode = 0, ui_mic_enable = False, key_voice_press = False, key_voice_pressTick = 0,
      latest_user_event_tick = 0, gpioWakeup_keyProc_cnt = 0, keyScanTick = 0,
      led_io = device_led_init GPIO_LED 1 (led_off, g), voice = voice_boot, device_in_connection_state = False,
      advertise_begin_tick = t, interval_update_tick = 0, sendTerminate_before_enterDeep = 0\<rparr>"

section \<open>Every history runs\<close>

lemma set_led_fields [simp]:
  "voice (set_led t i r) = voice r" "ui_mic_enable (set_led t i r) = ui_mic_enable r"
  "key_voice_press (set_led t i r) = key_voice_press r" "key_voice_pressTick (set_led t i r) = key_voice_pressTick r"
  "keyScanTick (set_led t i r) = keyScanTick r" "key_type (set_led t i r) = key_type r"
  "gpioWakeup_keyProc_cnt (set_led t i r) = gpioWakeup_keyProc_cnt r"
  "ui_mtu_size_exchange_req (set_led t i r) = ui_mtu_size_exchange_req r"
  by (simp_all add: set_led_def)

lemma enable_mic_fields [simp]:
  "voice (fst (ui_enable_mic t en r)) = voice r" "ui_mic_enable (fst (ui_enable_mic t en r)) = en"
  "key_voice_press (fst (ui_enable_mic t en r)) = key_voice_press r"
  "key_voice_pressTick (fst (ui_enable_mic t en r)) = key_voice_pressTick r"
  "keyScanTick (fst (ui_enable_mic t en r)) = keyScanTick r" "key_type (fst (ui_enable_mic t en r)) = key_type r"
  by (simp_all add: ui_enable_mic_def Let_def)

lemma voice_press_fields [simp]:
  "voice (fst (voice_press_proc t lk r)) = voice r" "ui_mic_enable (fst (voice_press_proc t lk r))"
  "\<not> key_voice_press (fst (voice_press_proc t lk r))"
  by (simp_all add: voice_press_proc_def split_beta Let_def)

lemma key_change_voice [simp]: "voice (fst (key_change_proc t ev r)) = voice r"
  by (simp add: key_change_proc_def Let_def)

lemma key_change_fields:
  "ui_mic_enable (fst (key_change_proc t ev r)) \<Longrightarrow> ui_mic_enable r"
  "key_voice_press (fst (key_change_proc t ev r)) \<Longrightarrow>
     cnt ev = 1 \<and> keycode ev ! 0 = VOICE \<and> key_voice_pressTick (fst (key_change_proc t ev r)) = t"
  by (auto simp: key_change_proc_def Let_def split: if_splits)

definition scan_due :: "u8 \<Rightarrow> u32 \<Rightarrow> remote \<Rightarrow> bool" where
  "scan_due e t r \<longleftrightarrow>
     (if e = BLT_EV_FLAG_GPIO_EARLY_WAKEUP then True else 1 < gpioWakeup_keyProc_cnt r) \<or> clock_time_exceed t (keyScanTick r) 8000"

lemma proc_keyboard_cases:
  "proc_keyboard e t lk scan r =
    (let r1 = r\<lparr>gpioWakeup_keyProc_cnt := (if e = BLT_EV_FLAG_GPIO_EARLY_WAKEUP then 3 else gpioWakeup_keyProc_cnt r - 1)\<rparr>;
         (r2, o2) = (case scan of None \<Rightarrow> (r1\<lparr>keyScanTick := t\<rparr>, []) | Some ev \<Rightarrow> key_change_proc t ev (r1\<lparr>keyScanTick := t\<rparr>))
     in if \<not> scan_due e t r then (r1, [])
        else if key_voice_press r2 \<and> \<not> ui_mic_enable r2 \<and> lk = Link_conn \<and> clock_time_exceed t (key_voice_pressTick r2) 1000000
        then (fst (voice_press_proc t lk r2), o2 @ snd (voice_press_proc t lk r2)) else (r2, o2))"
  unfolding proc_keyboard_def scan_due_def Let_def GPIO_WAKEUP_KEYPROC_CNT_def split_beta
  by (cases "e = BLT_EV_FLAG_GPIO_EARLY_WAKEUP"; cases scan; cases "1 < gpioWakeup_keyProc_cnt r"; simp)

lemma proc_keyboard_voice [simp]: "voice (fst (proc_keyboard e t lk scan r)) = voice r"
  by (auto simp: proc_keyboard_cases Let_def split_beta split: option.splits)

lemma pm_fields [simp]:
  "voice (fst (blt_pm_proc t lk sn sm p r)) = voice r" "ui_mic_enable (fst (blt_pm_proc t lk sn sm p r)) = ui_mic_enable r"
  "key_voice_press (fst (blt_pm_proc t lk sn sm p r)) = key_voice_press r"
  "key_voice_pressTick (fst (blt_pm_proc t lk sn sm p r)) = key_voice_pressTick r"
  by (simp_all add: blt_pm_proc_def Let_def)

lemma terminate_fields [simp]:
  "voice (fst (ble_remote_terminate t r)) = voice r" "\<not> ui_mic_enable (fst (ble_remote_terminate t r))"
  "key_voice_press (fst (ble_remote_terminate t r)) = key_voice_press r"
  "key_voice_pressTick (fst (ble_remote_terminate t r)) = key_voice_pressTick r"
  by (simp_all add: ble_remote_terminate_def Let_def split_beta)

definition remote_ok :: "remote \<Rightarrow> bool" where
  "remote_ok r \<longleftrightarrow> voice_inv (voice r)"

definition remote_event_ok :: "remote_event \<Rightarrow> bool" where
  "remote_event_ok x \<longleftrightarrow> (case x of Pass e \<Rightarrow> pass_ok (env_voice e) | _ \<Rightarrow> True)"

lemma ui_audio_ok:
  assumes "remote_ok r" "pass_ok (env_voice e)"
  shows "\<exists>v out. ui_audio e r = Some (r\<lparr>voice := v\<rparr>, out) \<and> voice_inv v"
proof (cases "ui_mic_enable r")
  case True
  have "pass_ok ((env_voice e)\<lparr>pass_clock := env_clock e\<rparr>)" using assms(2) by (simp add: pass_ok_def)
  then obtain v ps where "task_audio ((env_voice e)\<lparr>pass_clock := env_clock e\<rparr>) (voice r) = Some (v, ps)" "voice_inv v"
    using task_step [of "voice r"] assms(1) unfolding remote_ok_def by blast
  thus ?thesis using True by (intro exI [of _ v] exI [of _ "map (Att_notify AUDIO_MIC_INPUT_DP_H) ps"]) (simp add: ui_audio_def)
next
  case False
  have "r\<lparr>voice := voice r\<rparr> = r" by simp
  thus ?thesis using False assms(1) unfolding ui_audio_def remote_ok_def by metis
qed

lemma main_loop_run:
  assumes "ui_audio e r = Some (r1, o1)"
  obtains out where "main_loop e r = Some (fst (blt_pm_proc (env_clock e) (env_link e) (env_scan_need e) (env_matrix_same e) (env_pending e)
    ((fst (proc_keyboard 0 (env_clock e) (env_link e) (env_scan e) r1))
      \<lparr>led_io := device_led_process (env_clock e) (led_io (fst (proc_keyboard 0 (env_clock e) (env_link e) (env_scan e) r1)))\<rparr>)), out)"
  using assms by (simp add: main_loop_def Let_def split_beta)

lemma main_loop_fields:
  assumes "main_loop e r = Some (r', out)" "ui_audio e r = Some (r1, o1)"
    and "r2 = fst (proc_keyboard 0 (env_clock e) (env_link e) (env_scan e) r1)"
  shows "ui_mic_enable r' = ui_mic_enable r2" "key_voice_press r' = key_voice_press r2"
    "key_voice_pressTick r' = key_voice_pressTick r2"
proof -
  obtain o' where "main_loop e r = Some (fst (blt_pm_proc (env_clock e) (env_link e) (env_scan_need e) (env_matrix_same e) (env_pending e)
      (r2\<lparr>led_io := device_led_process (env_clock e) (led_io r2)\<rparr>)), o')"
    unfolding assms(3) by (rule main_loop_run [OF assms(2)])
  hence r': "r' = fst (blt_pm_proc (env_clock e) (env_link e) (env_scan_need e) (env_matrix_same e) (env_pending e)
      (r2\<lparr>led_io := device_led_process (env_clock e) (led_io r2)\<rparr>))" using assms(1) by simp
  show "ui_mic_enable r' = ui_mic_enable r2" "key_voice_press r' = key_voice_press r2"
    "key_voice_pressTick r' = key_voice_pressTick r2" by (simp_all add: r')
qed

lemma some_pair: "(\<exists>a. (\<exists>b. p = (a, b)) \<and> P a) \<longleftrightarrow> P (fst p)"
  by (cases p) simp

lemma remote_safe:
  assumes "remote_ok r" "remote_event_ok x"
  shows "\<exists>r' out. remote_step x r = Some (r', out) \<and> remote_ok r'"
proof (cases x)
  case (Pass e)
  then obtain v o1 where v: "ui_audio e r = Some (r\<lparr>voice := v\<rparr>, o1)" "voice_inv v"
    using ui_audio_ok [OF assms(1), of e] assms(2) by (auto simp: remote_event_ok_def)
  obtain out where "main_loop e r = Some (fst (blt_pm_proc (env_clock e) (env_link e) (env_scan_need e) (env_matrix_same e) (env_pending e)
    ((fst (proc_keyboard 0 (env_clock e) (env_link e) (env_scan e) (r\<lparr>voice := v\<rparr>)))
      \<lparr>led_io := device_led_process (env_clock e) (led_io (fst (proc_keyboard 0 (env_clock e) (env_link e) (env_scan e) (r\<lparr>voice := v\<rparr>))))\<rparr>)), out)"
    using main_loop_run [OF v(1)] by blast
  thus ?thesis using v(2) Pass by (simp add: remote_ok_def)
qed (use assms in \<open>simp_all add: remote_ok_def task_connect_def app_enter_ota_mode_def some_pair\<close>)

interpretation remote: safe_steps remote_step remote_ok remote_event_ok
  by unfold_locales (rule remote_safe)

section \<open>When the microphone opens\<close>

text \<open>The key change that a step acts on, with its time, and the last one of a history.\<close>

definition key_seen :: "remote_event \<Rightarrow> remote \<Rightarrow> (u32 \<times> kb_data) option" where
  "key_seen x r = (case x of
     Pass e \<Rightarrow> if scan_due 0 (env_clock e) r then map_option (\<lambda>ev. (env_clock e, ev)) (env_scan e) else None
   | Early_wakeup e \<Rightarrow> if scan_due BLT_EV_FLAG_GPIO_EARLY_WAKEUP (env_clock e) r
       then map_option (\<lambda>ev. (env_clock e, ev)) (env_scan e) else None
   | _ \<Rightarrow> None)"

definition newer :: "'a option \<Rightarrow> 'a option \<Rightarrow> 'a option" where
  "newer k k' = (case k' of None \<Rightarrow> k | Some _ \<Rightarrow> k')"

fun last_key :: "remote_event list \<Rightarrow> remote \<Rightarrow> (u32 \<times> kb_data) option \<Rightarrow> (u32 \<times> kb_data) option" where
  "last_key [] r k = k"
| "last_key (x # xs) r k =
     (case remote_step x r of None \<Rightarrow> None | Some (r', _) \<Rightarrow> last_key xs r' (newer k (key_seen x r)))"

definition voice_pressed :: "(u32 \<times> kb_data) option \<Rightarrow> u32 \<Rightarrow> bool" where
  "voice_pressed k t \<longleftrightarrow> (\<exists>ev. k = Some (t, ev) \<and> cnt ev = 1 \<and> keycode ev ! 0 = VOICE)"

definition press_known :: "(u32 \<times> kb_data) option \<Rightarrow> remote \<Rightarrow> bool" where
  "press_known k r \<longleftrightarrow> (key_voice_press r \<longrightarrow> voice_pressed k (key_voice_pressTick r))"

definition long_press :: "remote_env \<Rightarrow> (u32 \<times> kb_data) option \<Rightarrow> bool" where
  "long_press e k \<longleftrightarrow> env_link e = Link_conn \<and> (\<exists>t0. voice_pressed k t0 \<and> clock_time_exceed (env_clock e) t0 1000000)"

lemma keyboard_step:
  assumes "press_known k r"
    and k'_def: "k' = newer k (if scan_due c t r then map_option (\<lambda>ev. (t, ev)) scan else None)"
    and r'_def: "r' = fst (proc_keyboard c t lk scan r)"
  shows "press_known k' r'"
    "ui_mic_enable r' \<Longrightarrow> \<not> ui_mic_enable r \<Longrightarrow>
      lk = Link_conn \<and> (\<exists>t0. voice_pressed k' t0 \<and> clock_time_exceed t t0 1000000)"
proof -
  define r1 where "r1 = r\<lparr>gpioWakeup_keyProc_cnt := (if c = BLT_EV_FLAG_GPIO_EARLY_WAKEUP then 3 else gpioWakeup_keyProc_cnt r - 1)\<rparr>"
  define r2 where "r2 = fst (case scan of None \<Rightarrow> (r1\<lparr>keyScanTick := t\<rparr>, []) | Some ev \<Rightarrow> key_change_proc t ev (r1\<lparr>keyScanTick := t\<rparr>))"
  have r': "r' = (if \<not> scan_due c t r then r1
      else if key_voice_press r2 \<and> \<not> ui_mic_enable r2 \<and> lk = Link_conn \<and> clock_time_exceed t (key_voice_pressTick r2) 1000000
      then fst (voice_press_proc t lk r2) else r2)"
    unfolding r'_def proc_keyboard_cases Let_def split_beta r1_def [symmetric] r2_def by simp
  have k2: "press_known k' r2" if "scan_due c t r"
  proof (cases scan)
    case None
    thus ?thesis using assms(1) by (simp add: press_known_def r2_def r1_def k'_def newer_def)
  next
    case (Some ev)
    thus ?thesis using key_change_fields(2) [of t ev "r1\<lparr>keyScanTick := t\<rparr>"] that
      by (auto simp: press_known_def r2_def k'_def newer_def voice_pressed_def)
  qed
  have m2: "ui_mic_enable r2 \<Longrightarrow> ui_mic_enable r"
    using key_change_fields(1) [of t _ "r1\<lparr>keyScanTick := t\<rparr>"] by (cases scan) (simp_all add: r2_def r1_def)
  show "press_known k' r'"
  proof (cases "scan_due c t r")
    case True
    thus ?thesis using k2 [OF True] by (simp add: r' press_known_def)
  next
    case False
    hence "k' = k" by (simp add: k'_def newer_def)
    thus ?thesis using False assms(1) by (simp add: r' press_known_def r1_def)
  qed
  show "lk = Link_conn \<and> (\<exists>t0. voice_pressed k' t0 \<and> clock_time_exceed t t0 1000000)"
    if m: "ui_mic_enable r'" "\<not> ui_mic_enable r"
  proof -
    have "\<not> ui_mic_enable r1" "\<not> ui_mic_enable r2" using m(2) m2 by (auto simp: r1_def)
    hence d: "scan_due c t r" "key_voice_press r2" "lk = Link_conn" "clock_time_exceed t (key_voice_pressTick r2) 1000000"
      using m(1) unfolding r' by (simp_all split: if_split_asm)
    thus ?thesis using k2 [OF d(1)] unfolding press_known_def by blast
  qed
qed

lemma mic_step:
  assumes "press_known k r" "remote_step x r = Some (r', out)"
  shows "press_known (newer k (key_seen x r)) r'"
    "ui_mic_enable r' \<Longrightarrow> \<not> ui_mic_enable r \<Longrightarrow>
      \<exists>e. (x = Pass e \<or> x = Early_wakeup e) \<and> long_press e (newer k (key_seen x r))"
proof -
  have "press_known (newer k (key_seen x r)) r' \<and> (ui_mic_enable r' \<and> \<not> ui_mic_enable r \<longrightarrow>
      (\<exists>e. (x = Pass e \<or> x = Early_wakeup e) \<and> long_press e (newer k (key_seen x r))))"
  proof (cases x)
    case (Pass e)
    obtain r1 o1 where a: "ui_audio e r = Some (r1, o1)" using assms(2) Pass by (auto simp: main_loop_def split: Option.bind_split_asm)
    have "r1 = r \<or> (\<exists>w. r1 = r\<lparr>voice := w\<rparr>)" using a by (auto simp: ui_audio_def split: if_split_asm)
    hence pk: "press_known k r1" "scan_due 0 (env_clock e) r1 = scan_due 0 (env_clock e) r" "ui_mic_enable r1 = ui_mic_enable r"
      using assms(1) by (auto simp: press_known_def scan_due_def)
    define r2 where "r2 = fst (proc_keyboard 0 (env_clock e) (env_link e) (env_scan e) r1)"
    have ml: "main_loop e r = Some (r', out)" using assms(2) Pass by simp
    note f = main_loop_fields [OF ml a r2_def]
    have ks: "key_seen x r = (if scan_due 0 (env_clock e) r1 then map_option (\<lambda>ev. (env_clock e, ev)) (env_scan e) else None)"
      unfolding key_seen_def Pass pk(2) by simp
    note s = keyboard_step [OF pk(1) refl r2_def, folded ks]
    have "press_known (newer k (key_seen x r)) r'" using s(1) unfolding press_known_def f .
    moreover have "long_press e (newer k (key_seen x r))" if "ui_mic_enable r'" "\<not> ui_mic_enable r"
      using s(2) that unfolding long_press_def f pk(3) by blast
    ultimately show ?thesis using Pass by blast
  next
    case (Early_wakeup e)
    have r': "r' = fst (proc_keyboard BLT_EV_FLAG_GPIO_EARLY_WAKEUP (env_clock e) (env_link e) (env_scan e) r)"
      using assms(2) Early_wakeup by simp
    have ks: "key_seen x r = (if scan_due BLT_EV_FLAG_GPIO_EARLY_WAKEUP (env_clock e) r
        then map_option (\<lambda>ev. (env_clock e, ev)) (env_scan e) else None)" by (simp add: key_seen_def Early_wakeup)
    note s = keyboard_step [OF assms(1) refl r', folded ks]
    have "long_press e (newer k (key_seen x r))" if "ui_mic_enable r'" "\<not> ui_mic_enable r"
      using s(2) that unfolding long_press_def by blast
    thus ?thesis using s(1) Early_wakeup by blast
  next
    case (Connected t)
    thus ?thesis using assms by (auto simp: press_known_def key_seen_def newer_def task_connect_def)
  next
    case (Terminated t)
    have "r' = fst (ble_remote_terminate t r)" using assms(2) Terminated by simp
    thus ?thesis using assms(1) Terminated by (simp add: press_known_def key_seen_def newer_def)
  next
    case (Ota_mode t)
    thus ?thesis using assms by (auto simp: press_known_def key_seen_def newer_def app_enter_ota_mode_def)
  qed
  thus "press_known (newer k (key_seen x r)) r'" "ui_mic_enable r' \<Longrightarrow> \<not> ui_mic_enable r \<Longrightarrow>
      \<exists>e. (x = Pass e \<or> x = Early_wakeup e) \<and> long_press e (newer k (key_seen x r))" by blast+
qed

lemma mic_history:
  assumes "press_known k r" "run_steps remote_step xs r = Some (r', out)"
  shows "press_known (last_key xs r k) r'"
  using assms
proof (induction xs arbitrary: r k out)
  case (Cons x xs)
  obtain r1 o1 where "remote_step x r = Some (r1, o1)" using Cons.prems(2) by (auto split: Option.bind_split_asm)
  thus ?case using Cons mic_step(1) [OF Cons.prems(1)] by (auto split: Option.bind_split_asm)
qed simp

lemma last_key_snoc:
  "run_steps remote_step xs r = Some (r1, o1) \<Longrightarrow> remote_step x r1 = Some (r2, o2) \<Longrightarrow>
   last_key (xs @ [x]) r k = newer (last_key xs r k) (key_seen x r1)"
  by (induction xs arbitrary: r k o1) (auto split: Option.bind_split_asm)

text \<open>
  C2. The microphone opens only on purpose. In every history of the remote from power-on, when an
  event opens the microphone, the last change of the keys that the remote has seen was the press of the
  voice key alone, more than a second ago, and the remote is connected.
\<close>

theorem mic_opens_only_after_long_press:
  assumes "run_steps remote_step xs (remote_boot t g) = Some (r, o1)" "remote_step x r = Some (r', o2)"
    and "\<not> ui_mic_enable r" "ui_mic_enable r'"
  shows "\<exists>e t0 ev. (x = Pass e \<or> x = Early_wakeup e) \<and> env_link e = Link_conn \<and>
    last_key (xs @ [x]) (remote_boot t g) None = Some (t0, ev) \<and> cnt ev = 1 \<and> keycode ev ! 0 = VOICE \<and>
    clock_time_exceed (env_clock e) t0 1000000"
proof -
  have "press_known None (remote_boot t g)" by (simp add: press_known_def remote_boot_def)
  hence "press_known (last_key xs (remote_boot t g) None) r" using assms(1) by (rule mic_history)
  from mic_step(2) [OF this assms(2,4,3)] show ?thesis
    unfolding long_press_def voice_pressed_def last_key_snoc [OF assms(1,2)] by blast
qed

text \<open>Connected, the voice key pressed and held for a little more than a second.\<close>

definition demo_env :: "u32 \<Rightarrow> kb_data option \<Rightarrow> remote_env" where
  "demo_env t ev = \<lparr>env_clock = t, env_link = Link_conn, env_scan = ev,
     env_voice = \<lparr>pass_clock = 0, mic_wptr = 0, buffer_mic = [], tx_fifo = 0, push_ok = False\<rparr>,
     env_scan_need = True, env_matrix_same = 0, env_pending = False\<rparr>"

definition demo_pins :: gpio_st where
  "demo_pins = \<lparr>io = (\<lambda>_. 0xff), ana = (\<lambda>_. 0)\<rparr>"

definition voice_down :: kb_data where
  "voice_down = \<lparr>cnt = 1, ctrl_key = 0, keycode = [VOICE, 0, 0, 0, 0, 0]\<rparr>"

definition hold_voice :: "remote_event list" where
  "hold_voice = [Connected 100, Pass (demo_env 200000 (Some voice_down))]"

definition held_pass :: remote_event where
  "held_pass = Pass (demo_env 16300000 None)"

lemma mic_opens_only_after_long_press_witness:
  "\<exists>e t0 ev. (held_pass = Pass e \<or> held_pass = Early_wakeup e) \<and> env_link e = Link_conn \<and>
    last_key (hold_voice @ [held_pass]) (remote_boot 0 demo_pins) None = Some (t0, ev) \<and> cnt ev = 1 \<and> keycode ev ! 0 = VOICE \<and>
    clock_time_exceed (env_clock e) t0 1000000"
proof -
  have "map_option (\<lambda>(r, _). ui_mic_enable r) (run_steps remote_step hold_voice (remote_boot 0 demo_pins)) = Some False"
    "map_option (\<lambda>(r, _). ui_mic_enable r) (run_steps remote_step (hold_voice @ [held_pass]) (remote_boot 0 demo_pins)) = Some True"
    by code_simp+
  then obtain r o1 r' o2 where "run_steps remote_step hold_voice (remote_boot 0 demo_pins) = Some (r, o1)" "\<not> ui_mic_enable r"
    "remote_step held_pass r = Some (r', o2)" "ui_mic_enable r'"
    by (auto simp: run_steps_append split: Option.bind_split_asm)
  from mic_opens_only_after_long_press [OF this(1,3,2,4)] show ?thesis .
qed

section \<open>From a key of the remote to the host\<close>

text \<open>
  The packet that carries a notification, and what the host of the dongle has been sent. The dongle
  gets every notification unfragmented; the host polls the endpoints after each.
\<close>

definition att_packet :: "u16 \<Rightarrow> u8 list \<Rightarrow> u8 list" where
  "att_packet h dat = [2, of_nat (length dat + 7)] @ le16 (of_nat (length dat + 3)) @ le16 4 @ [0x1b] @ le16 h @ dat"

definition host_polls :: "'f host \<Rightarrow> 'f host" where
  "host_polls st = st\<lparr>hid := poll (hid st)\<rparr>"

fun deliver :: "'f world \<Rightarrow> u16 \<Rightarrow> u32 \<Rightarrow> remote_out list \<Rightarrow> 'f host \<Rightarrow> 'f host option" where
  "deliver w conn t [] st = Some st"
| "deliver w conn t (Att_notify h dat # os) st =
     (case host_step w (L2cap t conn (att_packet h dat)) st of
        None \<Rightarrow> None | Some (st', _) \<Rightarrow> deliver w conn t os (host_polls st'))"
| "deliver w conn t (_ # os) st = deliver w conn t os st"

type_synonym report = "u8 \<times> bytes"

definition reports :: "'f host \<Rightarrow> report list" where
  "reports st = map (\<lambda>(ep, _, bs). (ep, bs)) (sent (hid st))"

definition key_link :: "'f world \<Rightarrow> u16 \<Rightarrow> u32 \<times> kb_data \<Rightarrow> remote \<times> 'f host \<Rightarrow> ((remote \<times> 'f host) \<times> report list) option" where
  "key_link w conn = (\<lambda>(t, ev) (r, st).
     let (r1, os) = key_change_proc t ev r in
     map_option (\<lambda>st1. ((r1, st1), drop (length (reports st)) (reports st1))) (deliver w conn t os st))"

text \<open>A key pressed alone and released, and what the host should see of it.\<close>

definition tap :: "u32 \<times> u32 \<times> u8 \<Rightarrow> (u32 \<times> kb_data) list" where
  "tap = (\<lambda>(t1, t2, k). [(t1, \<lparr>cnt = 1, ctrl_key = 0, keycode = k # replicate 5 0\<rparr>),
     (t2, \<lparr>cnt = 0, ctrl_key = 0, keycode = replicate 6 0\<rparr>)])"

definition plain_key :: "u8 \<Rightarrow> bool" where
  "plain_key k \<longleftrightarrow> k \<noteq> 0 \<and> k \<noteq> VOICE \<and> k \<noteq> KEY_MODE_SWITCH \<and> \<not> (VK_EXT_START \<le> k \<and> k < VK_EXT_END)"

definition tap_reports :: "u8 \<Rightarrow> report list" where
  "tap_reports k = (if 0xf0 \<le> k
     then [(USB_EDP_MOUSE, USB_HID_KB_MEDIA # le16 (vk_consumer_map ! unat (k AND 0x0f)) @ [0, 0]),
           (USB_EDP_MOUSE, USB_HID_KB_MEDIA # replicate 4 0)]
     else [(USB_EDP_KEYBOARD_IN, [0, 0, k, 0, 0, 0, 0, 0]), (USB_EDP_KEYBOARD_IN, replicate 8 0)])"

definition link_ok :: "'f world \<Rightarrow> u16 \<Rightarrow> bool" where
  "link_ok w conn \<longleftrightarrow> (\<forall>h dat. length dat \<le> 8 \<longrightarrow> w_pack w conn (att_packet h dat) = Some (att_packet h dat))"

definition link_ready :: "'f host \<Rightarrow> bool" where
  "link_ready st \<longleftrightarrow> ep_busy (hid st) = (\<lambda>_. False) \<and> usbkb_not_released (hid st) = 0 \<and> usb_mouse_report_proto (hid st) \<noteq> 0 \<and>
     conn_char_handler st ! 3 = ucast HID_CONSUME_REPORT_INPUT_DP_H \<and>
     conn_char_handler st ! 4 = ucast HID_NORMAL_KB_REPORT_INPUT_DP_H"

definition hid_log :: "hid_st \<Rightarrow> report list" where
  "hid_log h = map (\<lambda>(ep, _, bs). (ep, bs)) (sent h)"

definition free :: "u32 \<Rightarrow> hid_st \<Rightarrow> bool" where
  "free flags h \<longleftrightarrow> ep_busy h = (\<lambda>_. False) \<and> usbkb_not_released h = flags \<and> usb_mouse_report_proto h \<noteq> 0"

lemma log_send [simp]:
  "hid_log (ep_send ep bs h) = hid_log h @ [(ep, bs)]" "usbkb_not_released (ep_send ep bs h) = usbkb_not_released h"
  "usb_mouse_report_proto (ep_send ep bs h) = usb_mouse_report_proto h"
  "hid_log (h\<lparr>last_data := d\<rparr>) = hid_log h" "hid_log (h\<lparr>usbkb_not_released := f\<rparr>) = hid_log h"
  "hid_log (h\<lparr>usbkb_data_report_time := t\<rparr>) = hid_log h" "hid_log (poll h) = hid_log h"
  by (simp_all add: hid_log_def ep_send_def poll_def)

lemma plain_separate:
  assumes "plain_key k"
  shows "usbkb_separate_key_types (k # ks) 1 VK_EXT_END = ([k], VK_EXT_END)"
    "usbkb_separate_key_types ks 0 VK_EXT_END = ([], VK_EXT_END)"
  using assms by (simp_all add: usbkb_separate_key_types_def plain_key_def)

lemma no_ext_release:
  assumes "f AND 2 = 0" "f AND 4 = 0" "usbkb_not_released h = f"
  shows "usbkb_report_sys_key VK_EXT_END h = Some h" "usbkb_report_media_key VK_EXT_END h = Some h"
  using assms by (simp_all add: usbkb_report_sys_key_def usbkb_report_media_key_def vk_codes usbkb_release_sys_key_def
    usbkb_release_media_key_def KB_SYS_RELEASE_MASK_def KB_MEDIA_RELEASE_MASK_def)

lemma key_down:
  assumes "free 0 h" "plain_key k"
  shows "\<exists>h'. usbkb_hid_report t \<lparr>cnt = 1, ctrl_key = 0, keycode = k # replicate 5 0\<rparr> h = Some h' \<and> free 1 (poll h') \<and>
    hid_log h' = hid_log h @ [(USB_EDP_KEYBOARD_IN, [0, 0, k, 0, 0, 0, 0, 0])]"
proof -
  let ?d = "\<lparr>cnt = 1, ctrl_key = 0, keycode = k # replicate 5 0\<rparr>"
  obtain d where d: "snd (usbkb_check_repeat_and_save ?d h) = h\<lparr>last_data := d\<rparr>"
    by (cases "kb_is_data_same (last_data h) ?d") (auto simp: usbkb_check_repeat_and_save_def Let_def intro: that [of "last_data h"])
  let ?h = "h\<lparr>last_data := d\<rparr>"
  have n: "usbkb_report_normal_key 0 [k, 0, 0, 0, 0, 0] 1 ?h =
      (ep_send USB_EDP_KEYBOARD_IN [0, 0, k, 0, 0, 0, 0, 0] ?h)\<lparr>usbkb_not_released := 1\<rparr>"
    using assms(1) by (simp add: usbkb_report_normal_key_def usbkb_hid_report_normal_def free_def KEYBOARD_REPORT_KEY_MAX_def
        KB_NORMAL_RELEASE_MASK_def)
  have "usbkb_hid_report t ?d h = Some ((ep_send USB_EDP_KEYBOARD_IN [0, 0, k, 0, 0, 0, 0, 0] ?h)
      \<lparr>usbkb_not_released := 1, usbkb_data_report_time := t\<rparr>)"
    using assms(1) d n no_ext_release [of 1] plain_separate(1) [OF assms(2)]
    by (simp add: usbkb_hid_report_def KB_RETURN_KEY_MAX_def KEYBOARD_REPORT_KEY_MAX_def split_beta free_def numeral_eq_Suc)
  moreover have "free 1 (poll ((ep_send USB_EDP_KEYBOARD_IN [0, 0, k, 0, 0, 0, 0, 0] ?h)
      \<lparr>usbkb_not_released := 1, usbkb_data_report_time := t\<rparr>))"
    using assms(1) by (simp add: free_def poll_def)
  ultimately show ?thesis by simp
qed

lemma key_up:
  assumes "free 1 h"
  shows "\<exists>h'. usbkb_hid_report t \<lparr>cnt = 0, ctrl_key = 0, keycode = replicate 6 0\<rparr> h = Some h' \<and> free 0 (poll h') \<and>
    hid_log h' = hid_log h @ [(USB_EDP_KEYBOARD_IN, replicate 8 0)]"
proof -
  have n: "usbkb_report_normal_key 0 (replicate 6 0) 0 h =
      (ep_send USB_EDP_KEYBOARD_IN (replicate 8 0) h)\<lparr>usbkb_not_released := 0\<rparr>"
    using assms by (simp add: usbkb_report_normal_key_def usbkb_release_normal_key_def usbkb_hid_report_normal_def free_def
        KEYBOARD_REPORT_KEY_MAX_def KB_NORMAL_RELEASE_MASK_def numeral_eq_Suc)
  have "usbkb_hid_report t \<lparr>cnt = 0, ctrl_key = 0, keycode = replicate 6 0\<rparr> h =
      Some ((ep_send USB_EDP_KEYBOARD_IN (replicate 8 0) h)\<lparr>usbkb_not_released := 0, usbkb_data_report_time := t\<rparr>)"
    using n no_ext_release [of 0]
    by (simp add: usbkb_hid_report_def usbkb_separate_key_types_def KB_RETURN_KEY_MAX_def KEYBOARD_REPORT_KEY_MAX_def)
  moreover have "free 0 (poll ((ep_send USB_EDP_KEYBOARD_IN (replicate 8 0) h)\<lparr>usbkb_not_released := 0, usbkb_data_report_time := t\<rparr>))"
    using assms by (simp add: free_def poll_def)
  ultimately show ?thesis by simp
qed

lemma media_down:
  assumes "free 0 h" "key \<noteq> 0"
  shows "\<exists>h'. usbkb_report_consumer_key t key h = Some h' \<and> free 4 (poll h') \<and>
    hid_log h' = hid_log h @ [(USB_EDP_MOUSE, USB_HID_KB_MEDIA # le16 key @ [0, 0])]"
proof -
  have "usbkb_report_consumer_key t key h = Some ((ep_send USB_EDP_MOUSE (USB_HID_KB_MEDIA # le16 key @ [0, 0]) h)
      \<lparr>usbkb_not_released := 4, usbkb_data_report_time := t\<rparr>)"
    using assms by (simp add: usbkb_report_consumer_key_def usbmouse_hid_report_def free_def MEDIA_REPORT_DATA_LEN_def
        KB_MEDIA_RELEASE_MASK_def)
  thus ?thesis using assms(1) by (simp add: free_def poll_def)
qed

lemma media_up:
  assumes "free 4 h"
  shows "\<exists>h'. usbkb_report_consumer_key t 0 h = Some h' \<and> free 0 (poll h') \<and>
    hid_log h' = hid_log h @ [(USB_EDP_MOUSE, USB_HID_KB_MEDIA # replicate 4 0)]"
proof -
  have "usbkb_report_consumer_key t 0 h = Some ((ep_send USB_EDP_MOUSE (USB_HID_KB_MEDIA # replicate 4 0) h)
      \<lparr>usbkb_not_released := 0, usbkb_data_report_time := t\<rparr>)"
    using assms by (simp add: usbkb_report_consumer_key_def usbkb_release_media_key_def usbmouse_hid_report_def free_def
        MEDIA_REPORT_DATA_LEN_def MOUSE_REPORT_DATA_LEN_def KB_MEDIA_RELEASE_MASK_def)
  thus ?thesis using assms by (simp add: free_def poll_def)
qed

lemma att_packet_parts: "notification (att_packet h dat) h" "drop 9 (att_packet h dat) = dat"
proof -
  have "u16_le (ucast (4 :: u16)) (ucast (drop_bit 8 (4 :: u16))) = 4" "u16_le (ucast h) (ucast (drop_bit 8 h)) = h"
    by (rule u16_le_split)+
  thus "notification (att_packet h dat) h" "drop 9 (att_packet h dat) = dat"
    by (simp_all add: notification_def att_packet_def u16_at_def byte_at_def le16_def)
qed

definition handles_ok :: "'f host \<Rightarrow> bool" where
  "handles_ok st \<longleftrightarrow> conn_char_handler st ! 3 = ucast HID_CONSUME_REPORT_INPUT_DP_H \<and>
     conn_char_handler st ! 4 = ucast HID_NORMAL_KB_REPORT_INPUT_DP_H"

lemma ready_free: "link_ready st \<longleftrightarrow> free 0 (hid st) \<and> handles_ok st"
  by (auto simp: link_ready_def free_def handles_ok_def)

lemma note_handles: "ucast (ucast HID_CONSUME_REPORT_INPUT_DP_H :: u8) = HID_CONSUME_REPORT_INPUT_DP_H"
  "ucast (ucast HID_NORMAL_KB_REPORT_INPUT_DP_H :: u8) = HID_NORMAL_KB_REPORT_INPUT_DP_H"
  "HID_NORMAL_KB_REPORT_INPUT_DP_H \<noteq> HID_CONSUME_REPORT_INPUT_DP_H"
  by (simp_all add: HID_CONSUME_REPORT_INPUT_DP_H_def HID_NORMAL_KB_REPORT_INPUT_DP_H_def)

lemma deliver_note:
  assumes "link_ok w conn" "length dat \<le> 8"
    and "\<And>a. \<exists>s. att_notification t h dat (st\<lparr>att := a\<rparr>) = Some s \<and> hid s = g \<and> conn_char_handler s = conn_char_handler st"
  shows "\<exists>st'. deliver w conn t [Att_notify h dat] st = Some st' \<and> hid st' = poll g \<and> conn_char_handler st' = conn_char_handler st"
proof -
  obtain a where a: "(if app_host_smp_sdp_pending st = SDP_PENDING
      then st\<lparr>att := host_att_client_handler conn (att_packet h dat) (att st)\<rparr> else st) = st\<lparr>att := a\<rparr>"
  proof (cases "app_host_smp_sdp_pending st = SDP_PENDING")
    case True
    thus ?thesis using that by simp
  next
    case False
    thus ?thesis using that [of "att st"] by simp
  qed
  have "w_pack w conn (att_packet h dat) = Some (att_packet h dat)" using assms(1,2) by (simp add: link_ok_def)
  from notification_step [OF this att_packet_parts(1), of t st]
  have "host_step w (L2cap t conn (att_packet h dat)) st = map_option (\<lambda>s. (s, [])) (att_notification t h dat (st\<lparr>att := a\<rparr>))"
    by (simp only: att_packet_parts(2) a)
  moreover obtain s where "att_notification t h dat (st\<lparr>att := a\<rparr>) = Some s" "hid s = g" "conn_char_handler s = conn_char_handler st"
    using assms(3) by blast
  ultimately show ?thesis by (simp add: host_polls_def)
qed

lemma note_keyboard:
  assumes "link_ok w conn" "handles_ok st" "k \<noteq> 0xff"
    and "usbkb_hid_report t \<lparr>cnt = if k = 0 then 0 else 1, ctrl_key = 0, keycode = k # replicate 5 0\<rparr> (hid st) = Some g"
  shows "\<exists>st'. deliver w conn t [Att_notify HID_NORMAL_KB_REPORT_INPUT_DP_H (key_report k)] st = Some st' \<and>
    hid st' = poll g \<and> conn_char_handler st' = conn_char_handler st"
proof (rule deliver_note [OF assms(1)])
  fix a
  have "kb_of_bytes (key_report k) = \<lparr>cnt = 0, ctrl_key = 0, keycode = k # replicate 5 0\<rparr>"
    by (simp add: kb_of_bytes_def key_report_def numeral_eq_Suc)
  moreover have "buf_read 0 8 (key_report k) = Some (key_report k)" by (simp add: buf_read_def key_report_def)
  ultimately show "\<exists>s. att_notification t HID_NORMAL_KB_REPORT_INPUT_DP_H (key_report k) (st\<lparr>att := a\<rparr>) = Some s \<and> hid s = g \<and>
      conn_char_handler s = conn_char_handler st"
    using assms(2-4) note_handles
    by (cases "k = 0") (simp_all add: att_notification_def handles_ok_def att_keyboard_def TELINK_UNPAIR_KEYVALUE_def Let_def)
qed (simp add: key_report_def)

lemma note_consumer:
  assumes "link_ok w conn" "handles_ok st" "usbkb_report_consumer_key t key (hid st) = Some g"
  shows "\<exists>st'. deliver w conn t [Att_notify HID_CONSUME_REPORT_INPUT_DP_H (le16 key)] st = Some st' \<and>
    hid st' = poll g \<and> conn_char_handler st' = conn_char_handler st"
proof (rule deliver_note [OF assms(1)])
  fix a
  have "u16_at (le16 key) 0 = Some key" by (simp add: u16_at_def le16_def u16_le_split)
  thus "\<exists>s. att_notification t HID_CONSUME_REPORT_INPUT_DP_H (le16 key) (st\<lparr>att := a\<rparr>) = Some s \<and> hid s = g \<and>
      conn_char_handler s = conn_char_handler st"
    using assms(2,3) note_handles by (simp add: att_notification_def handles_ok_def att_keyboard_media_def)
qed simp

lemma key_link_step:
  assumes "key_change_proc t ev r = (r1, os)" "deliver w conn t os st = Some st1" "hid st1 = poll g"
    "hid_log g = hid_log (hid st) @ xs"
  shows "key_link w conn (t, ev) (r, st) = Some ((r1, st1), xs)"
proof -
  have "hid_log (hid st1) = hid_log (hid st) @ xs" by (simp only: assms(3,4) log_send)
  thus ?thesis using assms(1,2) by (simp add: key_link_def reports_def hid_log_def)
qed

lemma consumer_codes: "vk_consumer_map ! unat (k AND 0x0f) \<noteq> 0"
proof -
  have "unat (k AND 0x0f) < 16" using unat_and_mask_mod [of k 4] by (simp add: mask_eq_exp_minus_1)
  moreover have "list_all (\<lambda>x. x \<noteq> 0) vk_consumer_map" "length vk_consumer_map = 16" by (simp_all add: vk_consumer_map_def)
  ultimately show ?thesis by (simp add: list_all_length)
qed

lemma tap_step:
  assumes w: "link_ok w conn" and st: "link_ready st" and k: "plain_key k"
  shows "\<exists>r' st'. run_steps (key_link w conn) (tap (t1, t2, k)) (r, st) = Some ((r', st'), tap_reports k) \<and> link_ready st' \<and>
    \<not> key_not_released r'"
proof -
  have f: "free 0 (hid st)" "handles_ok st" using st by (simp_all add: ready_free)
  let ?down = "\<lparr>cnt = 1, ctrl_key = 0, keycode = k # replicate 5 0\<rparr>" and ?up = "\<lparr>cnt = 0, ctrl_key = 0, keycode = replicate 6 0\<rparr>"
  have kk: "k \<noteq> 0" "k \<noteq> VOICE" "k \<noteq> KEY_MODE_SWITCH" using k by (simp_all add: plain_key_def)
  show ?thesis
  proof (cases "0xf0 \<le> k")
    case True
    let ?key = "vk_consumer_map ! unat (k AND 0x0f)"
    obtain r1 where r1: "key_change_proc t1 ?down r = (r1, [Att_notify HID_CONSUME_REPORT_INPUT_DP_H (le16 ?key)])" "key_type r1 = CONSUMER_KEY"
      using kk True by (simp add: key_change_proc_def Let_def)
    obtain r2 where r2: "key_change_proc t2 ?up r1 = (r2, [Att_notify HID_CONSUME_REPORT_INPUT_DP_H (le16 0)])" "\<not> key_not_released r2"
      using r1(2) by (simp add: key_change_proc_def Let_def)
    obtain g where g: "usbkb_report_consumer_key t1 ?key (hid st) = Some g" "free 4 (poll g)"
        "hid_log g = hid_log (hid st) @ [(USB_EDP_MOUSE, USB_HID_KB_MEDIA # le16 ?key @ [0, 0])]"
      using media_down [OF f(1) consumer_codes] by blast
    obtain s1 where s1: "deliver w conn t1 [Att_notify HID_CONSUME_REPORT_INPUT_DP_H (le16 ?key)] st = Some s1" "hid s1 = poll g"
        "conn_char_handler s1 = conn_char_handler st" using note_consumer [OF w f(2) g(1)] by blast
    have h1: "handles_ok s1" using f(2) s1(3) by (simp add: handles_ok_def)
    obtain g' where g': "usbkb_report_consumer_key t2 0 (hid s1) = Some g'" "free 0 (poll g')"
        "hid_log g' = hid_log (hid s1) @ [(USB_EDP_MOUSE, USB_HID_KB_MEDIA # replicate 4 0)]"
      using media_up [OF g(2)] s1(2) by metis
    obtain s2 where s2: "deliver w conn t2 [Att_notify HID_CONSUME_REPORT_INPUT_DP_H (le16 0)] s1 = Some s2" "hid s2 = poll g'"
        "conn_char_handler s2 = conn_char_handler s1" using note_consumer [OF w h1 g'(1)] by blast
    show ?thesis
      using key_link_step [OF r1(1) s1(1,2) g(3)] key_link_step [OF r2(1) s2(1,2) g'(3)] True g'(2) s2(2,3) h1 r2(2)
      by (simp add: tap_def tap_reports_def ready_free handles_ok_def)
  next
    case False
    have "k \<noteq> 0xff" using False by auto
    obtain r1 where r1: "key_change_proc t1 ?down r = (r1, [Att_notify HID_NORMAL_KB_REPORT_INPUT_DP_H (key_report k)])" "key_type r1 = KEYBOARD_KEY"
      using kk False by (simp add: key_change_proc_def Let_def)
    obtain r2 where r2: "key_change_proc t2 ?up r1 = (r2, [Att_notify HID_NORMAL_KB_REPORT_INPUT_DP_H (key_report 0)])" "\<not> key_not_released r2"
      using r1(2) by (simp add: key_change_proc_def Let_def CONSUMER_KEY_def KEYBOARD_KEY_def)
    obtain g where g: "usbkb_hid_report t1 ?down (hid st) = Some g" "free 1 (poll g)"
        "hid_log g = hid_log (hid st) @ [(USB_EDP_KEYBOARD_IN, [0, 0, k, 0, 0, 0, 0, 0])]"
      using key_down [OF f(1) k] by blast
    obtain s1 where s1: "deliver w conn t1 [Att_notify HID_NORMAL_KB_REPORT_INPUT_DP_H (key_report k)] st = Some s1" "hid s1 = poll g"
        "conn_char_handler s1 = conn_char_handler st"
      using note_keyboard [OF w f(2) \<open>k \<noteq> 0xff\<close>] g(1) kk(1) by auto
    have h1: "handles_ok s1" using f(2) s1(3) by (simp add: handles_ok_def)
    obtain g' where g': "usbkb_hid_report t2 ?up (hid s1) = Some g'" "free 0 (poll g')"
        "hid_log g' = hid_log (hid s1) @ [(USB_EDP_KEYBOARD_IN, replicate 8 0)]"
      using key_up [OF g(2)] s1(2) by metis
    have six: "(0 :: u8) # replicate 5 0 = replicate 6 0" by (simp add: numeral_eq_Suc)
    obtain s2 where s2: "deliver w conn t2 [Att_notify HID_NORMAL_KB_REPORT_INPUT_DP_H (key_report 0)] s1 = Some s2" "hid s2 = poll g'"
        "conn_char_handler s2 = conn_char_handler s1"
      using note_keyboard [OF w h1, of 0, unfolded six] g'(1) by auto
    show ?thesis
      using key_link_step [OF r1(1) s1(1,2) g(3)] key_link_step [OF r2(1) s2(1,2) g'(3)] False g'(2) s2(2,3) h1 r2(2)
      by (simp add: tap_def tap_reports_def ready_free handles_ok_def)
  qed
qed

text \<open>
  C1. Keys from end to end. Keys that are pressed alone on the remote, one after the other, reach the host of
  a dongle that knows the handles of the remote as one report with the key and one report of its release
  each, in order: an ordinary key as a keyboard report, a consumer key as the sixteen bit code of the map.
  After every key both sides are ready for the next one.
\<close>

theorem keys_reach_host:
  assumes "link_ok w conn" "link_ready st" "list_all (\<lambda>(_, _, k). plain_key k) taps"
  shows "\<exists>r' st'. run_steps (key_link w conn) (concat (map tap taps)) (r, st) =
      Some ((r', st'), concat (map (\<lambda>(_, _, k). tap_reports k) taps)) \<and> link_ready st'"
  using assms(2,3)
proof (induction taps arbitrary: r st)
  case (Cons x taps)
  obtain t1 t2 k where x: "x = (t1, t2, k)" by (cases x)
  have pk: "plain_key k" using Cons.prems(2) by (simp add: x)
  obtain r1 s1 where s1: "run_steps (key_link w conn) (tap x) (r, st) = Some ((r1, s1), tap_reports k)" "link_ready s1"
    using tap_step [OF assms(1) Cons.prems(1) pk, of t1 t2 r] unfolding x by blast
  obtain r2 s2 where "run_steps (key_link w conn) (concat (map tap taps)) (r1, s1) =
      Some ((r2, s2), concat (map (\<lambda>(_, _, k). tap_reports k) taps))" "link_ready s2"
    using Cons.IH [OF s1(2), of r1] Cons.prems(2) by auto
  thus ?case using s1(1) by (simp add: run_steps_append x)
qed simp

text \<open>A volume key and the digit two, over a link of demonstration.\<close>

definition demo_link :: "unit world" where
  "demo_link = demo_world\<lparr>w_pack := (\<lambda>_. Some)\<rparr>"

definition linked_host :: "unit host" where
  "linked_host = demo_host\<lparr>conn_char_handler := [0, 0, 0, 25, 29, 0], hid := (hid demo_host)\<lparr>ep_busy := (\<lambda>_. False)\<rparr>\<rparr>"

lemma keys_reach_host_witness:
  "\<exists>r' st'. run_steps (key_link demo_link 0x80) (concat (map tap [(1000, 2000, 0xf0), (3000, 4000, VK_2)])) (remote_boot 0 demo_pins, linked_host) =
      Some ((r', st'), [(USB_EDP_MOUSE, [USB_HID_KB_MEDIA, 0xe9, 0, 0, 0]), (USB_EDP_MOUSE, [USB_HID_KB_MEDIA, 0, 0, 0, 0]),
        (USB_EDP_KEYBOARD_IN, [0, 0, 0x1f, 0, 0, 0, 0, 0]), (USB_EDP_KEYBOARD_IN, replicate 8 0)])"
proof -
  have l: "link_ok demo_link 0x80" by (simp add: link_ok_def demo_link_def)
  have r: "link_ready linked_host"
    by (simp add: link_ready_def linked_host_def demo_host_def host_boot_def report_proto_init_def hid_init_def
      HID_CONSUME_REPORT_INPUT_DP_H_def HID_NORMAL_KB_REPORT_INPUT_DP_H_def)
  have p: "list_all (\<lambda>(_, _, k). plain_key k) [(1000, 2000, 0xf0), (3000, 4000, VK_2)]"
    by (simp add: plain_key_def VOICE_def KEY_MODE_SWITCH_def vk_codes)
  have t: "concat (map (\<lambda>(_, _, k). tap_reports k) [(1000, 2000, 0xf0), (3000, 4000, VK_2)]) =
      [(USB_EDP_MOUSE, [USB_HID_KB_MEDIA, 0xe9, 0, 0, 0]), (USB_EDP_MOUSE, [USB_HID_KB_MEDIA, 0, 0, 0, 0]),
        (USB_EDP_KEYBOARD_IN, [0, 0, 0x1f, 0, 0, 0, 0, 0]), (USB_EDP_KEYBOARD_IN, replicate 8 0)]"
    by code_simp
  show ?thesis using keys_reach_host [OF l r p, unfolded t] by blast
qed

section \<open>Keys pressed together\<close>

text \<open>
  The last key alone decides what is released: a consumer key that is held while an ordinary key is pressed and
  released after it is never released by the remote. Three keys at once are taken for a release.
\<close>

definition keys_down :: "u8 list \<Rightarrow> kb_data" where
  "keys_down ks = \<lparr>cnt = of_nat (length ks), ctrl_key = 0, keycode = take 6 (ks @ replicate 6 0)\<rparr>"

fun key_notes :: "kb_data list \<Rightarrow> remote \<Rightarrow> remote_out list" where
  "key_notes [] r = []"
| "key_notes (ev # evs) r = (let (r', os) = key_change_proc 0 ev r in os @ key_notes evs r')"

lemma overlapping_consumer_key_stays_down:
  "key_notes [keys_down [0xf0], keys_down [0xf0, VK_2], keys_down [VK_2], keys_down []] r =
    [Att_notify HID_CONSUME_REPORT_INPUT_DP_H [0xe9, 0],
     Att_notify HID_NORMAL_KB_REPORT_INPUT_DP_H (key_report VK_2),
     Att_notify HID_NORMAL_KB_REPORT_INPUT_DP_H (key_report 0)]"
  by (simp add: key_change_proc_def keys_down_def Let_def vk_consumer_map_def le16_def vk_codes VOICE_def KEY_MODE_SWITCH_def
    CONSUMER_KEY_def KEYBOARD_KEY_def)

lemma three_keys_read_as_release:
  "key_notes [keys_down [VK_1], keys_down [VK_1, VK_2, VK_3]] r =
    [Att_notify HID_NORMAL_KB_REPORT_INPUT_DP_H (key_report VK_1), Att_notify HID_NORMAL_KB_REPORT_INPUT_DP_H (key_report 0)] \<and>
   \<not> key_not_released (fst (key_change_proc t (keys_down [VK_1, VK_2, VK_3]) r))"
  by (simp add: key_change_proc_def keys_down_def Let_def vk_codes VOICE_def KEY_MODE_SWITCH_def CONSUMER_KEY_def KEYBOARD_KEY_def)

end
