(* ===== verification/Spec2Isabelle.thy ===== *)
theory Spec2Isabelle
  imports Fifo Adpcm Gpio Soft_Timer Util Crc_Sw Pair_Table Ota_Boot Mic_Filters Keyboard Usb_Hid Usb_Control Master_Ota Master_Audio Master_Host Printf Led Remote_Voice Remote_Ui
begin
text \<open>
  The Telink 826x/8258 Bluetooth Low Energy SDK: a verification library.

  The repository holds two SDKs, \<open>src/ble_sdk_multimode\<close> for the 8258 chip and \<open>src/ble_lt_sdk\<close>
  for the 826x family, and host tools. The link layer and the host stack come as binary libraries
  with headers; what the SDK itself programs is the firmware around them: the keyboard and the
  microphone of a remote control, the master dongle that hands their data to a PC over USB, and
  the parts they share (FIFOs, software timers, flash, CRC, strings). This library models that
  firmware. A remote scans its key matrix, compresses its microphone samples and sends both as
  notifications; the dongle keeps the bonds of its remotes in flash, turns notifications into HID
  reports, and answers the control transfers of the PC.

  Parts, theories and sources (paths under \<open>src/ble_sdk_multimode\<close> unless said otherwise):
  \<^item> \<open>Prelude\<close> and \<open>Queues\<close> hold what the components share: byte buffers with their bounds
    (\<open>buf_write\<close>, \<open>buf_read\<close>), little-endian words, word lemmas, and the locales \<open>bounded_fifo\<close>
    and \<open>overwriting_ring\<close>, the contracts of the FIFOs and of the rings. \<open>Ring4\<close> holds the rings of
    four slots that the keyboard, the USB reports and the encoder use. \<open>Runs\<close> holds histories
    of a component that reacts to events and the locale \<open>safe_steps\<close>, the contract between one
    step and a history. Every locale is interpreted on the model of the code that provides it:
    in \<open>Fifo\<close>, \<open>Keyboard\<close>, \<open>Usb_Hid\<close>, \<open>Master_Host\<close>, \<open>Remote_Voice\<close>, \<open>Remote_Ui\<close>, and \<open>nor_chip\<close> of
    \<open>Flash\<close> on a chip that executes the commands of the driver.
  \<^item> \<open>Fifo\<close>: the packet FIFO \<open>my_fifo_t\<close> of \<open>common/utility.c\<close> over its byte memory.
  \<^item> \<open>Util\<close>: the byte-order helpers of \<open>common/utility.c\<close> and \<open>common/selection_sort.c\<close>.
  \<^item> \<open>Strings_C\<close>: \<open>common/string.c\<close> over a flat memory, the overlap behaviour included.
  \<^item> \<open>Soft_Timer\<close>: \<open>vendor/common/blt_soft_timer.c\<close>, the table of timers, its sort by a
    wrapping clock, and one pass of the main loop with the callbacks as a parameter.
  \<^item> \<open>Flash\<close>: \<open>drivers/8258/flash.c\<close> as transactions with a chip that obeys its data sheet.
  \<^item> \<open>Pair_Table\<close>: the bonds of the dongle, \<open>vendor/8258_master_kma_dongle/blm_pair.c\<close>, in RAM
    and as the log of records in a flash sector.
  \<^item> \<open>Gpio\<close>: \<open>drivers/8258/gpio_8258.c\<close> and \<open>.h\<close>, the settings of a pin spread over digital and
    analog registers, and \<open>pin_view\<close>, the table of pins they stand for.
  \<^item> \<open>Button\<close>, \<open>Master_Sdp\<close>, \<open>Master_Ota\<close>, \<open>Master_Audio\<close>: \<open>button.c\<close>, the discovery client of
    \<open>blm_att.c\<close>, \<open>blm_ota.c\<close> and \<open>audio_buffer.c\<close> of \<open>vendor/8258_master_kma_dongle\<close>.
  \<^item> \<open>Master_Host\<close>: \<open>blm_host.c\<close>, the notification handlers of \<open>blm_att.c\<close> and the main loop of
    \<open>app.c\<close>; its state composes the states of the bonding table, the USB reports, the audio
    buffers, the update, the discovery and the buttons, its steps (\<open>host_step\<close>) are controller
    events, L2CAP packets, passes of the main loop and audio interrupts in any order.
  \<^item> \<open>Led\<close>: \<open>vendor/common/blt_led.c\<close>, the blinking patterns over the GPIO driver.
  \<^item> \<open>Remote_Voice\<close>: the encoder ring of \<open>tl_audio.c\<close> and the task of
    \<open>vendor/8258_ble_remote/app_ui.c\<close> that notifies its packets, joined with \<open>Master_Audio\<close>.
  \<^item> \<open>Remote_Ui\<close>: the rest of \<open>app_ui.c\<close> and \<open>app.c\<close> of \<open>vendor/8258_ble_remote\<close>: keys,
    microphone, LED, sleep and the main loop; its notifications feed the handlers of \<open>Master_Host\<close>.
  \<^item> \<open>Printf\<close>: \<open>application/print/u_printf.c\<close>, the formatter with its arguments as a list.
  \<^item> \<open>Ota_Boot\<close>: the boot loader \<open>src/ble_lt_sdk/vendor/826x_ota_boot/main.c\<close>.
  \<^item> \<open>Adpcm\<close> and \<open>Mic_Filters\<close>: the codec and the filters of \<open>vendor/common/tl_audio.c\<close> of
    \<open>src/ble_lt_sdk\<close>.
  \<^item> \<open>Crc_Sw\<close>: \<open>src/ble_lt_sdk/proj/simu/crc_sw.c\<close>.
  \<^item> \<open>Usb_Keycode\<close> and \<open>Keyboard\<close>: the key codes and the matrix driver
    \<open>application/keyboard/keyboard.c\<close>, from the sampled columns to the report.
  \<^item> \<open>Usb_Std\<close>, \<open>Usb_Desc\<close>: the constants and descriptors of \<open>application/usbstd\<close> as the bytes
    a PC reads, with a reader of configuration descriptors.
  \<^item> \<open>Usb_Hid\<close>: the reports of \<open>application/app/usbkb.c\<close> and \<open>usbmouse.c\<close>, the ring they wait
    in, and a reader of report descriptors.
  \<^item> \<open>Usb_Ep0\<close>, \<open>Usb_Audio\<close>, \<open>Usb_Control\<close>: endpoint 0, the audio class requests of
    \<open>application/app/usbaud.c\<close> and the control transfers of \<open>application/usbstd/usb.c\<close>.

  How the models are built. A C structure is a record, a static variable a field of the state
  record of its component, a function a definition on that state; a machine integer is a word of
  its width, a signed one is read with \<open>sint\<close>. An access outside an array is \<^const>\<open>None\<close>, so a
  theorem that a function returns \<^const>\<open>Some\<close> is a statement of memory safety, and the findings
  about overruns are theorems that it returns \<^const>\<open>None\<close>. The timer register is an argument.
  Loops are recursive functions whose termination is proved; no definition needs fuel. Compile-time
  switches are resolved as the configuration of the modelled product resolves them: the 8258
  master dongle for USB, the 8266 for the boot loader, the default keyboard map.

  Parameters. The flash chip, the callbacks of timers, the sampled GPIO columns of the key matrix,
  the answers of the binary stack (packet accepted, radio busy, searches over characteristics, the
  checksum of an update packet) and the host's bytes are arguments; the laws of the flash chip
  (reading returns what was programmed, programming clears bits, erasing sets them) are named
  hypotheses of the lemmas that need them, and a concrete chip in the witnesses shows that they
  can hold.

  What the lemmas show:
  \<^item> End to end: the keys pressed on the remote are the keys the PC reads (\<open>Remote_Ui\<close>), the samples
    of its microphone reach the PC as the codec decodes them, in order (\<open>Remote_Voice\<close>).
  \<^item> The remote (\<open>Remote_Ui\<close>): in every history the microphone is open only after the voice key was
    held for its time. The LED follows its pattern without drift (\<open>Led\<close>).
  \<^item> The dongle (\<open>Master_Host\<close>): in every history all accesses stay inside the buffers and a slave
    is bonded only when it was before or was invited; the unpairing key removes every bond, a
    bonded slave is answered again after a disconnection. \<open>Master_Ota\<close>: in every history the
    packets are a prefix of the complete update, an undisturbed one completes, a disturbed one
    ends as failed. \<open>Master_Audio\<close>: while the stream flows the host hears the decoded frames in
    order. \<open>Master_Sdp\<close>, \<open>Button\<close>: discovery collects the characteristics of well formed
    answers, buttons report the changes of their settled values.
  \<^item> Pins (\<open>Gpio\<close>): every operation is a point update of the table of pins, the initialisation
    sets what the configuration of the board says.
  \<^item> Output (\<open>Printf\<close>): a printed number reads back, the count is the number of characters.
  \<^item> Control transfers (\<open>Usb_Control\<close>): a descriptor transfer sends exactly the requested part,
    every round of the handler is memory safe except for two requests, settings read back as set,
    unknown requests stall.
  \<^item> Persistence (\<open>Pair_Table\<close>, \<open>Ota_Boot\<close>): the bonds survive a power cycle, every history of
    operations has its plain meaning on the list of bonds, the boot loader installs the staged image.
  \<^item> Data paths (\<open>Fifo\<close>, \<open>Keyboard\<close>, \<open>Usb_Hid\<close>): packets and key matrices arrive in order, the
    rings keep the newest entries, the scan attributes keys to their lines, every reported key is
    released in the end, reports have the length their descriptors announce.
  \<^item> Signal processing (\<open>Adpcm\<close>, \<open>Mic_Filters\<close>): the decoder tracks the encoder, the error of a
    sample is bounded, the high-pass filter removes an offset, noise suppression only attenuates.
  \<^item> Scheduling and helpers (\<open>Soft_Timer\<close>, \<open>Util\<close>, \<open>Strings_C\<close>, \<open>Crc_Sw\<close>): sorting, deadlines across
    the wrap of the clock, overlap of copies, the check value of the CRC.
  Where the code falls short of its purpose the theorem states what it does: overruns of buffers,
  a full flash sector, a skipped timer, a report that overtakes another, a stale response, a key
  without its modifiers, a discovery that drops a new slave.

  Not modelled: the link layer, host and security manager (binary libraries, only their headers
  are in the repository), the third-party code under \<open>src/tools/btstack\<close> and
  \<open>src/ble_lt_sdk/proj/simu/aes\<close>, start-up assembly and register maps, the drivers that only write
  registers (ADC, I2C, SPI, audio front end, clock), the battery check, the infrared sender, the
  start-up and the attribute tables of the remote, the other demonstration and test applications,
  the PC tools, and the older copies of the keyboard and USB files in
  \<open>src/ble_lt_sdk/proj\<close>, which repeat the modelled ones. A host and a dongle are composed with the
  USB reports but not with the control transfers, which keep a state of their own.
\<close>
end
